(* ===== verification/Mcp_Prelude.thy ===== *)
theory Mcp_Prelude
  imports Main
begin

text \<open>
  Shared vocabulary of the development: Rust's \<open>Result\<close> as a sum (\<open>Inl\<close> is \<open>Err\<close>,
  \<open>Inr\<close> is \<open>Ok\<close>), the string routines of the standard library that the server calls,
  header maps, and two interfaces that several components instantiate: a machine driven by
  events that keeps an invariant, and a store of keyed values.

  Characters are HOL's \<open>char\<close>, read as the Unicode code points U+0000 to U+00FF; the
  white space of that range is what Rust's \<open>char::is_whitespace\<close> (and the regular
  expression class \<open>\s\<close>) accepts there.
\<close>

section \<open>Results\<close>

type_synonym ('e, 'a) result = "'e + 'a"

named_theorems result_splits \<comment> \<open>case splits on fallible results\<close>

declare sum.splits [result_splits] option.splits [result_splits] if_splits [result_splits]

text \<open>The \<open>?\<close> operator of Rust.\<close>

definition try_result :: "('e, 'a) result \<Rightarrow> ('a \<Rightarrow> ('e, 'b) result) \<Rightarrow> ('e, 'b) result" where
  "try_result r k = (case r of Inl e \<Rightarrow> Inl e | Inr a \<Rightarrow> k a)"

lemma try_result_simps [simp]:
  "try_result (Inl e) k = Inl e"
  "try_result (Inr a) k = k a"
  by (simp_all add: try_result_def)

lemma try_result_Inr_iff:
  "try_result r k = Inr b \<longleftrightarrow> (\<exists>a. r = Inr a \<and> k a = Inr b)"
  by (cases r) auto

lemma try_result_Inl_iff:
  "try_result r k = Inl e \<longleftrightarrow> r = Inl e \<or> (\<exists>a. r = Inr a \<and> k a = Inl e)"
  by (cases r) auto

text \<open>\<open>map_err\<close>\<close>

definition map_error :: "('e \<Rightarrow> 'f) \<Rightarrow> ('e, 'a) result \<Rightarrow> ('f, 'a) result" where
  "map_error f r = (case r of Inl e \<Rightarrow> Inl (f e) | Inr a \<Rightarrow> Inr a)"

lemma map_error_Inr_iff: "map_error f r = Inr a \<longleftrightarrow> r = Inr a"
  by (cases r) (simp_all add: map_error_def)

text \<open>\<open>iter().map(f).collect::<Result<Vec<_>, _>>()\<close>: stops at the first error.\<close>

fun collect_results :: "('a \<Rightarrow> ('e, 'b) result) \<Rightarrow> 'a list \<Rightarrow> ('e, 'b list) result" where
  "collect_results f [] = Inr []"
| "collect_results f (x # xs) =
     try_result (f x) (\<lambda>y. try_result (collect_results f xs) (\<lambda>ys. Inr (y # ys)))"

lemma collect_results_Inr:
  "collect_results f xs = Inr ys \<longleftrightarrow> list_all2 (\<lambda>x y. f x = Inr y) xs ys"
  by (induction xs arbitrary: ys) (auto simp: try_result_Inr_iff list_all2_Cons1)

lemma collect_results_Inl:
  "collect_results f xs = Inl e \<Longrightarrow> \<exists>x \<in> set xs. f x = Inl e"
  by (induction xs) (auto simp: try_result_Inl_iff)

text \<open>\<open>filter_map\<close> of Rust's iterators.\<close>

fun filter_map :: "('a \<Rightarrow> 'b option) \<Rightarrow> 'a list \<Rightarrow> 'b list" where
  "filter_map f [] = []"
| "filter_map f (x # xs) = (case f x of None \<Rightarrow> filter_map f xs | Some y \<Rightarrow> y # filter_map f xs)"

lemma set_filter_map: "set (filter_map f xs) = {y. \<exists>x \<in> set xs. f x = Some y}"
  by (induction xs) (auto split: option.splits)

lemma filter_map_append [simp]: "filter_map f (xs @ ys) = filter_map f xs @ filter_map f ys"
  by (induction xs) (auto split: option.splits)

lemma length_filter_map: "length (filter_map f xs) \<le> length xs"
  by (induction xs) (auto split: option.splits)

lemma filter_map_cong:
  "(\<And>x. x \<in> set xs \<Longrightarrow> f x = g x) \<Longrightarrow> filter_map f xs = filter_map g xs"
  by (induction xs) (auto split: option.splits)

lemma filter_map_filter_map:
  "filter_map g (filter_map f xs) =
     filter_map (\<lambda>x. case f x of None \<Rightarrow> None | Some y \<Rightarrow> g y) xs"
  by (induction xs) (auto split: option.splits)

section \<open>Strings\<close>

definition is_white :: "char \<Rightarrow> bool" where
  "is_white c \<longleftrightarrow> (let n = of_char c :: nat in (9 \<le> n \<and> n \<le> 13) \<or> n = 32 \<or> n = 133 \<or> n = 160)"

definition str_trim :: "string \<Rightarrow> string" where
  "str_trim s = rev (dropWhile is_white (rev (dropWhile is_white s)))"

text \<open>\<open>str::split_whitespace\<close>: maximal runs of non-white characters.\<close>

fun split_white_from :: "string \<Rightarrow> string \<Rightarrow> string list" where
  "split_white_from w [] = (if w = [] then [] else [rev w])"
| "split_white_from w (c # cs) =
     (if is_white c then (if w = [] then [] else [rev w]) @ split_white_from [] cs
      else split_white_from (c # w) cs)"

definition split_white :: "string \<Rightarrow> string list" where
  "split_white s = split_white_from [] s"

text \<open>\<open>str::split\<close> on one character (keeps empty pieces) and \<open>[String]::join\<close>.\<close>

fun split_on_from :: "char \<Rightarrow> string \<Rightarrow> string \<Rightarrow> string list" where
  "split_on_from d w [] = [rev w]"
| "split_on_from d w (c # cs) =
     (if c = d then rev w # split_on_from d [] cs else split_on_from d (c # w) cs)"

definition split_on :: "char \<Rightarrow> string \<Rightarrow> string list" where
  "split_on d s = split_on_from d [] s"

fun join_with :: "string \<Rightarrow> string list \<Rightarrow> string" where
  "join_with d [] = []"
| "join_with d [s] = s"
| "join_with d (s # t # ts) = s @ d @ join_with d (t # ts)"

text \<open>\<open>str::split_once\<close>: the text before the first delimiter, and the text after it if there is one.\<close>

fun split_first :: "char \<Rightarrow> string \<Rightarrow> string \<times> string option" where
  "split_first d [] = ([], None)"
| "split_first d (c # cs) =
     (if c = d then ([], Some cs) else (case split_first d cs of (a, b) \<Rightarrow> (c # a, b)))"

definition starts_with :: "string \<Rightarrow> string \<Rightarrow> bool" where
  "starts_with p s \<longleftrightarrow> take (length p) s = p"

definition trim_char :: "char \<Rightarrow> string \<Rightarrow> string" where
  "trim_char d s = rev (dropWhile ((=) d) (rev (dropWhile ((=) d) s)))"

text \<open>ASCII case mapping (\<open>to_ascii_lowercase\<close>, \<open>to_ascii_uppercase\<close>).\<close>

definition ascii_lower_char :: "char \<Rightarrow> char" where
  "ascii_lower_char c =
     (let n = of_char c :: nat in if 65 \<le> n \<and> n \<le> 90 then char_of (n + 32) else c)"

definition ascii_upper_char :: "char \<Rightarrow> char" where
  "ascii_upper_char c =
     (let n = of_char c :: nat in if 97 \<le> n \<and> n \<le> 122 then char_of (n - 32) else c)"

definition ascii_lower :: "string \<Rightarrow> string" where
  "ascii_lower s = map ascii_lower_char s"

definition ascii_upper :: "string \<Rightarrow> string" where
  "ascii_upper s = map ascii_upper_char s"

text \<open>\<open>eq_ignore_ascii_case\<close>.\<close>

definition eq_ignore_ascii_case :: "string \<Rightarrow> string \<Rightarrow> bool" where
  "eq_ignore_ascii_case s t \<longleftrightarrow> ascii_lower s = ascii_lower t"

lemma eq_ignore_ascii_case_refl [simp]: "eq_ignore_ascii_case s s"
  by (simp add: eq_ignore_ascii_case_def)

text \<open>Lexicographic order of bytes, as Rust compares \<open>&str\<close>.\<close>

fun str_le :: "string \<Rightarrow> string \<Rightarrow> bool" where
  "str_le [] t = True"
| "str_le (c # cs) [] = False"
| "str_le (c # cs) (d # ds) =
     ((of_char c :: nat) < of_char d \<or> (c = d \<and> str_le cs ds))"

lemma str_le_refl [simp]: "str_le s s"
  by (induction s) auto

lemma str_le_trans: "str_le s t \<Longrightarrow> str_le t u \<Longrightarrow> str_le s u"
proof (induction s t arbitrary: u rule: str_le.induct)
  case (3 c cs d ds)
  then show ?case by (cases u) (auto dest: order.strict_trans)
qed (auto intro: str_le.elims)

lemma str_le_antisym: "str_le s t \<Longrightarrow> str_le t s \<Longrightarrow> s = t"
  by (induction s t rule: str_le.induct) (auto elim: str_le.elims)

lemma str_le_total: "str_le s t \<or> str_le t s"
  by (induction s t rule: str_le.induct) (auto simp: of_char_eq_iff neq_iff)

lemma split_white_from_nonempty: "[] \<notin> set (split_white_from w cs)"
  by (induction w cs rule: split_white_from.induct) auto

lemma split_white_from_no_white:
  "\<forall>c \<in> set w. \<not> is_white c \<Longrightarrow> p \<in> set (split_white_from w cs) \<Longrightarrow> c \<in> set p \<Longrightarrow> \<not> is_white c"
  by (induction w cs rule: split_white_from.induct) (auto split: if_splits)

lemma split_white_words:
  "p \<in> set (split_white s) \<Longrightarrow> p \<noteq> [] \<and> (\<forall>c \<in> set p. \<not> is_white c)"
  using split_white_from_nonempty [of "[]" s] split_white_from_no_white [of "[]" p s]
  by (auto simp: split_white_def)

lemma split_white_from_word:
  "\<forall>c \<in> set t. \<not> is_white c \<Longrightarrow> split_white_from w (t @ cs) = split_white_from (rev t @ w) cs"
  by (induction t arbitrary: w) auto

text \<open>Joining non-empty words by a space and splitting at white space is the identity.\<close>

lemma split_white_join:
  "\<forall>p \<in> set ps. p \<noteq> [] \<and> (\<forall>c \<in> set p. \<not> is_white c) \<Longrightarrow> split_white (join_with '' '' ps) = ps"
proof (induction ps rule: induct_list012)
  case 1
  then show ?case by (simp add: split_white_def)
next
  case (2 s)
  then show ?case
    using split_white_from_word [of s "[]" "[]"] by (simp add: split_white_def)
next
  case (3 s t ts)
  have sp: "is_white CHR '' ''" by (simp add: is_white_def)
  from "3.prems" have "split_white_from [] (s @ '' '' @ join_with '' '' (t # ts)) =
      split_white_from (rev s) ('' '' @ join_with '' '' (t # ts))"
    using split_white_from_word [of s "[]"] by simp
  with sp "3.prems" "3.IH" show ?case by (simp add: split_white_def)
qed

lemma split_first_absent [simp]: "d \<notin> set s \<Longrightarrow> split_first d s = (s, None)"
  by (induction s) auto

lemma split_first_at [simp]: "d \<notin> set s \<Longrightarrow> split_first d (s @ d # rest) = (s, Some rest)"
  by (induction s) auto

lemma split_first_parts: "split_first d s = (a, b) \<Longrightarrow> d \<notin> set a \<and> s = a @ (case b of None \<Rightarrow> [] | Some r \<Rightarrow> d # r)"
  by (induction s arbitrary: a) (auto split: if_splits prod.splits)

lemma split_on_from_word:
  "d \<notin> set t \<Longrightarrow> split_on_from d w (t @ cs) = split_on_from d (rev t @ w) cs"
  by (induction t arbitrary: w) auto

text \<open>Splitting what was joined by a delimiter that no part contains gives the parts.\<close>

lemma split_on_join:
  "ps \<noteq> [] \<Longrightarrow> \<forall>p \<in> set ps. d \<notin> set p \<Longrightarrow> split_on d (join_with [d] ps) = ps"
proof (induction ps rule: induct_list012)
  case (2 s)
  then show ?case using split_on_from_word [of d s "[]" "[]"] by (simp add: split_on_def)
next
  case (3 s t ts)
  then show ?case using split_on_from_word [of d s "[]"] by (simp add: split_on_def)
qed simp

lemma str_trim_words [simp]:
  assumes "\<And>c. c \<in> set s \<Longrightarrow> \<not> is_white c"
  shows "str_trim s = s"
proof -
  have "dropWhile is_white r = r" if "\<forall>c \<in> set r. \<not> is_white c" for r
    using that by (cases r) auto
  from this[of s] this[of "rev s"] assms show ?thesis by (simp add: str_trim_def)
qed

section \<open>Header maps\<close>

text \<open>
  The \<open>http\<close> crate's \<open>HeaderMap\<close>: lower-case names to the list of values under them
  (empty when absent). \<open>get\<close> reads the first value, \<open>insert\<close> replaces them all.
\<close>

type_synonym header_map = "string \<Rightarrow> string list"

definition hm_empty :: header_map where
  "hm_empty = (\<lambda>_. [])"

definition hm_get :: "header_map \<Rightarrow> string \<Rightarrow> string option" where
  "hm_get h n = (case h n of [] \<Rightarrow> None | v # _ \<Rightarrow> Some v)"

definition hm_contains :: "header_map \<Rightarrow> string \<Rightarrow> bool" where
  "hm_contains h n \<longleftrightarrow> h n \<noteq> []"

definition hm_insert :: "string \<Rightarrow> string \<Rightarrow> header_map \<Rightarrow> header_map" where
  "hm_insert n v h = h(n := [v])"

lemma hm_simps [simp]:
  "hm_get hm_empty n = None"
  "\<not> hm_contains hm_empty n"
  "hm_get (hm_insert n v h) m = (if m = n then Some v else hm_get h m)"
  "hm_contains (hm_insert n v h) m = (m = n \<or> hm_contains h m)"
  by (simp_all add: hm_empty_def hm_get_def hm_contains_def hm_insert_def)

lemma hm_contains_get: "hm_contains h n \<longleftrightarrow> hm_get h n \<noteq> None"
  by (auto simp: hm_contains_def hm_get_def split: list.splits)

section \<open>Machines and their invariants\<close>

text \<open>
  A component driven by events: a step function and a predicate every step keeps. The
  stateful components instantiate it, and their reachable states satisfy the predicate.
\<close>

locale invariant_machine =
  fixes step :: "'s \<Rightarrow> 'e \<Rightarrow> 's"
    and inv :: "'s \<Rightarrow> bool"
  assumes step_keeps: "inv s \<Longrightarrow> inv (step s e)"
begin

lemma run_keeps: "inv s \<Longrightarrow> inv (foldl step s es)"
  by (induction es arbitrary: s) (auto simp: step_keeps)

lemma run_prefix_keeps: "inv s \<Longrightarrow> inv (foldl step s (take n es))"
  by (rule run_keeps)

end

text \<open>A machine whose invariant holds initially.\<close>

locale started_machine = invariant_machine step inv
  for step :: "'s \<Rightarrow> 'e \<Rightarrow> 's" and inv :: "'s \<Rightarrow> bool" +
  fixes start :: 's
  assumes start_ok: "inv start"
begin

lemma reachable_ok: "inv (foldl step start es)"
  by (rule run_keeps [OF start_ok])

end

end
