(* ===== verification/Scope_Requirements.thy ===== *)
theory Scope_Requirements
  imports Mcp_Prelude
begin

text \<open>
  OAuth scope requirements: the per-operation requirement of
  \<open>apollo-mcp-server/src/scope_requirements.rs\<close> (an OR of AND groups that is never vacuous)
  and the global \<open>ScopeMode\<close> of \<open>auth.rs\<close>. A \<open>HashMap\<close> is an association list here:
  construction walks its entries in some order, and lookups go through \<open>map_of\<close>.
\<close>

section \<open>The per-operation requirement\<close>

datatype OperationRequiredScopes = OperationRequiredScopes (groups: "string list list")

datatype InvalidScopeRequirement = NoGroups | EmptyGroup

definition new_required_scopes ::
    "string list list \<Rightarrow> (InvalidScopeRequirement, OperationRequiredScopes) result" where
  "new_required_scopes gs =
     (if gs = [] then Inl NoGroups
      else if list_ex (\<lambda>g. g = []) gs then Inl EmptyGroup
      else Inr (OperationRequiredScopes gs))"

definition scopes_satisfied_by :: "OperationRequiredScopes \<Rightarrow> string list \<Rightarrow> bool" where
  "scopes_satisfied_by r present =
     list_ex (\<lambda>group. list_all (\<lambda>req. List.member present req) group) (groups r)"

definition challenge_scopes :: "OperationRequiredScopes \<Rightarrow> string list" where
  "challenge_scopes r = (case groups r of [] \<Rightarrow> [] | g # _ \<Rightarrow> g)"

text \<open>
  The flat form of the configuration. An empty scope list is dropped; the \<open>expect\<close> on the
  constructor is the error branch, so a panic would be an \<open>Inl\<close>.
\<close>

definition from_flat_requirements ::
    "(string \<times> string list) list \<Rightarrow>
     (InvalidScopeRequirement, (string \<times> OperationRequiredScopes) list) result" where
  "from_flat_requirements m =
     collect_results
       (\<lambda>(operation, scopes). try_result (new_required_scopes [scopes]) (\<lambda>r. Inr (operation, r)))
       (filter (\<lambda>(_, scopes). scopes \<noteq> []) m)"

text \<open>The wire form: YAML strings and sequences, decoded by the first untagged variant that fits.\<close>

datatype wire = WireString string | WireSeq "wire list" | WireOther

datatype OperationRequiredScopesDefinition = All "string list" | AnyOf "string list list"

datatype scopes_decode_error = NotScopeList | InvalidScopes InvalidScopeRequirement

fun wire_string :: "wire \<Rightarrow> (unit, string) result" where
  "wire_string (WireString s) = Inr s"
| "wire_string _ = Inl ()"

fun wire_strings :: "wire \<Rightarrow> (unit, string list) result" where
  "wire_strings (WireSeq ws) = collect_results wire_string ws"
| "wire_strings _ = Inl ()"

fun wire_string_lists :: "wire \<Rightarrow> (unit, string list list) result" where
  "wire_string_lists (WireSeq ws) = collect_results wire_strings ws"
| "wire_string_lists _ = Inl ()"

definition decode_scopes_definition ::
    "wire \<Rightarrow> (unit, OperationRequiredScopesDefinition) result" where
  "decode_scopes_definition w =
     (case wire_strings w of
        Inr ss \<Rightarrow> Inr (All ss)
      | Inl _ \<Rightarrow> try_result (wire_string_lists w) (\<lambda>gs. Inr (AnyOf gs)))"

definition deserialize_required_scopes ::
    "wire \<Rightarrow> (scopes_decode_error, OperationRequiredScopes) result" where
  "deserialize_required_scopes w =
     (case decode_scopes_definition w of
        Inl _ \<Rightarrow> Inl NotScopeList
      | Inr d \<Rightarrow>
          (let gs = (case d of All scopes \<Rightarrow> [scopes] | AnyOf alternatives \<Rightarrow> alternatives)
           in case new_required_scopes gs of Inl e \<Rightarrow> Inl (InvalidScopes e) | Inr r \<Rightarrow> Inr r))"

section \<open>The global mode\<close>

datatype ScopeMode = Disabled | RequireAll | RequireAny

fun mode_satisfied_by :: "ScopeMode \<Rightarrow> string list \<Rightarrow> string list \<Rightarrow> bool" where
  "mode_satisfied_by Disabled required present = True"
| "mode_satisfied_by RequireAll required present = list_all (\<lambda>req. List.member present req) required"
| "mode_satisfied_by RequireAny required present = list_ex (\<lambda>req. List.member present req) required"

fun scope_mode_str :: "ScopeMode \<Rightarrow> string" where
  "scope_mode_str Disabled = ''disabled''"
| "scope_mode_str RequireAll = ''require_all''"
| "scope_mode_str RequireAny = ''require_any''"

section \<open>Well-formed requirements\<close>

definition scopes_wf :: "OperationRequiredScopes \<Rightarrow> bool" where
  "scopes_wf r \<longleftrightarrow> groups r \<noteq> [] \<and> [] \<notin> set (groups r)"

lemma new_required_scopes_Inr:
  "new_required_scopes gs = Inr r \<longleftrightarrow> r = OperationRequiredScopes gs \<and> gs \<noteq> [] \<and> [] \<notin> set gs"
  by (auto simp: new_required_scopes_def list_ex_iff)

lemma new_required_scopes_wf: "new_required_scopes gs = Inr r \<Longrightarrow> scopes_wf r"
  by (auto simp: new_required_scopes_Inr scopes_wf_def)

lemma scopes_satisfied_iff:
  "scopes_satisfied_by r present \<longleftrightarrow> (\<exists>g \<in> set (groups r). set g \<subseteq> set present)"
  by (auto simp: scopes_satisfied_by_def list_ex_iff list_all_iff)

lemma scopes_satisfied_mono:
  "scopes_satisfied_by r p \<Longrightarrow> set p \<subseteq> set q \<Longrightarrow> scopes_satisfied_by r q"
  by (auto simp: scopes_satisfied_iff)

lemma mode_satisfied_mono:
  "mode_satisfied_by m req p \<Longrightarrow> set p \<subseteq> set q \<Longrightarrow> mode_satisfied_by m req q"
  by (cases m) (auto simp: list_all_iff list_ex_iff)

lemma wf_not_vacuous: "scopes_wf r \<Longrightarrow> \<not> scopes_satisfied_by r []"
  by (auto simp: scopes_wf_def scopes_satisfied_iff)

lemma wf_challenge_sufficient: "scopes_wf r \<Longrightarrow> scopes_satisfied_by r (challenge_scopes r)"
  by (cases "groups r") (auto simp: scopes_wf_def scopes_satisfied_iff challenge_scopes_def)

lemma deserialize_wf: "deserialize_required_scopes w = Inr r \<Longrightarrow> scopes_wf r"
  by (auto simp: deserialize_required_scopes_def Let_def new_required_scopes_wf
        split: sum.splits OperationRequiredScopesDefinition.splits)

lemma from_flat_no_panic: "\<exists>r. from_flat_requirements m = Inr r"
proof -
  have "from_flat_requirements m \<noteq> Inl e" for e
  proof
    assume "from_flat_requirements m = Inl e"
    then obtain op ss where "ss \<noteq> []" and "new_required_scopes [ss] = Inl e"
      by (auto simp: from_flat_requirements_def try_result_Inl_iff dest!: collect_results_Inl)
    then show False by (simp add: new_required_scopes_def)
  qed
  then show ?thesis by (cases "from_flat_requirements m") auto
qed

lemma from_flat_entries:
  "from_flat_requirements m = Inr r \<Longrightarrow>
   r = map (\<lambda>(op, ss). (op, OperationRequiredScopes [ss])) (filter (\<lambda>(_, ss). ss \<noteq> []) m)"
  unfolding from_flat_requirements_def
  by (induction m arbitrary: r)
     (auto simp: try_result_Inr_iff new_required_scopes_Inr split: if_splits)

text \<open>
  Every requirement that the configuration or the API can build demands something: a token
  without scopes never satisfies it, while the scopes its \<open>WWW-Authenticate\<close> challenge
  advertises always do. The flat form builds a requirement for exactly the operations with a
  non-empty list and never reaches its \<open>expect\<close>.
\<close>

theorem required_scopes_sound:
  "(new_required_scopes gs = Inr r \<or> deserialize_required_scopes w = Inr r \<longrightarrow>
      \<not> scopes_satisfied_by r [] \<and> scopes_satisfied_by r (challenge_scopes r)) \<and>
   (\<exists>m'. from_flat_requirements m = Inr m' \<and>
      (\<forall>op q. (op, q) \<in> set m' \<longleftrightarrow>
         (\<exists>ss. (op, ss) \<in> set m \<and> ss \<noteq> [] \<and> q = OperationRequiredScopes [ss])))"
proof (intro conjI impI)
  assume "new_required_scopes gs = Inr r \<or> deserialize_required_scopes w = Inr r"
  then have wf: "scopes_wf r" using new_required_scopes_wf deserialize_wf by blast
  show "\<not> scopes_satisfied_by r []" by (rule wf_not_vacuous [OF wf])
  show "scopes_satisfied_by r (challenge_scopes r)" by (rule wf_challenge_sufficient [OF wf])
next
  obtain m' where m': "from_flat_requirements m = Inr m'" using from_flat_no_panic by blast
  with from_flat_entries [OF m'] show "\<exists>m'. from_flat_requirements m = Inr m' \<and>
      (\<forall>op q. (op, q) \<in> set m' \<longleftrightarrow>
         (\<exists>ss. (op, ss) \<in> set m \<and> ss \<noteq> [] \<and> q = OperationRequiredScopes [ss]))"
    by auto
qed

theorem required_scopes_sound_witness:
  "\<not> scopes_satisfied_by (OperationRequiredScopes [[''user:read''], [''admin'']]) [] \<and>
   scopes_satisfied_by (OperationRequiredScopes [[''user:read''], [''admin'']]) [''user:read'']"
proof -
  let ?w = "WireSeq [WireSeq [WireString ''user:read''], WireSeq [WireString ''admin'']]"
  have "deserialize_required_scopes ?w = Inr (OperationRequiredScopes [[''user:read''], [''admin'']])"
    by (simp add: deserialize_required_scopes_def decode_scopes_definition_def
          new_required_scopes_def)
  then show ?thesis
    using required_scopes_sound [of "[]" "OperationRequiredScopes [[''user:read''], [''admin'']]" ?w]
    by (simp add: challenge_scopes_def)
qed

end
