(* ===== verification/Web_Types.thy ===== *)
theory Web_Types
  imports Mcp_Prelude
begin

text \<open>
  Data that crosses the boundary of the program: JSON values as \<open>serde_json\<close> represents
  them, the operations of the \<open>url\<close> crate that the server calls (a parameter of the model, the
  crate is not part of the repository), and HTTP methods.
\<close>

text \<open>
  A number without a fraction is its value (\<open>JNumber\<close>), any other number is its text
  (\<open>JFloat\<close>). Objects are association lists in the order of insertion.
\<close>

datatype json =
    JNull
  | JBool bool
  | JNumber int
  | JFloat string
  | JString string
  | JArray "json list"
  | JObject "(string \<times> json) list"

fun json_string :: "json \<Rightarrow> string option" where
  "json_string (JString s) = Some s"
| "json_string _ = None"

fun json_strings :: "json list \<Rightarrow> string list option" where
  "json_strings [] = Some []"
| "json_strings (v # vs) =
     (case json_string v of
        None \<Rightarrow> None
      | Some s \<Rightarrow> (case json_strings vs of None \<Rightarrow> None | Some ss \<Rightarrow> Some (s # ss)))"

lemma json_strings_map [simp]: "json_strings (map JString ss) = Some ss"
  by (induction ss) auto

text \<open>\<open>serde_json::Map::insert\<close>: replaces the value of a key in place, or appends the entry.\<close>

fun obj_insert :: "string \<Rightarrow> 'v \<Rightarrow> (string \<times> 'v) list \<Rightarrow> (string \<times> 'v) list" where
  "obj_insert k v [] = [(k, v)]"
| "obj_insert k v ((k', v') # kvs) = (if k' = k then (k, v) # kvs else (k', v') # obj_insert k v kvs)"

lemma map_of_obj_insert [simp]: "map_of (obj_insert k v kvs) = (map_of kvs)(k \<mapsto> v)"
  by (induction kvs) auto

text \<open>\<open>contains_key\<close>\<close>

definition obj_keys :: "(string \<times> 'v) list \<Rightarrow> string set" where
  "obj_keys kvs = fst ` set kvs"

lemma obj_keys_simps [simp]: "obj_keys [] = {}" "obj_keys (kv # kvs) = insert (fst kv) (obj_keys kvs)"
  by (simp_all add: obj_keys_def)

lemma in_obj_keys_iff: "k \<in> obj_keys kvs \<longleftrightarrow> list_ex (\<lambda>kv. fst kv = k) kvs"
  by (auto simp: obj_keys_def list_ex_iff)

lemma map_of_None_keys: "map_of kvs k = None \<longleftrightarrow> k \<notin> obj_keys kvs"
  by (simp add: obj_keys_def map_of_eq_None_iff)

lemma obj_insert_new: "k \<notin> obj_keys kvs \<Longrightarrow> obj_insert k v kvs = kvs @ [(k, v)]"
  by (induction kvs) auto

lemma keys_obj_insert [simp]: "obj_keys (obj_insert k v kvs) = insert k (obj_keys kvs)"
  by (induction k v kvs rule: obj_insert.induct) (simp_all add: insert_commute)

lemma distinct_obj_insert [simp]:
  "distinct (map fst kvs) \<Longrightarrow> distinct (map fst (obj_insert k v kvs))"
  by (induction k v kvs rule: obj_insert.induct)
     (auto simp flip: obj_keys_def simp: obj_keys_def[symmetric] image_set[symmetric])

text \<open>The \<open>url\<close> crate: parsing, the components read, and the component updates.\<close>

record 'u url_api =
  url_parse :: "string \<Rightarrow> 'u option"
  url_as_str :: "'u \<Rightarrow> string"
  url_scheme :: "'u \<Rightarrow> string"
  url_host_str :: "'u \<Rightarrow> string option"
  url_port :: "'u \<Rightarrow> nat option"
  url_path :: "'u \<Rightarrow> string"
  url_clear_query :: "'u \<Rightarrow> 'u"
  url_clear_fragment :: "'u \<Rightarrow> 'u"
  url_set_path :: "string \<Rightarrow> 'u \<Rightarrow> 'u"
  nat_to_str :: "nat \<Rightarrow> string"

datatype http_method = GET | POST | DELETE | OtherMethod string

text \<open>
  A concrete instance for examples: a URL is its components, \<open>parse\<close> understands
  \<open>scheme://host/path\<close> with optional \<open>?query\<close> and \<open>#fragment\<close>.
\<close>

record simple_url =
  su_scheme :: string
  su_host :: "string option"
  su_path :: string
  su_query :: "string option"
  su_fragment :: "string option"

definition simple_parse :: "string \<Rightarrow> simple_url option" where
  "simple_parse s =
     (case split_first CHR '':'' s of
        (sch, Some (CHR ''/'' # CHR ''/'' # rest)) \<Rightarrow>
          (let (nofrag, frag) = split_first CHR ''#'' rest;
               (noquery, query) = split_first CHR ''?'' nofrag;
               (host, path) = split_first CHR ''/'' noquery
           in Some \<lparr>su_scheme = sch, su_host = (if host = [] then None else Some host),
                su_path = CHR ''/'' # (case path of None \<Rightarrow> [] | Some p \<Rightarrow> p),
                su_query = query, su_fragment = frag\<rparr>)
      | _ \<Rightarrow> None)"

definition simple_api :: "simple_url url_api" where
  "simple_api =
     \<lparr>url_parse = simple_parse,
      url_as_str = (\<lambda>u. su_scheme u @ ''://'' @ (case su_host u of None \<Rightarrow> [] | Some h \<Rightarrow> h) @ su_path u),
      url_scheme = su_scheme, url_host_str = su_host, url_port = (\<lambda>_. None), url_path = su_path,
      url_clear_query = (\<lambda>u. u\<lparr>su_query := None\<rparr>),
      url_clear_fragment = (\<lambda>u. u\<lparr>su_fragment := None\<rparr>),
      url_set_path = (\<lambda>p u. u\<lparr>su_path := p\<rparr>),
      nat_to_str = (\<lambda>_. [])\<rparr>"

lemmas simple_api_simps = simple_api_def simple_parse_def

section \<open>Paths of well-known URLs\<close>

text \<open>\<open>normalized_path_segments\<close> of \<open>auth.rs\<close>, shared by both well-known URL builders.\<close>

definition normalized_path_segments :: "'u url_api \<Rightarrow> 'u \<Rightarrow> string" where
  "normalized_path_segments U url =
     join_with ''/'' (filter (\<lambda>s. s \<noteq> []) (split_on CHR ''/'' (trim_char CHR ''/'' (url_path U url))))"

end
