(* ===== verification/Jwks_Resolver.thy ===== *)
theory Jwks_Resolver
  imports Web_Types
begin

text \<open>
  The key resolver of \<open>auth/networked_key_resolver.rs\<close>: a JWKS cache per authorization
  server, refreshed through discovery, with at most one fetch per server in flight and at most
  one start per refresh interval. Instants are natural numbers; \<open>elapsed\<close> saturates as
  \<open>Instant::elapsed\<close> does. A shared in-flight future is determined by the server it fetches for,
  so the slot map is the set of servers with a fetch in flight.
\<close>

section \<open>Keys and cache entries\<close>

datatype KeyAlgorithm =
    KHS256 | KHS384 | KHS512 | KES256 | KES384 | KRS256 | KRS384 | KRS512
  | KPS256 | KPS384 | KPS512 | KEdDSA | OtherKeyAlgorithm string

record 'k jwk =
  jwk_alg :: "KeyAlgorithm option"
  decoding_key :: 'k

record 'k CachedJwks =
  cached_keys :: "string \<rightharpoonup> 'k jwk"
  cached_issuer :: string
  fetched_at :: nat
  signing_algs :: "string list"

definition is_fresh :: "nat \<Rightarrow> nat \<Rightarrow> 'k CachedJwks \<Rightarrow> bool" where
  "is_fresh now ttl c \<longleftrightarrow> now - fetched_at c < ttl"

text \<open>\<open>KeyAlgorithm::from_str\<close> is a parameter.\<close>

definition resolve_alg :: "(string \<Rightarrow> KeyAlgorithm option) \<Rightarrow> string list \<Rightarrow> KeyAlgorithm option" where
  "resolve_alg alg_from_str advertised =
     (case advertised of [single] \<Rightarrow> alg_from_str single | _ \<Rightarrow> None)"

definition cached_lookup ::
    "(string \<Rightarrow> KeyAlgorithm option) \<Rightarrow> 'k CachedJwks \<Rightarrow> string \<Rightarrow> ('k jwk \<times> string) option" where
  "cached_lookup alg_from_str c key_id =
     (case cached_keys c key_id of
        None \<Rightarrow> None
      | Some jwk \<Rightarrow>
          Some (if jwk_alg jwk = None
                then jwk\<lparr>jwk_alg := resolve_alg alg_from_str (signing_algs c)\<rparr> else jwk,
                cached_issuer c))"

section \<open>Discovery\<close>

record DiscoveryMetadata =
  md_issuer :: string
  md_jwks_uri :: string
  md_signing_algs :: "string list"

datatype DiscoveryUrlError = MissingHost

definition build_discovery_urls :: "'u url_api \<Rightarrow> 'u \<Rightarrow> (DiscoveryUrlError, 'u list) result" where
  "build_discovery_urls U issuer =
     (let normalized = url_clear_fragment U (url_clear_query U issuer);
          path = normalized_path_segments U normalized
      in case url_host_str U normalized of
           None \<Rightarrow> Inl MissingHost
         | Some host \<Rightarrow>
             (let origin = url_scheme U normalized @ ''://'' @ host;
                  origin = (case url_port U normalized of
                              None \<Rightarrow> origin
                            | Some port \<Rightarrow> origin @ '':'' @ nat_to_str U port);
                  path_suffix = (if path = [] then [] else ''/'' @ path);
                  urls = [origin @ ''/.well-known/oauth-authorization-server'' @ path_suffix,
                          origin @ ''/.well-known/openid-configuration'' @ path_suffix] @
                         (if path \<noteq> []
                          then [origin @ ''/'' @ path @ ''/.well-known/openid-configuration'']
                          else [])
              in Inr (filter_map (url_parse U) urls)))"

definition issuer_matches :: "'u url_api \<Rightarrow> 'u \<Rightarrow> string \<Rightarrow> bool" where
  "issuer_matches U server advertised_issuer =
     (case url_parse U advertised_issuer of
        None \<Rightarrow> False
      | Some advertised \<Rightarrow>
          url_clear_fragment U (url_clear_query U server) =
          url_clear_fragment U (url_clear_query U advertised))"

text \<open>
  The network: the JSON document (if any) a discovery URL answers within the timeout, and the
  key set (if any) behind a \<open>jwks_uri\<close>.
\<close>

record ('u, 'k) network =
  net_metadata :: "'u \<Rightarrow> DiscoveryMetadata option"
  net_jwks :: "string \<Rightarrow> (string \<rightharpoonup> 'k jwk) option"

fun first_metadata :: "('u \<Rightarrow> DiscoveryMetadata option) \<Rightarrow> 'u list \<Rightarrow> DiscoveryMetadata option" where
  "first_metadata get [] = None"
| "first_metadata get (url # urls) =
     (case get url of Some metadata \<Rightarrow> Some metadata | None \<Rightarrow> first_metadata get urls)"

definition discover_metadata ::
    "'u url_api \<Rightarrow> ('u, 'k) network \<Rightarrow> 'u \<Rightarrow> DiscoveryMetadata option" where
  "discover_metadata U net issuer =
     (case build_discovery_urls U issuer of
        Inl _ \<Rightarrow> None
      | Inr urls \<Rightarrow> first_metadata (net_metadata net) urls)"

section \<open>The resolver's state and operations\<close>

record ('u, 'k) resolver_state =
  jwks_cache :: "'u \<rightharpoonup> 'k CachedJwks"
  slots :: "'u set"
  last_attempt :: "'u \<rightharpoonup> nat"

record 'u resolver_config =
  rc_url :: "'u url_api"
  rc_alg_from_str :: "string \<Rightarrow> KeyAlgorithm option"
  rc_ttl :: nat
  rc_min_refresh_interval :: nat

definition empty_resolver :: "('u, 'k) resolver_state" where
  "empty_resolver = \<lparr>jwks_cache = Map.empty, slots = {}, last_attempt = Map.empty\<rparr>"

definition lookup_fresh ::
    "'u resolver_config \<Rightarrow> nat \<Rightarrow> ('u, 'k) resolver_state \<Rightarrow> 'u \<Rightarrow> string \<Rightarrow> ('k jwk \<times> string) option" where
  "lookup_fresh R now st server key_id =
     (case jwks_cache st server of
        None \<Rightarrow> None
      | Some entry \<Rightarrow>
          if \<not> is_fresh now (rc_ttl R) entry then None
          else cached_lookup (rc_alg_from_str R) entry key_id)"

definition lookup_stale ::
    "'u resolver_config \<Rightarrow> ('u, 'k) resolver_state \<Rightarrow> 'u \<Rightarrow> string \<Rightarrow> ('k jwk \<times> string) option" where
  "lookup_stale R st server key_id =
     (case jwks_cache st server of
        None \<Rightarrow> None
      | Some entry \<Rightarrow> cached_lookup (rc_alg_from_str R) entry key_id)"

datatype ('u, 'k) SlotOutcome = Resolved "'k jwk \<times> string" | Fetch 'u | RateLimited

definition acquire_inflight_slot ::
    "'u resolver_config \<Rightarrow> nat \<Rightarrow> ('u, 'k) resolver_state \<Rightarrow> 'u \<Rightarrow> string \<Rightarrow>
     ('u, 'k) SlotOutcome \<times> ('u, 'k) resolver_state" where
  "acquire_inflight_slot R now st server key_id =
     (if server \<in> slots st then (Fetch server, st)
      else case lookup_fresh R now st server key_id of
        Some result \<Rightarrow> (Resolved result, st)
      | None \<Rightarrow>
          if (case last_attempt st server of
                None \<Rightarrow> False
              | Some prev \<Rightarrow> now - prev < rc_min_refresh_interval R)
          then (RateLimited, st)
          else (Fetch server,
                st\<lparr>last_attempt := (last_attempt st)(server \<mapsto> now),
                   slots := insert server (slots st)\<rparr>))"

text \<open>The inner future of \<open>build_fetch_future\<close>: the entry to cache, if every check passes.\<close>

definition fetch_entry ::
    "'u resolver_config \<Rightarrow> ('u, 'k) network \<Rightarrow> nat \<Rightarrow> 'u \<Rightarrow> 'k CachedJwks option" where
  "fetch_entry R net now server =
     (case discover_metadata (rc_url R) net server of
        None \<Rightarrow> None
      | Some metadata \<Rightarrow>
          if \<not> issuer_matches (rc_url R) server (md_issuer metadata) then None
          else (case net_jwks net (md_jwks_uri metadata) of
                  None \<Rightarrow> None
                | Some jwks \<Rightarrow>
                    Some \<lparr>cached_keys = jwks, cached_issuer = md_issuer metadata,
                          fetched_at = now, signing_algs = md_signing_algs metadata\<rparr>))"

text \<open>The rest of that future: fill the cache, then give up the slot.\<close>

definition complete_fetch ::
    "'u resolver_config \<Rightarrow> ('u, 'k) network \<Rightarrow> nat \<Rightarrow> 'u \<Rightarrow>
     ('u, 'k) resolver_state \<Rightarrow> ('u, 'k) resolver_state" where
  "complete_fetch R net now server st =
     (let st' = (case fetch_entry R net now server of
                   None \<Rightarrow> st
                 | Some entry \<Rightarrow> st\<lparr>jwks_cache := (jwks_cache st)(server \<mapsto> entry)\<rparr>)
      in st'\<lparr>slots := slots st' - {server}\<rparr>)"

text \<open>
  One caller's \<open>resolve_key\<close> with no other caller in between: it looks up at \<open>now\<close>, and a
  fetch it awaits completes at \<open>later\<close>.
\<close>

definition resolve_key ::
    "'u resolver_config \<Rightarrow> ('u, 'k) network \<Rightarrow> nat \<Rightarrow> nat \<Rightarrow> ('u, 'k) resolver_state \<Rightarrow> 'u \<Rightarrow> string \<Rightarrow>
     ('k jwk \<times> string) option \<times> ('u, 'k) resolver_state" where
  "resolve_key R net now later st server key_id =
     (case lookup_fresh R now st server key_id of
        Some result \<Rightarrow> (Some result, st)
      | None \<Rightarrow>
          (case acquire_inflight_slot R now st server key_id of
             (Resolved result, st1) \<Rightarrow> (Some result, st1)
           | (RateLimited, st1) \<Rightarrow> (lookup_stale R st1 server key_id, st1)
           | (Fetch fetch, st1) \<Rightarrow>
               (let st2 = complete_fetch R net later fetch st1
                in (case lookup_fresh R later st2 server key_id of
                      Some result \<Rightarrow> Some result
                    | None \<Rightarrow> lookup_stale R st2 server key_id,
                    st2))))"

section \<open>Interleaved callers\<close>

text \<open>
  The state changes of any number of concurrent callers: a caller enters the slot lock at some
  instant, or the fetch of a server that holds a slot runs its tail.
\<close>

datatype ('u, 'k) resolver_event =
    Acquire nat 'u string
  | Complete nat 'u "('u, 'k) network"

fun resolver_step ::
    "'u resolver_config \<Rightarrow> ('u, 'k) resolver_state \<Rightarrow> ('u, 'k) resolver_event \<Rightarrow> ('u, 'k) resolver_state" where
  "resolver_step R st (Acquire now server key_id) = snd (acquire_inflight_slot R now st server key_id)"
| "resolver_step R st (Complete now server net) =
     (if server \<in> slots st then complete_fetch R net now server st else st)"

section \<open>Single operations\<close>

lemmas resolver_defs = lookup_fresh_def lookup_stale_def acquire_inflight_slot_def
  complete_fetch_def resolve_key_def

lemma resolver_state_defaults [simp]:
  "jwks_cache empty_resolver = Map.empty"
  "slots empty_resolver = {}"
  "last_attempt empty_resolver = Map.empty"
  by (simp_all add: empty_resolver_def)

definition rate_limited :: "'u resolver_config \<Rightarrow> nat \<Rightarrow> ('u, 'k) resolver_state \<Rightarrow> 'u \<Rightarrow> bool" where
  "rate_limited R now st server \<longleftrightarrow>
     (\<exists>prev. last_attempt st server = Some prev \<and> now - prev < rc_min_refresh_interval R)"

lemma fresh_is_stale:
  "lookup_fresh R now st server key_id = Some r \<Longrightarrow> lookup_stale R st server key_id = Some r"
  by (auto simp: resolver_defs split: option.splits if_splits)

lemma acquire_cases:
  "acquire_inflight_slot R now st server key_id =
     (if server \<in> slots st then (Fetch server, st)
      else if lookup_fresh R now st server key_id \<noteq> None
      then (Resolved (the (lookup_fresh R now st server key_id)), st)
      else if rate_limited R now st server then (RateLimited, st)
      else (Fetch server, st\<lparr>last_attempt := (last_attempt st)(server \<mapsto> now),
                             slots := insert server (slots st)\<rparr>))"
  by (auto simp: acquire_inflight_slot_def rate_limited_def split: option.splits)

lemma acquire_keeps_cache [simp]:
  "jwks_cache (snd (acquire_inflight_slot R now st server key_id)) = jwks_cache st"
  by (simp add: acquire_cases)

lemma complete_fetch_simps [simp]:
  "slots (complete_fetch R net now server st) = slots st - {server}"
  "last_attempt (complete_fetch R net now server st) = last_attempt st"
  "jwks_cache (complete_fetch R net now server st) =
     (case fetch_entry R net now server of
        None \<Rightarrow> jwks_cache st | Some e \<Rightarrow> (jwks_cache st)(server \<mapsto> e))"
  by (auto simp: complete_fetch_def Let_def split: option.splits)

lemma lookup_after_fetch:
  "(case lookup_fresh R later (complete_fetch R net later server st) server key_id of
      Some result \<Rightarrow> Some result
    | None \<Rightarrow> lookup_stale R (complete_fetch R net later server st) server key_id) =
   (case fetch_entry R net later server of
      None \<Rightarrow> lookup_stale R st server key_id
    | Some e \<Rightarrow> cached_lookup (rc_alg_from_str R) e key_id)"
  by (auto simp: lookup_fresh_def lookup_stale_def split: option.splits)

lemma lookup_stale_cong: "jwks_cache s = jwks_cache t \<Longrightarrow> lookup_stale R s = lookup_stale R t"
  by (intro ext) (simp add: lookup_stale_def)

lemma fetch_entry_issuer:
  "fetch_entry R net now server = Some e \<Longrightarrow> issuer_matches (rc_url R) server (cached_issuer e)"
  by (auto simp: fetch_entry_def split: option.splits if_splits)

section \<open>The cache holds only keys of servers that identify themselves\<close>

definition cache_bound :: "'u resolver_config \<Rightarrow> ('u, 'k) resolver_state \<Rightarrow> bool" where
  "cache_bound R st \<longleftrightarrow>
     (\<forall>server e. jwks_cache st server = Some e \<longrightarrow> issuer_matches (rc_url R) server (cached_issuer e))"

definition slots_accounted :: "('u, 'k) resolver_state \<Rightarrow> bool" where
  "slots_accounted st \<longleftrightarrow> slots st \<subseteq> dom (last_attempt st)"

lemma cache_bound_complete: "cache_bound R st \<Longrightarrow> cache_bound R (complete_fetch R net now server st)"
  by (auto simp: cache_bound_def dest: fetch_entry_issuer split: option.splits if_splits)

lemma cache_bound_acquire:
  "cache_bound R st \<Longrightarrow> cache_bound R (snd (acquire_inflight_slot R now st server key_id))"
  by (simp add: cache_bound_def)

lemma cache_bound_updates [simp]:
  "cache_bound R (st\<lparr>last_attempt := a, slots := b\<rparr>) = cache_bound R st"
  by (simp add: cache_bound_def)

interpretation resolver: started_machine "resolver_step R"
    "\<lambda>st. cache_bound R st \<and> slots_accounted st" empty_resolver
  for R :: "'u resolver_config"
proof unfold_locales
  fix s :: "('u, 'k) resolver_state" and e
  assume s: "cache_bound R s \<and> slots_accounted s"
  show "cache_bound R (resolver_step R s e) \<and> slots_accounted (resolver_step R s e)"
  proof (cases e)
    case (Acquire now server key_id)
    with s show ?thesis
      by (auto simp: cache_bound_acquire slots_accounted_def acquire_cases)
  next
    case (Complete now server net)
    with s show ?thesis by (auto simp: cache_bound_complete slots_accounted_def)
  qed
next
  show "cache_bound R empty_resolver \<and> slots_accounted empty_resolver"
    by (simp add: cache_bound_def slots_accounted_def)
qed

text \<open>
  The interface the token validator relies on (the \<open>KeyResolver\<close> trait): whatever state the
  resolver is in, the server it was asked about vouches for the key and the issuer it answers
  for a key id.
\<close>

locale key_resolver =
  fixes resolve :: "'st \<Rightarrow> 'u \<Rightarrow> string \<Rightarrow> ('k jwk \<times> string) option \<times> 'st"
    and resolver_ok :: "'st \<Rightarrow> bool"
    and vouches :: "'u \<Rightarrow> string \<Rightarrow> 'k jwk \<Rightarrow> string \<Rightarrow> bool"
  assumes resolve_keeps: "resolver_ok st \<Longrightarrow> resolver_ok (snd (resolve st server key_id))"
    and resolve_vouched:
      "resolver_ok st \<Longrightarrow> fst (resolve st server key_id) = Some (k, iss) \<Longrightarrow> vouches server key_id k iss"

text \<open>
  For the networked resolver: \<open>N server net\<close> says that a fetch for \<open>server\<close> ran over the network
  \<open>net\<close>. A cache is sourced when each entry is what such a fetch built. A server vouches for a
  key under its id when discovery of that server gave metadata whose issuer identifies it, and the
  \<open>jwks_uri\<close> of that metadata published the key under that id.
\<close>

definition sourced ::
    "'u resolver_config \<Rightarrow> ('u \<Rightarrow> ('u, 'k) network \<Rightarrow> bool) \<Rightarrow> ('u, 'k) resolver_state \<Rightarrow> bool" where
  "sourced R N st \<longleftrightarrow>
     (\<forall>server e. jwks_cache st server = Some e \<longrightarrow>
        (\<exists>net now. N server net \<and> fetch_entry R net now server = Some e))"

definition published_key ::
    "'u resolver_config \<Rightarrow> ('u, 'k) network \<Rightarrow> 'u \<Rightarrow> string \<Rightarrow> 'k jwk \<Rightarrow> string \<Rightarrow> bool" where
  "published_key R net server key_id k iss \<longleftrightarrow>
     (\<exists>metadata keys jwk. discover_metadata (rc_url R) net server = Some metadata \<and>
        iss = md_issuer metadata \<and> issuer_matches (rc_url R) server iss \<and>
        net_jwks net (md_jwks_uri metadata) = Some keys \<and> keys key_id = Some jwk \<and>
        decoding_key k = decoding_key jwk \<and>
        (case jwk_alg jwk of
           Some alg \<Rightarrow> jwk_alg k = Some alg
         | None \<Rightarrow> jwk_alg k =
             (if length (md_signing_algs metadata) = 1
              then rc_alg_from_str R (hd (md_signing_algs metadata)) else None)))"

lemma sourced_complete:
  "sourced R N st \<Longrightarrow> N server net \<Longrightarrow> sourced R N (complete_fetch R net now server st)"
  by (auto simp: sourced_def split: option.splits if_splits)

lemma sourced_updates [simp]:
  "sourced R N (st\<lparr>last_attempt := a, slots := b\<rparr>) = sourced R N st"
  by (simp add: sourced_def)

lemma sourced_acquire [simp]:
  "sourced R N (snd (acquire_inflight_slot R now st server key_id)) = sourced R N st"
  by (simp add: sourced_def)

lemma sourced_run:
  assumes "sourced R N st" and "\<forall>now server net. Complete now server net \<in> set es \<longrightarrow> N server net"
  shows "sourced R N (foldl (resolver_step R) st es)"
  using assms
proof (induction es arbitrary: st)
  case (Cons e es)
  have "sourced R N (resolver_step R st e)"
  proof (cases e)
    case (Complete now server net)
    then have "N server net" using Cons.prems(2) by simp
    with Complete Cons.prems(1) show ?thesis by (simp add: sourced_complete)
  qed (use Cons.prems(1) in simp)
  with Cons show ?case by simp
qed simp

lemma sourced_lookup:
  assumes "sourced R N st" and "lookup_stale R st server key_id = Some (k, iss)"
  shows "\<exists>net. N server net \<and> published_key R net server key_id k iss"
proof -
  from assms(2) obtain e jwk where e: "jwks_cache st server = Some e" "cached_keys e key_id = Some jwk"
    and k: "iss = cached_issuer e"
      "k = (if jwk_alg jwk = None then jwk\<lparr>jwk_alg := resolve_alg (rc_alg_from_str R) (signing_algs e)\<rparr> else jwk)"
    by (auto simp: lookup_stale_def cached_lookup_def split: option.splits)
  from assms(1) e(1) obtain net now where net: "N server net" "fetch_entry R net now server = Some e"
    unfolding sourced_def by blast
  from net(2) obtain metadata keys where m: "discover_metadata (rc_url R) net server = Some metadata"
      "issuer_matches (rc_url R) server (md_issuer metadata)" "net_jwks net (md_jwks_uri metadata) = Some keys"
    and e': "cached_keys e = keys" "cached_issuer e = md_issuer metadata" "signing_algs e = md_signing_algs metadata"
    by (auto simp: fetch_entry_def split: option.splits if_splits)
  have alg: "resolve_alg f algs = (if length algs = 1 then f (hd algs) else None)" for f algs
    by (auto simp: resolve_alg_def length_Suc_conv split: list.split)
  have "published_key R net server key_id k iss"
    unfolding published_key_def
    by (intro exI [of _ metadata] exI [of _ keys] exI [of _ jwk])
       (use m e' e(2) k alg in \<open>auto split: option.split\<close>)
  with net(1) show ?thesis by blast
qed

lemma resolve_key_sourced:
  "sourced R N st \<Longrightarrow> N server net \<Longrightarrow> sourced R N (snd (resolve_key R net now later st server key_id))"
  by (auto simp: resolve_key_def Let_def acquire_cases intro!: sourced_complete
        split: option.splits)

lemma resolve_key_published:
  assumes "sourced R N st" and "N server net"
    and res: "fst (resolve_key R net now later st server key_id) = Some (k, iss)"
  shows "\<exists>net. N server net \<and> published_key R net server key_id k iss"
proof -
  let ?st' = "snd (resolve_key R net now later st server key_id)"
  have "lookup_stale R ?st' server key_id = Some (k, iss)"
    using res
    by (auto simp: resolve_key_def Let_def acquire_cases dest: fresh_is_stale
          split: option.splits prod.splits SlotOutcome.splits if_splits)
  with sourced_lookup [OF resolve_key_sourced [OF assms(1,2)]] show ?thesis by blast
qed

interpretation networked: key_resolver "resolve_key R net now later"
    "sourced R (\<lambda>server n. n = net \<or> N server n)"
    "\<lambda>server key_id k iss. \<exists>n. (n = net \<or> N server n) \<and> published_key R n server key_id k iss"
  for R net now later N
  by unfold_locales
     (auto intro: resolve_key_sourced resolve_key_published [where N = "\<lambda>server n. n = net \<or> N server n"])

text \<open>The networks over which the fetches for a server have run, in a run of the resolver.\<close>

definition fetched_over :: "('u, 'k) resolver_event list \<Rightarrow> 'u \<Rightarrow> ('u, 'k) network \<Rightarrow> bool" where
  "fetched_over es server net \<longleftrightarrow> (\<exists>now. Complete now server net \<in> set es)"

lemma reachable_sourced:
  "sourced R (\<lambda>server n. n = net \<or> fetched_over es server n) (foldl (resolver_step R) empty_resolver es)"
  by (rule sourced_run) (auto simp: sourced_def fetched_over_def)

section \<open>Properties\<close>

text \<open>
  C18: in every state that interleaved callers and fetches can reach, each cached key set was
  accepted with an issuer that identifies the server it is cached under, and every fetch in
  flight has consumed its server's refresh window.
\<close>

theorem reachable_cache_bound:
  fixes es :: "('u, 'k) resolver_event list"
  shows "cache_bound R (foldl (resolver_step R) empty_resolver es) \<and>
         slots (foldl (resolver_step R) empty_resolver es)
            \<subseteq> dom (last_attempt (foldl (resolver_step R) empty_resolver es))"
  using resolver.reachable_ok [of R es] by (simp add: slots_accounted_def)


text \<open>The fetches a run starts: an acquisition that leaves with a slot that was free.\<close>

fun event_time :: "('u, 'k) resolver_event \<Rightarrow> nat" where
  "event_time (Acquire now _ _) = now"
| "event_time (Complete now _ _) = now"

definition starts_fetch ::
    "'u resolver_config \<Rightarrow> ('u, 'k) resolver_state \<Rightarrow> ('u, 'k) resolver_event \<Rightarrow> (nat \<times> 'u) list" where
  "starts_fetch R st e =
     (case e of
        Acquire now server key_id \<Rightarrow>
          if server \<notin> slots st \<and> server \<in> slots (resolver_step R st e) then [(now, server)] else []
      | Complete _ _ _ \<Rightarrow> [])"

fun fetch_starts ::
    "'u resolver_config \<Rightarrow> ('u, 'k) resolver_state \<Rightarrow> ('u, 'k) resolver_event list \<Rightarrow> (nat \<times> 'u) list" where
  "fetch_starts R st [] = []"
| "fetch_starts R st (e # es) = starts_fetch R st e @ fetch_starts R (resolver_step R st e) es"

lemma starts_fetch_cases:
  assumes "starts_fetch R st e \<noteq> []"
  obtains now server key_id where "e = Acquire now server key_id"
    and "starts_fetch R st e = [(now, server)]" and "\<not> rate_limited R now st server"
    and "last_attempt (resolver_step R st e) = (last_attempt st)(server \<mapsto> now)"
  using assms by (cases e) (auto simp: starts_fetch_def acquire_cases split: if_splits)

lemma starts_fetch_none:
  assumes "starts_fetch R st e = []"
  shows "last_attempt (resolver_step R st e) = last_attempt st"
  using assms by (cases e) (auto simp: starts_fetch_def acquire_cases split: if_splits)

lemma starts_spaced_after:
  assumes "last_attempt st server = Some t0"
    and "\<forall>e \<in> set es. t0 \<le> event_time e" and "sorted (map event_time es)"
    and "(t, server) \<in> set (fetch_starts R st es)"
  shows "t0 + rc_min_refresh_interval R \<le> t"
  using assms
proof (induction es arbitrary: st t0)
  case Nil
  then show ?case by simp
next
  case (Cons e es)
  let ?st = "resolver_step R st e"
  show ?case
  proof (cases "starts_fetch R st e = []")
    case True
    with Cons.prems show ?thesis
      by (intro Cons.IH [of ?st t0]) (auto simp: starts_fetch_none)
  next
    case False
    then obtain now s k where e: "e = Acquire now s k" "starts_fetch R st e = [(now, s)]"
        "\<not> rate_limited R now st s" "last_attempt ?st = (last_attempt st)(s \<mapsto> now)"
      by (rule starts_fetch_cases)
    show ?thesis
    proof (cases "s = server")
      case True
      with e Cons.prems have now: "t0 + rc_min_refresh_interval R \<le> now"
        by (auto simp: rate_limited_def)
      from Cons.prems(4) e(2) True consider "t = now" | "(t, server) \<in> set (fetch_starts R ?st es)"
        by auto
      then show ?thesis
      proof cases
        case 1
        with now show ?thesis by simp
      next
        case 2
        with Cons.prems e True have "now + rc_min_refresh_interval R \<le> t"
          by (intro Cons.IH [of ?st now]) auto
        with now show ?thesis by simp
      qed
    next
      case False
      with Cons.prems e show ?thesis by (intro Cons.IH [of ?st t0]) auto
    qed
  qed
qed

text \<open>
  C17: however concurrent callers interleave, two fetches of one server start at least
  \<open>min_refresh_interval\<close> apart, whether or not the earlier one succeeded: unknown key ids in
  forged tokens cannot make the server flood an authorization server.
\<close>

theorem fetch_starts_rate_limited:
  assumes "sorted (map event_time es)"
  shows "sorted_wrt (\<lambda>(t1, s1) (t2, s2). s1 = s2 \<longrightarrow> t1 + rc_min_refresh_interval R \<le> t2)
           (fetch_starts R st es)"
  using assms
proof (induction es arbitrary: st)
  case Nil
  then show ?case by simp
next
  case (Cons e es)
  let ?st = "resolver_step R st e"
  from Cons have IH: "sorted_wrt (\<lambda>(t1, s1) (t2, s2). s1 = s2 \<longrightarrow>
      t1 + rc_min_refresh_interval R \<le> t2) (fetch_starts R ?st es)" by simp
  show ?case
  proof (cases "starts_fetch R st e = []")
    case True
    with IH show ?thesis by simp
  next
    case False
    then obtain now s k where e: "e = Acquire now s k" "starts_fetch R st e = [(now, s)]"
        "last_attempt ?st = (last_attempt st)(s \<mapsto> now)"
      by (rule starts_fetch_cases)
    have "now + rc_min_refresh_interval R \<le> t" if "(t, s) \<in> set (fetch_starts R ?st es)" for t
      using Cons.prems e that by (intro starts_spaced_after [of ?st s now es]) auto
    with IH e(2) show ?thesis by auto
  qed
qed

text \<open>
  C20: what one \<open>resolve_key\<close> answers, on every branch. The cached answer (fresh or stale)
  is given when a fresh entry holds the key, when the refresh window is closed, and when the
  refresh fails, so a known key survives an outage of its server; otherwise the answer is that
  of the newly fetched entry. Outside a started or joined fetch the state does not change.
\<close>

theorem resolve_key_answer:
  "fst (resolve_key R net now later st server key_id) =
     (if lookup_fresh R now st server key_id \<noteq> None \<or>
         (server \<notin> slots st \<and> rate_limited R now st server) \<or>
         fetch_entry R net later server = None
      then lookup_stale R st server key_id
      else cached_lookup (rc_alg_from_str R) (the (fetch_entry R net later server)) key_id) \<and>
   snd (resolve_key R net now later st server key_id) =
     (if lookup_fresh R now st server key_id \<noteq> None \<or>
         (server \<notin> slots st \<and> rate_limited R now st server)
      then st
      else complete_fetch R net later server
             (snd (acquire_inflight_slot R now st server key_id)))"
proof (cases "lookup_fresh R now st server key_id")
  case (Some r)
  then show ?thesis by (simp add: resolve_key_def fresh_is_stale)
next
  case None
  show ?thesis
  proof (cases "server \<notin> slots st \<and> rate_limited R now st server")
    case True
    with None show ?thesis by (simp add: resolve_key_def acquire_cases)
  next
    case False
    have stale: "lookup_stale R (st\<lparr>last_attempt := a, slots := b\<rparr>) = lookup_stale R st" for a b
      by (rule lookup_stale_cong) simp
    from False None show ?thesis
      by (auto simp: resolve_key_def acquire_cases Let_def lookup_after_fetch stale
            split: option.splits)
  qed
qed

text \<open>
  C29: whatever interleaving of callers and fetches went before, a key that the resolver answers
  for a server and a key id was published for that id at the \<open>jwks_uri\<close> of the metadata that
  discovery of that very server gave, in the fetch the call awaited or in an earlier one; the
  issuer answered with it is that metadata's and identifies the server. The key material is the
  published one. A published algorithm is never replaced; a key without one gets the server's
  advertised algorithm if that is a single recognised one, and otherwise stays without.
\<close>

theorem no_algorithm_confusion:
  assumes "fst (resolve_key R net now later (foldl (resolver_step R) empty_resolver es) server key_id) =
      Some (k, iss)"
  shows "\<exists>n metadata keys jwk. (n = net \<or> (\<exists>t. Complete t server n \<in> set es)) \<and>
     discover_metadata (rc_url R) n server = Some metadata \<and>
     iss = md_issuer metadata \<and> issuer_matches (rc_url R) server iss \<and>
     net_jwks n (md_jwks_uri metadata) = Some keys \<and> keys key_id = Some jwk \<and>
     decoding_key k = decoding_key jwk \<and>
     (case jwk_alg jwk of
        Some alg \<Rightarrow> jwk_alg k = Some alg
      | None \<Rightarrow> jwk_alg k =
          (if length (md_signing_algs metadata) = 1
           then rc_alg_from_str R (hd (md_signing_algs metadata)) else None))"
  using networked.resolve_vouched [OF reachable_sourced [of R net es] assms]
  unfolding published_key_def fetched_over_def by blast

definition example_resolver :: "nat resolver_config" where
  "example_resolver =
     \<lparr>rc_url = \<lparr>url_parse = (\<lambda>s. if s = ''https://a'' then Some 1 else None), url_as_str = (\<lambda>_. []),
        url_scheme = (\<lambda>_. ''https''), url_host_str = (\<lambda>_. Some ''a''), url_port = (\<lambda>_. None),
        url_path = (\<lambda>_. ''/''), url_clear_query = id, url_clear_fragment = id,
        url_set_path = (\<lambda>_ u. u), nat_to_str = (\<lambda>_. [])\<rparr>,
      rc_alg_from_str = (\<lambda>s. if s = ''RS256'' then Some KRS256 else None),
      rc_ttl = 600, rc_min_refresh_interval = 60\<rparr>"

theorem fetch_starts_rate_limited_witness:
  "fetch_starts example_resolver (empty_resolver :: (nat, nat) resolver_state)
     [Acquire 5 1 ''k'', Complete 6 1 \<lparr>net_metadata = \<lambda>_. None, net_jwks = \<lambda>_. None\<rparr>,
      Acquire 20 1 ''k'', Acquire 70 1 ''k''] = [(5, 1), (70, 1)] \<and> 5 + (60::nat) \<le> 70"
proof -
  let ?es = "[Acquire 5 1 ''k'', Complete 6 1 \<lparr>net_metadata = \<lambda>_. None, net_jwks = \<lambda>_. None\<rparr>,
      Acquire 20 1 ''k'', Acquire 70 1 ''k''] :: (nat, nat) resolver_event list"
  have run: "fetch_starts example_resolver (empty_resolver :: (nat, nat) resolver_state) ?es = [(5, 1), (70, 1)]"
    by (simp add: starts_fetch_def acquire_inflight_slot_def lookup_fresh_def example_resolver_def
          fetch_entry_def discover_metadata_def build_discovery_urls_def Let_def
          normalized_path_segments_def trim_char_def split_on_def)
  with fetch_starts_rate_limited [of ?es example_resolver "empty_resolver"] show ?thesis
    by (simp add: example_resolver_def)
qed

theorem resolve_key_answer_witness:
  "resolve_key example_resolver \<lparr>net_metadata = \<lambda>_. None, net_jwks = \<lambda>_. None\<rparr> 700 700
     (empty_resolver\<lparr>jwks_cache := [1 \<mapsto>
        \<lparr>cached_keys = [''k'' \<mapsto> \<lparr>jwk_alg = Some KRS256, decoding_key = (7::nat)\<rparr>],
         cached_issuer = ''https://a'', fetched_at = 0, signing_algs = []\<rparr>]\<rparr>) 1 ''k'' =
   (Some (\<lparr>jwk_alg = Some KRS256, decoding_key = 7\<rparr>, ''https://a''),
    empty_resolver\<lparr>jwks_cache := [1 \<mapsto>
        \<lparr>cached_keys = [''k'' \<mapsto> \<lparr>jwk_alg = Some KRS256, decoding_key = (7::nat)\<rparr>],
         cached_issuer = ''https://a'', fetched_at = 0, signing_algs = []\<rparr>],
      last_attempt := [1 \<mapsto> 700]\<rparr>)"
proof -
  let ?net = "\<lparr>net_metadata = \<lambda>_. None, net_jwks = \<lambda>_. None\<rparr> :: (nat, nat) network"
  let ?st = "empty_resolver\<lparr>jwks_cache := [1 \<mapsto>
        \<lparr>cached_keys = [''k'' \<mapsto> \<lparr>jwk_alg = Some KRS256, decoding_key = (7::nat)\<rparr>],
         cached_issuer = ''https://a'', fetched_at = 0, signing_algs = []\<rparr>]\<rparr>"
  have down: "fetch_entry example_resolver ?net 700 1 = None"
    by (simp add: fetch_entry_def discover_metadata_def build_discovery_urls_def Let_def
          example_resolver_def normalized_path_segments_def trim_char_def split_on_def)
  have expired: "lookup_fresh example_resolver 700 ?st 1 ''k'' = None"
    by (simp add: lookup_fresh_def is_fresh_def example_resolver_def)
  have stale: "lookup_stale example_resolver ?st 1 ''k'' =
      Some (\<lparr>jwk_alg = Some KRS256, decoding_key = 7\<rparr>, ''https://a'')"
    by (simp add: lookup_stale_def cached_lookup_def)
  from resolve_key_answer [of example_resolver ?net 700 700 ?st 1 "''k''"] down expired stale
  show ?thesis
    by (simp add: prod_eq_iff acquire_cases rate_limited_def complete_fetch_def empty_resolver_def)
qed

definition example_network :: "string list \<Rightarrow> (nat, nat) network" where
  "example_network algs =
     \<lparr>net_metadata = (\<lambda>_. Some \<lparr>md_issuer = ''https://a'', md_jwks_uri = ''keys'', md_signing_algs = algs\<rparr>),
      net_jwks = (\<lambda>uri. if uri = ''keys'' then Some [''k'' \<mapsto> \<lparr>jwk_alg = None, decoding_key = 7\<rparr>] else None)\<rparr>"

definition example_web :: "nat resolver_config" where
  "example_web = example_resolver\<lparr>rc_url := (rc_url example_resolver)\<lparr>url_parse := (\<lambda>_. Some 1)\<rparr>\<rparr>"

lemma example_web_config:
  "rc_ttl example_web = 600"
  "rc_alg_from_str example_web = (\<lambda>s. if s = ''RS256'' then Some KRS256 else None)"
  by (simp_all add: example_web_def example_resolver_def)

lemma example_discovery:
  "discover_metadata (rc_url example_web) (example_network algs) 1 =
     Some \<lparr>md_issuer = ''https://a'', md_jwks_uri = ''keys'', md_signing_algs = algs\<rparr>"
  by (simp add: discover_metadata_def build_discovery_urls_def Let_def example_resolver_def example_network_def
        example_web_def normalized_path_segments_def trim_char_def split_on_def)

lemma example_fetch:
  "fetch_entry example_web (example_network algs) now 1 =
     Some \<lparr>cached_keys = [''k'' \<mapsto> \<lparr>jwk_alg = None, decoding_key = 7\<rparr>], cached_issuer = ''https://a'',
           fetched_at = now, signing_algs = algs\<rparr>"
  unfolding fetch_entry_def example_discovery
  by (simp add: issuer_matches_def example_network_def example_web_def example_resolver_def)

lemma example_resolves:
  "fst (resolve_key example_web (example_network algs) 5 6 empty_resolver 1 ''k'') =
     Some (\<lparr>jwk_alg = resolve_alg (rc_alg_from_str example_web) algs, decoding_key = 7\<rparr>, ''https://a'')"
  by (simp add: resolve_key_def lookup_fresh_def acquire_inflight_slot_def complete_fetch_def
        example_fetch [simplified] cached_lookup_def is_fresh_def Let_def)
     (simp add: example_web_def example_resolver_def)?

theorem no_algorithm_confusion_witness:
  "\<exists>k. fst (resolve_key example_web (example_network [''RS256'', ''HS256'']) 5 6
       (foldl (resolver_step example_web) empty_resolver []) 1 ''k'') = Some (k, ''https://a'') \<and>
     decoding_key k = 7 \<and> jwk_alg k = None"
proof -
  let ?net = "example_network [''RS256'', ''HS256'']"
  let ?st = "foldl (resolver_step example_web) empty_resolver ([] :: (nat, nat) resolver_event list)"
  obtain k where k: "fst (resolve_key example_web ?net 5 6 ?st 1 ''k'') = Some (k, ''https://a'')"
    using example_resolves by (metis foldl_Nil)
  from no_algorithm_confusion [OF k] obtain metadata keys jwk where
    "discover_metadata (rc_url example_web) ?net 1 = Some metadata"
    "net_jwks ?net (md_jwks_uri metadata) = Some keys" "keys ''k'' = Some jwk" "decoding_key k = decoding_key jwk"
    "case jwk_alg jwk of Some alg \<Rightarrow> jwk_alg k = Some alg
     | None \<Rightarrow> jwk_alg k = (if length (md_signing_algs metadata) = 1
         then rc_alg_from_str example_web (hd (md_signing_algs metadata)) else None)"
    by (metis emptyE list.set(1))
  moreover from this(1) have "metadata = \<lparr>md_issuer = ''https://a'', md_jwks_uri = ''keys'',
      md_signing_algs = [''RS256'', ''HS256'']\<rparr>"
    unfolding example_discovery by simp
  ultimately have "decoding_key k = 7 \<and> jwk_alg k = None"
    by (auto simp: example_network_def)
  with k show ?thesis by blast
qed

end
