(* ===== verification/Token_Validator.thy ===== *)
theory Token_Validator
  imports Jwks_Resolver
begin

text \<open>
  Validation of bearer tokens (\<open>auth/valid_token.rs\<close>). The \<open>jsonwebtoken\<close> crate is a
  parameter: how it reads a header and what \<open>decode\<close> answers for a key and a
  \<open>Validation\<close>. Keys come through the \<open>key_resolver\<close> interface, with the resolver's
  state passed along.
\<close>

section \<open>The token library\<close>

datatype Algorithm =
  HS256 | HS384 | HS512 | ES256 | ES384 | RS256 | RS384 | RS512 | PS256 | PS384 | PS512 | EdDSA

datatype ScpClaim = ScpArray "string list" | ScpString string

record Claims =
  aud :: "string list"
  iss :: "string option"
  sub :: string
  scope :: "string option"
  scp :: "ScpClaim option"

record Validation =
  val_algorithm :: Algorithm
  validate_aud :: bool
  val_aud :: "string list option"
  val_iss :: "string list option"

record 'k jwt_api =
  jwt_header_kid :: "string \<Rightarrow> string option option" \<comment> \<open>\<open>None\<close>: the header does not decode\<close>
  jwt_decode :: "string \<Rightarrow> 'k \<Rightarrow> Validation \<Rightarrow> Claims option"

record ValidToken =
  vt_token :: string
  vt_scopes :: "string list"

fun jwt_algorithm :: "KeyAlgorithm \<Rightarrow> Algorithm option" where
  "jwt_algorithm KHS256 = Some HS256"
| "jwt_algorithm KHS384 = Some HS384"
| "jwt_algorithm KHS512 = Some HS512"
| "jwt_algorithm KES256 = Some ES256"
| "jwt_algorithm KES384 = Some ES384"
| "jwt_algorithm KRS256 = Some RS256"
| "jwt_algorithm KRS384 = Some RS384"
| "jwt_algorithm KRS512 = Some RS512"
| "jwt_algorithm KPS256 = Some PS256"
| "jwt_algorithm KPS384 = Some PS384"
| "jwt_algorithm KPS512 = Some PS512"
| "jwt_algorithm KEdDSA = Some EdDSA"
| "jwt_algorithm (OtherKeyAlgorithm _) = None"

definition claims_scopes :: "Claims \<Rightarrow> string list" where
  "claims_scopes c =
     (case (scope c, scp c) of
        (Some s, _) \<Rightarrow> split_white s
      | (None, Some (ScpString s)) \<Rightarrow> split_white s
      | (None, Some (ScpArray v)) \<Rightarrow> v
      | (None, None) \<Rightarrow> [])"

text \<open>The \<open>aud\<close> claim: absent and \<open>null\<close> are empty, a string is a singleton.\<close>

definition deserialize_audience :: "json option \<Rightarrow> (unit, string list) result" where
  "deserialize_audience v =
     (case v of
        None \<Rightarrow> Inr []
      | Some JNull \<Rightarrow> Inr []
      | Some (JString s) \<Rightarrow> Inr [s]
      | Some (JArray vs) \<Rightarrow> (case json_strings vs of None \<Rightarrow> Inl () | Some ss \<Rightarrow> Inr ss)
      | Some _ \<Rightarrow> Inl ())"

section \<open>The validator\<close>

record 'u TokenValidator =
  tv_audiences :: "string list"
  tv_issuers :: "string list"
  tv_allow_any_audience :: bool
  tv_servers :: "'u list"

definition validation_for :: "'u TokenValidator \<Rightarrow> Algorithm \<Rightarrow> Validation" where
  "validation_for V algorithm =
     \<lparr>val_algorithm = algorithm,
      validate_aud = \<not> tv_allow_any_audience V,
      val_aud = (if tv_allow_any_audience V then None else Some (tv_audiences V)),
      val_iss = (if tv_issuers V = [] then None else Some (tv_issuers V))\<rparr>"

text \<open>What one server's key says of the token: try the next server, stop, or accept.\<close>

datatype server_verdict = Continue | Break | Accept ValidToken

definition check_claims :: "'u TokenValidator \<Rightarrow> string \<Rightarrow> string \<Rightarrow> Claims \<Rightarrow> server_verdict" where
  "check_claims V jwt discovered_issuer claims =
     (if \<not> tv_allow_any_audience V \<and> aud claims = [] then Break
      else if tv_issuers V \<noteq> [] \<and>
              (case iss claims of
                 None \<Rightarrow> True
               | Some token_issuer \<Rightarrow> discovered_issuer \<noteq> token_issuer)
      then Break
      else Accept \<lparr>vt_token = jwt, vt_scopes = claims_scopes claims\<rparr>)"

definition check_key ::
    "'k jwt_api \<Rightarrow> 'u TokenValidator \<Rightarrow> string \<Rightarrow> 'k jwk \<times> string \<Rightarrow> server_verdict" where
  "check_key J V jwt r =
     (case r of (jwk, discovered_issuer) \<Rightarrow>
        (case jwk_alg jwk of
           None \<Rightarrow> Continue
         | Some alg \<Rightarrow>
             (case jwt_algorithm alg of
                None \<Rightarrow> Continue
              | Some algorithm \<Rightarrow>
                  (case jwt_decode J jwt (decoding_key jwk) (validation_for V algorithm) of
                     None \<Rightarrow> Continue
                   | Some claims \<Rightarrow> check_claims V jwt discovered_issuer claims))))"

text \<open>
  The loop over the servers; \<open>resolve\<close> is the resolver, \<open>st\<close> its state.
\<close>

fun validate_servers ::
    "'k jwt_api \<Rightarrow> 'u TokenValidator \<Rightarrow> ('st \<Rightarrow> 'u \<Rightarrow> string \<Rightarrow> ('k jwk \<times> string) option \<times> 'st) \<Rightarrow>
     string \<Rightarrow> string \<Rightarrow> 'st \<Rightarrow> 'u list \<Rightarrow> ValidToken option \<times> 'st" where
  "validate_servers J V resolve jwt key_id st [] = (None, st)"
| "validate_servers J V resolve jwt key_id st (server # servers) =
     (case resolve st server key_id of
        (None, st') \<Rightarrow> validate_servers J V resolve jwt key_id st' servers
      | (Some r, st') \<Rightarrow>
          (case check_key J V jwt r of
             Continue \<Rightarrow> validate_servers J V resolve jwt key_id st' servers
           | Break \<Rightarrow> (None, st')
           | Accept v \<Rightarrow> (Some v, st')))"

definition validate_token ::
    "'k jwt_api \<Rightarrow> 'u TokenValidator \<Rightarrow> ('st \<Rightarrow> 'u \<Rightarrow> string \<Rightarrow> ('k jwk \<times> string) option \<times> 'st) \<Rightarrow>
     'st \<Rightarrow> string \<Rightarrow> ValidToken option \<times> 'st" where
  "validate_token J V resolve st jwt =
     (case jwt_header_kid J jwt of
        None \<Rightarrow> (None, st)
      | Some None \<Rightarrow> (None, st)
      | Some (Some key_id) \<Rightarrow> validate_servers J V resolve jwt key_id st (tv_servers V))"

section \<open>What an accepted token satisfies\<close>

definition token_accepted_by ::
    "'k jwt_api \<Rightarrow> 'u TokenValidator \<Rightarrow> string \<Rightarrow> 'k jwk \<Rightarrow> string \<Rightarrow> Claims \<Rightarrow> bool" where
  "token_accepted_by J V jwt k discovered_issuer c \<longleftrightarrow>
     (\<exists>alg algorithm. jwk_alg k = Some alg \<and> jwt_algorithm alg = Some algorithm \<and>
        jwt_decode J jwt (decoding_key k) (validation_for V algorithm) = Some c) \<and>
     (tv_allow_any_audience V \<or> aud c \<noteq> []) \<and>
     (tv_issuers V = [] \<or> iss c = Some discovered_issuer)"

lemma check_claims_Accept:
  "check_claims V jwt i c = Accept v \<longleftrightarrow>
     v = \<lparr>vt_token = jwt, vt_scopes = claims_scopes c\<rparr> \<and>
     (tv_allow_any_audience V \<or> aud c \<noteq> []) \<and> (tv_issuers V = [] \<or> iss c = Some i)"
  by (auto simp: check_claims_def split: option.splits)

lemma check_claims_not_Continue [simp]: "check_claims V jwt i c \<noteq> Continue"
  by (simp add: check_claims_def split: option.splits)

lemma check_key_Accept:
  "check_key J V jwt (k, i) = Accept v \<longleftrightarrow>
     (\<exists>c. token_accepted_by J V jwt k i c \<and>
          v = \<lparr>vt_token = jwt, vt_scopes = claims_scopes c\<rparr>)"
  by (auto simp: check_key_def token_accepted_by_def check_claims_Accept split: option.splits)

text \<open>The client's side of the resolver interface, proved once for every resolver.\<close>

context key_resolver
begin

lemma servers_keep:
  "resolver_ok st \<Longrightarrow> resolver_ok (snd (validate_servers J V resolve jwt key_id st servers))"
proof (induction servers arbitrary: st)
  case Nil
  then show ?case by simp
next
  case (Cons server servers)
  from resolve_keeps [OF Cons.prems, of server key_id] Cons.IH show ?case
    by (auto split: prod.splits option.splits server_verdict.splits)
qed

lemma servers_accept:
  "resolver_ok st \<Longrightarrow> fst (validate_servers J V resolve jwt key_id st servers) = Some v \<Longrightarrow>
   \<exists>server \<in> set servers. \<exists>k i c. vouches server key_id k i \<and> token_accepted_by J V jwt k i c \<and>
     v = \<lparr>vt_token = jwt, vt_scopes = claims_scopes c\<rparr>"
proof (induction servers arbitrary: st)
  case Nil
  then show ?case by simp
next
  case (Cons server servers)
  obtain r st' where r: "resolve st server key_id = (r, st')" by (cases "resolve st server key_id")
  have ok': "resolver_ok st'" using resolve_keeps [OF Cons.prems(1), of server key_id] r by simp
  show ?case
  proof (cases "r = None \<or> check_key J V jwt (the r) = Continue")
    case True
    with Cons.prems(2) r have "fst (validate_servers J V resolve jwt key_id st' servers) = Some v"
      by (auto split: option.splits)
    with Cons.IH [OF ok'] show ?thesis by auto
  next
    case False
    then obtain k i where ki: "r = Some (k, i)" by (cases r) auto
    with False Cons.prems(2) r have "check_key J V jwt (k, i) = Accept v"
      by (auto split: server_verdict.splits)
    moreover have "vouches server key_id k i"
      using resolve_vouched [OF Cons.prems(1)] r ki by (metis fst_conv)
    ultimately show ?thesis by (fastforce simp: check_key_Accept)
  qed
qed

lemma validated_token:
  assumes ok: "resolver_ok st" and v: "fst (validate_token J V resolve st jwt) = Some v"
  shows "\<exists>key_id. jwt_header_kid J jwt = Some (Some key_id) \<and>
     (\<exists>server \<in> set (tv_servers V). \<exists>k i c. vouches server key_id k i \<and> token_accepted_by J V jwt k i c \<and>
        v = \<lparr>vt_token = jwt, vt_scopes = claims_scopes c\<rparr>)"
proof -
  from v obtain key_id where "jwt_header_kid J jwt = Some (Some key_id)"
    "fst (validate_servers J V resolve jwt key_id st (tv_servers V)) = Some v"
    by (auto simp: validate_token_def split: option.splits)
  with servers_accept [OF ok] show ?thesis by blast
qed

end

section \<open>Properties\<close>

text \<open>
  C5: let any callers and fetches have run before. A token the networked validator then accepts
  names a key id under which the \<open>jwks_uri\<close> discovered for one configured server published a
  key, in the fetch that the validation awaited or in an earlier one for that server; the token
  decodes under that very key, with the key's own algorithm (or, when the key has none, the single
  algorithm that the server advertises); its \<open>aud\<close> claim is present unless any audience is
  allowed; and, when accepted issuers are configured, its \<open>iss\<close> claim is the issuer in the same
  discovered metadata, which identifies that server's URL. So no server can sign in another's
  name. The accepted token is the one presented, with the scopes of its claims.
\<close>

theorem accepted_token_bound_to_server:
  fixes J :: "'k jwt_api"
  assumes "fst (validate_token J V (resolve_key R net now later)
      (foldl (resolver_step R) empty_resolver es) jwt) = Some v"
  shows "\<exists>key_id server n metadata keys jwk alg algorithm c.
     jwt_header_kid J jwt = Some (Some key_id) \<and> server \<in> set (tv_servers V) \<and>
     (n = net \<or> (\<exists>t. Complete t server n \<in> set es)) \<and>
     discover_metadata (rc_url R) n server = Some metadata \<and>
     issuer_matches (rc_url R) server (md_issuer metadata) \<and>
     net_jwks n (md_jwks_uri metadata) = Some keys \<and> keys key_id = Some jwk \<and>
     (jwk_alg jwk = Some alg \<or>
      jwk_alg jwk = None \<and> length (md_signing_algs metadata) = 1 \<and>
        rc_alg_from_str R (hd (md_signing_algs metadata)) = Some alg) \<and>
     jwt_algorithm alg = Some algorithm \<and>
     jwt_decode J jwt (decoding_key jwk) (validation_for V algorithm) = Some c \<and>
     (tv_allow_any_audience V \<or> aud c \<noteq> []) \<and>
     (tv_issuers V = [] \<or> iss c = Some (md_issuer metadata)) \<and>
     v = \<lparr>vt_token = jwt, vt_scopes = claims_scopes c\<rparr>"
proof -
  from networked.validated_token [OF reachable_sourced [of R net es] assms]
  obtain key_id server k i c n where kid: "jwt_header_kid J jwt = Some (Some key_id)"
    and s: "server \<in> set (tv_servers V)" "n = net \<or> (\<exists>t. Complete t server n \<in> set es)"
    and pub: "published_key R n server key_id k i"
    and a: "token_accepted_by J V jwt k i c" and v: "v = \<lparr>vt_token = jwt, vt_scopes = claims_scopes c\<rparr>"
    unfolding fetched_over_def by blast
  from pub obtain metadata keys jwk where m: "discover_metadata (rc_url R) n server = Some metadata"
      "issuer_matches (rc_url R) server (md_issuer metadata)"
      "net_jwks n (md_jwks_uri metadata) = Some keys" "keys key_id = Some jwk"
    and k: "i = md_issuer metadata" "decoding_key k = decoding_key jwk"
      "case jwk_alg jwk of Some alg \<Rightarrow> jwk_alg k = Some alg
       | None \<Rightarrow> jwk_alg k = (if length (md_signing_algs metadata) = 1
           then rc_alg_from_str R (hd (md_signing_algs metadata)) else None)"
    unfolding published_key_def by blast
  from a obtain alg algorithm where c: "jwk_alg k = Some alg" "jwt_algorithm alg = Some algorithm"
    "jwt_decode J jwt (decoding_key k) (validation_for V algorithm) = Some c"
    "tv_allow_any_audience V \<or> aud c \<noteq> []" "tv_issuers V = [] \<or> iss c = Some i"
    unfolding token_accepted_by_def by blast
  have "jwk_alg jwk = Some alg \<or> jwk_alg jwk = None \<and> length (md_signing_algs metadata) = 1 \<and>
        rc_alg_from_str R (hd (md_signing_algs metadata)) = Some alg"
    using k(3) c(1) by (auto split: option.splits if_splits)
  then show ?thesis using kid s m c v unfolding k by blast
qed

text \<open>
  The outcome of validation, by a reference that looks for the first server whose key
  decides: with a resolver whose answers do not depend on its state, the token is accepted
  exactly when the first server that does not pass it on accepts it. In particular a server
  whose key verifies the token but whose claims check fails ends the search.
\<close>

theorem first_deciding_server:
  "fst (validate_servers J V (\<lambda>st server key_id. (keys server key_id, st)) jwt key_id st servers) =
     (case filter_map
             (\<lambda>server. case keys server key_id of
                None \<Rightarrow> None
              | Some r \<Rightarrow> (if check_key J V jwt r = Continue then None else Some (check_key J V jwt r)))
             servers of
        Accept v # _ \<Rightarrow> Some v
      | _ \<Rightarrow> None)"
  by (induction servers) (auto split: option.splits server_verdict.splits)

text \<open>
  Scopes come from \<open>scope\<close> before \<open>scp\<close>; the two spellings of the same scopes, a list
  and a space-separated string, give the same granted scopes, and a token with neither claim
  has none.
\<close>

theorem claims_scopes_spellings:
  assumes "\<forall>p \<in> set ps. p \<noteq> [] \<and> (\<forall>c \<in> set p. \<not> is_white c)"
  shows "claims_scopes (c\<lparr>scope := Some (join_with '' '' ps)\<rparr>) = ps \<and>
         claims_scopes (c\<lparr>scope := None, scp := Some (ScpString (join_with '' '' ps))\<rparr>) = ps \<and>
         claims_scopes (c\<lparr>scope := None, scp := Some (ScpArray ps)\<rparr>) = ps \<and>
         claims_scopes (c\<lparr>scope := None, scp := None\<rparr>) = []"
  using split_white_join [OF assms] by (simp add: claims_scopes_def)

theorem claims_scopes_spellings_witness:
  "claims_scopes \<lparr>aud = [], iss = None, sub = ''u'', scope = Some ''user:read admin'', scp = None\<rparr> =
     [''user:read'', ''admin'']"
proof -
  have "\<forall>p \<in> set [''user:read'', ''admin'']. p \<noteq> [] \<and> (\<forall>c \<in> set p. \<not> is_white c)"
    by (simp add: is_white_def)
  from claims_scopes_spellings [OF this,
      of "\<lparr>aud = [], iss = None, sub = ''u'', scope = None, scp = None\<rparr>"]
  show ?thesis by simp
qed

definition example_jwt :: "nat jwt_api" where
  "example_jwt =
     \<lparr>jwt_header_kid = (\<lambda>_. Some (Some ''k'')),
      jwt_decode = (\<lambda>jwt key v. if key = 7 \<and> val_algorithm v = RS256
         then Some \<lparr>aud = [''api''], iss = Some ''https://a'', sub = ''u'', scope = Some ''read'', scp = None\<rparr>
         else None)\<rparr>"

definition example_validator :: "nat TokenValidator" where
  "example_validator = \<lparr>tv_audiences = [''api''], tv_issuers = [''https://a''],
     tv_allow_any_audience = False, tv_servers = [1]\<rparr>"

text \<open>The key is fetched by a first caller and used by a second one when discovery is down.\<close>

definition example_run :: "(nat, nat) resolver_event list" where
  "example_run = [Acquire 5 1 ''k'', Complete 6 1 (example_network [''RS256''])]"

definition example_down :: "(nat, nat) network" where
  "example_down = \<lparr>net_metadata = \<lambda>_. None, net_jwks = \<lambda>_. None\<rparr>"

lemma example_run_cache:
  "jwks_cache (foldl (resolver_step example_web) empty_resolver example_run) =
     [1 \<mapsto> \<lparr>cached_keys = [''k'' \<mapsto> \<lparr>jwk_alg = None, decoding_key = 7\<rparr>], cached_issuer = ''https://a'',
           fetched_at = 6, signing_algs = [''RS256'']\<rparr>]"
  using example_fetch [of "[''RS256'']" 6]
  by (simp add: example_run_def acquire_inflight_slot_def lookup_fresh_def)

theorem accepted_token_bound_to_server_witness:
  "fst (validate_token example_jwt example_validator (resolve_key example_web example_down 7 7)
      (foldl (resolver_step example_web) empty_resolver example_run) ''t'') =
     Some \<lparr>vt_token = ''t'', vt_scopes = [''read'']\<rparr> \<and>
   (\<exists>server \<in> set (tv_servers example_validator). \<exists>n metadata.
      discover_metadata (rc_url example_web) n server = Some metadata \<and> n = example_network [''RS256''])"
proof -
  have run: "fst (validate_token example_jwt example_validator (resolve_key example_web example_down 7 7)
      (foldl (resolver_step example_web) empty_resolver example_run) ''t'') =
     Some \<lparr>vt_token = ''t'', vt_scopes = [''read'']\<rparr>"
    by (simp add: validate_token_def resolve_key_def lookup_fresh_def is_fresh_def cached_lookup_def
          resolve_alg_def check_key_def check_claims_def validation_for_def claims_scopes_def
          split_white_def is_white_def example_run_cache [simplified] example_jwt_def example_validator_def
          example_web_config)
  have "discover_metadata (rc_url example_web) example_down server = None" for server
    by (simp add: discover_metadata_def build_discovery_urls_def Let_def example_resolver_def example_down_def
        example_web_def normalized_path_segments_def trim_char_def split_on_def)
  with accepted_token_bound_to_server [OF run] run show ?thesis
    by (fastforce simp: example_run_def)
qed

end
