(* ===== verification/Auth_Middleware.thy ===== *)
theory Auth_Middleware
  imports Scope_Requirements Token_Validator
begin

text \<open>
  The OAuth middleware of \<open>apollo-mcp-server/src/auth.rs\<close>: its configuration, the skip
  lists, the peek at the JSON-RPC method and tool name, the scope checks and the handler
  \<open>oauth_validate\<close>, with the \<open>WWW-Authenticate\<close> header of \<open>auth/www_authenticate.rs\<close>.
  The handler's answer is a value: the request it passes on, a challenge, or a bare status.
  Logging and span records are left out.
\<close>

section \<open>Constants\<close>

definition TOOL_CALL_METHOD :: string where
  "TOOL_CALL_METHOD = ''tools/call''"

definition RESOLVES_ONE_OF_MANY_METHODS :: "string list" where
  "RESOLVES_ONE_OF_MANY_METHODS =
     [''resources/read'', ''resources/subscribe'', ''resources/unsubscribe'',
      ''prompts/get'', ''completion/complete'']"

definition DEPRECATED_ANONYMOUS_DISCOVERY_METHODS :: "string list" where
  "DEPRECATED_ANONYMOUS_DISCOVERY_METHODS =
     [''initialize'', ''server/discover'', ''tools/list'', ''resources/list'']"

definition PEEK_BODY_LIMIT :: nat where
  "PEEK_BODY_LIMIT = 16 * 1024"

section \<open>Configuration\<close>

record SkipTokenValidation =
  skip_methods :: "string list"
  skip_tools :: "string list"
  skip_headers :: "string list"

datatype skip_methods_error = ToolCallListed | ResolvesOneOfMany string

definition deserialize_skip_methods :: "string list \<Rightarrow> (skip_methods_error, string list) result" where
  "deserialize_skip_methods methods =
     (if list_ex (\<lambda>m. m = TOOL_CALL_METHOD) methods then Inl ToolCallListed
      else case find (\<lambda>m. List.member RESOLVES_ONE_OF_MANY_METHODS m) methods of
             Some m \<Rightarrow> Inl (ResolvesOneOfMany m)
           | None \<Rightarrow> Inr methods)"

datatype header_names_error = InvalidHeaderName string | AuthorizationListed

text \<open>\<open>HeaderName::from_bytes\<close> (which also lower-cases) is a parameter.\<close>

definition deserialize_header_names ::
    "(string \<Rightarrow> string option) \<Rightarrow> string list \<Rightarrow> (header_names_error, string list) result" where
  "deserialize_header_names header_name =
     collect_results (\<lambda>name. case header_name name of
         None \<Rightarrow> Inl (InvalidHeaderName name)
       | Some n \<Rightarrow> if n = ''authorization'' then Inl AuthorizationListed else Inr n)"

record 'u Config =
  servers :: "string list"
  audiences :: "string list"
  issuers :: "string list"
  allow_any_audience :: bool
  resource :: 'u
  resource_documentation :: "'u option"
  scopes :: "string list"
  scope_mode :: ScopeMode
  skip_token_validation :: SkipTokenValidation
  allow_anonymous_mcp_discovery :: bool

datatype TlsConfigError =
    CertificateRead | CertificateParse | ClientBuild
  | ServerUrlMissingHost nat string
  | ResourceUrlInvalidScheme string string
  | AnonymousDiscoveryConflict
  | ServerUrlPanic string \<comment> \<open>the \<open>expect\<close> on a server URL that does not parse\<close>

definition resolve_skip_token_validation ::
    "'u Config \<Rightarrow> (TlsConfigError, SkipTokenValidation) result" where
  "resolve_skip_token_validation c =
     (if \<not> allow_anonymous_mcp_discovery c then Inr (skip_token_validation c)
      else if skip_methods (skip_token_validation c) \<noteq> [] then Inl AnonymousDiscoveryConflict
      else Inr ((skip_token_validation c)\<lparr>skip_methods := DEPRECATED_ANONYMOUS_DISCOVERY_METHODS\<rparr>))"

definition build_resource_metadata_url :: "'u url_api \<Rightarrow> 'u \<Rightarrow> 'u" where
  "build_resource_metadata_url U res =
     (let url = url_clear_fragment U (url_clear_query U res)
      in if url_host_str U url = None
         then url_set_path U ''/.well-known/oauth-protected-resource'' url
         else (let path = normalized_path_segments U url
               in if path = [] then url_set_path U ''/.well-known/oauth-protected-resource'' url
                  else url_set_path U (''/.well-known/oauth-protected-resource/'' @ path) url))"

record 'u AuthState =
  as_config :: "'u Config"
  as_resource_metadata_url :: 'u
  as_auth_servers :: "'u list"
  as_required_scopes :: "(string \<times> OperationRequiredScopes) list"
  as_skip :: SkipTokenValidation
  as_stateful_mode :: bool

text \<open>
  The part of \<open>enable_middleware\<close> before the routes: \<open>build_client\<close> is the outcome of
  building the TLS client.
\<close>

fun parse_auth_servers :: "'u url_api \<Rightarrow> nat \<Rightarrow> string list \<Rightarrow> (TlsConfigError, 'u list) result" where
  "parse_auth_servers U i [] = Inr []"
| "parse_auth_servers U i (server # rest) =
     (case url_parse U server of
        None \<Rightarrow> Inl (ServerUrlPanic server)
      | Some parsed \<Rightarrow>
          if url_host_str U parsed = None then Inl (ServerUrlMissingHost i server)
          else try_result (parse_auth_servers U (Suc i) rest) (\<lambda>urls. Inr (parsed # urls)))"

definition enable_middleware ::
    "'u url_api \<Rightarrow> (TlsConfigError, unit) result \<Rightarrow> 'u Config \<Rightarrow>
     (string \<times> OperationRequiredScopes) list \<Rightarrow> bool \<Rightarrow> (TlsConfigError, 'u AuthState) result" where
  "enable_middleware U build_client c required_scopes stateful_mode =
     try_result (parse_auth_servers U 0 (servers c)) (\<lambda>auth_servers.
       let scheme = url_scheme U (resource c)
       in if scheme \<noteq> ''http'' \<and> scheme \<noteq> ''https''
          then Inl (ResourceUrlInvalidScheme (url_as_str U (resource c)) scheme)
          else try_result (resolve_skip_token_validation c) (\<lambda>skip.
            try_result build_client (\<lambda>_.
              Inr \<lparr>as_config = c,
                   as_resource_metadata_url = build_resource_metadata_url U (resource c),
                   as_auth_servers = auth_servers, as_required_scopes = required_scopes,
                   as_skip = skip, as_stateful_mode = stateful_mode\<rparr>)))"

record 'u ProtectedResource =
  pr_resource :: 'u
  pr_authorization_servers :: "string list"
  pr_bearer_methods_supported :: "string list"
  pr_scopes_supported :: "string list"
  pr_resource_documentation :: "'u option"

definition protected_resource :: "'u Config \<Rightarrow> 'u ProtectedResource" where
  "protected_resource c =
     \<lparr>pr_resource = resource c, pr_authorization_servers = servers c,
      pr_bearer_methods_supported = [''header''], pr_scopes_supported = scopes c,
      pr_resource_documentation = resource_documentation c\<rparr>"

section \<open>Requests and the peek\<close>

record JsonRpcPeek =
  peek_method :: string
  peek_params :: "string option option" \<comment> \<open>\<open>params\<close>, and its \<open>name\<close>\<close>

datatype body = Body string | BrokenBody \<comment> \<open>a stream that fails while it is read\<close>

record Request =
  req_method :: http_method
  req_query :: "string option"
  req_headers :: header_map
  req_body :: body
  req_valid_token :: "ValidToken option" \<comment> \<open>the extension the middleware inserts\<close>

text \<open>
  What the crates supply: \<open>HeaderValue::to_str\<close>, the SEP-2243 header names and protocol
  versions of rmcp, the JSON reader for the peek, and the query-string parser.
\<close>

record peek_api =
  header_to_str :: "string \<Rightarrow> string option"
  HEADER_MCP_METHOD :: string
  HEADER_MCP_NAME :: string
  HEADER_MCP_PROTOCOL_VERSION :: string
  KNOWN_VERSIONS :: "string list"
  STANDARD_HEADERS :: string
  has_initialize :: "string \<Rightarrow> bool"
  peek_from_slice :: "string \<Rightarrow> JsonRpcPeek option"
  form_urlencoded_parse :: "string \<Rightarrow> (string \<times> string) list"

definition app_param_from_query :: "peek_api \<Rightarrow> string option \<Rightarrow> string option" where
  "app_param_from_query P query =
     (case query of
        None \<Rightarrow> None
      | Some q \<Rightarrow> map_option snd (find (\<lambda>(key, _). key = ''app'') (form_urlencoded_parse P q)))"

definition header_str :: "peek_api \<Rightarrow> header_map \<Rightarrow> string \<Rightarrow> string option" where
  "header_str P h n = (case hm_get h n of None \<Rightarrow> None | Some v \<Rightarrow> header_to_str P v)"

definition peek_from_headers :: "peek_api \<Rightarrow> header_map \<Rightarrow> JsonRpcPeek option" where
  "peek_from_headers P headers =
     (case header_str P headers (HEADER_MCP_METHOD P) of
        None \<Rightarrow> None
      | Some method \<Rightarrow>
          if method = TOOL_CALL_METHOD
          then (case header_str P headers (HEADER_MCP_NAME P) of
                  None \<Rightarrow> None
                | Some name \<Rightarrow>
                    if starts_with ''=?'' name then None
                    else Some \<lparr>peek_method = method, peek_params = Some (Some name)\<rparr>)
          else Some \<lparr>peek_method = method, peek_params = None\<rparr>)"

definition standard_headers_enforced :: "peek_api \<Rightarrow> Request \<Rightarrow> bool" where
  "standard_headers_enforced P request \<longleftrightarrow>
     req_method request = POST \<and>
     hm_contains (req_headers request) (HEADER_MCP_METHOD P) \<and>
     (case header_str P (req_headers request) (HEADER_MCP_PROTOCOL_VERSION P) of
        None \<Rightarrow> False
      | Some version \<Rightarrow>
          List.member (KNOWN_VERSIONS P) version \<and> str_le (STANDARD_HEADERS P) version)"

definition uses_stateless_protocol :: "peek_api \<Rightarrow> Request \<Rightarrow> bool" where
  "uses_stateless_protocol P request \<longleftrightarrow>
     (case header_str P (req_headers request) (HEADER_MCP_PROTOCOL_VERSION P) of
        None \<Rightarrow> False
      | Some version \<Rightarrow>
          (case find (\<lambda>known. known = version) (KNOWN_VERSIONS P) of
             None \<Rightarrow> False
           | Some known \<Rightarrow> \<not> has_initialize P known))"

text \<open>
  \<open>extract_body\<close> takes the body out of the request (leaving an empty one) and puts the bytes
  back only when they were read within the limit and parsed.
\<close>

definition extract_body :: "peek_api \<Rightarrow> Request \<Rightarrow> (nat, JsonRpcPeek) result \<times> Request" where
  "extract_body P request =
     (let taken = request\<lparr>req_body := Body []\<rparr>
      in case req_body request of
           BrokenBody \<Rightarrow> (Inl 413, taken)
         | Body bytes \<Rightarrow>
             if length bytes > PEEK_BODY_LIMIT then (Inl 413, taken)
             else (case peek_from_slice P bytes of
                     None \<Rightarrow> (Inl 400, taken)
                   | Some peek \<Rightarrow> (Inr peek, taken\<lparr>req_body := Body bytes\<rparr>)))"

section \<open>The skip lists\<close>

definition needs_body :: "SkipTokenValidation \<Rightarrow> bool" where
  "needs_body s \<longleftrightarrow> skip_methods s \<noteq> [] \<or> skip_tools s \<noteq> []"

definition matches_headers :: "SkipTokenValidation \<Rightarrow> header_map \<Rightarrow> bool" where
  "matches_headers s headers = list_ex (\<lambda>name. hm_contains headers name) (skip_headers s)"

definition matches_method :: "SkipTokenValidation \<Rightarrow> string \<Rightarrow> bool" where
  "matches_method s method = list_ex (\<lambda>allowed. allowed = method) (skip_methods s)"

definition matches_tool :: "SkipTokenValidation \<Rightarrow> JsonRpcPeek \<Rightarrow> bool \<Rightarrow> bool" where
  "matches_tool s peek app_qualified =
     (if peek_method peek \<noteq> TOOL_CALL_METHOD then False
      else if app_qualified then False
      else (case peek_params peek of
              Some (Some tool) \<Rightarrow> list_ex (\<lambda>allowed. allowed = tool) (skip_tools s)
            | _ \<Rightarrow> False))"

definition matches_peek :: "SkipTokenValidation \<Rightarrow> JsonRpcPeek \<Rightarrow> bool \<Rightarrow> bool" where
  "matches_peek s peek app_qualified \<longleftrightarrow>
     matches_method s (peek_method peek) \<or> matches_tool s peek app_qualified"

section \<open>Challenges\<close>

datatype BearerError = InsufficientScope

record 'u WwwAuthenticate =
  wa_resource_metadata :: 'u
  wa_scope :: "string option"
  wa_error :: "BearerError option"
  wa_scope_mode :: "ScopeMode option"

definition encode_www_authenticate :: "'u url_api \<Rightarrow> 'u WwwAuthenticate \<Rightarrow> string" where
  "encode_www_authenticate U w =
     ''Bearer resource_metadata=\"'' @ url_as_str U (wa_resource_metadata w) @ ''\"'' @
     (case wa_error w of None \<Rightarrow> [] | Some InsufficientScope \<Rightarrow> '', error=\"insufficient_scope\"'') @
     (case wa_scope w of None \<Rightarrow> [] | Some s \<Rightarrow> '', scope=\"'' @ s @ ''\"'') @
     (case wa_scope_mode w of
        None \<Rightarrow> []
      | Some m \<Rightarrow> '', scope_mode=\"'' @ scope_mode_str m @ ''\"'')"

datatype 'u auth_outcome =
    Forward Request
  | Challenge nat "'u WwwAuthenticate"
  | Status nat

definition unauthorized_error :: "'u AuthState \<Rightarrow> 'u auth_outcome" where
  "unauthorized_error A =
     Challenge 401
       \<lparr>wa_resource_metadata = as_resource_metadata_url A,
        wa_scope = (if scopes (as_config A) = [] then None
                    else Some (join_with '' '' (scopes (as_config A)))),
        wa_error = None, wa_scope_mode = Some (scope_mode (as_config A))\<rparr>"

definition forbidden_error :: "'u AuthState \<Rightarrow> string list \<Rightarrow> ScopeMode option \<Rightarrow> 'u auth_outcome" where
  "forbidden_error A required mode =
     Challenge 403
       \<lparr>wa_resource_metadata = as_resource_metadata_url A,
        wa_scope = Some (join_with '' '' required),
        wa_error = Some InsufficientScope, wa_scope_mode = mode\<rparr>"

definition missing_scopes_for_operation ::
    "JsonRpcPeek \<Rightarrow> (string \<times> OperationRequiredScopes) list \<Rightarrow> string list \<Rightarrow>
     OperationRequiredScopes option" where
  "missing_scopes_for_operation peek required_scopes token_scopes =
     (if peek_method peek \<noteq> ''tools/call'' then None
      else case peek_params peek of
        Some (Some op_name) \<Rightarrow>
          (case map_of required_scopes op_name of
             None \<Rightarrow> None
           | Some required \<Rightarrow>
               if scopes_satisfied_by required token_scopes then None else Some required)
      | _ \<Rightarrow> None)"

section \<open>The handler\<close>

text \<open>The checks on a presented token, once the peek is known (lines 941 to 1034).\<close>

definition authorize ::
    "'u AuthState \<Rightarrow> ('st \<Rightarrow> string \<Rightarrow> ValidToken option \<times> 'st) \<Rightarrow> 'st \<Rightarrow> string \<Rightarrow>
     JsonRpcPeek option \<Rightarrow> Request \<Rightarrow> 'u auth_outcome \<times> 'st" where
  "authorize A validate st token peek request =
     (case validate st token of
        (None, st') \<Rightarrow> (unauthorized_error A, st')
      | (Some valid_token, st') \<Rightarrow>
          (if scopes (as_config A) \<noteq> [] \<and>
              \<not> mode_satisfied_by (scope_mode (as_config A)) (scopes (as_config A)) (vt_scopes valid_token)
           then forbidden_error A (scopes (as_config A)) (Some (scope_mode (as_config A)))
           else (case (case peek of
                         None \<Rightarrow> None
                       | Some p \<Rightarrow> missing_scopes_for_operation p (as_required_scopes A)
                                     (vt_scopes valid_token)) of
                   Some required \<Rightarrow> forbidden_error A (challenge_scopes required) (Some RequireAll)
                 | None \<Rightarrow> Forward (request\<lparr>req_valid_token := Some valid_token\<rparr>)),
           st'))"

text \<open>The peek at the body and the skip lists it decides (lines 896 to 939), then the token.\<close>

definition validate_with_body ::
    "peek_api \<Rightarrow> 'u AuthState \<Rightarrow> ('st \<Rightarrow> string \<Rightarrow> ValidToken option \<times> 'st) \<Rightarrow> 'st \<Rightarrow>
     string option \<Rightarrow> bool \<Rightarrow> JsonRpcPeek option \<Rightarrow> Request \<Rightarrow> 'u auth_outcome \<times> 'st" where
  "validate_with_body P A validate st token app_qualified header_peek request =
     (let skip = as_skip A;
          peek_for_skip = (token = None \<and> needs_body skip);
          (extracted, request) =
            (if header_peek = None \<and> req_method request = POST \<and>
                (peek_for_skip \<or> as_required_scopes A \<noteq> [])
             then (case extract_body P request of
                     (Inr peek, request) \<Rightarrow> (Inr (Some peek), request)
                   | (Inl status, request) \<Rightarrow>
                       ((if token = None then Inr None else Inl status), request))
             else (Inr None, request))
      in case extracted of
           Inl status \<Rightarrow> (Status status, st)
         | Inr body_peek \<Rightarrow>
             if peek_for_skip \<and>
                (case body_peek of None \<Rightarrow> False | Some peek \<Rightarrow> matches_peek skip peek app_qualified)
             then (Forward request, st)
             else (case token of
                     None \<Rightarrow> (unauthorized_error A, st)
                   | Some t \<Rightarrow>
                       authorize A validate st t
                         (case header_peek of Some p \<Rightarrow> Some p | None \<Rightarrow> body_peek) request))"

definition oauth_validate ::
    "peek_api \<Rightarrow> 'u AuthState \<Rightarrow> ('st \<Rightarrow> string \<Rightarrow> ValidToken option \<times> 'st) \<Rightarrow> 'st \<Rightarrow>
     string option \<Rightarrow> Request \<Rightarrow> 'u auth_outcome \<times> 'st" where
  "oauth_validate P A validate st token request =
     (if req_method request = GET \<and> (\<not> as_stateful_mode A \<or> uses_stateless_protocol P request)
      then (Forward request, st)
      else if token = None \<and> matches_headers (as_skip A) (req_headers request)
      then (Forward request, st)
      else (let app_qualified = (app_param_from_query P (req_query request) \<noteq> None);
                enforced = standard_headers_enforced P request;
                header_peek = (if enforced then peek_from_headers P (req_headers request) else None)
            in if enforced \<and> header_peek = None \<and> token = None then (unauthorized_error A, st)
               else case (token, header_peek) of
                 (None, Some peek) \<Rightarrow>
                   (if matches_peek (as_skip A) peek app_qualified then (Forward request, st)
                    else (unauthorized_error A, st))
               | _ \<Rightarrow> validate_with_body P A validate st token app_qualified header_peek request))"

section \<open>The stages\<close>

definition stateless_get :: "peek_api \<Rightarrow> 'u AuthState \<Rightarrow> Request \<Rightarrow> bool" where
  "stateless_get P A request \<longleftrightarrow>
     req_method request = GET \<and> (\<not> as_stateful_mode A \<or> uses_stateless_protocol P request)"

definition trusted_peek :: "peek_api \<Rightarrow> Request \<Rightarrow> JsonRpcPeek option" where
  "trusted_peek P request =
     (if standard_headers_enforced P request then peek_from_headers P (req_headers request) else None)"

definition body_peek :: "peek_api \<Rightarrow> Request \<Rightarrow> JsonRpcPeek option" where
  "body_peek P request = (case fst (extract_body P request) of Inl _ \<Rightarrow> None | Inr p \<Rightarrow> Some p)"

text \<open>The peek per-operation scopes are checked against.\<close>

definition inspected_peek :: "peek_api \<Rightarrow> 'u AuthState \<Rightarrow> Request \<Rightarrow> JsonRpcPeek option" where
  "inspected_peek P A request =
     (case trusted_peek P request of
        Some p \<Rightarrow> Some p
      | None \<Rightarrow> if req_method request = POST \<and> as_required_scopes A \<noteq> []
                then body_peek P request else None)"

lemma extract_body_Inr:
  "extract_body P r = (Inr p, r') \<longleftrightarrow>
     r' = r \<and> (\<exists>bytes. req_body r = Body bytes \<and> length bytes \<le> PEEK_BODY_LIMIT \<and>
                 peek_from_slice P bytes = Some p)"
  by (auto simp: extract_body_def Let_def split: body.splits option.splits if_splits)

lemma body_peek_Some:
  "body_peek P r = Some p \<longleftrightarrow> extract_body P r = (Inr p, r)"
  by (cases "extract_body P r") (auto simp: body_peek_def extract_body_Inr split: sum.splits)

lemma authorize_Forward:
  "authorize A validate st t peek r = (Forward r', st') \<longleftrightarrow>
     (\<exists>vt. validate st t = (Some vt, st') \<and> r' = r\<lparr>req_valid_token := Some vt\<rparr> \<and>
        (scopes (as_config A) = [] \<or>
         mode_satisfied_by (scope_mode (as_config A)) (scopes (as_config A)) (vt_scopes vt)) \<and>
        (\<forall>p. peek = Some p \<longrightarrow>
           missing_scopes_for_operation p (as_required_scopes A) (vt_scopes vt) = None))"
  by (auto simp: authorize_def unauthorized_error_def forbidden_error_def
        split: prod.splits option.splits if_splits)

lemma with_token:
  "validate_with_body P A validate st (Some t) q hp r =
     (if hp = None \<and> req_method r = POST \<and> as_required_scopes A \<noteq> []
      then (case fst (extract_body P r) of
              Inl status \<Rightarrow> (Status status, st)
            | Inr p \<Rightarrow> authorize A validate st t (Some p) r)
      else authorize A validate st t hp r)"
proof (cases "extract_body P r")
  case (Pair a r')
  show ?thesis
  proof (cases a)
    case (Inl status)
    with Pair show ?thesis by (simp add: validate_with_body_def split: option.split)
  next
    case (Inr p)
    with Pair have "r' = r" by (simp add: extract_body_Inr)
    with Pair Inr show ?thesis by (simp add: validate_with_body_def split: option.split)
  qed
qed

lemma without_token:
  "validate_with_body P A validate st None q hp r =
     (if hp = None \<and> req_method r = POST \<and> needs_body (as_skip A) \<and>
         (\<exists>p. body_peek P r = Some p \<and> matches_peek (as_skip A) p q)
      then Forward r else unauthorized_error A, st)"
proof (cases "extract_body P r")
  case (Pair a r')
  show ?thesis
  proof (cases a)
    case (Inl status)
    with Pair show ?thesis by (simp add: validate_with_body_def body_peek_def Let_def)
  next
    case (Inr p)
    with Pair have "r' = r" by (simp add: extract_body_Inr)
    with Pair Inr show ?thesis by (auto simp: validate_with_body_def body_peek_def Let_def)
  qed
qed

lemma oauth_validate_token:
  "oauth_validate P A validate st (Some t) r =
     (if stateless_get P A r then (Forward r, st)
      else validate_with_body P A validate st (Some t)
             (app_param_from_query P (req_query r) \<noteq> None) (trusted_peek P r) r)"
  by (auto simp: oauth_validate_def stateless_get_def trusted_peek_def Let_def)

lemma matches_needs_body: "matches_peek s p q \<Longrightarrow> needs_body s"
  by (auto simp: matches_peek_def matches_method_def matches_tool_def needs_body_def
        split: if_splits option.splits)

lemma oauth_validate_tokenless:
  "oauth_validate P A validate st None r =
     (if stateless_get P A r \<or> matches_headers (as_skip A) (req_headers r) \<or>
         (\<exists>p. (if standard_headers_enforced P r then trusted_peek P r = Some p
               else req_method r = POST \<and> body_peek P r = Some p) \<and>
              matches_peek (as_skip A) p (app_param_from_query P (req_query r) \<noteq> None))
      then Forward r else unauthorized_error A, st)"
  by (auto simp: oauth_validate_def stateless_get_def trusted_peek_def Let_def without_token
        dest: matches_needs_body split: option.splits if_splits)

lemma inspected_missing:
  "(\<forall>p. inspected_peek P A r = Some p \<longrightarrow>
      missing_scopes_for_operation p (as_required_scopes A) ts = None) \<longleftrightarrow>
   (case trusted_peek P r of
      Some p \<Rightarrow> missing_scopes_for_operation p (as_required_scopes A) ts = None
    | None \<Rightarrow> (req_method r = POST \<and> as_required_scopes A \<noteq> [] \<longrightarrow>
        (\<forall>p. body_peek P r = Some p \<longrightarrow>
           missing_scopes_for_operation p (as_required_scopes A) ts = None)))"
  by (auto simp: inspected_peek_def split: option.splits if_splits)

section \<open>Properties of the handler\<close>

text \<open>
  C1: a request that presents a token. A \<open>GET\<close> to a server or protocol without sessions is
  answered by rmcp with a 405 of its own: it is passed on as it is, its token not looked at. Every
  other request is passed on only when the validator accepts the token it presents, the global
  scope requirement holds for the token's scopes, and the scopes of the operation named by the
  trusted headers (or else the body) hold too; what is passed on is the request itself, body
  included, with that validated token attached. Otherwise the answer is a challenge or an error
  status, and no validated token goes anywhere.
\<close>

theorem presented_token_is_enforced:
  assumes "oauth_validate P A validate st (Some t) r = (Forward r', st')"
  shows "if req_method r = GET \<and> (\<not> as_stateful_mode A \<or> uses_stateless_protocol P r)
     then r' = r \<and> st' = st
     else \<exists>vt. validate st t = (Some vt, st') \<and> r' = r\<lparr>req_valid_token := Some vt\<rparr> \<and>
       (scopes (as_config A) = [] \<or>
        mode_satisfied_by (scope_mode (as_config A)) (scopes (as_config A)) (vt_scopes vt)) \<and>
       (\<forall>p. inspected_peek P A r = Some p \<longrightarrow>
          missing_scopes_for_operation p (as_required_scopes A) (vt_scopes vt) = None)"
proof (cases "stateless_get P A r")
  case True
  then show ?thesis using assms by (simp add: oauth_validate_token stateless_get_def)
next
  case False
  then have "validate_with_body P A validate st (Some t) (app_param_from_query P (req_query r) \<noteq> None)
      (trusted_peek P r) r = (Forward r', st')"
    using assms by (simp add: oauth_validate_token)
  with False show ?thesis
    unfolding with_token inspected_missing stateless_get_def
    by (auto simp: authorize_Forward body_peek_def split: if_splits option.splits sum.splits)
qed

lemma resolved_skip_methods:
  "resolve_skip_token_validation c = Inr s \<Longrightarrow>
   skip_methods s = skip_methods (skip_token_validation c) \<or>
   skip_methods s = DEPRECATED_ANONYMOUS_DISCOVERY_METHODS"
  by (auto simp: resolve_skip_token_validation_def split: if_splits)

lemma deserialize_skip_methods_Inr:
  "deserialize_skip_methods ms = Inr ms' \<longleftrightarrow>
   ms' = ms \<and> (\<forall>m \<in> set ms. m \<noteq> TOOL_CALL_METHOD \<and> m \<notin> set RESOLVES_ONE_OF_MANY_METHODS)"
  by (auto simp: deserialize_skip_methods_def list_ex_iff find_None_iff split: option.splits)
     (auto simp: find_Some_iff)

lemma deprecated_methods_clean:
  "m \<in> set DEPRECATED_ANONYMOUS_DISCOVERY_METHODS \<Longrightarrow>
   m \<noteq> TOOL_CALL_METHOD \<and> m \<notin> set RESOLVES_ONE_OF_MANY_METHODS"
  by (auto simp: TOOL_CALL_METHOD_def DEPRECATED_ANONYMOUS_DISCOVERY_METHODS_def
        RESOLVES_ONE_OF_MANY_METHODS_def)

text \<open>
  C22: without a token, a request of a server built from a parsed configuration gets through
  only as a stateless \<open>GET\<close>, by a listed header, or because the peek that rmcp will enforce
  (or the body, when no header is enforced) names a listed method that is not \<open>tools/call\<close>
  and resolves no single resource or prompt, or a listed tool outside any app. Everything else
  is the 401 challenge: never a 400 or 413, and the validator is never consulted.
\<close>

theorem tokenless_requests:
  assumes "deserialize_skip_methods ms = Inr (skip_methods (skip_token_validation c))"
    and "enable_middleware U client c required stateful = Inr A"
    and "oauth_validate P A validate st None r = (outcome, st')"
  shows "st' = st \<and> (outcome = Forward r \<or> outcome = unauthorized_error A) \<and>
     (outcome = Forward r \<longrightarrow>
        stateless_get P A r \<or> matches_headers (as_skip A) (req_headers r) \<or>
        (\<exists>p. (if standard_headers_enforced P r then trusted_peek P r = Some p
              else body_peek P r = Some p) \<and>
           (peek_method p \<in> set (skip_methods (as_skip A)) \<and> peek_method p \<noteq> TOOL_CALL_METHOD \<and>
              peek_method p \<notin> set RESOLVES_ONE_OF_MANY_METHODS \<or>
            peek_method p = TOOL_CALL_METHOD \<and> app_param_from_query P (req_query r) = None \<and>
              (\<exists>tool \<in> set (skip_tools (as_skip A)). peek_params p = Some (Some tool)))))"
proof -
  have "resolve_skip_token_validation c = Inr (as_skip A)"
    using assms(2) by (auto simp: enable_middleware_def Let_def try_result_Inr_iff split: if_splits)
  from resolved_skip_methods [OF this] assms(1)
  have clean: "m \<noteq> TOOL_CALL_METHOD \<and> m \<notin> set RESOLVES_ONE_OF_MANY_METHODS"
    if "m \<in> set (skip_methods (as_skip A))" for m
    using that deprecated_methods_clean [of m] by (auto simp: deserialize_skip_methods_Inr)
  have match: "matches_peek (as_skip A) p q \<longleftrightarrow>
      (peek_method p \<in> set (skip_methods (as_skip A)) \<and> peek_method p \<noteq> TOOL_CALL_METHOD \<and>
         peek_method p \<notin> set RESOLVES_ONE_OF_MANY_METHODS \<or>
       peek_method p = TOOL_CALL_METHOD \<and> \<not> q \<and>
         (\<exists>tool \<in> set (skip_tools (as_skip A)). peek_params p = Some (Some tool)))" for p q
    using clean [of "peek_method p"]
    by (auto simp: matches_peek_def matches_method_def matches_tool_def list_ex_iff
          split: option.splits)
  have "unauthorized_error A \<noteq> Forward r" by (simp add: unauthorized_error_def)
  with assms(3) show ?thesis
    unfolding oauth_validate_tokenless match by (auto split: if_splits)
qed

text \<open>
  Scopes only help. If a token gets a request through, then a validator that grants the
  same token more scopes also gets it through, with the same request passed on.
\<close>

definition grants_more :: "ValidToken option \<times> 'st \<Rightarrow> ValidToken option \<times> 'st \<Rightarrow> bool" where
  "grants_more a b \<longleftrightarrow> snd a = snd b \<and>
     (\<forall>vt. fst a = Some vt \<longrightarrow> (\<exists>vt'. fst b = Some vt' \<and> set (vt_scopes vt) \<subseteq> set (vt_scopes vt')))"

lemma missing_scopes_mono:
  "missing_scopes_for_operation p rs ts = None \<Longrightarrow> set ts \<subseteq> set ts' \<Longrightarrow>
   missing_scopes_for_operation p rs ts' = None"
  by (auto simp: missing_scopes_for_operation_def dest: scopes_satisfied_mono
        split: option.splits if_splits)

lemma authorize_mono:
  assumes "authorize A v1 st t peek r = (Forward r1, st1)" and "grants_more (v1 st t) (v2 st t)"
  shows "\<exists>r2. authorize A v2 st t peek r = (Forward r2, st1) \<and>
     r2\<lparr>req_valid_token := None\<rparr> = r1\<lparr>req_valid_token := None\<rparr>"
proof -
  from assms(1) obtain vt where v1: "v1 st t = (Some vt, st1)" "r1 = r\<lparr>req_valid_token := Some vt\<rparr>"
    "scopes (as_config A) = [] \<or>
     mode_satisfied_by (scope_mode (as_config A)) (scopes (as_config A)) (vt_scopes vt)"
    "\<forall>p. peek = Some p \<longrightarrow> missing_scopes_for_operation p (as_required_scopes A) (vt_scopes vt) = None"
    by (auto simp: authorize_Forward)
  with assms(2) obtain vt' where "v2 st t = (Some vt', st1)" "set (vt_scopes vt) \<subseteq> set (vt_scopes vt')"
    by (cases "v2 st t") (auto simp: grants_more_def)
  with v1 have "authorize A v2 st t peek r = (Forward (r\<lparr>req_valid_token := Some vt'\<rparr>), st1)"
    unfolding authorize_Forward by (blast intro: mode_satisfied_mono missing_scopes_mono)
  with v1(2) show ?thesis by auto
qed

theorem more_scopes_never_hurt:
  assumes "oauth_validate P A v1 st (Some t) r = (Forward r1, st1)"
    and "grants_more (v1 st t) (v2 st t)"
  shows "\<exists>r2. oauth_validate P A v2 st (Some t) r = (Forward r2, st1) \<and>
     r2\<lparr>req_valid_token := None\<rparr> = r1\<lparr>req_valid_token := None\<rparr>"
proof -
  have mono: "\<exists>r2. authorize A v2 st t peek r = (Forward r2, st1) \<and>
      r2\<lparr>req_valid_token := None\<rparr> = r1\<lparr>req_valid_token := None\<rparr>"
    if "authorize A v1 st t peek r = (Forward r1, st1)" for peek
    using that assms(2) by (rule authorize_mono)
  show ?thesis
    using assms(1) mono by (auto simp: oauth_validate_token with_token split: if_splits sum.splits)
qed

text \<open>
  An insufficient-scope challenge for an operation asks for enough: granting the advertised
  scopes (on top of the global ones under \<open>require_all\<close>) turns the 403 into a passed request,
  when every requirement is well formed.
\<close>

theorem challenge_can_be_answered:
  assumes "\<forall>(_, req) \<in> set (as_required_scopes A). scopes_wf req"
    and "missing_scopes_for_operation p (as_required_scopes A) ts = Some required"
    and "set (challenge_scopes required) \<union> set (scopes (as_config A)) \<subseteq> set (vt_scopes vt)"
    and "scope_mode (as_config A) \<noteq> RequireAny \<or> scopes (as_config A) \<noteq> []"
    and "validate st t = (Some vt, st')"
  shows "authorize A validate st t (Some p) r = (Forward (r\<lparr>req_valid_token := Some vt\<rparr>), st')"
proof -
  from assms(2) obtain op where op: "map_of (as_required_scopes A) op = Some required"
    by (auto simp: missing_scopes_for_operation_def split: option.splits if_splits)
  then have "scopes_wf required" using assms(1) by (auto dest: map_of_SomeD)
  then have "scopes_satisfied_by required (vt_scopes vt)"
    using wf_challenge_sufficient scopes_satisfied_mono assms(3) by blast
  with assms(2) op have "missing_scopes_for_operation p (as_required_scopes A) (vt_scopes vt) = None"
    by (auto simp: missing_scopes_for_operation_def split: option.splits if_splits)
  moreover have "scopes (as_config A) = [] \<or>
      mode_satisfied_by (scope_mode (as_config A)) (scopes (as_config A)) (vt_scopes vt)"
    using assms(3,4)
    by (cases "scope_mode (as_config A)"; cases "scopes (as_config A)")
       (auto simp: list_all_iff list_ex_iff)
  ultimately show ?thesis using assms(5) by (simp add: authorize_Forward)
qed


section \<open>Examples\<close>

definition example_peek_api :: peek_api where
  "example_peek_api =
     \<lparr>header_to_str = Some, HEADER_MCP_METHOD = ''mcp-method'', HEADER_MCP_NAME = ''mcp-name'',
      HEADER_MCP_PROTOCOL_VERSION = ''mcp-protocol-version'',
      KNOWN_VERSIONS = [''2025-06-18'', ''2026-07-28''], STANDARD_HEADERS = ''2026-07-28'',
      has_initialize = (\<lambda>v. v = ''2025-06-18''),
      peek_from_slice = (\<lambda>b. if b = ''call:del'' then Some \<lparr>peek_method = ''tools/call'', peek_params = Some (Some ''del'')\<rparr>
         else if b = ''list'' then Some \<lparr>peek_method = ''tools/list'', peek_params = None\<rparr> else None),
      form_urlencoded_parse = (\<lambda>_. [])\<rparr>"

definition example_config :: "simple_url Config" where
  "example_config =
     \<lparr>servers = [''https://a/x''], audiences = [''api''], issuers = [], allow_any_audience = False,
      resource = \<lparr>su_scheme = ''https'', su_host = Some ''mcp'', su_path = ''/mcp'', su_query = None,
        su_fragment = None\<rparr>,
      resource_documentation = None, scopes = [''read''], scope_mode = RequireAll,
      skip_token_validation = \<lparr>skip_methods = [''tools/list''], skip_tools = [], skip_headers = []\<rparr>,
      allow_anonymous_mcp_discovery = False\<rparr>"

definition example_state :: "simple_url AuthState" where
  "example_state =
     \<lparr>as_config = example_config,
      as_resource_metadata_url = build_resource_metadata_url simple_api (resource example_config),
      as_auth_servers = [\<lparr>su_scheme = ''https'', su_host = Some ''a'', su_path = ''/x'', su_query = None,
        su_fragment = None\<rparr>],
      as_required_scopes = [(''del'', OperationRequiredScopes [[''admin'']])],
      as_skip = skip_token_validation example_config, as_stateful_mode = True\<rparr>"

definition example_request :: "string \<Rightarrow> Request" where
  "example_request b = \<lparr>req_method = POST, req_query = None, req_headers = hm_empty, req_body = Body b,
     req_valid_token = None\<rparr>"

definition example_validate :: "string list \<Rightarrow> unit \<Rightarrow> string \<Rightarrow> ValidToken option \<times> unit" where
  "example_validate ss st t = (Some \<lparr>vt_token = t, vt_scopes = ss\<rparr>, st)"

lemmas example_defs = example_peek_api_def example_config_def example_state_def
  example_request_def example_validate_def

lemma example_passes:
  "oauth_validate example_peek_api example_state (example_validate [''read'', ''admin'']) () (Some ''t'')
     (example_request ''call:del'') =
   (Forward ((example_request ''call:del'')\<lparr>req_valid_token :=
      Some \<lparr>vt_token = ''t'', vt_scopes = [''read'', ''admin'']\<rparr>\<rparr>), ())"
  by (simp add: oauth_validate_def example_defs standard_headers_enforced_def validate_with_body_def
        extract_body_def PEEK_BODY_LIMIT_def authorize_def missing_scopes_for_operation_def
        scopes_satisfied_by_def)

theorem presented_token_is_enforced_witness:
  "\<exists>vt. example_validate [''read'', ''admin''] () ''t'' = (Some vt, ()) \<and>
     mode_satisfied_by RequireAll [''read''] (vt_scopes vt)"
  using presented_token_is_enforced [OF example_passes]
  by (auto simp: example_state_def example_config_def example_request_def)

theorem tokenless_requests_witness:
  "oauth_validate example_peek_api example_state (example_validate []) () None (example_request ''list'') =
     (Forward (example_request ''list''), ()) \<and>
   oauth_validate example_peek_api example_state (example_validate []) () None (example_request ''call:del'') =
     (unauthorized_error example_state, ()) \<and>
   (\<exists>p. body_peek example_peek_api (example_request ''list'') = Some p \<and>
        peek_method p \<in> set (skip_methods (as_skip example_state)) \<and> peek_method p \<noteq> TOOL_CALL_METHOD)"
proof -
  have run: "oauth_validate example_peek_api example_state (example_validate []) () None (example_request ''list'') =
      (Forward (example_request ''list''), ())"
    by (simp add: oauth_validate_def example_defs standard_headers_enforced_def validate_with_body_def
          extract_body_def PEEK_BODY_LIMIT_def needs_body_def matches_headers_def matches_peek_def
          matches_method_def Let_def)
  have blocked: "oauth_validate example_peek_api example_state (example_validate []) () None
      (example_request ''call:del'') = (unauthorized_error example_state, ())"
    by (simp add: oauth_validate_def example_defs standard_headers_enforced_def validate_with_body_def
          extract_body_def PEEK_BODY_LIMIT_def needs_body_def matches_headers_def matches_peek_def
          matches_method_def matches_tool_def TOOL_CALL_METHOD_def app_param_from_query_def Let_def)
  have ms: "deserialize_skip_methods [''tools/list''] =
      Inr (skip_methods (skip_token_validation example_config))"
    by (simp add: deserialize_skip_methods_def example_config_def TOOL_CALL_METHOD_def
          RESOLVES_ONE_OF_MANY_METHODS_def)
  have up: "enable_middleware simple_api (Inr ()) example_config
      [(''del'', OperationRequiredScopes [[''admin'']])] True = Inr example_state"
    by (simp add: enable_middleware_def example_config_def example_state_def simple_api_simps
          resolve_skip_token_validation_def Let_def)
  from tokenless_requests [OF ms up run] run blocked show ?thesis
    by (auto simp: example_defs standard_headers_enforced_def stateless_get_def matches_headers_def)
qed

theorem more_scopes_never_hurt_witness:
  "\<exists>r2. oauth_validate example_peek_api example_state (example_validate [''admin'', ''x'', ''read'']) ()
     (Some ''t'') (example_request ''call:del'') = (Forward r2, ())"
proof -
  have "grants_more (example_validate [''read'', ''admin''] () ''t'')
      (example_validate [''admin'', ''x'', ''read''] () ''t'')"
    by (simp add: grants_more_def example_validate_def)
  from more_scopes_never_hurt [OF example_passes, of "example_validate [''admin'', ''x'', ''read'']", OF this]
  show ?thesis by blast
qed

theorem challenge_can_be_answered_witness:
  "authorize example_state (example_validate [''read'', ''admin'']) () ''t''
     (Some \<lparr>peek_method = ''tools/call'', peek_params = Some (Some ''del'')\<rparr>) (example_request ''call:del'') =
   (Forward ((example_request ''call:del'')\<lparr>req_valid_token :=
      Some \<lparr>vt_token = ''t'', vt_scopes = [''read'', ''admin'']\<rparr>\<rparr>), ())"
  by (rule challenge_can_be_answered [of _ _ "[]" "OperationRequiredScopes [[''admin'']]"])
     (simp_all add: example_state_def example_config_def example_validate_def scopes_wf_def
       missing_scopes_for_operation_def scopes_satisfied_by_def challenge_scopes_def)

end
