(* ===== verification/Request_Headers.thy ===== *)
theory Request_Headers
  imports Token_Validator
begin

text \<open>
  HTTP headers and the policies about who may talk to the server: the headers of an upstream
  GraphQL request (\<open>headers.rs\<close>), the allowed hosts and origins handed to rmcp
  (\<open>host_validation.rs\<close>) and the CORS layer (\<open>cors.rs\<close>).
\<close>

section \<open>Upstream request headers\<close>

definition HOP_BY_HOP :: "string list" where
  "HOP_BY_HOP = [''connection'', ''keep-alive'', ''proxy-authenticate'', ''proxy-authorization'',
     ''te'', ''trailers'', ''transfer-encoding'', ''upgrade'', ''content-length'']"

text \<open>\<open>HeaderName::from_str\<close> is the parameter \<open>header_name\<close>.\<close>

definition forward_header ::
    "(string \<Rightarrow> string option) \<Rightarrow> header_map \<Rightarrow> header_map \<Rightarrow> string \<Rightarrow> header_map" where
  "forward_header header_name incoming outgoing header =
     (case header_name header of
        None \<Rightarrow> outgoing
      | Some n \<Rightarrow>
          (case hm_get incoming n of
             None \<Rightarrow> outgoing
           | Some v \<Rightarrow> if List.member HOP_BY_HOP n then outgoing else hm_insert n v outgoing))"

definition forward_headers ::
    "(string \<Rightarrow> string option) \<Rightarrow> string list \<Rightarrow> header_map \<Rightarrow> header_map \<Rightarrow> header_map" where
  "forward_headers header_name names incoming outgoing =
     foldl (forward_header header_name incoming) outgoing names"

definition build_request_headers ::
    "(string \<Rightarrow> string option) \<Rightarrow> header_map \<Rightarrow> string list \<Rightarrow> header_map \<Rightarrow> ValidToken option \<Rightarrow> bool \<Rightarrow>
     header_map" where
  "build_request_headers header_name static_headers names incoming token disable_auth_token_passthrough =
     (let headers = forward_headers header_name names incoming static_headers;
          headers = (if disable_auth_token_passthrough then headers
                     else case token of
                       None \<Rightarrow> headers
                     | Some t \<Rightarrow> hm_insert ''authorization'' (''Bearer '' @ vt_token t) headers)
      in case hm_get incoming ''mcp-session-id'' of
           None \<Rightarrow> headers
         | Some session_id \<Rightarrow> hm_insert ''mcp-session-id'' session_id headers)"

definition forwarded :: "(string \<Rightarrow> string option) \<Rightarrow> string list \<Rightarrow> header_map \<Rightarrow> string \<Rightarrow> bool" where
  "forwarded header_name names incoming n \<longleftrightarrow>
     Some n \<in> header_name ` set names \<and> n \<notin> set HOP_BY_HOP \<and> hm_contains incoming n"

lemma forward_headers_snoc:
  "forward_headers hn (names @ [x]) incoming out =
     forward_header hn incoming (forward_headers hn names incoming out) x"
  by (simp add: forward_headers_def)

lemma forward_headers_at:
  "forward_headers hn names incoming out n =
     (if forwarded hn names incoming n then [the (hm_get incoming n)] else out n)"
proof (induction names rule: rev_induct)
  case Nil
  then show ?case by (simp add: forward_headers_def forwarded_def)
next
  case (snoc x names)
  then show ?case
    unfolding forward_headers_snoc
    by (auto simp: forward_header_def forwarded_def hm_insert_def hm_contains_get
          split: option.splits)
qed

text \<open>The built headers, name by name.\<close>

lemma built_headers:
  "build_request_headers hn static names incoming token disabled n =
     (if n = ''mcp-session-id'' \<and> hm_contains incoming n then [the (hm_get incoming n)]
      else if n = ''authorization'' \<and> token \<noteq> None \<and> \<not> disabled
      then [''Bearer '' @ vt_token (the token)]
      else if forwarded hn names incoming n then [the (hm_get incoming n)]
      else static n)"
  by (auto simp: build_request_headers_def forward_headers_at Let_def hm_insert_def hm_contains_get
        split: option.splits)

section \<open>Allowed hosts and origins\<close>

record HostValidationConfig =
  hv_enabled :: bool
  hv_allowed_hosts :: "string list"
  hv_allowed_origins :: "string list"

text \<open>The builder methods of rmcp's server configuration, as a parameter.\<close>

record 'c rmcp_builder =
  get_allowed_hosts :: "'c \<Rightarrow> string list"
  with_allowed_hosts :: "string list \<Rightarrow> 'c \<Rightarrow> 'c"
  with_allowed_origins :: "string list \<Rightarrow> 'c \<Rightarrow> 'c"
  disable_allowed_hosts :: "'c \<Rightarrow> 'c"
  disable_allowed_origins :: "'c \<Rightarrow> 'c"

definition host_validation_default :: HostValidationConfig where
  "host_validation_default = \<lparr>hv_enabled = True, hv_allowed_hosts = [], hv_allowed_origins = []\<rparr>"

definition merge_hosts :: "string list \<Rightarrow> string list \<Rightarrow> string list" where
  "merge_hosts defaults user =
     foldl (\<lambda>merged host. if list_ex (\<lambda>h. eq_ignore_ascii_case h host) merged then merged
                          else merged @ [host]) defaults user"

definition apply_host_validation :: "'c rmcp_builder \<Rightarrow> HostValidationConfig \<Rightarrow> 'c \<Rightarrow> 'c" where
  "apply_host_validation B v rmcp_config =
     (if \<not> hv_enabled v then disable_allowed_origins B (disable_allowed_hosts B rmcp_config)
      else (let config = (if hv_allowed_hosts v \<noteq> []
                          then with_allowed_hosts B
                                 (merge_hosts (get_allowed_hosts B rmcp_config) (hv_allowed_hosts v))
                                 rmcp_config
                          else rmcp_config)
            in if hv_allowed_origins v \<noteq> [] then with_allowed_origins B (hv_allowed_origins v) config
               else config))"

lemma merge_hosts_snoc:
  "merge_hosts defaults (user @ [host]) =
     (if list_ex (\<lambda>h. eq_ignore_ascii_case h host) (merge_hosts defaults user)
      then merge_hosts defaults user else merge_hosts defaults user @ [host])"
  by (simp add: merge_hosts_def)

lemma merge_hosts_prefix: "\<exists>extra. merge_hosts defaults user = defaults @ extra \<and> set extra \<subseteq> set user"
proof (induction user rule: rev_induct)
  case Nil
  then show ?case by (simp add: merge_hosts_def)
next
  case (snoc host user)
  then show ?case by (auto simp: merge_hosts_snoc)
qed

lemma merge_hosts_covers:
  "host \<in> set user \<Longrightarrow> \<exists>h \<in> set (merge_hosts defaults user). eq_ignore_ascii_case h host"
proof (induction user rule: rev_induct)
  case (snoc x user)
  then show ?case by (auto simp: merge_hosts_snoc list_ex_iff)
qed simp

lemma merge_hosts_distinct:
  "distinct (map ascii_lower defaults) \<Longrightarrow> distinct (map ascii_lower (merge_hosts defaults user))"
proof (induction user rule: rev_induct)
  case Nil
  then show ?case by (simp add: merge_hosts_def)
next
  case (snoc host user)
  then show ?case by (auto simp: merge_hosts_snoc list_ex_iff eq_ignore_ascii_case_def)
qed

text \<open>
  Adding hosts keeps rmcp's loopback defaults in front, covers every configured host up to
  ASCII case, adds nothing else, and introduces no host twice.
\<close>

theorem allowed_hosts_extend_defaults:
  assumes "\<And>hs c. get_allowed_hosts B (with_allowed_hosts B hs c) = hs"
    and "\<And>os c. get_allowed_hosts B (with_allowed_origins B os c) = get_allowed_hosts B c"
    and "hv_enabled v" and "distinct (map ascii_lower (get_allowed_hosts B c))"
  defines "hosts \<equiv> get_allowed_hosts B (apply_host_validation B v c)"
  shows "(\<exists>extra. hosts = get_allowed_hosts B c @ extra \<and> set extra \<subseteq> set (hv_allowed_hosts v)) \<and>
     (\<forall>host \<in> set (hv_allowed_hosts v). \<exists>h \<in> set hosts. eq_ignore_ascii_case h host) \<and>
     distinct (map ascii_lower hosts)"
proof -
  have "hosts = merge_hosts (get_allowed_hosts B c) (hv_allowed_hosts v)"
    using assms(1-3)
    by (simp add: hosts_def apply_host_validation_def Let_def merge_hosts_def)
  then show ?thesis
    using merge_hosts_prefix merge_hosts_covers merge_hosts_distinct [OF assms(4)] by metis
qed

theorem allowed_hosts_extend_defaults_witness:
  "merge_hosts [''localhost'', ''127.0.0.1''] [''LOCALHOST'', ''mcp.example.com''] =
     [''localhost'', ''127.0.0.1'', ''mcp.example.com''] \<and>
   distinct (map ascii_lower (merge_hosts [''localhost'', ''127.0.0.1''] [''LOCALHOST'', ''mcp.example.com'']))"
proof -
  let ?B = "\<lparr>get_allowed_hosts = fst, with_allowed_hosts = \<lambda>hs c. (hs, snd c),
      with_allowed_origins = \<lambda>os c. (fst c, os), disable_allowed_hosts = id,
      disable_allowed_origins = id\<rparr> :: (string list \<times> string list) rmcp_builder"
  let ?v = "host_validation_default\<lparr>hv_allowed_hosts := [''LOCALHOST'', ''mcp.example.com'']\<rparr>"
  have "distinct (map ascii_lower [''localhost'', ''127.0.0.1''])"
    by code_simp
  moreover have "merge_hosts [''localhost'', ''127.0.0.1''] [''LOCALHOST'', ''mcp.example.com''] =
     [''localhost'', ''127.0.0.1'', ''mcp.example.com'']"
    by code_simp
  ultimately show ?thesis
    using allowed_hosts_extend_defaults [of ?B ?v "([''localhost'', ''127.0.0.1''], [])"]
    by (simp add: host_validation_default_def apply_host_validation_def)
qed

section \<open>CORS\<close>

record CorsConfig =
  cors_enabled :: bool
  origins :: "string list"
  match_origins :: "string list"
  allow_any_origin :: bool
  allow_credentials :: bool
  allow_methods :: "string list"
  allow_headers :: "string list"
  expose_headers :: "string list"
  max_age :: "nat option"

definition cors_default :: CorsConfig where
  "cors_default =
     \<lparr>cors_enabled = False, origins = [], match_origins = [], allow_any_origin = False,
      allow_credentials = False, allow_methods = [''GET'', ''POST'', ''DELETE''],
      allow_headers = [''content-type'', ''mcp-protocol-version'', ''mcp-session-id'', ''traceparent'',
        ''tracestate'', ''baggage''],
      expose_headers = [''mcp-session-id'', ''traceparent'', ''tracestate''],
      max_age = Some 7200\<rparr>"

datatype cors_error =
    NotEnabled | CredentialsWithAnyOrigin | NoOrigins
  | InvalidOriginUrl string | InvalidRegexPattern string
  | InvalidOrigin string | InvalidOriginPattern string
  | InvalidHttpMethod | InvalidHeaderNames | InvalidExposedHeaderNames

text \<open>The parsers and the regular expressions of the crates.\<close>

record 're cors_api =
  parses_as_url :: "string \<Rightarrow> bool"
  regex_new :: "string \<Rightarrow> 're option"
  regex_is_match :: "'re \<Rightarrow> string \<Rightarrow> bool"
  header_value :: "string \<Rightarrow> string option"
  parse_method :: "string \<Rightarrow> http_method option"
  parse_header_name :: "string \<Rightarrow> string option"
  origin_to_str :: "string \<Rightarrow> string option"

datatype 're AllowOrigin =
    AnyOrigin | OriginPredicate "string list" "'re list" | OriginList "string list" | OriginsUnset

record 're CorsLayer =
  layer_origin :: "'re AllowOrigin"
  layer_credentials :: bool
  layer_methods :: "http_method list"
  layer_headers :: "string list option"
  layer_expose :: "string list option"
  layer_max_age :: "nat option"

definition parse_or :: "('a \<Rightarrow> 'b option) \<Rightarrow> ('a \<Rightarrow> 'e) \<Rightarrow> 'a \<Rightarrow> ('e, 'b) result" where
  "parse_or f err x = (case f x of None \<Rightarrow> Inl (err x) | Some y \<Rightarrow> Inr y)"

definition cors_validate :: "'re cors_api \<Rightarrow> CorsConfig \<Rightarrow> (cors_error, unit) result" where
  "cors_validate C c =
     (if allow_credentials c \<and> allow_any_origin c then Inl CredentialsWithAnyOrigin
      else if \<not> allow_any_origin c \<and> origins c = [] \<and> match_origins c = [] then Inl NoOrigins
      else try_result
        (collect_results (\<lambda>s. if parses_as_url C s then Inr () else Inl (InvalidOriginUrl s)) (origins c))
        (\<lambda>_. try_result (collect_results (parse_or (regex_new C) InvalidRegexPattern) (match_origins c))
        (\<lambda>_. Inr ())))"

definition build_origins :: "'re cors_api \<Rightarrow> CorsConfig \<Rightarrow> (cors_error, 're AllowOrigin) result" where
  "build_origins C c =
     (if allow_any_origin c then Inr AnyOrigin
      else try_result (collect_results (parse_or (header_value C) InvalidOrigin) (origins c))
        (\<lambda>origin_list.
          if match_origins c \<noteq> []
          then try_result (collect_results (parse_or (regex_new C) InvalidOriginPattern) (match_origins c))
                 (\<lambda>regexes. Inr (OriginPredicate origin_list regexes))
          else if origin_list \<noteq> [] then Inr (OriginList origin_list) else Inr OriginsUnset))"

definition build_cors_layer :: "'re cors_api \<Rightarrow> CorsConfig \<Rightarrow> (cors_error, 're CorsLayer) result" where
  "build_cors_layer C c =
     (if \<not> cors_enabled c then Inl NotEnabled
      else try_result (cors_validate C c) (\<lambda>_.
        try_result (build_origins C c) (\<lambda>origin.
        try_result (collect_results (parse_or (parse_method C) (\<lambda>_. InvalidHttpMethod)) (allow_methods c))
          (\<lambda>methods.
        try_result (collect_results (parse_or (parse_header_name C) (\<lambda>_. InvalidHeaderNames)) (allow_headers c))
          (\<lambda>hs.
        try_result (collect_results (parse_or (parse_header_name C) (\<lambda>_. InvalidExposedHeaderNames)) (expose_headers c))
          (\<lambda>ex.
        Inr \<lparr>layer_origin = origin, layer_credentials = allow_credentials c, layer_methods = methods,
             layer_headers = (if allow_headers c = [] then None else Some hs),
             layer_expose = (if expose_headers c = [] then None else Some ex),
             layer_max_age = max_age c\<rparr>))))))"

text \<open>The origin test of the layer: what the predicate closure and the exact list answer.\<close>

fun origin_allowed :: "'re cors_api \<Rightarrow> 're AllowOrigin \<Rightarrow> string \<Rightarrow> bool" where
  "origin_allowed C AnyOrigin origin = True"
| "origin_allowed C (OriginPredicate exact regexes) origin =
     (if list_ex (\<lambda>e. e = origin) exact then True
      else list_ex (\<lambda>re. regex_is_match C re (case origin_to_str C origin of None \<Rightarrow> [] | Some s \<Rightarrow> s)) regexes)"
| "origin_allowed C (OriginList exact) origin = list_ex (\<lambda>e. e = origin) exact"
| "origin_allowed C OriginsUnset origin = False"

lemma collect_parse_or:
  "collect_results (parse_or f err) xs = Inr ys \<longleftrightarrow> list_all2 (\<lambda>x y. f x = Some y) xs ys"
  unfolding collect_results_Inr
  by (rule arg_cong [where f = "\<lambda>P. list_all2 P xs ys"])
     (auto simp: fun_eq_iff parse_or_def split: option.splits)

lemma list_all2_parsed_set:
  "list_all2 (\<lambda>x y. f x = Some y) xs ys \<Longrightarrow> set ys = {y. \<exists>x \<in> set xs. f x = Some y}"
  by (induction rule: list_all2_induct) auto

lemma build_cors_layer_Inr:
  assumes "build_cors_layer C c = Inr l"
  shows "cors_validate C c = Inr ()" "build_origins C c = Inr (layer_origin l)"
    "layer_credentials l = allow_credentials c"
  using assms by (auto simp: build_cors_layer_def try_result_Inr_iff split: if_splits)

lemma build_origins_test:
  assumes "build_origins C c = Inr ao"
  shows "origin_allowed C ao origin \<longleftrightarrow>
        allow_any_origin c \<or> (\<exists>s \<in> set (origins c). header_value C s = Some origin) \<or>
        (\<exists>p \<in> set (match_origins c). \<exists>re. regex_new C p = Some re \<and>
           regex_is_match C re (case origin_to_str C origin of None \<Rightarrow> [] | Some s \<Rightarrow> s))"
proof (cases "allow_any_origin c")
  case True
  then show ?thesis using assms by (simp add: build_origins_def)
next
  case False
  with assms obtain os where os: "list_all2 (\<lambda>x y. header_value C x = Some y) (origins c) os"
    and ao: "if match_origins c \<noteq> []
       then \<exists>rs. list_all2 (\<lambda>x y. regex_new C x = Some y) (match_origins c) rs \<and> ao = OriginPredicate os rs
       else ao = (if os \<noteq> [] then OriginList os else OriginsUnset)"
    by (auto simp: build_origins_def try_result_Inr_iff collect_parse_or split: if_splits)
  show ?thesis
    using False ao list_all2_parsed_set [OF os]
    by (fastforce simp: list_ex_iff dest!: list_all2_parsed_set split: if_splits)
qed

text \<open>
  A CORS layer that gets built never combines credentials with any origin; unless any origin
  is allowed, it lets an origin through exactly when it equals a configured one or some
  configured pattern matches it, and at least one origin or pattern is configured.
\<close>

theorem cors_layer_origins:
  assumes "build_cors_layer C c = Inr l"
  shows "\<not> (layer_credentials l \<and> layer_origin l = AnyOrigin) \<and>
     (allow_any_origin c = (layer_origin l = AnyOrigin)) \<and>
     (allow_any_origin c \<or> origins c \<noteq> [] \<or> match_origins c \<noteq> []) \<and>
     (origin_allowed C (layer_origin l) origin \<longleftrightarrow>
        allow_any_origin c \<or>
        (\<exists>s \<in> set (origins c). header_value C s = Some origin) \<or>
        (\<exists>p \<in> set (match_origins c). \<exists>re. regex_new C p = Some re \<and>
           regex_is_match C re (case origin_to_str C origin of None \<Rightarrow> [] | Some s \<Rightarrow> s)))"
proof -
  note built = build_cors_layer_Inr [OF assms]
  from built(1) have valid: "\<not> (allow_credentials c \<and> allow_any_origin c)"
    "allow_any_origin c \<or> origins c \<noteq> [] \<or> match_origins c \<noteq> []"
    by (auto simp: cors_validate_def split: if_splits)
  from built(2) have any: "allow_any_origin c = (layer_origin l = AnyOrigin)"
    by (auto simp: build_origins_def try_result_Inr_iff split: if_splits)
  with valid built(3) build_origins_test [OF built(2), of origin] show ?thesis by blast
qed

definition example_cors_api :: "string cors_api" where
  "example_cors_api = \<lparr>parses_as_url = (\<lambda>s. s \<noteq> []), regex_new = Some,
     regex_is_match = (\<lambda>re s. starts_with re s), header_value = Some,
     parse_method = (\<lambda>m. if m = ''GET'' then Some GET else Some (OtherMethod m)),
     parse_header_name = Some, origin_to_str = Some\<rparr>"

theorem cors_layer_origins_witness:
  "\<exists>l. build_cors_layer example_cors_api (cors_default\<lparr>cors_enabled := True, origins := [''https://a''],
      match_origins := [''https://b'']\<rparr>) = Inr l \<and>
     origin_allowed example_cors_api (layer_origin l) ''https://b.c'' \<and>
     \<not> origin_allowed example_cors_api (layer_origin l) ''https://evil''"
proof -
  let ?c = "cors_default\<lparr>cors_enabled := True, origins := [''https://a''], match_origins := [''https://b'']\<rparr>"
  obtain l where l: "build_cors_layer example_cors_api ?c = Inr l"
    by (simp add: build_cors_layer_def cors_validate_def build_origins_def cors_default_def
          example_cors_api_def parse_or_def)
  show ?thesis
    using l cors_layer_origins [OF l, of "''https://b.c''"] cors_layer_origins [OF l, of "''https://evil''"]
    by (auto simp: cors_default_def example_cors_api_def starts_with_def)
qed

end
