(* ===== verification/Health.thy ===== *)
theory Health
  imports Mcp_Prelude "HOL-Library.Word"
begin

text \<open>
  The health check (\<open>health.rs\<close>): the shared counters, the background ticker as a machine
  driven by its timer, rejections, probes and dropped clones, and the answers of the endpoint.
  Durations and instants are nanoseconds (\<open>nat\<close>); the rejection counter is an
  \<open>AtomicUsize\<close> of 64 bits, whose \<open>fetch_add\<close> wraps.
\<close>

section \<open>Configuration\<close>

record ReadinessIntervalConfig =
  sampling :: nat
  unready :: "nat option"

record ReadinessConfig =
  interval :: ReadinessIntervalConfig
  allowed :: "64 word"

record HealthCheckConfig =
  hc_enabled :: bool
  hc_path :: string
  hc_listen :: "string option"
  readiness :: ReadinessConfig

definition seconds :: "nat \<Rightarrow> nat" where
  "seconds s = s * 1000000000"

definition interval_default :: ReadinessIntervalConfig where
  "interval_default = \<lparr>sampling = seconds 5, unready = None\<rparr>"

definition readiness_default :: ReadinessConfig where
  "readiness_default = \<lparr>interval = interval_default, allowed = 100\<rparr>"

definition health_config_default :: HealthCheckConfig where
  "health_config_default =
     \<lparr>hc_enabled = False, hc_path = ''/health'', hc_listen = None, readiness = readiness_default\<rparr>"

text \<open>
  Decoding the interval section. A field with its own \<open>default\<close> attribute takes the default
  of its type when it is missing (\<open>Duration::ZERO\<close> for \<open>sampling\<close>), the other field takes that
  of the container's \<open>Default\<close>; the container's default is used whole when the section is missing.
\<close>

definition decode_interval :: "nat option \<Rightarrow> nat option option \<Rightarrow> ReadinessIntervalConfig" where
  "decode_interval sampling_field unready_field =
     \<lparr>sampling = (case sampling_field of None \<Rightarrow> 0 | Some d \<Rightarrow> d),
      unready = (case unready_field of None \<Rightarrow> unready interval_default | Some u \<Rightarrow> u)\<rparr>"

definition decode_interval_section :: "(nat option \<times> nat option option) option \<Rightarrow> ReadinessIntervalConfig" where
  "decode_interval_section s =
     (case s of None \<Rightarrow> interval_default | Some (sa, un) \<Rightarrow> decode_interval sa un)"

section \<open>The health check and its ticker\<close>

text \<open>
  Where the ticker task stands: waiting for the next sample, sleeping through the recovery
  interval, or gone (aborted, or panicked at \<open>interval_at\<close> with a zero period).
\<close>

datatype ticker_phase = Sampling nat | Recovering nat | Stopped

record HealthCheck =
  hc_config :: HealthCheckConfig
  live :: bool
  ready :: bool
  rejected :: "64 word"
  ticker :: ticker_phase

definition sampling_interval :: "HealthCheckConfig \<Rightarrow> nat" where
  "sampling_interval c = sampling (interval (readiness c))"

definition recovery_interval :: "HealthCheckConfig \<Rightarrow> nat" where
  "recovery_interval c =
     (case unready (interval (readiness c)) of None \<Rightarrow> 2 * sampling_interval c | Some u \<Rightarrow> u)"

text \<open>The head of the outer loop: \<open>interval_at(now + sampling, sampling)\<close>.\<close>

definition start_sampling :: "HealthCheckConfig \<Rightarrow> nat \<Rightarrow> ticker_phase" where
  "start_sampling c now =
     (if sampling_interval c = 0 then Stopped else Sampling (now + sampling_interval c))"

definition new_health :: "HealthCheckConfig \<Rightarrow> nat \<Rightarrow> HealthCheck" where
  "new_health c now =
     \<lparr>hc_config = c, live = True, ready = True, rejected = 0, ticker = start_sampling c now\<rparr>"

text \<open>The task is polled at instant \<open>now\<close>; it does nothing before its timer is due.\<close>

definition ticker_poll :: "nat \<Rightarrow> HealthCheck \<Rightarrow> HealthCheck" where
  "ticker_poll now h =
     (case ticker h of
        Stopped \<Rightarrow> h
      | Sampling due \<Rightarrow>
          if now < due then h
          else if rejected h > allowed (readiness (hc_config h))
          then h\<lparr>ready := False, ticker := Recovering (now + recovery_interval (hc_config h))\<rparr>
          else h\<lparr>ticker := Sampling (due + sampling_interval (hc_config h))\<rparr>
      | Recovering due \<Rightarrow>
          if now < due then h
          else h\<lparr>rejected := 0, ready := True, ticker := start_sampling (hc_config h) now\<rparr>)"

definition record_rejection :: "HealthCheck \<Rightarrow> HealthCheck" where
  "record_rejection h = h\<lparr>rejected := rejected h + 1\<rparr>"

text \<open>\<open>Drop for HealthCheck\<close>: the handle is shared by all clones, and so is the abort.\<close>

definition drop_health :: "HealthCheck \<Rightarrow> HealthCheck" where
  "drop_health h = h\<lparr>ticker := Stopped\<rparr>"

datatype HealthStatus = Up | Down

definition get_health_state :: "HealthCheck \<Rightarrow> string option \<Rightarrow> HealthStatus \<times> nat" where
  "get_health_state h query =
     (case query of
        None \<Rightarrow> (Up, 200)
      | Some q \<Rightarrow>
          (let query_upper = ascii_upper q
           in if starts_with ''READY'' query_upper
              then (if ready h then (Up, 200) else (Down, 503))
              else if starts_with ''LIVE'' query_upper
              then (if live h then (Up, 200) else (Down, 503))
              else (Up, 200)))"

text \<open>
  One request to the endpoint: axum clones the state for the extractor, the handler reads the
  first query parameter (in the map's iteration order, an argument here), and the clone is
  dropped when the handler returns.
\<close>

definition health_endpoint :: "string list \<Rightarrow> HealthCheck \<Rightarrow> (HealthStatus \<times> nat) \<times> HealthCheck" where
  "health_endpoint keys h =
     (get_health_state h (case keys of [] \<Rightarrow> None | k # _ \<Rightarrow> Some k), drop_health h)"

datatype health_event = Poll nat | Rejection | Probe "string list" | DropClone

fun health_step :: "HealthCheck \<Rightarrow> health_event \<Rightarrow> HealthCheck" where
  "health_step h (Poll now) = ticker_poll now h"
| "health_step h Rejection = record_rejection h"
| "health_step h (Probe keys) = snd (health_endpoint keys h)"
| "health_step h DropClone = drop_health h"

abbreviation health_run :: "HealthCheck \<Rightarrow> health_event list \<Rightarrow> HealthCheck" where
  "health_run \<equiv> foldl health_step"

section \<open>Invariant\<close>

text \<open>
  While the ticker runs, being ready and sampling are the same thing; liveness and the
  configuration never change.
\<close>

fun phase_ready :: "ticker_phase \<Rightarrow> bool option" where
  "phase_ready (Sampling _) = Some True"
| "phase_ready (Recovering _) = Some False"
| "phase_ready Stopped = None"

definition health_ok :: "HealthCheckConfig \<Rightarrow> HealthCheck \<Rightarrow> bool" where
  "health_ok c h \<longleftrightarrow>
     hc_config h = c \<and> live h \<and> (case phase_ready (ticker h) of None \<Rightarrow> True | Some r \<Rightarrow> ready h = r)"

lemma start_sampling_ready: "phase_ready (start_sampling c now) \<noteq> Some False"
  by (simp add: start_sampling_def)

lemma health_step_ok: "health_ok c h \<Longrightarrow> health_ok c (health_step h e)"
  using start_sampling_ready [of c]
  by (cases e)
     (auto simp: health_ok_def ticker_poll_def record_rejection_def health_endpoint_def drop_health_def
        start_sampling_def split: ticker_phase.splits option.splits)

interpretation health: started_machine health_step "health_ok c" "new_health c now" for c now
proof unfold_locales
  show "health_ok c (health_step h e)" if "health_ok c h" for h e
    using that by (rule health_step_ok)
  show "health_ok c (new_health c now)"
    by (simp add: health_ok_def new_health_def start_sampling_def)
qed

lemma ready_drops:
  assumes "health_ok c h" and "ready h" and "\<not> ready (health_step h e)"
  shows "allowed (readiness c) < rejected h \<and> (\<exists>now. e = Poll now)"
  using assms
  by (cases e)
     (auto simp: health_ok_def ticker_poll_def record_rejection_def health_endpoint_def drop_health_def
        split: ticker_phase.splits if_splits)

text \<open>
  C27: in every reachable state the server is live; a step can make it unready only when the
  timer finds more rejections than allowed, and a poll at the end of the recovery interval then
  makes it ready again with the counter at zero and the next sample one sampling interval away.
\<close>

theorem readiness_machine:
  assumes "h = health_run (new_health c now) es"
  shows "live h \<and>
     (ready h \<and> \<not> ready (health_step h e) \<longrightarrow>
        (\<exists>t. e = Poll t \<and> allowed (readiness c) < rejected h \<and>
             ticker (health_step h e) = Recovering (t + recovery_interval c))) \<and>
     (ticker h = Recovering due \<and> due \<le> t \<longrightarrow>
        \<not> ready h \<and> ready (ticker_poll t h) \<and> rejected (ticker_poll t h) = 0 \<and>
        ticker (ticker_poll t h) = start_sampling c t)"
proof -
  have ok: "health_ok c h"
    using health.reachable_ok assms by blast
  then show ?thesis
    using ready_drops [OF ok, of e]
    by (auto simp: health_ok_def ticker_poll_def record_rejection_def split: ticker_phase.splits if_splits)
qed

theorem readiness_machine_witness:
  "let c = health_config_default\<lparr>readiness := \<lparr>interval = interval_default, allowed = 1\<rparr>\<rparr>;
       h = health_run (new_health c 0) [Rejection, Rejection, Poll (seconds 5)]
   in live h \<and> \<not> ready h \<and> ready (ticker_poll (seconds 15) h) \<and> rejected (ticker_poll (seconds 15) h) = 0"
proof -
  let ?c = "health_config_default\<lparr>readiness := \<lparr>interval = interval_default, allowed = 1\<rparr>\<rparr>"
  let ?h = "health_run (new_health ?c 0) [Rejection, Rejection, Poll (seconds 5)]"
  have "ticker ?h = Recovering (seconds 15)"
    by (simp add: new_health_def record_rejection_def ticker_poll_def start_sampling_def
          sampling_interval_def recovery_interval_def interval_default_def seconds_def)
  then show ?thesis
    using readiness_machine [OF refl, of ?c 0 "[Rejection, Rejection, Poll (seconds 5)]" Rejection
        "seconds 15" "seconds 15"]
    by (simp add: Let_def)
qed

section \<open>Probes and the ticker\<close>

lemma stopped_run:
  "ticker h = Stopped \<Longrightarrow> ticker (health_run h es) = Stopped \<and> ready (health_run h es) = ready h"
proof (induction es rule: rev_induct)
  case (snoc e es)
  then show ?case
    by (cases e) (auto simp: ticker_poll_def record_rejection_def health_endpoint_def drop_health_def)
qed simp

text \<open>
  C26: the first answered health request stops the ticker for good (its clone of the state is
  dropped, and dropping any clone aborts the shared task): whatever happens afterwards, every
  readiness probe gets the answer of the first one. A server that was ready stays so under any
  number of rejections, and one that was recovering never becomes ready again.
\<close>

theorem probe_freezes_readiness:
  "fst (health_endpoint [''ready''] (health_run (snd (health_endpoint keys h)) es)) =
     (if ready h then (Up, 200) else (Down, 503))"
proof -
  have "ready (health_run (drop_health h) es) = ready h"
    using stopped_run [of "drop_health h" es] by (simp add: drop_health_def)
  moreover have "starts_with ''READY'' (ascii_upper ''ready'')"
    by code_simp
  ultimately show ?thesis
    by (simp add: health_endpoint_def get_health_state_def)
qed

text \<open>
  An interval section that leaves out \<open>sampling\<close> decodes to a zero period (not to the
  documented 5 seconds), with which the ticker never runs and the server reports ready whatever
  is rejected; the whole section missing decodes to the documented default.
\<close>

theorem missing_sampling_disables_readiness:
  "decode_interval_section None = \<lparr>sampling = seconds 5, unready = None\<rparr> \<and>
   ready (health_run (new_health (c\<lparr>readiness := \<lparr>interval = decode_interval_section (Some (None, u)),
      allowed = a\<rparr>\<rparr>) now) es)"
proof -
  let ?h = "new_health (c\<lparr>readiness := \<lparr>interval = decode_interval_section (Some (None, u)), allowed = a\<rparr>\<rparr>) now"
  have "ticker ?h = Stopped"
    by (simp add: new_health_def start_sampling_def sampling_interval_def decode_interval_section_def
          decode_interval_def)
  from stopped_run [OF this, of es] have "ready (health_run ?h es)"
    by (simp add: new_health_def)
  then show ?thesis
    by (simp add: decode_interval_section_def interval_default_def)
qed

end
