(* ===== verification/Graphql_Types.thy ===== *)
theory Graphql_Types
  imports Mcp_Prelude
begin

text \<open>
  The data of \<open>apollo_compiler\<close> that the server reads and builds: GraphQL types, values,
  directives, schema definitions and executable documents. Index maps are association lists in
  insertion order, keyed as the crate keys them.
\<close>

section \<open>Values, types and directives\<close>

datatype gtype =
    Named string
  | NonNullNamed string
  | ListOf gtype
  | NonNullList gtype

fun inner_named_type :: "gtype \<Rightarrow> string" where
  "inner_named_type (Named n) = n"
| "inner_named_type (NonNullNamed n) = n"
| "inner_named_type (ListOf t) = inner_named_type t"
| "inner_named_type (NonNullList t) = inner_named_type t"

datatype gvalue =
    VNull
  | VEnum string
  | VVariable string
  | VString string
  | VFloat string
  | VInt string
  | VBoolean bool
  | VList "gvalue list"
  | VObject "(string \<times> gvalue) list"

fun as_variable :: "gvalue \<Rightarrow> string option" where
  "as_variable (VVariable v) = Some v"
| "as_variable _ = None"

fun as_str :: "gvalue \<Rightarrow> string option" where
  "as_str (VString s) = Some s"
| "as_str _ = None"

record directive =
  dir_name :: string
  dir_arguments :: "(string \<times> gvalue) list"

record input_value_definition =
  iv_description :: "string option"
  iv_name :: string
  iv_ty :: gtype
  iv_default :: "gvalue option"
  iv_directives :: "directive list"

record field_definition =
  fd_description :: "string option"
  fd_name :: string
  fd_arguments :: "input_value_definition list"
  fd_ty :: gtype
  fd_directives :: "directive list"

record enum_value_definition =
  ev_description :: "string option"
  ev_value :: string
  ev_directives :: "directive list"

record directive_definition =
  dd_name :: string
  dd_arguments :: "input_value_definition list"

section \<open>Schemas\<close>

datatype extended_type =
    ScalarType (et_description: "string option") (et_name: string) (et_directives: "directive list")
  | ObjectType (et_description: "string option") (et_name: string) (et_directives: "directive list")
      (et_implements: "string list") (et_fields: "(string \<times> field_definition) list")
  | InterfaceType (et_description: "string option") (et_name: string) (et_directives: "directive list")
      (et_implements: "string list") (et_fields: "(string \<times> field_definition) list")
  | UnionType (et_description: "string option") (et_name: string) (et_directives: "directive list")
      (et_members: "string list")
  | EnumType (et_description: "string option") (et_name: string) (et_directives: "directive list")
      (et_values: "(string \<times> enum_value_definition) list")
  | InputObjectType (et_description: "string option") (et_name: string) (et_directives: "directive list")
      (et_input_fields: "(string \<times> input_value_definition) list")

datatype operation_type = Query | Mutation | Subscription

record schema =
  schema_description :: "string option"
  schema_directives :: "directive list"
  root_operation :: "operation_type \<Rightarrow> string option"
  schema_types :: "(string \<times> extended_type) list"
  directive_definitions :: "(string \<times> directive_definition) list"
  built_in_type :: "string \<Rightarrow> bool"
  built_in_directive :: "string \<Rightarrow> bool"

text \<open>A schema keys each of its types and directives by the name it has, once.\<close>

definition well_keyed :: "schema \<Rightarrow> bool" where
  "well_keyed S \<longleftrightarrow>
     list_all (\<lambda>(k, t). et_name t = k) (schema_types S) \<and> distinct (map fst (schema_types S)) \<and>
     list_all (\<lambda>(k, d). dd_name d = k) (directive_definitions S) \<and>
     distinct (map fst (directive_definitions S))"

lemma well_keyed_type: "well_keyed S \<Longrightarrow> map_of (schema_types S) n = Some t \<Longrightarrow> et_name t = n"
  by (auto simp: well_keyed_def list_all_iff dest: map_of_SomeD)

section \<open>Executable documents\<close>

text \<open>
  Locations are the spans the parser recorded: the offset and the end offset in the source text.
\<close>

datatype selection =
    Field (sel_alias: "string option") (sel_name: string) (sel_arguments: "(string \<times> gvalue) list")
      (sel_directives: "directive list") (sel_selection_set: "selection list")
  | FragmentSpread (spread_name: string) (sel_directives: "directive list")
  | InlineFragment (inline_condition: "string option") (sel_directives: "directive list")
      (sel_selection_set: "selection list")

record fragment_definition =
  frag_name :: string
  frag_type_condition :: string
  frag_selection_set :: "selection list"
  frag_description :: "string option"

record variable_definition =
  vd_name :: string
  vd_ty :: gtype
  vd_default :: "gvalue option"
  vd_directives :: "directive list"
  vd_description :: "string option"
  vd_location :: "(nat \<times> nat) option"

record operation_definition =
  od_operation_type :: operation_type
  od_name :: "string option"
  od_variables :: "variable_definition list"
  od_directives :: "directive list"
  od_selection_set :: "selection list"
  od_description :: "string option"
  od_name_location :: "(nat \<times> nat) option"

datatype ast_definition =
    OperationDefinition operation_definition
  | FragmentDefinition fragment_definition
  | OtherDefinition

end
