(* ===== verification/Minify.thy ===== *)
theory Minify
  imports Graphql_Types
begin

text \<open>
  The compact rendering of schema types for language models (\<open>introspection/minify.rs\<close>).
\<close>

section \<open>Names and descriptions\<close>

definition quote :: string where
  "quote = [CHR 0x22]"

text \<open>\<open>Regex::replace_all\<close> with the pattern \<open>\s+\<close> and a single space.\<close>

fun collapse_white :: "bool \<Rightarrow> string \<Rightarrow> string" where
  "collapse_white inside [] = []"
| "collapse_white inside (c # cs) =
     (if is_white c then (if inside then collapse_white True cs else CHR '' '' # collapse_white True cs)
      else c # collapse_white False cs)"

definition normalize_description :: "string \<Rightarrow> string" where
  "normalize_description desc = collapse_white False (str_trim desc)"

definition shorten_scalar_names :: "string \<Rightarrow> string" where
  "shorten_scalar_names name =
     (if name = ''String'' then ''s''
      else if name = ''Int'' then ''i''
      else if name = ''Float'' then ''f''
      else if name = ''Boolean'' then ''b''
      else if name = ''ID'' then ''d''
      else name)"

fun type_name :: "gtype \<Rightarrow> string" where
  "type_name (ListOf inner) = ''['' @ type_name inner @ '']''"
| "type_name (NonNullList inner) = ''['' @ type_name inner @ '']!''"
| "type_name (Named name) = shorten_scalar_names name"
| "type_name (NonNullNamed name) = shorten_scalar_names name @ ''!''"

definition format_description :: "string option \<Rightarrow> string" where
  "format_description description =
     (case description of None \<Rightarrow> [] | Some desc \<Rightarrow> quote @ normalize_description desc @ quote)"

definition format_type_name_with_description :: "string \<Rightarrow> string option \<Rightarrow> string" where
  "format_type_name_with_description name description = format_description description @ name"

definition format_interfaces :: "string list \<Rightarrow> string" where
  "format_interfaces interfaces = join_with '','' interfaces"

section \<open>Directives, fs and arguments\<close>

definition DIRECTIVES_TO_MINIFY :: "(string \<times> string) list" where
  "DIRECTIVES_TO_MINIFY = [(''deprecated'', ''D'')]"

definition minify_directive :: "directive \<Rightarrow> string" where
  "minify_directive directive =
     (case map_of DIRECTIVES_TO_MINIFY (dir_name directive) of
        None \<Rightarrow> []
      | Some minified_name \<Rightarrow>
          (case (if dir_arguments directive = [] then None
                 else (case find (\<lambda>a. fst a = ''reason'') (dir_arguments directive) of
                         None \<Rightarrow> None | Some a \<Rightarrow> as_str (snd a))) of
             Some reason \<Rightarrow>
               ''@'' @ minified_name @ ''('' @ quote @ normalize_description reason @ quote @ '')''
           | None \<Rightarrow> ''@'' @ minified_name))"

definition minify_directives :: "directive list \<Rightarrow> string" where
  "minify_directives directives = foldl (\<lambda>result d. result @ minify_directive d) [] directives"

definition minify_argument :: "input_value_definition \<Rightarrow> string" where
  "minify_argument arg =
     format_description (iv_description arg) @ iv_name arg @ '':'' @ type_name (iv_ty arg) @
     minify_directives (iv_directives arg)"

definition minify_arguments :: "input_value_definition list \<Rightarrow> string" where
  "minify_arguments arguments = join_with '','' (map minify_argument arguments)"

text \<open>
  The field loops push onto one buffer and pop the trailing comma; \<open>butlast\<close> is \<open>String::pop\<close>.
\<close>

definition push_field :: "string \<Rightarrow> string \<times> field_definition \<Rightarrow> string" where
  "push_field result nf =
     (case nf of (field_name, field) \<Rightarrow>
        result @ format_description (fd_description field) @ field_name @
        (if fd_arguments field \<noteq> [] then ''('' @ minify_arguments (fd_arguments field) @ '')'' else []) @
        '':'' @ type_name (fd_ty field) @ minify_directives (fd_directives field) @ '','')"

definition minify_fields :: "(string \<times> field_definition) list \<Rightarrow> string" where
  "minify_fields fs =
     (let result = foldl push_field [] fs
      in if result \<noteq> [] then butlast result else result)"

definition push_input_field :: "string \<Rightarrow> string \<times> input_value_definition \<Rightarrow> string" where
  "push_input_field result nf =
     (case nf of (field_name, field) \<Rightarrow>
        result @ format_description (iv_description field) @ field_name @ '':'' @
        type_name (iv_ty field) @ minify_directives (iv_directives field) @ '','')"

definition minify_input_fields :: "(string \<times> input_value_definition) list \<Rightarrow> string" where
  "minify_input_fields fs =
     (let result = foldl push_input_field [] fs
      in if result \<noteq> [] then butlast result else result)"

section \<open>Types\<close>

fun minify :: "extended_type \<Rightarrow> string" where
  "minify (ScalarType description name directives) = shorten_scalar_names name"
| "minify (ObjectType description name directives implements_interfaces fs) =
     (let rendered = minify_fields fs;
          tn = format_type_name_with_description name description;
          interfaces = format_interfaces implements_interfaces
      in if interfaces = [] then ''T:'' @ tn @ '':'' @ rendered
         else ''T:'' @ tn @ ''<'' @ interfaces @ ''>:'' @ rendered)"
| "minify (InterfaceType description name directives implements_interfaces fs) =
     ''F:'' @ format_type_name_with_description name description @ '':'' @ minify_fields fs"
| "minify (UnionType description name directives members) =
     ''U:'' @ format_type_name_with_description name description @ '':'' @ join_with '','' members"
| "minify (EnumType description name directives values) =
     ''E:'' @ format_type_name_with_description name description @ '':'' @ join_with '','' (map fst values)"
| "minify (InputObjectType description name directives fs) =
     ''I:'' @ format_type_name_with_description name description @ '':'' @ minify_input_fields fs"

section \<open>The buffer loops are joins\<close>

definition minify_field :: "string \<times> field_definition \<Rightarrow> string" where
  "minify_field nf =
     (case nf of (field_name, field) \<Rightarrow>
        format_description (fd_description field) @ field_name @
        (if fd_arguments field \<noteq> [] then ''('' @ minify_arguments (fd_arguments field) @ '')'' else []) @
        '':'' @ type_name (fd_ty field) @ minify_directives (fd_directives field))"

lemma foldl_push_comma:
  assumes "\<And>r x. push r x = r @ f x @ '',''"
  shows "(let result = foldl push [] xs in if result \<noteq> [] then butlast result else result) =
    join_with '','' (map f xs)"
proof -
  have run: "foldl push r xs = r @ concat (map (\<lambda>x. f x @ '','') xs)" for r
    by (induction xs arbitrary: r) (simp_all add: assms)
  have pop: "butlast (concat (map (\<lambda>x. f x @ '','') xs)) = join_with '','' (map f xs)"
  proof (induction xs rule: induct_list012)
    case (3 x y zs)
    have "concat (map (\<lambda>x. f x @ '','') (y # zs)) \<noteq> []" by simp
    then have "butlast (concat (map (\<lambda>x. f x @ '','') (x # y # zs))) =
        f x @ '','' @ butlast (concat (map (\<lambda>x. f x @ '','') (y # zs)))"
      by (simp add: butlast_append)
    then show ?case using "3.IH" by simp
  qed (simp_all add: butlast_append)
  show ?thesis
    using run [of "[]"] pop by (simp add: Let_def)
qed

lemma minify_fields_join: "minify_fields fs = join_with '','' (map minify_field fs)"
  unfolding minify_fields_def
  by (rule foldl_push_comma) (simp add: push_field_def minify_field_def split: prod.splits)

lemma minify_input_fields_join:
  "minify_input_fields fs = join_with '','' (map (\<lambda>(n, f). minify_argument (f\<lparr>iv_name := n\<rparr>)) fs)"
  unfolding minify_input_fields_def
  by (rule foldl_push_comma) (simp add: push_input_field_def minify_argument_def split: prod.splits)

section \<open>Descriptions stay on one line\<close>

lemma is_white_space [simp]: "is_white CHR '' ''"
  by (simp add: is_white_def)

lemma split_white_from_leading: "split_white_from [] (dropWhile is_white s) = split_white_from [] s"
  by (induction s) auto

lemma split_white_from_trailing:
  "\<forall>c \<in> set ws. is_white c \<Longrightarrow> split_white_from w (s @ ws) = split_white_from w s"
proof (induction s arbitrary: w)
  case Nil
  then show ?case by (induction ws arbitrary: w) auto
qed auto

lemma split_white_trim: "split_white (str_trim s) = split_white s"
proof -
  let ?l = "dropWhile is_white s"
  have "str_trim s @ rev (takeWhile is_white (rev ?l)) = ?l"
    unfolding str_trim_def by (metis rev_append rev_rev_ident takeWhile_dropWhile_id)
  moreover have "\<forall>c \<in> set (rev (takeWhile is_white (rev ?l))). is_white c"
    by (auto dest: set_takeWhileD)
  ultimately have "split_white_from [] (str_trim s) = split_white_from [] ?l"
    by (metis split_white_from_trailing)
  then show ?thesis
    by (simp add: split_white_def split_white_from_leading)
qed

lemma str_trim_last:
  assumes "str_trim s \<noteq> []"
  shows "\<not> is_white (List.last (str_trim s))"
proof -
  let ?m = "dropWhile is_white (rev (dropWhile is_white s))"
  from assms have "?m \<noteq> []" by (simp only: str_trim_def rev_is_Nil_conv not_False_eq_True)
  from hd_dropWhile [OF this] show ?thesis
    by (simp add: str_trim_def last_rev)
qed

lemma str_trim_hd:
  assumes "str_trim s \<noteq> []"
  shows "\<not> is_white (hd (str_trim s))"
proof -
  let ?l = "dropWhile is_white s"
  have eq: "str_trim s @ rev (takeWhile is_white (rev ?l)) = ?l"
    unfolding str_trim_def by (metis rev_append rev_rev_ident takeWhile_dropWhile_id)
  with assms have "?l \<noteq> []" by (metis append_is_Nil_conv)
  moreover from eq assms have "hd (str_trim s) = hd ?l" by (metis hd_append2)
  ultimately show ?thesis using hd_dropWhile [of is_white s] by simp
qed

lemma split_white_from_nonwhite: "c \<in> set s \<Longrightarrow> \<not> is_white c \<Longrightarrow> split_white_from w s \<noteq> []"
proof (induction s arbitrary: w)
  case (Cons d s)
  show ?case
  proof (cases "c \<in> set s")
    case True
    then show ?thesis using Cons by auto
  next
    case False
    with Cons.prems have "d = c" by simp
    have "split_white_from (x # v) s \<noteq> []" for x v
      by (induction s arbitrary: x v) auto
    then show ?thesis using \<open>d = c\<close> Cons.prems by simp
  qed
qed simp

lemma collapse_white_join:
  assumes "s = [] \<or> \<not> is_white (List.last s)" and "inside \<longleftrightarrow> w = []"
  shows "rev w @ collapse_white inside s = join_with '' '' (split_white_from w s)"
  using assms
proof (induction s arbitrary: inside w)
  case Nil
  then show ?case by simp
next
  case (Cons c cs)
  from Cons.prems(1) have tail: "cs = [] \<or> \<not> is_white (List.last cs)" by (auto split: if_splits)
  show ?case
  proof (cases "is_white c")
    case False
    then show ?thesis using Cons.IH [OF tail, of False "c # w"] by simp
  next
    case True
    with Cons.prems(1) have cs: "cs \<noteq> []" "\<not> is_white (List.last cs)" by (auto split: if_splits)
    then have more: "split_white_from [] cs \<noteq> []"
      by (intro split_white_from_nonwhite [of "List.last cs"]) auto
    from Cons.IH [OF tail, of True "[]"] have rest: "collapse_white True cs = join_with '' '' (split_white_from [] cs)"
      by simp
    show ?thesis
      using True rest more Cons.prems(2) by (cases "split_white_from [] cs") auto
  qed
qed

lemma normalize_words: "normalize_description d = join_with '' '' (split_white d)"
proof (cases "str_trim d")
  case Nil
  then have "split_white d = []" using split_white_trim [of d] by (simp add: split_white_def)
  with Nil show ?thesis by (simp add: normalize_description_def)
next
  case (Cons c cs)
  with str_trim_hd [of d] have c: "\<not> is_white c" by simp
  have "cs = [] \<or> \<not> is_white (List.last cs)"
    using Cons str_trim_last [of d] by (auto split: if_splits)
  from collapse_white_join [OF this, of False "[c]"] c show ?thesis
    using Cons split_white_trim [of d] by (simp add: normalize_description_def split_white_def)
qed

text \<open>
  Normalising a description yields exactly its words joined by single spaces: no word is
  lost, split or merged with its neighbour, the result has no other white space, and normalising
  it again changes nothing.
\<close>

theorem normalize_description_words:
  "normalize_description desc = join_with '' '' (split_white desc) \<and>
   split_white (normalize_description desc) = split_white desc \<and>
   normalize_description (normalize_description desc) = normalize_description desc"
proof -
  have "split_white (join_with '' '' (split_white desc)) = split_white desc"
    by (rule split_white_join) (use split_white_words in blast)
  then show ?thesis by (simp add: normalize_words)
qed

section \<open>Every type is one line\<close>

text \<open>The names of a type, wherever they are printed, hold no line break (GraphQL names never do).\<close>

definition one_line :: "string \<Rightarrow> bool" where
  "one_line s \<longleftrightarrow> CHR 0x0A \<notin> set s"

lemma one_line_simps [simp]:
  "one_line []"
  "one_line (c # cs) \<longleftrightarrow> c \<noteq> CHR 0x0A \<and> one_line cs"
  "one_line (s @ u) \<longleftrightarrow> one_line s \<and> one_line u"
  by (auto simp: one_line_def)

lemma one_line_join [intro!]: "one_line d \<Longrightarrow> (\<forall>s \<in> set ss. one_line s) \<Longrightarrow> one_line (join_with d ss)"
  by (induction d ss rule: join_with.induct) auto

lemma one_line_words [simp]: "one_line (normalize_description desc)"
proof -
  have "is_white CHR 0x0A" by (simp add: is_white_def)
  then have "\<forall>s \<in> set (split_white desc). one_line s"
    using split_white_words by (auto simp: one_line_def)
  moreover have "normalize_description desc = join_with '' '' (split_white desc)"
    using normalize_words by blast
  ultimately show ?thesis by auto
qed

lemma one_line_description [simp]: "one_line (format_description d)"
  by (simp add: format_description_def quote_def split: option.splits)

fun names_one_line :: "gtype \<Rightarrow> bool" where
  "names_one_line t = one_line (inner_named_type t)"

lemma one_line_type_name [simp]: "one_line (inner_named_type t) \<Longrightarrow> one_line (type_name t)"
  by (induction t) (auto simp: shorten_scalar_names_def)

lemma one_line_directives [simp]: "one_line (minify_directives ds)"
proof -
  have one: "one_line (minify_directive d)" for d
    by (simp add: minify_directive_def DIRECTIVES_TO_MINIFY_def quote_def split: option.splits)
  have "one_line r \<Longrightarrow> one_line (foldl (\<lambda>r d. r @ minify_directive d) r ds)" for r
    by (induction ds arbitrary: r) (simp_all add: one)
  then show ?thesis by (simp add: minify_directives_def)
qed

definition clean_input :: "input_value_definition \<Rightarrow> bool" where
  "clean_input iv \<longleftrightarrow> one_line (iv_name iv) \<and> names_one_line (iv_ty iv)"

definition clean_field :: "field_definition \<Rightarrow> bool" where
  "clean_field fd \<longleftrightarrow> names_one_line (fd_ty fd) \<and> list_all clean_input (fd_arguments fd)"

fun clean_type :: "extended_type \<Rightarrow> bool" where
  "clean_type (ScalarType _ n _) = one_line n"
| "clean_type (ObjectType _ n _ is fs) =
     (one_line n \<and> list_all one_line is \<and> list_all (\<lambda>(k, f). one_line k \<and> clean_field f) fs)"
| "clean_type (InterfaceType _ n _ is fs) =
     (one_line n \<and> list_all (\<lambda>(k, f). one_line k \<and> clean_field f) fs)"
| "clean_type (UnionType _ n _ ms) = (one_line n \<and> list_all one_line ms)"
| "clean_type (EnumType _ n _ vs) = (one_line n \<and> list_all (\<lambda>(k, v). one_line k) vs)"
| "clean_type (InputObjectType _ n _ fs) =
     (one_line n \<and> list_all (\<lambda>(k, f). one_line k \<and> names_one_line (iv_ty f)) fs)"

lemma one_line_argument [simp]: "clean_input iv \<Longrightarrow> one_line (minify_argument iv)"
  by (simp add: minify_argument_def clean_input_def)

lemma one_line_field [simp]: "one_line k \<Longrightarrow> clean_field f \<Longrightarrow> one_line (minify_field (k, f))"
  by (auto simp: minify_field_def clean_field_def minify_arguments_def list_all_iff)

lemma one_line_fields [simp]:
  "list_all (\<lambda>(k, f). one_line k \<and> clean_field f) fs \<Longrightarrow> one_line (minify_fields fs)"
  by (fastforce simp: minify_fields_join list_all_iff)

lemma one_line_input_fields [simp]:
  "list_all (\<lambda>(k, f). one_line k \<and> names_one_line (iv_ty f)) fs \<Longrightarrow> one_line (minify_input_fields fs)"
  by (fastforce simp: minify_input_fields_join list_all_iff clean_input_def)

lemma minify_one_line: "clean_type t \<Longrightarrow> one_line (minify t)"
  by (cases t)
     (auto simp: Let_def format_type_name_with_description_def format_interfaces_def
        shorten_scalar_names_def list_all_iff case_prod_beta)

lemma split_on_line:
  "one_line s \<Longrightarrow> split_on_from CHR 0x0A w (s @ rest) = split_on_from CHR 0x0A (rev s @ w) rest"
  by (induction s arbitrary: w) auto

lemma split_join_lines:
  "ss \<noteq> [] \<Longrightarrow> \<forall>s \<in> set ss. one_line s \<Longrightarrow> split_on CHR 0x0A (join_with [CHR 0x0A] ss) = ss"
proof (induction ss rule: induct_list012)
  case (2 s)
  then show ?case using split_on_line [of s "[]" "[]"] by (simp add: split_on_def)
next
  case (3 s u ss)
  then show ?case
    using split_on_line [of s "[]" "CHR 0x0A # join_with [CHR 0x0A] (u # ss)"] by (simp add: split_on_def)
qed simp

text \<open>
  C30: the minified form of a type is a single line, whatever line breaks its descriptions and
  deprecation reasons hold, so a listing of types one per line reads back as the same list.
\<close>

theorem minified_listing_roundtrip:
  assumes "ts \<noteq> []" and "\<And>t. t \<in> set ts \<Longrightarrow> clean_type t"
  shows "split_on CHR 0x0A (join_with [CHR 0x0A] (map minify ts)) = map minify ts"
  using assms by (intro split_join_lines) (auto simp: minify_one_line)

theorem minified_listing_roundtrip_witness:
  "split_on CHR 0x0A (join_with [CHR 0x0A] (map minify
     [ObjectType (Some [CHR ''a'', CHR 0x0A, CHR ''b'']) ''Query'' [] [] [],
      UnionType None ''U'' [] [''A'', ''B'']])) =
   [''T:'' @ quote @ ''a b'' @ quote @ ''Query:'', ''U:U:A,B'']"
proof -
  let ?ts = "[ObjectType (Some [CHR ''a'', CHR 0x0A, CHR ''b'']) ''Query'' [] [] [],
      UnionType None ''U'' [] [''A'', ''B'']]"
  have "map minify ?ts = [''T:'' @ quote @ ''a b'' @ quote @ ''Query:'', ''U:U:A,B'']"
    by code_simp
  moreover have "split_on CHR 0x0A (join_with [CHR 0x0A] (map minify ?ts)) = map minify ?ts"
    by (rule minified_listing_roundtrip) auto
  ultimately show ?thesis by metis
qed

end
