(* ===== verification/Tree_Shake.thy ===== *)
theory Tree_Shake
  imports Graphql_Types "HOL-Library.Word"
begin

text \<open>
  Tree shaking of GraphQL schemas (\<open>schema_tree_shake.rs\<close>): marking the types and fields that
  an operation or a root type needs, and building the document of what is retained.

  The borrowed schema is an argument. The recursion of \<open>retain_type\<close>, \<open>retain_fragments\<close>
  and \<open>retain_directive\<close> follows the schema and the fragments of a document, which may be
  cyclic; it carries fuel, the number of nested calls the stack has room for, and \<open>None\<close> is
  running out of it. \<open>usize\<close> is 64 bits wide and wraps, as in a release build.
\<close>

section \<open>State\<close>

record RootOperationNames =
  query_name :: string
  mutation_name :: string
  subscription_name :: string

definition operation_name_or :: "operation_type \<Rightarrow> string \<Rightarrow> schema \<Rightarrow> string" where
  "operation_name_or ot default_name S =
     (case root_operation S ot of None \<Rightarrow> default_name | Some r \<Rightarrow> r)"

definition new_root_operation_names :: "schema \<Rightarrow> RootOperationNames" where
  "new_root_operation_names S =
     \<lparr>query_name = operation_name_or Query ''query'' S,
      mutation_name = operation_name_or Mutation ''mutation'' S,
      subscription_name = operation_name_or Subscription ''subscription'' S\<rparr>"

fun name_for_operation_type :: "RootOperationNames \<Rightarrow> operation_type \<Rightarrow> string" where
  "name_for_operation_type r Query = query_name r"
| "name_for_operation_type r Mutation = mutation_name r"
| "name_for_operation_type r Subscription = subscription_name r"

datatype DepthLimit = Unlimited | Limited "64 word"

fun depth_reached :: "DepthLimit \<Rightarrow> bool" where
  "depth_reached Unlimited = False"
| "depth_reached (Limited depth) = (depth = 0)"

fun depth_decrement :: "DepthLimit \<Rightarrow> DepthLimit" where
  "depth_decrement Unlimited = Unlimited"
| "depth_decrement (Limited depth) = Limited (depth - 1)"

record TreeTypeNode =
  retain :: bool
  filtered_field :: "string list option"

record TreeDirectiveNode =
  dn_node :: directive_definition
  dn_retain :: bool

record SchemaTreeShaker =
  named_type_nodes :: "string \<rightharpoonup> TreeTypeNode"
  directive_nodes :: "string \<rightharpoonup> TreeDirectiveNode"
  operation_types :: "operation_type list"
  operation_type_names :: RootOperationNames
  named_fragments :: "string \<rightharpoonup> fragment_definition"
  arguments_descriptions :: "string \<rightharpoonup> string list"

definition new_shaker :: "schema \<Rightarrow> SchemaTreeShaker" where
  "new_shaker S =
     \<lparr>named_type_nodes = foldl (\<lambda>nodes nt. nodes(et_name (snd nt) \<mapsto>
         \<lparr>retain = False, filtered_field = None\<rparr>)) Map.empty (schema_types S),
      directive_nodes = foldl (\<lambda>nodes nd. nodes(fst nd \<mapsto>
         \<lparr>dn_node = snd nd, dn_retain = False\<rparr>)) Map.empty (directive_definitions S),
      operation_types = [],
      operation_type_names = new_root_operation_names S,
      named_fragments = Map.empty,
      arguments_descriptions = Map.empty\<rparr>"

section \<open>The loops of the traversal\<close>

text \<open>A \<open>for_each\<close> whose body may run out of stack.\<close>

fun for_each :: "('a \<Rightarrow> 's \<Rightarrow> 's option) \<Rightarrow> 'a list \<Rightarrow> 's \<Rightarrow> 's option" where
  "for_each f [] s = Some s"
| "for_each f (x # xs) s = (case f x s of None \<Rightarrow> None | Some s' \<Rightarrow> for_each f xs s')"

fun selection_set_to_fields :: "selection \<Rightarrow> selection list" where
  "selection_set_to_fields (Field al n args ds ss) =
     (if n = ''__typename'' then [] else [Field al n args ds ss])"
| "selection_set_to_fields (FragmentSpread n ds) = []"
| "selection_set_to_fields (InlineFragment tc ds ss) = []"

definition retain_argument_descriptions ::
    "input_value_definition \<Rightarrow> (string \<rightharpoonup> string) \<Rightarrow> SchemaTreeShaker \<Rightarrow> SchemaTreeShaker" where
  "retain_argument_descriptions arg operation_arguments s =
     (case (operation_arguments (iv_name arg), iv_description arg) of
        (Some op_arg_name, Some description) \<Rightarrow>
          if str_trim description \<noteq> []
          then s\<lparr>arguments_descriptions := (arguments_descriptions s)(op_arg_name \<mapsto>
                 (case arguments_descriptions s op_arg_name of None \<Rightarrow> [] | Some ds \<Rightarrow> ds)
                   @ [str_trim description])\<rparr>
          else s
      | _ \<Rightarrow> s)"

definition build_argument_name_to_value_map :: "(string \<times> gvalue) list \<Rightarrow> (string \<rightharpoonup> string)" where
  "build_argument_name_to_value_map arguments =
     map_of (rev (filter_map (\<lambda>a. case as_variable (snd a) of None \<Rightarrow> None
                                | Some v \<Rightarrow> Some (fst a, v)) arguments))"

text \<open>
  The bodies of the loops take the recursive functions as arguments: \<open>rt\<close> for \<open>retain_type\<close>
  and \<open>rd\<close> for \<open>retain_directive\<close> of the same stack budget.
\<close>

type_synonym retain_type_fn =
  "extended_type \<Rightarrow> selection list option \<Rightarrow> DepthLimit \<Rightarrow> SchemaTreeShaker \<Rightarrow> SchemaTreeShaker option"
type_synonym retain_directive_fn =
  "string \<Rightarrow> DepthLimit \<Rightarrow> SchemaTreeShaker \<Rightarrow> SchemaTreeShaker option"

text \<open>\<open>if let Some(t) = schema.types.get(name) { retain_type(...) }\<close>\<close>

definition retain_named ::
    "retain_type_fn \<Rightarrow> schema \<Rightarrow> string \<Rightarrow> selection list option \<Rightarrow> DepthLimit \<Rightarrow>
     SchemaTreeShaker \<Rightarrow> SchemaTreeShaker option" where
  "retain_named rt S name sel d s =
     (case map_of (schema_types S) name of None \<Rightarrow> Some s | Some t \<Rightarrow> rt t sel d s)"

text \<open>
  One row of the field loops: the field's name and definition, and what the operation selects
  there (directives, selection set, arguments by name).
\<close>

type_synonym field_row =
  "string \<times> field_definition option \<times> directive list option \<times> selection list option \<times> (string \<rightharpoonup> string)"

definition field_rows :: "(string \<times> field_definition) list \<Rightarrow> selection list option \<Rightarrow> field_row list" where
  "field_rows fs selected =
     (case selected of
        Some sels \<Rightarrow> map (\<lambda>f. (sel_name f, map_of fs (sel_name f), Some (sel_directives f),
                              Some (sel_selection_set f), build_argument_name_to_value_map (sel_arguments f))) sels
      | None \<Rightarrow> map (\<lambda>(name, fd). (name, Some fd, None, None, Map.empty)) fs)"

fun retain_object_field ::
    "retain_type_fn \<Rightarrow> retain_directive_fn \<Rightarrow> schema \<Rightarrow> DepthLimit \<Rightarrow> field_row \<Rightarrow>
     SchemaTreeShaker \<Rightarrow> SchemaTreeShaker option" where
  "retain_object_field rt rd S d (name, fdef, sdirs, ssel, args) s =
     Option.bind
       (case fdef of
          None \<Rightarrow> Some s
        | Some fd \<Rightarrow>
            Option.bind (retain_named rt S (inner_named_type (fd_ty fd)) ssel (depth_decrement d) s)
              (for_each (\<lambda>arg s. retain_named rt S (inner_named_type (iv_ty arg)) None (depth_decrement d)
                                   (retain_argument_descriptions arg args s)) (fd_arguments fd)))
       (\<lambda>s. Option.bind
         (case fdef of
            None \<Rightarrow> Some s
          | Some fd \<Rightarrow> for_each (\<lambda>dir. rd (dir_name dir) d) (fd_directives fd) s)
         (\<lambda>s. case sdirs of
            None \<Rightarrow> Some s
          | Some dirs \<Rightarrow>
              for_each (\<lambda>dir s. rd (dir_name dir) d
                (case map_of (directive_definitions S) (dir_name dir) of
                   None \<Rightarrow> s
                 | Some dd \<Rightarrow>
                     foldl (\<lambda>s arg. retain_argument_descriptions arg
                              (build_argument_name_to_value_map (dir_arguments dir)) s) s (dd_arguments dd)))
                dirs s))"

fun retain_interface_field ::
    "retain_type_fn \<Rightarrow> retain_directive_fn \<Rightarrow> schema \<Rightarrow> DepthLimit \<Rightarrow> field_row \<Rightarrow>
     SchemaTreeShaker \<Rightarrow> SchemaTreeShaker option" where
  "retain_interface_field rt rd S d (name, fdef, sdirs, ssel, args) s =
     Option.bind
       (case fdef of
          None \<Rightarrow> Some s
        | Some fd \<Rightarrow>
            Option.bind (retain_named rt S (inner_named_type (fd_ty fd)) ssel (depth_decrement d) s)
              (for_each (\<lambda>arg. retain_named rt S (inner_named_type (iv_ty arg)) None (depth_decrement d))
                (fd_arguments fd)))
       (\<lambda>s. Option.bind
         (case fdef of
            None \<Rightarrow> Some s
          | Some fd \<Rightarrow> for_each (\<lambda>dir. rd (dir_name dir) d) (fd_directives fd) s)
         (\<lambda>s. case sdirs of
            None \<Rightarrow> Some s
          | Some dirs \<Rightarrow> for_each (\<lambda>dir. rd (dir_name dir) d) dirs s))"

text \<open>The part of a selection that concerns one member of a union.\<close>

fun selects_member :: "(string \<rightharpoonup> fragment_definition) \<Rightarrow> string \<Rightarrow> selection \<Rightarrow> bool" where
  "selects_member frags member (Field al n args ds ss) = True"
| "selects_member frags member (FragmentSpread n ds) =
     (case frags n of Some fragment_def \<Rightarrow> frag_type_condition fragment_def = member | None \<Rightarrow> False)"
| "selects_member frags member (InlineFragment tc ds ss) =
     (case tc of None \<Rightarrow> True | Some type_condition \<Rightarrow> type_condition = member)"

definition member_selection_set ::
    "(string \<rightharpoonup> fragment_definition) \<Rightarrow> string \<Rightarrow> selection list option \<Rightarrow> selection list option" where
  "member_selection_set frags member sel =
     (case map_option (filter (selects_member frags member)) sel of
        None \<Rightarrow> None
      | Some s \<Rightarrow> if s = [] then None else Some s)"

definition retain_union_member ::
    "retain_type_fn \<Rightarrow> schema \<Rightarrow> selection list option \<Rightarrow> DepthLimit \<Rightarrow> string \<Rightarrow>
     SchemaTreeShaker \<Rightarrow> SchemaTreeShaker option" where
  "retain_union_member rt S sel d member s =
     (case map_of (schema_types S) member of
        None \<Rightarrow> Some s
      | Some member_type \<Rightarrow>
          (let msel = member_selection_set (named_fragments s) member sel
           in if sel = None \<or> msel \<noteq> None then rt member_type msel (depth_decrement d) s else Some s))"

definition retain_input_field ::
    "retain_type_fn \<Rightarrow> retain_directive_fn \<Rightarrow> schema \<Rightarrow> DepthLimit \<Rightarrow> string \<times> input_value_definition \<Rightarrow>
     SchemaTreeShaker \<Rightarrow> SchemaTreeShaker option" where
  "retain_input_field rt rd S d nf s =
     Option.bind (retain_named rt S (inner_named_type (iv_ty (snd nf))) None (depth_decrement d) s)
       (for_each (\<lambda>dir. rd (dir_name dir) d) (iv_directives (snd nf)))"

fun retain_members ::
    "retain_type_fn \<Rightarrow> retain_directive_fn \<Rightarrow> schema \<Rightarrow> extended_type \<Rightarrow> selection list option \<Rightarrow>
     selection list option \<Rightarrow> DepthLimit \<Rightarrow> SchemaTreeShaker \<Rightarrow> SchemaTreeShaker option" where
  "retain_members rt rd S (ObjectType desc n ds is fs) selected sel d s =
     for_each (retain_object_field rt rd S d) (field_rows fs selected) s"
| "retain_members rt rd S (InterfaceType desc n ds is fs) selected sel d s =
     for_each (retain_interface_field rt rd S d) (field_rows fs selected) s"
| "retain_members rt rd S (UnionType desc n ds ms) selected sel d s =
     for_each (retain_union_member rt S sel d) ms s"
| "retain_members rt rd S (EnumType desc n ds vs) selected sel d s =
     for_each (\<lambda>nv. for_each (\<lambda>dir. rd (dir_name dir) d) (ev_directives (snd nv))) vs s"
| "retain_members rt rd S (ScalarType desc n ds) selected sel d s = Some s"
| "retain_members rt rd S (InputObjectType desc n ds fs) selected sel d s =
     for_each (retain_input_field rt rd S d) fs s"

section \<open>The traversal\<close>

definition selected_fields :: "selection list option \<Rightarrow> selection list option" where
  "selected_fields sel = map_option (\<lambda>ss. concat (map selection_set_to_fields ss)) sel"

text \<open>The early return for a node already visited in full.\<close>

definition already_retained :: "SchemaTreeShaker \<Rightarrow> extended_type \<Rightarrow> selection list option \<Rightarrow> DepthLimit \<Rightarrow> bool" where
  "already_retained s t sel d \<longleftrightarrow>
     (case named_type_nodes s (et_name t) of
        None \<Rightarrow> False
      | Some tree_node \<Rightarrow> retain tree_node \<and> sel = None \<and> d = Unlimited)"

definition mark_type :: "extended_type \<Rightarrow> selection list option \<Rightarrow> SchemaTreeShaker \<Rightarrow> SchemaTreeShaker" where
  "mark_type t sel s =
     (case named_type_nodes s (et_name t) of
        None \<Rightarrow> s
      | Some tree_node \<Rightarrow>
          s\<lparr>named_type_nodes := (named_type_nodes s)(et_name t \<mapsto>
             tree_node\<lparr>retain := True,
               filtered_field :=
                 (case selected_fields sel of
                    None \<Rightarrow> filtered_field tree_node
                  | Some fs \<Rightarrow>
                      Some ((case filtered_field tree_node of None \<Rightarrow> [] | Some old \<Rightarrow> old)
                            @ map sel_name fs))\<rparr>)\<rparr>)"

fun retain_type :: "schema \<Rightarrow> nat \<Rightarrow> retain_type_fn"
  and retain_fragments :: "schema \<Rightarrow> nat \<Rightarrow> selection list \<Rightarrow> DepthLimit \<Rightarrow> SchemaTreeShaker \<Rightarrow> SchemaTreeShaker option"
  and retain_directive :: "schema \<Rightarrow> nat \<Rightarrow> retain_directive_fn"
where
  "retain_type S 0 t sel d s = None"
| "retain_type S (Suc n) t sel d s =
     (if depth_reached d then Some s
      else Option.bind
        (case sel of None \<Rightarrow> Some s | Some ss \<Rightarrow> retain_fragments S n ss d s)
        (\<lambda>s. if already_retained s t sel d then Some s
             else Option.bind
               (for_each (\<lambda>dir. retain_directive S n (dir_name dir) d) (et_directives t) (mark_type t sel s))
               (retain_members (retain_type S n) (retain_directive S n) S t (selected_fields sel) sel d)))"
| "retain_fragments S 0 ss d s = None"
| "retain_fragments S (Suc n) ss d s =
     for_each (\<lambda>selection s.
       (case selection of
          FragmentSpread name ds \<Rightarrow>
            (case named_fragments s name of
               None \<Rightarrow> Some s
             | Some f \<Rightarrow>
                 retain_named (retain_type S n) S (frag_type_condition f) (Some (frag_selection_set f)) d s)
        | InlineFragment tc ds ss' \<Rightarrow>
            (case tc of
               None \<Rightarrow> Some s
             | Some type_condition \<Rightarrow> retain_named (retain_type S n) S type_condition (Some ss') d s)
        | Field al name args ds ss' \<Rightarrow>
            if ss' \<noteq> [] then retain_fragments S n ss' (depth_decrement d) s else Some s)) ss s"
| "retain_directive S 0 name d s = None"
| "retain_directive S (Suc n) name d s =
     (case directive_nodes s name of
        None \<Rightarrow> Some s
      | Some node \<Rightarrow>
          for_each (\<lambda>arg. retain_named (retain_type S n) S (inner_named_type (iv_ty arg)) None (depth_decrement d))
            (dd_arguments (dn_node node))
            (s\<lparr>directive_nodes := (directive_nodes s)(name \<mapsto> node\<lparr>dn_retain := True\<rparr>)\<rparr>))"

definition retain_operation_type ::
    "schema \<Rightarrow> nat \<Rightarrow> operation_type \<Rightarrow> selection list option \<Rightarrow> DepthLimit \<Rightarrow>
     SchemaTreeShaker \<Rightarrow> SchemaTreeShaker option" where
  "retain_operation_type S fuel ot sel d s =
     (let s = s\<lparr>operation_types := operation_types s @ [ot]\<rparr>
      in retain_named (retain_type S fuel) S (name_for_operation_type (operation_type_names s) ot) sel d s)"

definition collect_fragments :: "ast_definition list \<Rightarrow> (string \<rightharpoonup> fragment_definition)" where
  "collect_fragments definitions =
     map_of (rev (filter_map (\<lambda>def. case def of FragmentDefinition f \<Rightarrow> Some (frag_name f, f) | _ \<Rightarrow> None)
       definitions))"

definition retain_operation ::
    "schema \<Rightarrow> nat \<Rightarrow> operation_definition \<Rightarrow> ast_definition list \<Rightarrow> DepthLimit \<Rightarrow>
     SchemaTreeShaker \<Rightarrow> SchemaTreeShaker option" where
  "retain_operation S fuel operation document d s =
     retain_operation_type S fuel (od_operation_type operation) (Some (od_selection_set operation)) d
       (s\<lparr>named_fragments := collect_fragments document\<rparr>)"

section \<open>The shaken document\<close>

datatype schema_definition =
    SchemaDefinition "(operation_type \<times> string) list" "string option" "directive list"
  | DirectiveDefinition directive_definition
  | TypeDefinition extended_type

definition filter_fields :: "TreeTypeNode \<Rightarrow> (string \<times> 'f) list \<Rightarrow> (string \<times> 'f) list" where
  "filter_fields node fs =
     filter_map (\<lambda>(name, f). case filtered_field node of
         Some filtered_fields \<Rightarrow> if List.member filtered_fields name then Some (name, f) else None
       | None \<Rightarrow> Some (name, f)) fs"

fun shake_type :: "TreeTypeNode \<Rightarrow> SchemaTreeShaker \<Rightarrow> extended_type \<Rightarrow> extended_type" where
  "shake_type node s (ObjectType desc n ds is fs) = ObjectType desc n ds is (filter_fields node fs)"
| "shake_type node s (InputObjectType desc n ds fs) = InputObjectType desc n ds (filter_fields node fs)"
| "shake_type node s (InterfaceType desc n ds is fs) = InterfaceType desc n ds is (filter_fields node fs)"
| "shake_type node s (UnionType desc n ds ms) =
     UnionType desc n ds
       (filter_map (\<lambda>m. case named_type_nodes s m of
            Some member_tree_node \<Rightarrow> if retain member_tree_node then Some m else None
          | None \<Rightarrow> None) ms)"
| "shake_type node s (EnumType desc n ds vs) = EnumType desc n ds vs"
| "shake_type node s (ScalarType desc n ds) = ScalarType desc n ds"

definition shaken_type :: "schema \<Rightarrow> SchemaTreeShaker \<Rightarrow> extended_type \<Rightarrow> schema_definition option" where
  "shaken_type S s t =
     (if built_in_type S (et_name t) then None
      else case named_type_nodes s (et_name t) of
        None \<Rightarrow> None
      | Some node \<Rightarrow> if retain node then Some (TypeDefinition (shake_type node s t)) else None)"

definition shaken_document :: "schema \<Rightarrow> SchemaTreeShaker \<Rightarrow> schema_definition list" where
  "shaken_document S s =
     [SchemaDefinition
        (filter_map (\<lambda>ot. case root_operation S ot of None \<Rightarrow> None | Some n \<Rightarrow> Some (ot, n)) (operation_types s))
        (schema_description S) (schema_directives S)] @
     filter_map (\<lambda>(name, def). case directive_nodes s name of
         None \<Rightarrow> None
       | Some n \<Rightarrow> if \<not> built_in_directive S name \<and> dn_retain n then Some (DirectiveDefinition def) else None)
       (directive_definitions S) @
     filter_map (\<lambda>(name, t). shaken_type S s t) (schema_types S)"

text \<open>\<open>Document::to_schema\<close> is the parameter.\<close>

definition shaken ::
    "(schema_definition list \<Rightarrow> ('e, 'schema) result) \<Rightarrow> schema \<Rightarrow> SchemaTreeShaker \<Rightarrow> ('e, 'schema) result" where
  "shaken to_schema S s = to_schema (shaken_document S s)"

end
