(* ===== verification/Tree_Shake_Calls.thy ===== *)
theory Tree_Shake_Calls
  imports Tree_Shake
begin

text \<open>
  The traversal of \<open>Tree_Shake\<close> in normal form: each function runs a list of calls, one
  level down. What holds of every call is then proved once, over the list. On top of it: the
  traversal only grows what is retained, and needs only a bounded stack when fragments do not
  spread themselves.
\<close>

section \<open>Loops\<close>

lemma for_each_append: "for_each f (xs @ ys) = (\<lambda>s. Option.bind (for_each f xs s) (for_each f ys))"
proof
  show "for_each f (xs @ ys) s = Option.bind (for_each f xs s) (for_each f ys)" for s
    by (induction xs arbitrary: s) (auto split: option.splits)
qed

lemma for_each_concat:
  "for_each (\<lambda>x s. for_each f (h x) s) xs s = for_each f (concat (map h xs)) s"
  by (induction xs arbitrary: s) (auto simp: for_each_append split: option.splits Option.bind_splits)

lemma for_each_map: "for_each f (map g xs) s = for_each (\<lambda>x. f (g x)) xs s"
  by (induction xs arbitrary: s) (auto split: option.splits)

lemma for_each_cong:
  "(\<And>x s. x \<in> set xs \<Longrightarrow> f x s = g x s) \<Longrightarrow> for_each f xs s = for_each g xs s"
  by (induction xs arbitrary: s) (auto split: option.splits)

lemma for_each_total_map: "for_each (\<lambda>x s. Some (g x s)) xs s = Some (foldl (\<lambda>s x. g x s) s xs)"
  by (induction xs arbitrary: s) auto

text \<open>A transitive relation that every iteration establishes holds from start to end.\<close>

lemma for_each_rel:
  assumes "for_each f xs s = Some s'"
    and "\<And>x s s'. x \<in> set xs \<Longrightarrow> f x s = Some s' \<Longrightarrow> R s s'"
    and "\<And>s. R s s" and "\<And>a b c. R a b \<Longrightarrow> R b c \<Longrightarrow> R a c"
  shows "R s s'"
  using assms(1,2)
proof (induction xs arbitrary: s)
  case (Cons x xs)
  then obtain s1 where "f x s = Some s1" "for_each f xs s1 = Some s'" by (auto split: option.splits)
  moreover from this Cons have "R s1 s'" by auto
  ultimately show ?case using Cons.prems(2) [of x s s1] assms(4) by auto
qed (simp add: assms(3))

section \<open>Calls\<close>

datatype call =
    CType extended_type "selection list option" DepthLimit
  | CFragments "selection list" DepthLimit
  | CDirective string DepthLimit
  | CMember string "selection list option" DepthLimit
  | CSpread string DepthLimit
  | CDescribe input_value_definition "string \<rightharpoonup> string"

fun exec :: "schema \<Rightarrow> nat \<Rightarrow> call \<Rightarrow> SchemaTreeShaker \<Rightarrow> SchemaTreeShaker option" where
  "exec S n (CType t sel d) = retain_type S n t sel d"
| "exec S n (CFragments ss d) = retain_fragments S n ss d"
| "exec S n (CDirective name d) = retain_directive S n name d"
| "exec S n (CMember m sel d) = retain_union_member (retain_type S n) S sel d m"
| "exec S n (CSpread name d) =
     (\<lambda>s. case named_fragments s name of
        None \<Rightarrow> Some s
      | Some f \<Rightarrow> retain_named (retain_type S n) S (frag_type_condition f) (Some (frag_selection_set f)) d s)"
| "exec S n (CDescribe arg args) = (\<lambda>s. Some (retain_argument_descriptions arg args s))"

abbreviation exec_all :: "schema \<Rightarrow> nat \<Rightarrow> call list \<Rightarrow> SchemaTreeShaker \<Rightarrow> SchemaTreeShaker option" where
  "exec_all S n \<equiv> for_each (exec S n)"

definition named_calls :: "schema \<Rightarrow> string \<Rightarrow> selection list option \<Rightarrow> DepthLimit \<Rightarrow> call list" where
  "named_calls S name sel d =
     (case map_of (schema_types S) name of None \<Rightarrow> [] | Some t \<Rightarrow> [CType t sel d])"

lemma exec_named: "retain_named (retain_type S n) S name sel d = exec_all S n (named_calls S name sel d)"
  by (auto simp: fun_eq_iff retain_named_def named_calls_def split: option.splits)

definition directive_calls :: "DepthLimit \<Rightarrow> directive list \<Rightarrow> call list" where
  "directive_calls d ds = map (\<lambda>dir. CDirective (dir_name dir) d) ds"

lemma exec_directives:
  "for_each (\<lambda>dir. retain_directive S n (dir_name dir) d) ds = exec_all S n (directive_calls d ds)"
  by (simp add: fun_eq_iff directive_calls_def for_each_map)

definition described_calls :: "schema \<Rightarrow> DepthLimit \<Rightarrow> directive \<Rightarrow> call list" where
  "described_calls S d dir =
     (case map_of (directive_definitions S) (dir_name dir) of
        None \<Rightarrow> []
      | Some dd \<Rightarrow> map (\<lambda>arg. CDescribe arg (build_argument_name_to_value_map (dir_arguments dir))) (dd_arguments dd))
     @ [CDirective (dir_name dir) d]"

lemma exec_described:
  "(\<lambda>dir s. retain_directive S n (dir_name dir) d
     (case map_of (directive_definitions S) (dir_name dir) of
        None \<Rightarrow> s
      | Some dd \<Rightarrow> foldl (\<lambda>s arg. retain_argument_descriptions arg
            (build_argument_name_to_value_map (dir_arguments dir)) s) s (dd_arguments dd))) =
   (\<lambda>dir. exec_all S n (described_calls S d dir))"
proof (intro ext)
  fix dir s
  show "retain_directive S n (dir_name dir) d
     (case map_of (directive_definitions S) (dir_name dir) of
        None \<Rightarrow> s
      | Some dd \<Rightarrow> foldl (\<lambda>s arg. retain_argument_descriptions arg
            (build_argument_name_to_value_map (dir_arguments dir)) s) s (dd_arguments dd)) =
     exec_all S n (described_calls S d dir) s"
    by (cases "map_of (directive_definitions S) (dir_name dir)")
       (simp_all add: described_calls_def for_each_append for_each_map for_each_total_map split: option.splits)
qed

fun field_calls :: "bool \<Rightarrow> schema \<Rightarrow> DepthLimit \<Rightarrow> field_row \<Rightarrow> call list" where
  "field_calls describe S d (name, fdef, sdirs, ssel, args) =
     (case fdef of
        None \<Rightarrow> []
      | Some fd \<Rightarrow>
          named_calls S (inner_named_type (fd_ty fd)) ssel (depth_decrement d) @
          concat (map (\<lambda>arg. (if describe then [CDescribe arg args] else []) @
            named_calls S (inner_named_type (iv_ty arg)) None (depth_decrement d)) (fd_arguments fd)) @
          directive_calls d (fd_directives fd)) @
     (case sdirs of
        None \<Rightarrow> []
      | Some dirs \<Rightarrow> if describe then concat (map (described_calls S d) dirs) else directive_calls d dirs)"

lemma exec_arguments:
  "for_each (\<lambda>arg. retain_named (retain_type S n) S (inner_named_type (iv_ty arg)) None d') xs =
   exec_all S n (concat (map (\<lambda>arg. named_calls S (inner_named_type (iv_ty arg)) None d') xs))"
  by (simp add: fun_eq_iff exec_named for_each_concat)

lemma exec_described_arguments:
  "for_each (\<lambda>arg s. retain_named (retain_type S n) S (inner_named_type (iv_ty arg)) None d'
      (retain_argument_descriptions arg args s)) xs =
   exec_all S n (concat (map (\<lambda>arg. [CDescribe arg args] @
      named_calls S (inner_named_type (iv_ty arg)) None d') xs))"
proof
  show "for_each (\<lambda>arg s. retain_named (retain_type S n) S (inner_named_type (iv_ty arg)) None d'
      (retain_argument_descriptions arg args s)) xs s =
    exec_all S n (concat (map (\<lambda>arg. [CDescribe arg args] @
      named_calls S (inner_named_type (iv_ty arg)) None d') xs)) s" for s
    unfolding for_each_concat [symmetric]
    by (rule for_each_cong) (simp add: exec_named)
qed

lemma exec_described_directives:
  "for_each (\<lambda>dir s. retain_directive S n (dir_name dir) d
     (case map_of (directive_definitions S) (dir_name dir) of
        None \<Rightarrow> s
      | Some dd \<Rightarrow> foldl (\<lambda>s arg. retain_argument_descriptions arg
            (build_argument_name_to_value_map (dir_arguments dir)) s) s (dd_arguments dd))) dirs =
   exec_all S n (concat (map (described_calls S d) dirs))"
  unfolding exec_described by (simp add: fun_eq_iff for_each_concat)

lemma exec_object_field:
  "retain_object_field (retain_type S n) (retain_directive S n) S d =
     (\<lambda>row. exec_all S n (field_calls True S d row))"
proof (intro ext)
  fix row :: field_row and s
  obtain name fdef sdirs ssel args where row: "row = (name, fdef, sdirs, ssel, args)" by (cases row) auto
  show "retain_object_field (retain_type S n) (retain_directive S n) S d row s =
      exec_all S n (field_calls True S d row) s"
    unfolding row retain_object_field.simps exec_directives exec_described_directives exec_described_arguments
    by (cases fdef; cases sdirs) (simp_all add: exec_named for_each_append del: append.simps)
qed

lemma exec_interface_field:
  "retain_interface_field (retain_type S n) (retain_directive S n) S d =
     (\<lambda>row. exec_all S n (field_calls False S d row))"
proof (intro ext)
  fix row :: field_row and s
  obtain name fdef sdirs ssel args where row: "row = (name, fdef, sdirs, ssel, args)" by (cases row) auto
  show "retain_interface_field (retain_type S n) (retain_directive S n) S d row s =
      exec_all S n (field_calls False S d row) s"
    unfolding row retain_interface_field.simps exec_directives exec_arguments
    by (cases fdef; cases sdirs) (simp_all add: exec_named for_each_append)
qed

lemma exec_input_field:
  "retain_input_field (retain_type S n) (retain_directive S n) S d =
     (\<lambda>nf. exec_all S n (named_calls S (inner_named_type (iv_ty (snd nf))) None (depth_decrement d) @
       directive_calls d (iv_directives (snd nf))))"
  by (simp add: fun_eq_iff retain_input_field_def exec_named exec_directives for_each_append)

fun member_calls :: "schema \<Rightarrow> extended_type \<Rightarrow> selection list option \<Rightarrow> selection list option \<Rightarrow> DepthLimit \<Rightarrow> call list" where
  "member_calls S (ObjectType desc n ds is fs) selected sel d =
     concat (map (field_calls True S d) (field_rows fs selected))"
| "member_calls S (InterfaceType desc n ds is fs) selected sel d =
     concat (map (field_calls False S d) (field_rows fs selected))"
| "member_calls S (UnionType desc n ds ms) selected sel d = map (\<lambda>m. CMember m sel d) ms"
| "member_calls S (EnumType desc n ds vs) selected sel d =
     concat (map (\<lambda>nv. directive_calls d (ev_directives (snd nv))) vs)"
| "member_calls S (ScalarType desc n ds) selected sel d = []"
| "member_calls S (InputObjectType desc n ds fs) selected sel d =
     concat (map (\<lambda>nf. named_calls S (inner_named_type (iv_ty (snd nf))) None (depth_decrement d) @
       directive_calls d (iv_directives (snd nf))) fs)"

lemma exec_members:
  "retain_members (retain_type S n) (retain_directive S n) S t selected sel d =
     exec_all S n (member_calls S t selected sel d)"
proof
  have concat: "for_each (\<lambda>x. exec_all S n (h x)) xs s = exec_all S n (concat (map h xs)) s" for h xs s
    by (rule for_each_concat)
  show "retain_members (retain_type S n) (retain_directive S n) S t selected sel d s =
     exec_all S n (member_calls S t selected sel d) s" for s
    by (cases t)
       (simp_all add: exec_object_field exec_interface_field exec_input_field
         exec_directives for_each_map concat del: field_calls.simps)
qed

definition body_calls :: "schema \<Rightarrow> extended_type \<Rightarrow> selection list option \<Rightarrow> DepthLimit \<Rightarrow> call list" where
  "body_calls S t sel d = directive_calls d (et_directives t) @ member_calls S t (selected_fields sel) sel d"

definition spread_calls :: "DepthLimit \<Rightarrow> selection list option \<Rightarrow> call list" where
  "spread_calls d sel = (case sel of None \<Rightarrow> [] | Some ss \<Rightarrow> [CFragments ss d])"

fun selection_calls :: "schema \<Rightarrow> DepthLimit \<Rightarrow> selection \<Rightarrow> call list" where
  "selection_calls S d (FragmentSpread name ds) = [CSpread name d]"
| "selection_calls S d (InlineFragment tc ds ss) =
     (case tc of None \<Rightarrow> [] | Some type_condition \<Rightarrow> named_calls S type_condition (Some ss) d)"
| "selection_calls S d (Field al name args ds ss) =
     (if ss \<noteq> [] then [CFragments ss (depth_decrement d)] else [])"

definition mark_directive :: "string \<Rightarrow> TreeDirectiveNode \<Rightarrow> SchemaTreeShaker \<Rightarrow> SchemaTreeShaker" where
  "mark_directive name node s = s\<lparr>directive_nodes := (directive_nodes s)(name \<mapsto> node\<lparr>dn_retain := True\<rparr>)\<rparr>"

definition argument_calls :: "schema \<Rightarrow> DepthLimit \<Rightarrow> directive_definition \<Rightarrow> call list" where
  "argument_calls S d dd =
     concat (map (\<lambda>arg. named_calls S (inner_named_type (iv_ty arg)) None (depth_decrement d)) (dd_arguments dd))"

lemma retain_type_calls:
  "retain_type S (Suc n) t sel d s =
     (if depth_reached d then Some s
      else Option.bind (exec_all S n (spread_calls d sel) s)
        (\<lambda>s. if already_retained s t sel d then Some s
             else exec_all S n (body_calls S t sel d) (mark_type t sel s)))"
proof -
  have "(case sel of None \<Rightarrow> Some s | Some ss \<Rightarrow> retain_fragments S n ss d s) =
      exec_all S n (spread_calls d sel) s"
    by (auto simp: spread_calls_def split: option.splits)
  then show ?thesis
    by (simp add: retain_type.simps exec_directives exec_members body_calls_def for_each_append cong: if_cong)
qed

lemma retain_fragments_calls:
  "retain_fragments S (Suc n) ss d s = exec_all S n (concat (map (selection_calls S d) ss)) s"
  unfolding retain_fragments.simps for_each_concat [symmetric]
  by (rule for_each_cong) (auto simp: exec_named split: selection.splits option.splits)

lemma retain_directive_calls:
  "retain_directive S (Suc n) name d s =
     (case directive_nodes s name of
        None \<Rightarrow> Some s
      | Some node \<Rightarrow> exec_all S n (argument_calls S d (dn_node node)) (mark_directive name node s))"
  by (simp add: mark_directive_def argument_calls_def exec_arguments split: option.splits)

lemmas retain_calls = retain_type_calls retain_fragments_calls retain_directive_calls

declare retain_type.simps(2) [simp del] retain_fragments.simps(2) [simp del] retain_directive.simps(2) [simp del]

end
