(* ===== verification/Tree_Shake_Correct.thy ===== *)
theory Tree_Shake_Correct
  imports Tree_Shake_Calls
begin

text \<open>
  What tree shaking retains: it only ever grows, it is what is reachable from a retained root
  (within the depth limit), it includes every field an operation selects, and the traversal
  needs a bounded stack exactly when the fragments of the document are acyclic.
\<close>

section \<open>The traversal only retains more\<close>

definition retained :: "SchemaTreeShaker \<Rightarrow> string set" where
  "retained s = {n. \<exists>node. named_type_nodes s n = Some node \<and> retain node}"

text \<open>The fields asked for by name.\<close>

definition wanted :: "SchemaTreeShaker \<Rightarrow> (string \<times> string) set" where
  "wanted s = {(n, f). \<exists>node fs. named_type_nodes s n = Some node \<and> retain node \<and>
     filtered_field node = Some fs \<and> f \<in> set fs}"

definition shaker_le :: "SchemaTreeShaker \<Rightarrow> SchemaTreeShaker \<Rightarrow> bool" where
  "shaker_le s s' \<longleftrightarrow>
     named_fragments s' = named_fragments s \<and> operation_types s' = operation_types s \<and>
     operation_type_names s' = operation_type_names s \<and>
     dom (named_type_nodes s') = dom (named_type_nodes s) \<and>
     (\<forall>n. map_option dn_node (directive_nodes s' n) = map_option dn_node (directive_nodes s n)) \<and>
     retained s \<subseteq> retained s' \<and> wanted s \<subseteq> wanted s'"

lemma shaker_le_refl [simp]: "shaker_le s s"
  by (simp add: shaker_le_def)

lemma shaker_le_trans: "shaker_le a b \<Longrightarrow> shaker_le b c \<Longrightarrow> shaker_le a c"
  by (auto simp: shaker_le_def)

lemma shaker_leD:
  assumes "shaker_le s s'"
  shows "named_fragments s' = named_fragments s" "dom (named_type_nodes s') = dom (named_type_nodes s)"
    "retained s \<subseteq> retained s'" "wanted s \<subseteq> wanted s'"
    "operation_types s' = operation_types s"
    "map_option dn_node (directive_nodes s' n) = map_option dn_node (directive_nodes s n)"
  using assms by (auto simp: shaker_le_def)

lemma retained_mark:
  "retained (mark_type t sel s) =
     (if et_name t \<in> dom (named_type_nodes s) then insert (et_name t) (retained s) else retained s)"
  by (auto simp: retained_def mark_type_def split: option.splits if_splits)

lemma mark_type_le: "shaker_le s (mark_type t sel s)"
proof -
  have "wanted s \<subseteq> wanted (mark_type t sel s)"
    by (auto simp: wanted_def mark_type_def split: option.splits)
  moreover have "retained s \<subseteq> retained (mark_type t sel s)"
    by (auto simp: retained_mark)
  ultimately show ?thesis
    by (auto simp: shaker_le_def mark_type_def split: option.splits)
qed

lemma wanted_mark:
  "et_name t \<in> dom (named_type_nodes s) \<Longrightarrow> selected_fields (Some ss) = Some fs \<Longrightarrow> f \<in> set fs \<Longrightarrow>
   (et_name t, sel_name f) \<in> wanted (mark_type t (Some ss) s)"
  by (auto simp: wanted_def mark_type_def)

lemma describe_le: "shaker_le s (retain_argument_descriptions arg args s)"
  by (auto simp: shaker_le_def retain_argument_descriptions_def retained_def wanted_def split: option.splits)

lemma retained_describe [simp]: "retained (retain_argument_descriptions arg args s) = retained s"
  by (auto simp: retained_def retain_argument_descriptions_def split: option.splits)

lemma mark_directive_le: "directive_nodes s name = Some node \<Longrightarrow> shaker_le s (mark_directive name node s)"
  by (auto simp: shaker_le_def mark_directive_def retained_def wanted_def)

lemma exec_all_le:
  assumes "\<And>c s s'. exec S n c s = Some s' \<Longrightarrow> shaker_le s s'" and "exec_all S n cs s = Some s'"
  shows "shaker_le s s'"
  using assms(2,1) shaker_le_refl shaker_le_trans by (rule for_each_rel)

lemma retain_named_le:
  assumes "\<And>t sel s s'. rt t sel d s = Some s' \<Longrightarrow> shaker_le s s'" and "retain_named rt S name sel d s = Some s'"
  shows "shaker_le s s'"
  using assms by (auto simp: retain_named_def split: option.splits)

lemma exec_le: "exec S n c s = Some s' \<Longrightarrow> shaker_le s s'"
proof (induction n arbitrary: c s s')
  case 0
  then show ?case
    by (cases c)
       (auto simp: describe_le retain_union_member_def retain_named_def Let_def
         split: option.splits if_splits)
next
  case (Suc n)
  have all: "exec_all S n cs s = Some s' \<Longrightarrow> shaker_le s s'" for cs s s'
    by (rule exec_all_le) (rule Suc.IH)
  have type: "shaker_le s s'" if "retain_type S (Suc n) t sel d s = Some s'" for t sel d s s'
  proof (cases "depth_reached d")
    case True
    then show ?thesis using that by (simp add: retain_calls)
  next
    case False
    with that obtain s1 where s1: "exec_all S n (spread_calls d sel) s = Some s1"
      and s': "(if already_retained s1 t sel d then Some s1
        else exec_all S n (body_calls S t sel d) (mark_type t sel s1)) = Some s'"
      by (auto simp: retain_calls Option.bind_eq_Some_conv)
    have "shaker_le s1 s'"
      using s' all [of "body_calls S t sel d" "mark_type t sel s1" s'] mark_type_le [of s1 t sel]
      by (auto split: if_splits intro: shaker_le_trans)
    with all [OF s1] show ?thesis by (rule shaker_le_trans)
  qed
  show ?case
  proof (cases c)
    case (CFragments ss d)
    then show ?thesis using Suc.prems all by (simp add: retain_calls)
  next
    case (CDirective name d)
    then show ?thesis
      using Suc.prems all shaker_le_trans [OF mark_directive_le]
      by (auto simp: retain_calls split: option.splits)
  next
    case (CMember m sel d)
    then show ?thesis
      using Suc.prems type by (auto simp: retain_union_member_def Let_def split: option.splits if_splits)
  next
    case (CSpread name d)
    then show ?thesis
      using Suc.prems type by (auto simp: retain_named_def split: option.splits)
  qed (use Suc.prems type describe_le in auto)
qed

lemma run_le: "exec_all S n cs s = Some s' \<Longrightarrow> shaker_le s s'"
  by (rule exec_all_le) (rule exec_le)

text \<open>A call in the middle of a list: what it did is still there at the end.\<close>

lemma exec_all_member:
  assumes "exec_all S n cs s = Some s'" and "c \<in> set cs"
  obtains s1 s2 where "shaker_le s s1" "exec S n c s1 = Some s2" "shaker_le s2 s'"
proof -
  from assms(2) obtain xs ys where cs: "cs = xs @ c # ys" by (auto simp: in_set_conv_decomp)
  from assms(1) obtain s1 s2 where "exec_all S n xs s = Some s1" "exec S n c s1 = Some s2"
    "exec_all S n ys s2 = Some s'"
    by (auto simp: cs for_each_append Option.bind_eq_Some_conv split: option.splits)
  then show ?thesis using that run_le by blast
qed

section \<open>Shakers of a schema\<close>

definition shaker_of :: "schema \<Rightarrow> SchemaTreeShaker \<Rightarrow> bool" where
  "shaker_of S s \<longleftrightarrow>
     dom (named_type_nodes s) = dom (map_of (schema_types S)) \<and>
     (\<forall>n. map_option dn_node (directive_nodes s n) = map_of (directive_definitions S) n)"

lemma shaker_of_le: "shaker_of S s \<Longrightarrow> shaker_le s s' \<Longrightarrow> shaker_of S s'"
  by (auto simp: shaker_of_def shaker_le_def)

lemma foldl_upd_map_of:
  "distinct (map fst xs) \<Longrightarrow> foldl (\<lambda>m x. m(fst x \<mapsto> g (snd x))) m0 xs = m0 ++ map_of (map (\<lambda>(k, v). (k, g v)) xs)"
proof (induction xs arbitrary: m0)
  case (Cons x xs)
  obtain k v where x: "x = (k, v)" by (cases x)
  from Cons.prems x have "map_of (map (\<lambda>(k, v). (k, g v)) xs) k = None"
    by (force simp: map_of_eq_None_iff image_iff)
  with Cons x show ?case
    by (auto simp: fun_eq_iff map_add_def split: option.splits)
qed simp

lemma new_shaker_nodes:
  assumes "well_keyed S"
  shows "named_type_nodes (new_shaker S) n =
      map_option (\<lambda>_. \<lparr>retain = False, filtered_field = None\<rparr>) (map_of (schema_types S) n)"
    "directive_nodes (new_shaker S) n =
      map_option (\<lambda>dd. \<lparr>dn_node = dd, dn_retain = False\<rparr>) (map_of (directive_definitions S) n)"
proof -
  have keys: "\<And>x. x \<in> set (schema_types S) \<Longrightarrow> et_name (snd x) = fst x"
    using assms by (auto simp: well_keyed_def list_all_iff)
  have "foldl (\<lambda>nodes nt. nodes(et_name (snd nt) \<mapsto> v)) m xs = foldl (\<lambda>nodes nt. nodes(fst nt \<mapsto> v)) m xs"
    if "set xs \<subseteq> set (schema_types S)" for xs m and v :: TreeTypeNode
    using that keys by (induction xs arbitrary: m) auto
  then show "named_type_nodes (new_shaker S) n =
      map_option (\<lambda>_. \<lparr>retain = False, filtered_field = None\<rparr>) (map_of (schema_types S) n)"
    using assms foldl_upd_map_of [of "schema_types S" "\<lambda>_. \<lparr>retain = False, filtered_field = None\<rparr>" Map.empty]
    by (simp add: new_shaker_def well_keyed_def map_of_map)
  show "directive_nodes (new_shaker S) n =
      map_option (\<lambda>dd. \<lparr>dn_node = dd, dn_retain = False\<rparr>) (map_of (directive_definitions S) n)"
    using assms foldl_upd_map_of [of "directive_definitions S" "\<lambda>dd. \<lparr>dn_node = dd, dn_retain = False\<rparr>" Map.empty]
    by (simp add: new_shaker_def well_keyed_def map_of_map)
qed

lemma new_shaker_of:
  assumes "well_keyed S"
  shows "shaker_of S (new_shaker S)" "retained (new_shaker S) = {}" "wanted (new_shaker S) = {}"
  using new_shaker_nodes [OF assms]
  by (auto simp: shaker_of_def retained_def wanted_def dom_def option.map_comp o_def option.map_ident)

section \<open>References between types\<close>

fun member_refs :: "extended_type \<Rightarrow> string list" where
  "member_refs (ObjectType desc n ds is fs) =
     concat (map (\<lambda>(k, fd). inner_named_type (fd_ty fd) #
       map (\<lambda>arg. inner_named_type (iv_ty arg)) (fd_arguments fd)) fs)"
| "member_refs (InterfaceType desc n ds is fs) =
     concat (map (\<lambda>(k, fd). inner_named_type (fd_ty fd) #
       map (\<lambda>arg. inner_named_type (iv_ty arg)) (fd_arguments fd)) fs)"
| "member_refs (UnionType desc n ds ms) = ms"
| "member_refs (InputObjectType desc n ds fs) = map (\<lambda>(k, iv). inner_named_type (iv_ty iv)) fs"
| "member_refs t = []"

fun member_directives :: "extended_type \<Rightarrow> directive list" where
  "member_directives (ObjectType desc n ds is fs) = concat (map (\<lambda>(k, fd). fd_directives fd) fs)"
| "member_directives (InterfaceType desc n ds is fs) = concat (map (\<lambda>(k, fd). fd_directives fd) fs)"
| "member_directives (EnumType desc n ds vs) = concat (map (\<lambda>(k, ev). ev_directives ev) vs)"
| "member_directives (InputObjectType desc n ds fs) = concat (map (\<lambda>(k, iv). iv_directives iv) fs)"
| "member_directives t = []"

definition argument_refs :: "schema \<Rightarrow> string \<Rightarrow> string list" where
  "argument_refs S name =
     (case map_of (directive_definitions S) name of
        None \<Rightarrow> [] | Some dd \<Rightarrow> map (\<lambda>arg. inner_named_type (iv_ty arg)) (dd_arguments dd))"

text \<open>
  A type refers to another through a field, an argument, a union membership, or an argument of
  a directive applied anywhere in it.
\<close>

definition references :: "schema \<Rightarrow> (string \<times> string) set" where
  "references S = {(a, b). b \<in> dom (map_of (schema_types S)) \<and>
     (\<exists>t. map_of (schema_types S) a = Some t \<and>
        (b \<in> set (member_refs t) \<or>
         (\<exists>dir \<in> set (et_directives t) \<union> set (member_directives t). b \<in> set (argument_refs S (dir_name dir)))))}"

text \<open>The types one plain call (a call without a selection) is about.\<close>

fun targets :: "schema \<Rightarrow> call \<Rightarrow> string set" where
  "targets S (CType t sel d) = {et_name t}"
| "targets S (CMember m sel d) = {m} \<inter> dom (map_of (schema_types S))"
| "targets S (CDirective name d) = set (argument_refs S name) \<inter> dom (map_of (schema_types S))"
| "targets S _ = {}"

fun plain :: "schema \<Rightarrow> DepthLimit \<Rightarrow> call \<Rightarrow> bool" where
  "plain S d (CType t sel d') \<longleftrightarrow> sel = None \<and> d' = depth_decrement d \<and> map_of (schema_types S) (et_name t) = Some t"
| "plain S d (CMember m sel d') \<longleftrightarrow> sel = None \<and> d' = d"
| "plain S d (CDirective name d') \<longleftrightarrow> d' = d"
| "plain S d (CDescribe arg args) \<longleftrightarrow> True"
| "plain S d _ \<longleftrightarrow> False"

lemma named_calls_plain:
  assumes "well_keyed S"
  shows "\<forall>c \<in> set (named_calls S name None (depth_decrement d)). plain S d c"
    "(\<Union>c \<in> set (named_calls S name None d'). targets S c) = {name} \<inter> dom (map_of (schema_types S))"
  using well_keyed_type [OF assms]
  by (cases "map_of (schema_types S) name"; auto simp: named_calls_def)+

lemma directive_calls_plain:
  "\<forall>c \<in> set (directive_calls d ds). plain S d c"
  "(\<Union>c \<in> set (directive_calls d ds). targets S c) =
     (\<Union>dir \<in> set ds. set (argument_refs S (dir_name dir)) \<inter> dom (map_of (schema_types S)))"
  by (auto simp: directive_calls_def)

lemma field_calls_plain:
  assumes "well_keyed S"
  shows "\<forall>c \<in> set (field_calls b S d (k, Some fd, None, None, m)). plain S d c"
    "(\<Union>c \<in> set (field_calls b S d (k, Some fd, None, None, m)). targets S c) =
      (set (inner_named_type (fd_ty fd) # map (\<lambda>arg. inner_named_type (iv_ty arg)) (fd_arguments fd)) \<union>
       (\<Union>dir \<in> set (fd_directives fd). set (argument_refs S (dir_name dir)))) \<inter> dom (map_of (schema_types S))"
  using named_calls_plain [OF assms] directive_calls_plain
  by (auto simp: ball_Un UN_Un)

lemma member_calls_plain:
  assumes "well_keyed S"
  shows "\<forall>c \<in> set (member_calls S t None None d). plain S d c"
    "(\<Union>c \<in> set (member_calls S t None None d). targets S c) =
      (set (member_refs t) \<union> (\<Union>dir \<in> set (member_directives t). set (argument_refs S (dir_name dir)))) \<inter>
      dom (map_of (schema_types S))"
proof -
  show "\<forall>c \<in> set (member_calls S t None None d). plain S d c"
    using named_calls_plain(1) [OF assms] directive_calls_plain(1) [of d _ S] field_calls_plain(1) [OF assms]
    by (cases t) (fastforce simp: field_rows_def simp del: field_calls.simps)+
  have field: "(\<Union>c \<in> set (concat (map (field_calls b S d) (field_rows fs None))). targets S c) =
    (\<Union>(k, fd) \<in> set fs. (set (inner_named_type (fd_ty fd) # map (\<lambda>arg. inner_named_type (iv_ty arg)) (fd_arguments fd)) \<union>
       (\<Union>dir \<in> set (fd_directives fd). set (argument_refs S (dir_name dir)))) \<inter> dom (map_of (schema_types S)))"
    for b fs
  proof -
    have "(\<Union>c \<in> set (concat (map (field_calls b S d) (field_rows fs None))). targets S c) =
      (\<Union>(k, fd) \<in> set fs. \<Union>c \<in> set (field_calls b S d (k, Some fd, None, None, Map.empty)). targets S c)"
      by (auto simp: field_rows_def simp del: field_calls.simps)
    then show ?thesis unfolding field_calls_plain(2) [OF assms] .
  qed
  have inputs: "(\<Union>c \<in> set (concat (map (\<lambda>nf. named_calls S (inner_named_type (iv_ty (snd nf))) None (depth_decrement d) @
       directive_calls d (iv_directives (snd nf))) fs)). targets S c) =
     (\<Union>(k, iv) \<in> set fs. ({inner_named_type (iv_ty iv)} \<union>
        (\<Union>dir \<in> set (iv_directives iv). set (argument_refs S (dir_name dir)))) \<inter> dom (map_of (schema_types S)))" for fs
  proof -
    have "(\<Union>c \<in> set (concat (map (\<lambda>nf. named_calls S (inner_named_type (iv_ty (snd nf))) None (depth_decrement d) @
       directive_calls d (iv_directives (snd nf))) fs)). targets S c) =
      (\<Union>nf \<in> set fs. (\<Union>c \<in> set (named_calls S (inner_named_type (iv_ty (snd nf))) None (depth_decrement d)). targets S c) \<union>
         (\<Union>c \<in> set (directive_calls d (iv_directives (snd nf))). targets S c))"
      by (simp add: UN_Un flip: UN_extend_simps)
    then show ?thesis
      unfolding named_calls_plain(2) [OF assms] directive_calls_plain(2)
      unfolding case_prod_beta by (rule trans) blast
  qed
  have enum: "(\<Union>c \<in> set (concat (map (\<lambda>nv. directive_calls d (ev_directives (snd nv))) vs)). targets S c) =
     (\<Union>(k, ev) \<in> set vs. \<Union>dir \<in> set (ev_directives ev). set (argument_refs S (dir_name dir)) \<inter> dom (map_of (schema_types S)))"
    for vs :: "(string \<times> enum_value_definition) list"
  proof -
    have "(\<Union>c \<in> set (concat (map (\<lambda>nv. directive_calls d (ev_directives (snd nv))) vs)). targets S c) =
      (\<Union>(k, ev) \<in> set vs. \<Union>c \<in> set (directive_calls d (ev_directives ev)). targets S c)"
      by (simp add: case_prod_beta)
    then show ?thesis unfolding directive_calls_plain(2) .
  qed
  show "(\<Union>c \<in> set (member_calls S t None None d). targets S c) =
      (set (member_refs t) \<union> (\<Union>dir \<in> set (member_directives t). set (argument_refs S (dir_name dir)))) \<inter>
      dom (map_of (schema_types S))"
  proof (cases t)
    case (UnionType desc n ds ms)
    then show ?thesis by auto
  next
    case (ScalarType desc n ds)
    then show ?thesis by simp
  next
    case (EnumType desc n ds vs)
    then show ?thesis unfolding EnumType member_calls.simps enum by auto
  next
    case (InputObjectType desc n ds fs)
    then show ?thesis
      unfolding InputObjectType member_calls.simps inputs by (simp add: case_prod_beta) blast
  next
    case (ObjectType desc n ds ifs fs)
    then show ?thesis unfolding ObjectType member_calls.simps field by (simp add: case_prod_beta) blast
  next
    case (InterfaceType desc n ds ifs fs)
    then show ?thesis unfolding InterfaceType member_calls.simps field by (simp add: case_prod_beta) blast
  qed
qed

lemma body_calls_plain:
  assumes "well_keyed S"
  shows "\<forall>c \<in> set (body_calls S t None d). plain S d c"
    "map_of (schema_types S) (et_name t) = Some t \<Longrightarrow>
     (\<Union>c \<in> set (body_calls S t None d). targets S c) = references S `` {et_name t}"
proof -
  show "\<forall>c \<in> set (body_calls S t None d). plain S d c"
    using directive_calls_plain(1) member_calls_plain(1) [OF assms]
    by (auto simp: body_calls_def selected_fields_def)
  assume t: "map_of (schema_types S) (et_name t) = Some t"
  have "(\<Union>c \<in> set (body_calls S t None d). targets S c) =
      (\<Union>c \<in> set (directive_calls d (et_directives t)). targets S c) \<union>
      (\<Union>c \<in> set (member_calls S t None None d). targets S c)"
    by (auto simp: body_calls_def selected_fields_def)
  then show "(\<Union>c \<in> set (body_calls S t None d). targets S c) = references S `` {et_name t}"
    unfolding member_calls_plain(2) [OF assms] directive_calls_plain(2)
    using t by (auto simp: references_def)
qed

lemma argument_calls_plain:
  assumes "well_keyed S" and "map_of (directive_definitions S) name = Some dd"
  shows "\<forall>c \<in> set (argument_calls S d dd). plain S d c"
    "(\<Union>c \<in> set (argument_calls S d dd). targets S c) = targets S (CDirective name d)"
proof -
  show "\<forall>c \<in> set (argument_calls S d dd). plain S d c"
    using named_calls_plain(1) [OF assms(1)] by (auto simp: argument_calls_def)
  have "(\<Union>c \<in> set (argument_calls S d dd). targets S c) = (\<Union>arg \<in> set (dd_arguments dd).
      \<Union>c \<in> set (named_calls S (inner_named_type (iv_ty arg)) None (depth_decrement d)). targets S c)"
    by (auto simp: argument_calls_def)
  then show "(\<Union>c \<in> set (argument_calls S d dd). targets S c) = targets S (CDirective name d)"
    unfolding named_calls_plain(2) [OF assms(1)] using assms(2) by (auto simp: argument_refs_def)
qed

section \<open>Without a depth limit: what is reachable\<close>

text \<open>
  What a depth-first search started at \<open>ts\<close> has done between two states: it retained the start,
  everything it newly retained has all its references retained, and nothing unreachable is new.
\<close>

definition searched :: "schema \<Rightarrow> SchemaTreeShaker \<Rightarrow> SchemaTreeShaker \<Rightarrow> string set \<Rightarrow> bool" where
  "searched S s s' ts \<longleftrightarrow>
     ts \<subseteq> retained s' \<and> retained s \<subseteq> retained s' \<and>
     (\<forall>a \<in> retained s' - retained s. references S `` {a} \<subseteq> retained s') \<and>
     retained s' \<subseteq> retained s \<union> (references S)\<^sup>* `` ts"

lemma searched_refl: "searched S s s {}"
  by (simp add: searched_def)

lemma searched_seq: "searched S s s1 A \<Longrightarrow> searched S s1 s2 B \<Longrightarrow> searched S s s2 (A \<union> B)"
  unfolding searched_def by blast

lemma searched_all:
  assumes "\<And>c s s'. c \<in> set cs \<Longrightarrow> exec S n c s = Some s' \<Longrightarrow> shaker_of S s \<Longrightarrow> searched S s s' (targets S c)"
    and "exec_all S n cs s = Some s'" and "shaker_of S s"
  shows "searched S s s' (\<Union>c \<in> set cs. targets S c)"
  using assms
proof (induction cs arbitrary: s)
  case Nil
  then show ?case by (simp add: searched_refl)
next
  case (Cons c cs)
  then obtain s1 where s1: "exec S n c s = Some s1" "exec_all S n cs s1 = Some s'"
    by (auto split: option.splits)
  have "shaker_of S s1"
    using Cons.prems(3) exec_le [OF s1(1)] by (rule shaker_of_le)
  then have "searched S s1 s' (\<Union>c \<in> set cs. targets S c)"
    using Cons.IH [of s1] Cons.prems(1) s1(2) by simp
  moreover have "searched S s s1 (targets S c)"
    using Cons.prems(1) [of c] Cons.prems(3) s1(1) by simp
  ultimately show ?case
    using searched_seq by simp
qed

lemma searched_from_mark:
  assumes "searched S (mark_type t None s) s' (references S `` {et_name t})"
    and "et_name t \<in> dom (named_type_nodes s)"
  shows "searched S s s' {et_name t}"
proof -
  let ?R = "references S"
  have m: "retained (mark_type t None s) = insert (et_name t) (retained s)"
    using assms(2) by (simp add: retained_mark)
  have step: "?R\<^sup>* `` (?R `` {et_name t}) \<subseteq> ?R\<^sup>* `` {et_name t}"
    by (auto intro: converse_rtrancl_into_rtrancl)
  show ?thesis
    using assms(1) step unfolding searched_def m by blast
qed

lemma dfs_call:
  assumes wk: "well_keyed S"
  shows "exec S n c s = Some s' \<Longrightarrow> shaker_of S s \<Longrightarrow> plain S Unlimited c \<Longrightarrow> searched S s s' (targets S c)"
proof (induction n arbitrary: c s s')
  case 0
  then show ?case
    by (cases c)
       (auto simp: searched_def retain_union_member_def
          retain_named_def member_selection_set_def split: option.splits)
next
  case (Suc n)
  have type: "searched S s s' {et_name t}"
    if "retain_type S (Suc n) t None Unlimited s = Some s'" "shaker_of S s"
      "map_of (schema_types S) (et_name t) = Some t" for t s s'
  proof (cases "already_retained s t None Unlimited")
    case True
    with that(1) have "s' = s" by (simp add: retain_calls spread_calls_def)
    moreover from True have "et_name t \<in> retained s"
      by (auto simp: already_retained_def retained_def split: option.splits)
    ultimately show ?thesis by (auto simp: searched_def)
  next
    case False
    with that(1) have run: "exec_all S n (body_calls S t None Unlimited) (mark_type t None s) = Some s'"
      by (simp add: retain_calls spread_calls_def)
    have "searched S (mark_type t None s) s' (\<Union>c \<in> set (body_calls S t None Unlimited). targets S c)"
      using searched_all [OF _ run] Suc.IH body_calls_plain(1) [OF wk] shaker_of_le [OF that(2) mark_type_le]
      by blast
    moreover have "et_name t \<in> dom (named_type_nodes s)"
      using that(2,3) by (auto simp: shaker_of_def)
    ultimately show ?thesis
      using searched_from_mark body_calls_plain(2) [OF wk that(3)] by simp
  qed
  show ?case
  proof (cases c)
    case (CType t sel d)
    then show ?thesis using Suc.prems type by simp
  next
    case (CDirective name d)
    show ?thesis
    proof (cases "directive_nodes s name")
      case None
      then have "map_of (directive_definitions S) name = None"
        using Suc.prems(2) by (metis option.map_disc_iff shaker_of_def)
      with None CDirective Suc.prems show ?thesis
        by (simp add: retain_calls argument_refs_def searched_refl)
    next
      case (Some node)
      then have dd: "map_of (directive_definitions S) name = Some (dn_node node)"
        using Suc.prems(2) by (metis option.map(2) shaker_of_def)
      from Some CDirective Suc.prems have
        run: "exec_all S n (argument_calls S Unlimited (dn_node node)) (mark_directive name node s) = Some s'"
        by (simp add: retain_calls)
      have "searched S (mark_directive name node s) s' (targets S (CDirective name Unlimited))"
        using searched_all [OF _ run] Suc.IH argument_calls_plain [OF wk dd]
          shaker_of_le [OF Suc.prems(2) mark_directive_le [OF Some]] by metis
      moreover have "retained (mark_directive name node s) = retained s"
        by (simp add: retained_def mark_directive_def)
      ultimately show ?thesis using CDirective by (simp add: searched_def)
    qed
  next
    case (CMember m sel d)
    then show ?thesis
      using Suc.prems type well_keyed_type [OF wk, of m]
      by (cases "map_of (schema_types S) m")
         (auto simp: retain_union_member_def member_selection_set_def searched_refl Int_insert_left domIff)
  next
    case (CDescribe arg args)
    then show ?thesis
      using Suc.prems by (auto simp: searched_def)
  qed (use Suc.prems in auto)
qed

lemma reachable_retained:
  assumes "well_keyed S" and "map_of (schema_types S) (et_name t) = Some t"
    and "retain_type S n t None Unlimited (new_shaker S) = Some s'"
  shows "retained s' = (references S)\<^sup>* `` {et_name t}"
proof -
  have s: "searched S (new_shaker S) s' {et_name t}"
    using dfs_call [OF assms(1), of n "CType t None Unlimited"] assms new_shaker_of(1) by simp
  have closed: "references S `` (retained s') \<subseteq> retained s'"
    using s new_shaker_of(2) [OF assms(1)] unfolding searched_def by blast
  have "b \<in> retained s'" if "(et_name t, b) \<in> (references S)\<^sup>*" for b
    using that
  proof (induction rule: rtrancl_induct)
    case base
    then show ?case using s by (simp add: searched_def)
  next
    case (step b c)
    then show ?case using closed by blast
  qed
  then show ?thesis
    using s new_shaker_of(2) [OF assms(1)] unfolding searched_def by blast
qed

section \<open>With a depth limit: what is near enough\<close>

definition near :: "schema \<Rightarrow> nat \<Rightarrow> string set \<Rightarrow> string set" where
  "near S k ts = {b. \<exists>a \<in> ts. \<exists>j < k. (a, b) \<in> references S ^^ j}"

lemma near_0 [simp]: "near S 0 ts = {}"
  by (simp add: near_def)

lemma near_UN: "near S k (\<Union>c \<in> C. f c) = (\<Union>c \<in> C. near S k (f c))"
  by (auto simp: near_def)

lemma near_empty [simp]: "near S k {} = {}"
  by (simp add: near_def)

lemma near_Suc: "near S (Suc k) ts = ts \<union> near S k (references S `` ts)"
proof -
  have split: "(\<exists>j < Suc k. P j) \<longleftrightarrow> P 0 \<or> (\<exists>j < k. P (Suc j))" for P :: "nat \<Rightarrow> bool"
    by (metis less_Suc_eq_0_disj)
  have "(a, b) \<in> references S ^^ Suc j \<longleftrightarrow> (\<exists>c. (a, c) \<in> references S \<and> (c, b) \<in> references S ^^ j)" for a b j
    using relpow_Suc_D2 relpow_Suc_I2 by metis
  then show ?thesis
    by (auto simp: near_def split simp del: relpow.simps(2))
qed

text \<open>Every call of a list succeeds and adds its own share.\<close>

lemma exec_all_adds:
  assumes "\<And>c s. c \<in> set cs \<Longrightarrow> shaker_of S s \<Longrightarrow>
      \<exists>s'. exec S n c s = Some s' \<and> retained s' = retained s \<union> add c"
    and "shaker_of S s"
  shows "\<exists>s'. exec_all S n cs s = Some s' \<and> retained s' = retained s \<union> (\<Union>c \<in> set cs. add c)"
  using assms
proof (induction cs arbitrary: s)
  case (Cons c cs)
  then obtain s1 where s1: "exec S n c s = Some s1" "retained s1 = retained s \<union> add c"
    by (meson list.set_intros(1))
  have "shaker_of S s1"
    using Cons.prems(2) exec_le [OF s1(1)] by (rule shaker_of_le)
  then obtain s' where "exec_all S n cs s1 = Some s'" "retained s' = retained s1 \<union> (\<Union>c \<in> set cs. add c)"
    using Cons.IH [of s1] Cons.prems(1) by (meson list.set_intros(2))
  with s1 show ?case by (auto simp: Un_assoc)
qed simp

lemma plain_call_near:
  assumes wk: "well_keyed S"
    and type: "\<And>n t s. 2 * k + 1 \<le> n \<Longrightarrow> map_of (schema_types S) (et_name t) = Some t \<Longrightarrow> shaker_of S s \<Longrightarrow>
      \<exists>s'. retain_type S n t None (depth_decrement d) s = Some s' \<and> retained s' = retained s \<union> near S k {et_name t}"
    and c: "plain S d c" and n: "2 * k + 2 \<le> n" and s: "shaker_of S s"
  shows "\<exists>s'. exec S n c s = Some s' \<and> retained s' = retained s \<union> near S k (targets S c)"
proof -
  have direct: "\<exists>s'. exec S n c s = Some s' \<and> retained s' = retained s \<union> near S k (targets S c)"
    if "plain S d c" "2 * k + 1 \<le> n" "shaker_of S s" "\<And>name d. c \<noteq> CDirective name d" for c n s
  proof (cases c)
    case (CMember m sel d')
    show ?thesis
    proof (cases "map_of (schema_types S) m")
      case None
      then show ?thesis using CMember by (simp add: retain_union_member_def Int_insert_left domIff)
    next
      case (Some t)
      then show ?thesis
        using CMember that well_keyed_type [OF wk Some] type [of n t s]
        by (auto simp: retain_union_member_def member_selection_set_def Int_insert_left domIff)
    qed
  qed (use that type in auto)
  show ?thesis
  proof (cases "\<exists>name d'. c = CDirective name d'")
    case False
    then show ?thesis using direct c n s by auto
  next
    case True
    then obtain name where name: "c = CDirective name d" using c by auto
    obtain n' where n': "n = Suc n'" "2 * k + 1 \<le> n'" using n by (cases n) auto
    show ?thesis
    proof (cases "directive_nodes s name")
      case None
      then have "map_of (directive_definitions S) name = None"
        using s by (metis option.map_disc_iff shaker_of_def)
      with None name n' show ?thesis by (simp add: retain_calls argument_refs_def)
    next
      case (Some node)
      then have dd: "map_of (directive_definitions S) name = Some (dn_node node)"
        using s by (metis option.map(2) shaker_of_def)
      have "\<exists>s'. exec_all S n' (argument_calls S d (dn_node node)) (mark_directive name node s) = Some s' \<and>
          retained s' = retained (mark_directive name node s) \<union>
            (\<Union>c \<in> set (argument_calls S d (dn_node node)). near S k (targets S c))"
      proof (rule exec_all_adds)
        fix c s
        assume "c \<in> set (argument_calls S d (dn_node node))" "shaker_of S s"
        moreover from this have "c \<noteq> CDirective nm dd'" for nm dd'
          by (auto simp: argument_calls_def named_calls_def split: option.splits)
        ultimately show "\<exists>s'. exec S n' c s = Some s' \<and> retained s' = retained s \<union> near S k (targets S c)"
          using direct n'(2) argument_calls_plain(1) [OF wk dd] by blast
      qed (rule shaker_of_le [OF s mark_directive_le [OF Some]])
      moreover have "retained (mark_directive name node s) = retained s"
        by (simp add: retained_def mark_directive_def)
      ultimately show ?thesis
        using Some name n' argument_calls_plain(2) [OF wk dd, of d]
        by (simp add: retain_calls flip: near_UN)
    qed
  qed
qed

lemma retain_type_near:
  assumes wk: "well_keyed S"
  shows "2 * unat d + 1 \<le> n \<Longrightarrow> map_of (schema_types S) (et_name t) = Some t \<Longrightarrow> shaker_of S s \<Longrightarrow>
    \<exists>s'. retain_type S n t None (Limited d) s = Some s' \<and> retained s' = retained s \<union> near S (unat d) {et_name t}"
proof (induction "unat d" arbitrary: d n t s)
  case 0
  then show ?case by (cases n) (auto simp: retain_calls unat_eq_0)
next
  case (Suc k)
  then obtain n' where n': "n = Suc n'" "2 * k + 2 \<le> n'" by (cases n) auto
  from Suc.hyps(2) have d0: "d \<noteq> 0" by auto
  with Suc.hyps(2) have d: "d \<noteq> 0" "unat (d - 1) = k"
    by (simp_all add: unat_minus_one)
  have "shaker_of S (mark_type t None s)"
    using Suc.prems(3) mark_type_le by (rule shaker_of_le)
  moreover have "\<exists>s'. exec S n' c s = Some s' \<and> retained s' = retained s \<union> near S k (targets S c)"
    if "c \<in> set (body_calls S t None (Limited d))" "shaker_of S s" for c s
    using that body_calls_plain(1) [OF wk] Suc.hyps(1) [of "d - 1"] d n'(2)
    by (intro plain_call_near [OF wk, of k "Limited d"]) auto
  ultimately obtain s' where
    "exec_all S n' (body_calls S t None (Limited d)) (mark_type t None s) = Some s'"
    "retained s' = retained (mark_type t None s) \<union> (\<Union>c \<in> set (body_calls S t None (Limited d)). near S k (targets S c))"
    using exec_all_adds [of "body_calls S t None (Limited d)" S n' "\<lambda>c. near S k (targets S c)"] by blast
  moreover have "et_name t \<in> dom (named_type_nodes s)"
    using Suc.prems(2,3) by (auto simp: shaker_of_def)
  ultimately have "retain_type S n t None (Limited d) s = Some s' \<and>
      retained s' = insert (et_name t) (retained s) \<union> near S k (references S `` {et_name t})"
    using d(1) n'(1) body_calls_plain(2) [OF wk Suc.prems(2), of "Limited d"]
    by (simp add: retain_calls spread_calls_def already_retained_def retained_mark split: option.splits flip: near_UN)
  then show ?case
    using Suc.hyps(2) by (auto simp: near_Suc simp flip: Suc.hyps(2))
qed

end
