(* ===== verification/Tree_Shake_Stack.thy ===== *)
theory Tree_Shake_Stack
  imports Tree_Shake_Correct
begin

text \<open>
  How much stack a traversal without depth limit needs: linear in the nesting of the selection
  (fragments expanded) and in the number of types not retained yet, when fragments have a rank
  and the members of unions are not unions themselves.
\<close>

section \<open>Rank of a selection\<close>

fun sel_rank :: "(string \<Rightarrow> nat) \<Rightarrow> selection \<Rightarrow> nat" where
  "sel_rank r (Field al n args ds ss) = Suc (foldr max (map (sel_rank r) ss) 0)"
| "sel_rank r (FragmentSpread n ds) = Suc (r n)"
| "sel_rank r (InlineFragment tc ds ss) = Suc (foldr max (map (sel_rank r) ss) 0)"

abbreviation sels_rank :: "(string \<Rightarrow> nat) \<Rightarrow> selection list \<Rightarrow> nat" where
  "sels_rank r ss \<equiv> foldr max (map (sel_rank r) ss) 0"

lemma sels_rank_member: "x \<in> set ss \<Longrightarrow> sel_rank r x \<le> sels_rank r ss"
  by (induction ss) auto

lemma sels_rank_filter: "sels_rank r (filter P ss) \<le> sels_rank r ss"
  by (induction ss) auto

text \<open>A rank witnesses that no fragment spreads itself, directly or not.\<close>

definition ranked_fragments :: "(string \<Rightarrow> nat) \<Rightarrow> (string \<rightharpoonup> fragment_definition) \<Rightarrow> bool" where
  "ranked_fragments r frags \<longleftrightarrow> (\<forall>n f. frags n = Some f \<longrightarrow> sels_rank r (frag_selection_set f) \<le> r n)"

fun is_union :: "extended_type \<Rightarrow> bool" where
  "is_union (UnionType desc n ds ms) = True"
| "is_union _ = False"

definition flat_unions :: "schema \<Rightarrow> bool" where
  "flat_unions S \<longleftrightarrow>
     list_all (\<lambda>(k, t). case t of
         UnionType desc n ds ms \<Rightarrow>
           list_all (\<lambda>m. case map_of (schema_types S) m of None \<Rightarrow> True | Some u \<Rightarrow> \<not> is_union u) ms
       | _ \<Rightarrow> True) (schema_types S)"

section \<open>The stack each call needs\<close>

definition left_over :: "schema \<Rightarrow> SchemaTreeShaker \<Rightarrow> nat" where
  "left_over S s = card (dom (map_of (schema_types S)) - retained s)"

lemma left_over_le: "shaker_le s s' \<Longrightarrow> left_over S s' \<le> left_over S s"
  unfolding left_over_def
  by (rule card_mono) (auto simp: finite_dom_map_of dest: shaker_leD(3))

lemma left_over_mark:
  assumes "et_name t \<in> dom (map_of (schema_types S))" and "et_name t \<notin> retained s"
    and "et_name t \<in> dom (named_type_nodes s)"
  shows "left_over S (mark_type t sel s) < left_over S s"
  unfolding left_over_def
  by (rule psubset_card_mono) (use assms in \<open>auto simp: finite_dom_map_of retained_mark\<close>)

fun stack_need :: "(string \<Rightarrow> nat) \<Rightarrow> nat \<Rightarrow> call \<Rightarrow> nat" where
  "stack_need r u (CType t None d) = 2 * u + 1"
| "stack_need r u (CType t (Some ss) d) = 3 * sels_rank r ss + 2 * u + (if is_union t then 4 else 3)"
| "stack_need r u (CFragments ss d) = 3 * sels_rank r ss + 2 * u + 2"
| "stack_need r u (CDirective name d) = 2 * u + 2"
| "stack_need r u (CMember m None d) = 2 * u + 1"
| "stack_need r u (CMember m (Some ss) d) = 3 * sels_rank r ss + 2 * u + 3"
| "stack_need r u (CSpread name d) = 3 * r name + 2 * u + 4"
| "stack_need r u (CDescribe arg args) = 0"

lemma stack_need_mono: "u \<le> u' \<Longrightarrow> stack_need r u c \<le> stack_need r u' c"
  by (induction r u c rule: stack_need.induct) auto

fun call_ok :: "schema \<Rightarrow> call \<Rightarrow> bool" where
  "call_ok S (CType t sel d) \<longleftrightarrow> d = Unlimited \<and> map_of (schema_types S) (et_name t) = Some t"
| "call_ok S (CFragments ss d) \<longleftrightarrow> d = Unlimited"
| "call_ok S (CDirective name d) \<longleftrightarrow> d = Unlimited"
| "call_ok S (CMember m sel d) \<longleftrightarrow> d = Unlimited \<and> (\<forall>u. map_of (schema_types S) m = Some u \<longrightarrow> \<not> is_union u)"
| "call_ok S (CSpread name d) \<longleftrightarrow> d = Unlimited"
| "call_ok S (CDescribe arg args) \<longleftrightarrow> True"

text \<open>The calls of a body, by shape.\<close>

lemma named_calls_ok:
  "well_keyed S \<Longrightarrow> c \<in> set (named_calls S name sel Unlimited) \<Longrightarrow>
   call_ok S c \<and> (\<exists>t. c = CType t sel Unlimited)"
  by (cases "map_of (schema_types S) name") (auto simp: named_calls_def dest: well_keyed_type)

lemma stack_need_0: "stack_need r u c = 0 \<Longrightarrow> \<exists>arg args. c = CDescribe arg args"
  by (induction r u c rule: stack_need.induct) (auto split: if_splits)

lemma field_calls_ok:
  assumes "well_keyed S" and "c \<in> set (field_calls b S Unlimited (k, fdef, sdirs, ssel, m))"
  shows "call_ok S c \<and> ((\<exists>t. c = CType t ssel Unlimited) \<or> stack_need r u c \<le> 2 * u + 2)"
  using assms(2) named_calls_ok [OF assms(1)]
  by (fastforce simp: directive_calls_def described_calls_def split: option.splits if_splits)

lemma selected_fields_Some:
  "f \<in> set (concat (map selection_set_to_fields ss)) \<longleftrightarrow>
     f \<in> set ss \<and> (\<exists>al n args ds ss'. f = Field al n args ds ss' \<and> n \<noteq> ''__typename'')"
proof -
  have "f \<in> set (selection_set_to_fields x) \<longleftrightarrow>
      f = x \<and> (\<exists>al n args ds ss'. x = Field al n args ds ss' \<and> n \<noteq> ''__typename'')" for x
    by (cases x) auto
  then show ?thesis by auto
qed

lemma field_rows_need:
  assumes "well_keyed S" and "row \<in> set (field_rows fs (selected_fields sel))"
    and "c \<in> set (field_calls b S Unlimited row)"
  shows "call_ok S c \<and> stack_need r u c \<le> (case sel of None \<Rightarrow> 2 * u + 2 | Some ss \<Rightarrow> 3 * sels_rank r ss + 2 * u + 2)"
proof (cases sel)
  case None
  with assms(2) obtain k fd where "row = (k, Some fd, None, None, Map.empty)"
    by (auto simp: field_rows_def selected_fields_def)
  with assms field_calls_ok [OF assms(1), of c b k "Some fd" None None Map.empty r u] None
  show ?thesis by (auto simp del: field_calls.simps)
next
  case (Some ss)
  with assms(2) obtain f where f: "f \<in> set (concat (map selection_set_to_fields ss))"
    and row: "row = (sel_name f, map_of fs (sel_name f), Some (sel_directives f), Some (sel_selection_set f),
      build_argument_name_to_value_map (sel_arguments f))"
    by (auto simp: field_rows_def selected_fields_def)
  from f have "Suc (sels_rank r (sel_selection_set f)) \<le> sels_rank r ss"
    unfolding selected_fields_Some using sels_rank_member [of f ss r] by auto
  then show ?thesis
    using field_calls_ok [OF assms(1) assms(3) [unfolded row], of r u] Some
    by (auto simp del: field_calls.simps)
qed

lemma body_calls_need:
  assumes wk: "well_keyed S" and flat: "flat_unions S"
    and t: "map_of (schema_types S) (et_name t) = Some t"
    and c: "c \<in> set (body_calls S t sel Unlimited)"
  shows "call_ok S c \<and> stack_need r u c \<le>
    (case sel of None \<Rightarrow> 2 * u + 2 | Some ss \<Rightarrow> 3 * sels_rank r ss + 2 * u + (if is_union t then 3 else 2))"
proof (cases "c \<in> set (directive_calls Unlimited (et_directives t))")
  case True
  then show ?thesis by (auto simp: directive_calls_def split: option.splits)
next
  case False
  with c have m: "c \<in> set (member_calls S t (selected_fields sel) sel Unlimited)" by (simp add: body_calls_def)
  show ?thesis
  proof (cases t)
    case (ObjectType desc n ds ifs fs)
    then show ?thesis using m field_rows_need [OF wk, of _ fs sel c True r u] by auto
  next
    case (InterfaceType desc n ds ifs fs)
    then show ?thesis using m field_rows_need [OF wk, of _ fs sel c False r u] by auto
  next
    case (UnionType desc n ds ms)
    have "(et_name t, t) \<in> set (schema_types S)" using t by (rule map_of_SomeD)
    with flat UnionType m show ?thesis
      by (cases sel) (force simp: flat_unions_def list_all_iff split: option.splits)+
  next
    case (EnumType desc n ds vs)
    then show ?thesis using m by (auto simp: directive_calls_def split: option.splits)
  next
    case (InputObjectType desc n ds fs)
    then show ?thesis using m named_calls_ok [OF wk] by (fastforce simp: directive_calls_def split: option.splits)
  qed (use m in auto)
qed

section \<open>Enough stack\<close>

lemma exec_all_enough:
  assumes "\<And>c s. c \<in> set cs \<Longrightarrow> call_ok S c \<Longrightarrow> stack_need r (left_over S s) c \<le> n \<Longrightarrow> shaker_of S s \<Longrightarrow>
      ranked_fragments r (named_fragments s) \<Longrightarrow> exec S n c s \<noteq> None"
    and "\<forall>c \<in> set cs. call_ok S c \<and> stack_need r (left_over S s) c \<le> n"
    and "shaker_of S s" and "ranked_fragments r (named_fragments s)"
  shows "exec_all S n cs s \<noteq> None"
  using assms
proof (induction cs arbitrary: s)
  case (Cons c cs)
  then obtain s1 where s1: "exec S n c s = Some s1" by fastforce
  note le = exec_le [OF s1]
  have "\<forall>c \<in> set cs. call_ok S c \<and> stack_need r (left_over S s1) c \<le> n"
    using Cons.prems(2) stack_need_mono [OF left_over_le [OF le, of S], of r] order_trans by (metis list.set_intros(2))
  then show ?case
    using Cons.IH [of s1] Cons.prems(1,3,4) shaker_of_le [OF _ le] shaker_leD(1) [OF le] s1 by simp
qed simp

lemma enough_stack:
  assumes wk: "well_keyed S" and flat: "flat_unions S"
  shows "call_ok S c \<Longrightarrow> stack_need r (left_over S s) c \<le> n \<Longrightarrow> shaker_of S s \<Longrightarrow>
    ranked_fragments r (named_fragments s) \<Longrightarrow> exec S n c s \<noteq> None"
proof (induction n arbitrary: c s)
  case 0
  then show ?case using stack_need_0 [of r "left_over S s" c] by auto
next
  case (Suc n)
  note all = exec_all_enough [of _ S r n, OF Suc.IH]
  have type: "retain_type S (Suc n) t sel Unlimited s \<noteq> None"
    if "stack_need r (left_over S s) (CType t sel Unlimited) \<le> Suc n" "map_of (schema_types S) (et_name t) = Some t"
      "shaker_of S s" "ranked_fragments r (named_fragments s)" for t sel s
  proof -
    note prems = that
    have "exec_all S n (spread_calls Unlimited sel) s \<noteq> None"
      using prems by (intro all) (auto simp: spread_calls_def split: option.splits if_splits)
    then obtain s1 where s1: "exec_all S n (spread_calls Unlimited sel) s = Some s1" by auto
    note le = run_le [OF s1]
    let ?m = "mark_type t sel s1"
    have dom: "et_name t \<in> dom (named_type_nodes s1)" "et_name t \<in> dom (map_of (schema_types S))"
      using prems(2) shaker_of_le [OF prems(3) le] by (auto simp: shaker_of_def)
    have "exec_all S n (body_calls S t sel Unlimited) ?m \<noteq> None" if fresh: "\<not> already_retained s1 t sel Unlimited"
    proof (rule all)
      show "shaker_of S ?m"
        using shaker_of_le [OF shaker_of_le [OF prems(3) le] mark_type_le] \<open>shaker_of S s\<close> by simp
      show "ranked_fragments r (named_fragments ?m)"
        using \<open>ranked_fragments r (named_fragments s)\<close> shaker_leD(1) [OF le] shaker_leD(1) [OF mark_type_le] by simp
      show "\<forall>c \<in> set (body_calls S t sel Unlimited). call_ok S c \<and> stack_need r (left_over S ?m) c \<le> n"
      proof
        fix c
        assume "c \<in> set (body_calls S t sel Unlimited)"
        note need = body_calls_need [OF wk flat \<open>map_of (schema_types S) (et_name t) = Some t\<close> this,
            of r "left_over S ?m"]
        have mark: "left_over S ?m \<le> left_over S s"
          using left_over_le [OF mark_type_le] left_over_le [OF le] order_trans by blast
        show "call_ok S c \<and> stack_need r (left_over S ?m) c \<le> n"
        proof (cases sel)
          case None
          with fresh dom(1) have "et_name t \<notin> retained s1"
            by (auto simp: already_retained_def retained_def split: option.splits)
          from left_over_mark [OF dom(2) this dom(1), of sel] left_over_le [OF le, of S]
          show ?thesis using need None prems(1) by (auto)
        next
          case (Some ss)
          then show ?thesis using need mark prems(1) by (auto split: if_splits)
        qed
      qed
    qed
    then show ?thesis using s1 by (simp add: retain_calls)
  qed
  show ?case
  proof (cases c)
    case (CType t sel d)
    then show ?thesis using type Suc.prems by simp
  next
    case (CFragments ss d)
    have "exec_all S n (concat (map (selection_calls S Unlimited) ss)) s \<noteq> None"
    proof (rule all)
      show "\<forall>c \<in> set (concat (map (selection_calls S Unlimited) ss)). call_ok S c \<and> stack_need r (left_over S s) c \<le> n"
      proof
        fix c'
        assume "c' \<in> set (concat (map (selection_calls S Unlimited) ss))"
        then obtain x where x: "x \<in> set ss" "c' \<in> set (selection_calls S Unlimited x)" by auto
        from sels_rank_member [OF x(1), of r] x(2) Suc.prems(2) CFragments
        show "call_ok S c' \<and> stack_need r (left_over S s) c' \<le> n"
          using named_calls_ok [OF wk]
          by (cases x) (fastforce split: option.splits if_splits)+
      qed
    qed (use Suc.prems in auto)
    then show ?thesis using CFragments Suc.prems by (simp add: retain_calls)
  next
    case (CDirective name d)
    show ?thesis
    proof (cases "directive_nodes s name")
      case None
      then show ?thesis using CDirective by (simp add: retain_calls)
    next
      case (Some node)
      let ?m = "mark_directive name node s"
      have same: "left_over S ?m = left_over S s"
        by (simp add: left_over_def retained_def mark_directive_def)
      have "exec_all S n (argument_calls S Unlimited (dn_node node)) ?m \<noteq> None"
      proof (rule all)
        show "\<forall>c \<in> set (argument_calls S Unlimited (dn_node node)). call_ok S c \<and> stack_need r (left_over S ?m) c \<le> n"
          unfolding same using Suc.prems CDirective named_calls_ok [OF wk] by (fastforce simp: argument_calls_def)
        show "shaker_of S ?m" by (rule shaker_of_le [OF Suc.prems(3) mark_directive_le [OF Some]])
        show "ranked_fragments r (named_fragments ?m)" using Suc.prems(4) by (simp add: mark_directive_def)
      qed
      then show ?thesis using CDirective Some Suc.prems by (simp add: retain_calls)
    qed
  next
    case (CMember m sel d)
    show ?thesis
    proof (cases "map_of (schema_types S) m")
      case None
      then show ?thesis using CMember by (simp add: retain_union_member_def)
    next
      case (Some t)
      then have t: "map_of (schema_types S) (et_name t) = Some t" "\<not> is_union t"
        using well_keyed_type [OF wk Some] CMember Suc.prems(1) by auto
      have "stack_need r (left_over S s) (CType t (member_selection_set (named_fragments s) m sel) Unlimited) \<le> Suc n"
      proof (cases sel)
        case (Some ss)
        then show ?thesis
          using Suc.prems(2) CMember t(2) sels_rank_filter [of r "selects_member (named_fragments s) m" ss]
          by (auto simp: member_selection_set_def)
      qed (use Suc.prems(2) CMember in \<open>simp add: member_selection_set_def\<close>)
      from type [OF this t(1)] Suc.prems CMember Some show ?thesis
        by (auto simp: retain_union_member_def Let_def)
    qed
  next
    case (CSpread name d)
    show ?thesis
    proof (cases "named_fragments s name")
      case (Some f)
      with Suc.prems(4) have rank: "sels_rank r (frag_selection_set f) \<le> r name" by (simp add: ranked_fragments_def)
      show ?thesis
      proof (cases "map_of (schema_types S) (frag_type_condition f)")
        case (Some t)
        have "stack_need r (left_over S s) (CType t (Some (frag_selection_set f)) Unlimited) \<le> Suc n"
          using Suc.prems(2) CSpread rank by simp
        from type [OF this] well_keyed_type [OF wk Some] Some Suc.prems CSpread \<open>named_fragments s name = Some f\<close>
        show ?thesis by (simp add: retain_named_def)
      qed (use CSpread Some in \<open>simp add: retain_named_def\<close>)
    qed (use CSpread in simp)
  qed simp
qed

section \<open>The fields an operation selects\<close>

fun fields_of :: "extended_type \<Rightarrow> (string \<times> field_definition) list" where
  "fields_of (ObjectType desc n ds is fs) = fs"
| "fields_of (InterfaceType desc n ds is fs) = fs"
| "fields_of _ = []"

text \<open>
  The places of an operation: a selection set together with the type it is applied to, through
  fields, fragments with a type condition, and the members of unions.
\<close>

inductive applied :: "schema \<Rightarrow> (string \<rightharpoonup> fragment_definition) \<Rightarrow> extended_type \<Rightarrow> selection list \<Rightarrow>
    extended_type \<Rightarrow> selection list \<Rightarrow> bool"
  for S frags root sels where
  start: "applied S frags root sels root sels"
| field: "applied S frags root sels t ss \<Longrightarrow> Field al n args ds ss' \<in> set ss \<Longrightarrow> n \<noteq> ''__typename'' \<Longrightarrow>
    map_of (fields_of t) n = Some fd \<Longrightarrow> map_of (schema_types S) (inner_named_type (fd_ty fd)) = Some u \<Longrightarrow>
    applied S frags root sels u ss'"
| inline: "applied S frags root sels t ss \<Longrightarrow> InlineFragment (Some tc) ds ss' \<in> set ss \<Longrightarrow>
    map_of (schema_types S) tc = Some u \<Longrightarrow> applied S frags root sels u ss'"
| spread: "applied S frags root sels t ss \<Longrightarrow> FragmentSpread name ds \<in> set ss \<Longrightarrow> frags name = Some f \<Longrightarrow>
    map_of (schema_types S) (frag_type_condition f) = Some u \<Longrightarrow>
    applied S frags root sels u (frag_selection_set f)"
| member: "applied S frags root sels (UnionType desc n ds ms) ss \<Longrightarrow> m \<in> set ms \<Longrightarrow>
    map_of (schema_types S) m = Some u \<Longrightarrow> member_selection_set frags m (Some ss) = Some ss' \<Longrightarrow>
    applied S frags root sels u ss'"

text \<open>The traversal got to a place, and nothing it did there was lost.\<close>

definition walked :: "schema \<Rightarrow> (string \<rightharpoonup> fragment_definition) \<Rightarrow> SchemaTreeShaker \<Rightarrow> extended_type \<Rightarrow> selection list \<Rightarrow> bool" where
  "walked S frags s' t ss \<longleftrightarrow>
     (\<exists>n s1 s2. retain_type S n t (Some ss) Unlimited s1 = Some s2 \<and> named_fragments s1 = frags \<and>
        shaker_of S s1 \<and> shaker_le s2 s')"

lemma walked_unfold:
  assumes "walked S frags s' t ss"
  obtains n sa sb where "named_fragments sa = frags" "shaker_of S sa"
    "exec_all S n (body_calls S t (Some ss) Unlimited) (mark_type t (Some ss) sa) = Some sb" "shaker_le sb s'"
proof -
  from assms obtain m s1 s2 where run: "retain_type S m t (Some ss) Unlimited s1 = Some s2"
    "named_fragments s1 = frags" "shaker_of S s1" "shaker_le s2 s'"
    by (auto simp: walked_def)
  then obtain n where "m = Suc n" by (cases m) auto
  with run(1) obtain sa where "exec_all S n (spread_calls Unlimited (Some ss)) s1 = Some sa"
    "exec_all S n (body_calls S t (Some ss) Unlimited) (mark_type t (Some ss) sa) = Some s2"
    by (auto simp: retain_calls already_retained_def Option.bind_eq_Some_conv split: option.splits)
  moreover from this run_le have "shaker_le s1 sa" by blast
  ultimately show ?thesis
    using that run(2-4) shaker_leD(1) shaker_of_le by metis
qed

lemma walked_call:
  assumes "exec_all S n cs s1 = Some s2" and "CType u (Some ss') Unlimited \<in> set cs"
    and "named_fragments s1 = frags" and "shaker_of S s1" and "shaker_le s2 s'"
  shows "walked S frags s' u ss'"
proof -
  obtain sa sb where "shaker_le s1 sa" "exec S n (CType u (Some ss') Unlimited) sa = Some sb" "shaker_le sb s2"
    using exec_all_member [OF assms(1,2)] .
  then show ?thesis
    unfolding walked_def using assms(3-5) shaker_leD(1) shaker_of_le shaker_le_trans by (metis exec.simps(1))
qed

lemma walked_body:
  assumes "walked S frags s' t ss" and "CType u (Some ss') Unlimited \<in> set (body_calls S t (Some ss) Unlimited)"
  shows "walked S frags s' u ss'"
proof -
  from assms(1) obtain n sa sb where a: "named_fragments sa = frags" "shaker_of S sa"
    "exec_all S n (body_calls S t (Some ss) Unlimited) (mark_type t (Some ss) sa) = Some sb" "shaker_le sb s'"
    by (rule walked_unfold)
  show ?thesis
    using walked_call [OF a(3) assms(2) _ _ a(4)] a(1,2) shaker_leD(1) [OF mark_type_le] shaker_of_le [OF _ mark_type_le]
    by simp
qed

lemma walked_fragments:
  assumes "walked S frags s' t ss" and "x \<in> set ss"
  obtains n s1 s2 where "exec_all S n (selection_calls S Unlimited x) s1 = Some s2" "named_fragments s1 = frags"
    "shaker_of S s1" "shaker_le s2 s'"
proof -
  from assms(1) obtain m s1 s2 where run: "retain_type S m t (Some ss) Unlimited s1 = Some s2"
    "named_fragments s1 = frags" "shaker_of S s1" "shaker_le s2 s'"
    by (auto simp: walked_def)
  then obtain n where m: "m = Suc n" by (cases m) auto
  with run(1) obtain sa where sa: "retain_fragments S n ss Unlimited s1 = Some sa"
    "exec_all S n (body_calls S t (Some ss) Unlimited) (mark_type t (Some ss) sa) = Some s2"
    by (auto simp: retain_calls spread_calls_def already_retained_def Option.bind_eq_Some_conv split: option.splits)
  from sa(1) obtain k where k: "n = Suc k" by (cases n) auto
  obtain xs ys where ss: "ss = xs @ x # ys" using assms(2) by (auto simp: in_set_conv_decomp)
  from sa(1) k obtain sb sc where
    "exec_all S k (concat (map (selection_calls S Unlimited) xs)) s1 = Some sb"
    "exec_all S k (selection_calls S Unlimited x) sb = Some sc"
    "exec_all S k (concat (map (selection_calls S Unlimited) ys)) sc = Some sa"
    by (auto simp: retain_calls ss for_each_append Option.bind_eq_Some_conv)
  moreover from this have "shaker_le s1 sb" "shaker_le sc sa" "shaker_le sa s2"
    using run_le sa(2) mark_type_le shaker_le_trans by blast+
  ultimately show ?thesis
    using that run(2-4) shaker_leD(1) shaker_of_le shaker_le_trans by metis
qed

lemma field_call_in_body:
  assumes "Field al n args ds ss' \<in> set ss" and "n \<noteq> ''__typename''"
    and "map_of (fields_of t) n = Some fd" and "map_of (schema_types S) (inner_named_type (fd_ty fd)) = Some u"
  shows "CType u (Some ss') Unlimited \<in> set (body_calls S t (Some ss) Unlimited)"
proof -
  have f: "Field al n args ds ss' \<in> set (concat (map selection_set_to_fields ss))"
    using assms(1,2) unfolding selected_fields_Some by simp
  have c: "CType u (Some ss') Unlimited \<in>
      set (field_calls b S Unlimited (n, map_of (fields_of t) n, Some ds, Some ss', build_argument_name_to_value_map args))" for b
    using assms(3,4) by (simp add: named_calls_def)
  have row: "(n, map_of fs n, Some ds, Some ss', build_argument_name_to_value_map args)
      \<in> set (field_rows fs (selected_fields (Some ss)))" for fs
    using imageI [OF f, of "\<lambda>f. (sel_name f, map_of fs (sel_name f), Some (sel_directives f),
        Some (sel_selection_set f), build_argument_name_to_value_map (sel_arguments f))"]
    by (simp add: field_rows_def selected_fields_def)
  have "CType u (Some ss') Unlimited \<in> set (member_calls S t (selected_fields (Some ss)) (Some ss) Unlimited)"
  proof (cases t)
    case (ObjectType desc nm ds ifs fs)
    then show ?thesis using c [of True] bexI [OF _ row [of fs]] by (auto simp del: field_calls.simps)
  next
    case (InterfaceType desc nm ds ifs fs)
    then show ?thesis using c [of False] bexI [OF _ row [of fs]] by (auto simp del: field_calls.simps)
  qed (use assms(3) in simp_all)
  then show ?thesis by (simp add: body_calls_def)
qed

lemma applied_walked:
  assumes "applied S frags root sels t ss" and "walked S frags s' root sels"
  shows "walked S frags s' t ss"
  using assms
proof (induction rule: applied.induct)
  case (field t ss al n args ds ss' fd u)
  then show ?case using walked_body [OF _ field_call_in_body] by metis
next
  case (inline t ss tc ds ss' u)
  from walked_fragments [OF inline.IH [OF inline.prems] inline.hyps(2)] obtain n s1 s2 where
    "exec_all S n (selection_calls S Unlimited (InlineFragment (Some tc) ds ss')) s1 = Some s2"
    "named_fragments s1 = frags" "shaker_of S s1" "shaker_le s2 s'" .
  then show ?case
    using walked_call inline.hyps(3) by (fastforce simp: named_calls_def)
next
  case (spread t ss name ds f u)
  from walked_fragments [OF spread.IH [OF spread.prems] spread.hyps(2)] obtain n s1 s2 where
    "exec_all S n (selection_calls S Unlimited (FragmentSpread name ds)) s1 = Some s2"
    "named_fragments s1 = frags" "shaker_of S s1" "shaker_le s2 s'" .
  then show ?case
    unfolding walked_def using spread.hyps(3,4) by (auto simp: retain_named_def split: option.splits)
next
  case (member desc n ds ms ss m u ss')
  from member.IH [OF member.prems] obtain k sa sb where run: "named_fragments sa = frags" "shaker_of S sa"
    "exec_all S k (body_calls S (UnionType desc n ds ms) (Some ss) Unlimited) (mark_type (UnionType desc n ds ms) (Some ss) sa) = Some sb"
    "shaker_le sb s'"
    by (rule walked_unfold)
  have "CMember m (Some ss) Unlimited \<in> set (body_calls S (UnionType desc n ds ms) (Some ss) Unlimited)"
    using member.hyps(2) by (simp add: body_calls_def)
  from exec_all_member [OF run(3) this] obtain sc sd where
    m: "shaker_le (mark_type (UnionType desc n ds ms) (Some ss) sa) sc"
    "exec S k (CMember m (Some ss) Unlimited) sc = Some sd" "shaker_le sd sb" .
  have sc: "shaker_le sa sc" using mark_type_le m(1) by (rule shaker_le_trans)
  have "retain_type S k u (Some ss') Unlimited sc = Some sd"
    using m(2) member.hyps(3,4) run(1) shaker_leD(1) [OF sc] by (simp add: retain_union_member_def)
  then show ?case
    unfolding walked_def using sc m(3) run(1,2,4) shaker_leD(1) shaker_of_le shaker_le_trans by metis
qed simp

lemma walked_retained:
  assumes "walked S frags s' t ss" and "et_name t \<in> dom (map_of (schema_types S))"
  shows "et_name t \<in> retained s'"
    "Field al n args ds ss' \<in> set ss \<Longrightarrow> n \<noteq> ''__typename'' \<Longrightarrow> (et_name t, n) \<in> wanted s'"
proof -
  from assms(1) obtain k sa sb where run: "named_fragments sa = frags" "shaker_of S sa"
    "exec_all S k (body_calls S t (Some ss) Unlimited) (mark_type t (Some ss) sa) = Some sb" "shaker_le sb s'"
    by (rule walked_unfold)
  have le: "shaker_le (mark_type t (Some ss) sa) s'"
    using run_le [OF run(3)] run(4) by (rule shaker_le_trans)
  have dom: "et_name t \<in> dom (named_type_nodes sa)"
    using assms(2) run(2) by (simp add: shaker_of_def)
  then show "et_name t \<in> retained s'"
    using shaker_leD(3) [OF le] by (auto simp: retained_mark)
  assume "Field al n args ds ss' \<in> set ss" "n \<noteq> ''__typename''"
  then have "Field al n args ds ss' \<in> set (concat (map selection_set_to_fields ss))"
    unfolding selected_fields_Some by simp
  from wanted_mark [OF dom _ this] show "(et_name t, n) \<in> wanted s'"
    using shaker_leD(4) [OF le] by (auto simp: selected_fields_def)
qed

lemma map_of_filter_fields:
  "map_of (filter_fields node fs) n =
     (case filtered_field node of
        None \<Rightarrow> map_of fs n | Some names \<Rightarrow> if n \<in> set names then map_of fs n else None)"
  by (induction fs) (auto simp: filter_fields_def split: option.splits if_splits)

lemma wanted_in_document:
  assumes t: "map_of (schema_types S) (et_name t) = Some t" and "\<not> built_in_type S (et_name t)"
    and "(et_name t, n) \<in> wanted s'" and "map_of (fields_of t) n = Some fd"
  shows "\<exists>t'. TypeDefinition t' \<in> set (shaken_document S s') \<and> et_name t' = et_name t \<and>
    map_of (fields_of t') n = Some fd"
proof -
  from assms(3) obtain node names where node: "named_type_nodes s' (et_name t) = Some node" "retain node"
    "filtered_field node = Some names" "n \<in> set names"
    by (auto simp: wanted_def)
  have mem: "(et_name t, t) \<in> set (schema_types S)" using t by (rule map_of_SomeD)
  have "shaken_type S s' t = Some (TypeDefinition (shake_type node s' t))"
    using assms(2) node by (simp add: shaken_type_def)
  then have "TypeDefinition (shake_type node s' t) \<in> set (shaken_document S s')"
    using mem by (force simp: shaken_document_def set_filter_map)
  moreover have "et_name (shake_type node s' t) = et_name t \<and> map_of (fields_of (shake_type node s' t)) n = Some fd"
    using assms(4) node(3,4) by (cases t) (auto simp: map_of_filter_fields)
  ultimately show ?thesis by blast
qed

section \<open>Properties\<close>

lemma retain_operation_root:
  assumes "retain_operation S fuel operation document d (new_shaker S) = r"
    and "root_operation S (od_operation_type operation) = Some name"
    and "map_of (schema_types S) name = Some root"
  obtains s where "r = retain_type S fuel root (Some (od_selection_set operation)) d s"
    "named_fragments s = collect_fragments document" "well_keyed S \<Longrightarrow> shaker_of S s"
    "well_keyed S \<Longrightarrow> retained s = {}"
proof -
  let ?s = "(new_shaker S)\<lparr>named_fragments := collect_fragments document,
      operation_types := [od_operation_type operation]\<rparr>"
  have name: "name_for_operation_type (new_root_operation_names S) ot = n" if "root_operation S ot = Some n" for ot n
    using that by (cases ot) (simp_all add: new_root_operation_names_def operation_name_or_def)
  have "r = retain_type S fuel root (Some (od_selection_set operation)) d ?s"
    using assms name [OF assms(2)]
    by (simp add: retain_operation_def retain_operation_type_def retain_named_def new_shaker_def Let_def)
  moreover have "shaker_of S ?s" "retained ?s = {}" if "well_keyed S"
    using new_shaker_of [OF that] by (simp_all add: shaker_of_def retained_def)
  ultimately show ?thesis using that [of ?s] by simp
qed

text \<open>
  C2: shaking an operation keeps everything it selects: at every place of the operation (through
  fields, fragment spreads, inline fragments with a type condition and union members), the type
  the selection applies to is defined in the shaken document, with each selected field and that
  field's definition unchanged.
\<close>

theorem selected_fields_survive:
  assumes "well_keyed S" and "root_operation S (od_operation_type operation) = Some name"
    and "map_of (schema_types S) name = Some root"
    and "retain_operation S fuel operation document Unlimited (new_shaker S) = Some s'"
    and "applied S (collect_fragments document) root (od_selection_set operation) t ss"
    and "Field al n args ds ss' \<in> set ss" and "n \<noteq> ''__typename''"
    and "map_of (fields_of t) n = Some fd"
    and "map_of (schema_types S) (et_name t) = Some t" and "\<not> built_in_type S (et_name t)"
  shows "\<exists>t'. TypeDefinition t' \<in> set (shaken_document S s') \<and> et_name t' = et_name t \<and>
    map_of (fields_of t') n = Some fd"
proof -
  obtain s where s: "Some s' = retain_type S fuel root (Some (od_selection_set operation)) Unlimited s"
    "named_fragments s = collect_fragments document" "shaker_of S s"
    using retain_operation_root [OF assms(4,2,3)] assms(1) by metis
  have "walked S (collect_fragments document) s' root (od_selection_set operation)"
    unfolding walked_def by (rule exI [of _ fuel], rule exI [of _ s], rule exI [of _ s']) (simp add: s)
  then have "walked S (collect_fragments document) s' t ss"
    by (rule applied_walked [OF assms(5)])
  then have "(et_name t, n) \<in> wanted s'"
    using walked_retained(2) assms(6,7,9) by blast
  then show ?thesis
    by (rule wanted_in_document [OF assms(9,10) _ assms(8)])
qed

definition plain_field :: "string \<Rightarrow> string \<Rightarrow> string \<times> field_definition" where
  "plain_field n ty = (n, \<lparr>fd_description = None, fd_name = n, fd_arguments = [], fd_ty = Named ty, fd_directives = []\<rparr>)"

definition example_schema :: schema where
  "example_schema =
     \<lparr>schema_description = None, schema_directives = [],
      root_operation = (\<lambda>ot. if ot = Query then Some ''Query'' else None),
      schema_types =
        [(''Query'', ObjectType None ''Query'' [] [] [plain_field ''user'' ''User'', plain_field ''post'' ''Post'']),
         (''User'', ObjectType None ''User'' [] [] [plain_field ''name'' ''String'', plain_field ''email'' ''String'']),
         (''Post'', ObjectType None ''Post'' [] [] [plain_field ''title'' ''String'']),
         (''String'', ScalarType None ''String'' [])],
      directive_definitions = [], built_in_type = (\<lambda>n. n = ''String''), built_in_directive = (\<lambda>_. False)\<rparr>"

definition example_operation :: "selection list \<Rightarrow> operation_definition" where
  "example_operation ss =
     \<lparr>od_operation_type = Query, od_name = Some ''Q'', od_variables = [], od_directives = [],
      od_selection_set = ss, od_description = None, od_name_location = None\<rparr>"

lemmas example_simps = example_schema_def example_operation_def plain_field_def well_keyed_def
  flat_unions_def ranked_fragments_def collect_fragments_def

lemma example_operation_runs:
  "\<exists>s'. retain_operation example_schema 40
     (example_operation [Field None ''user'' [] [] [FragmentSpread ''F'' []]])
     [FragmentDefinition \<lparr>frag_name = ''F'', frag_type_condition = ''User'',
        frag_selection_set = [Field None ''name'' [] [] []], frag_description = None\<rparr>] Unlimited (new_shaker example_schema) = Some s'"
proof -
  let ?op = "example_operation [Field None ''user'' [] [] [FragmentSpread ''F'' []]]"
  let ?doc = "[FragmentDefinition \<lparr>frag_name = ''F'', frag_type_condition = ''User'',
        frag_selection_set = [Field None ''name'' [] [] []], frag_description = None\<rparr>]"
  let ?r = "\<lambda>_ :: string. 1 :: nat"
  have wk: "well_keyed example_schema" "flat_unions example_schema"
    by (simp_all add: example_simps)
  have root: "root_operation example_schema (od_operation_type ?op) = Some ''Query''"
    "\<exists>root. map_of (schema_types example_schema) ''Query'' = Some root \<and> et_name root = ''Query'' \<and> \<not> is_union root"
    by (simp_all add: example_simps)
  then obtain root where r: "map_of (schema_types example_schema) ''Query'' = Some root"
    "et_name root = ''Query''" "\<not> is_union root" by blast
  obtain s where s: "retain_operation example_schema 40 ?op ?doc Unlimited (new_shaker example_schema) =
      retain_type example_schema 40 root (Some (od_selection_set ?op)) Unlimited s"
    "named_fragments s = collect_fragments ?doc" "shaker_of example_schema s" "retained s = {}"
    using retain_operation_root [OF refl root(1) r(1)] wk(1) by metis
  have "left_over example_schema s \<le> 4"
    unfolding left_over_def s(4) by (simp add: example_schema_def card_insert_if)
  then have "exec example_schema 40 (CType root (Some (od_selection_set ?op)) Unlimited) s \<noteq> None"
    using r s(2,3) by (intro enough_stack [OF wk, of _ ?r]) (auto simp: example_simps)
  then show ?thesis using s(1) by auto
qed

theorem selected_fields_survive_witness:
  "\<exists>s' t'. retain_operation example_schema 40
     (example_operation [Field None ''user'' [] [] [FragmentSpread ''F'' []]])
     [FragmentDefinition \<lparr>frag_name = ''F'', frag_type_condition = ''User'',
        frag_selection_set = [Field None ''name'' [] [] []], frag_description = None\<rparr>] Unlimited (new_shaker example_schema) = Some s' \<and>
     TypeDefinition t' \<in> set (shaken_document example_schema s') \<and> et_name t' = ''User'' \<and>
     map_of (fields_of t') ''name'' = Some (snd (plain_field ''name'' ''String''))"
proof -
  let ?op = "example_operation [Field None ''user'' [] [] [FragmentSpread ''F'' []]]"
  let ?doc = "[FragmentDefinition \<lparr>frag_name = ''F'', frag_type_condition = ''User'',
        frag_selection_set = [Field None ''name'' [] [] []], frag_description = None\<rparr>]"
  let ?user = "ObjectType None ''User'' [] [] [plain_field ''name'' ''String'', plain_field ''email'' ''String'']"
  let ?query = "ObjectType None ''Query'' [] [] [plain_field ''user'' ''User'', plain_field ''post'' ''Post'']"
  let ?at = "applied example_schema (collect_fragments ?doc) ?query (od_selection_set ?op)"
  obtain s' where run: "retain_operation example_schema 40 ?op ?doc Unlimited (new_shaker example_schema) = Some s'"
    using example_operation_runs by blast
  have "?at ?user [FragmentSpread ''F'' []]"
    by (rule applied.field [OF applied.start]) (auto simp: example_simps)
  then have "?at ?user [Field None ''name'' [] [] []]"
    by (rule applied.spread [of _ _ _ _ _ _ "''F''" "[]"
          "\<lparr>frag_name = ''F'', frag_type_condition = ''User'', frag_selection_set = [Field None ''name'' [] [] []], frag_description = None\<rparr>",
          simplified]) (simp_all add: example_simps)
  from selected_fields_survive [OF _ _ _ run this, of "''Query''" None "''name''" "[]" "[]" "[]"]
  show ?thesis
    using run by (auto simp: example_simps)
qed

text \<open>
  C21: tree shaking an operation returns: with fragments that have a rank (no cycles) and unions
  whose members are not unions, a stack of depth linear in the expanded nesting of the operation
  and the number of types of the schema is enough.
\<close>

theorem operation_shaking_returns:
  assumes "well_keyed S" and "flat_unions S"
    and "ranked_fragments r (collect_fragments document)"
    and "3 * sels_rank r (od_selection_set operation) + 2 * card (dom (map_of (schema_types S))) + 4 \<le> fuel"
  shows "retain_operation S fuel operation document Unlimited (new_shaker S) \<noteq> None"
proof -
  let ?ot = "od_operation_type operation"
  let ?s = "(new_shaker S)\<lparr>named_fragments := collect_fragments document, operation_types := [?ot]\<rparr>"
  let ?name = "name_for_operation_type (operation_type_names (new_shaker S)) ?ot"
  have run: "retain_operation S fuel operation document Unlimited (new_shaker S) =
      exec_all S fuel (named_calls S ?name (Some (od_selection_set operation)) Unlimited) ?s"
    by (simp add: retain_operation_def retain_operation_type_def exec_named new_shaker_def Let_def)
  have "retained ?s = {}"
    using new_shaker_of(2) [OF assms(1)] by (simp add: retained_def)
  then have s: "shaker_of S ?s" "left_over S ?s = card (dom (map_of (schema_types S)))"
    using new_shaker_of(1) [OF assms(1)] by (simp_all add: shaker_of_def left_over_def)
  show ?thesis
  proof (cases "map_of (schema_types S) ?name")
    case None
    then show ?thesis unfolding run by (simp add: named_calls_def)
  next
    case (Some t)
    have "exec S fuel (CType t (Some (od_selection_set operation)) Unlimited) ?s \<noteq> None"
      using assms(3,4) s well_keyed_type [OF assms(1) Some] Some
      by (intro enough_stack [OF assms(1,2), of _ r]) auto
    then show ?thesis unfolding run using Some by (auto simp: named_calls_def)
  qed
qed

theorem operation_shaking_returns_witness:
  "retain_operation example_schema 21 (example_operation [Field None ''user'' [] [] [FragmentSpread ''F'' []]])
     [FragmentDefinition \<lparr>frag_name = ''F'', frag_type_condition = ''User'',
        frag_selection_set = [Field None ''name'' [] [] []], frag_description = None\<rparr>] Unlimited (new_shaker example_schema) \<noteq> None"
  by (rule operation_shaking_returns [of _ "\<lambda>_. 1"]) (simp_all add: example_simps card_insert_if)

lemma self_spread_diverges:
  assumes "named_fragments s name = Some f" and "FragmentSpread name ds \<in> set (frag_selection_set f)"
    and "map_of (schema_types S) (frag_type_condition f) = Some u"
    and "FragmentSpread name ds' \<in> set ss" and "\<not> depth_reached d"
  shows "retain_type S n t (Some ss) d s = None"
  using assms(1,4)
proof (induction n arbitrary: t ss s ds' rule: less_induct)
  case (less n)
  show ?case
  proof (rule ccontr)
    assume "retain_type S n t (Some ss) d s \<noteq> None"
    then obtain m s1 where m: "n = Suc m" "retain_fragments S m ss d s = Some s1"
      using assms(5) by (cases n) (auto simp: retain_calls spread_calls_def split: option.splits)
    then obtain k where k: "m = Suc k" by (cases m) auto
    have "CSpread name d \<in> set (concat (map (selection_calls S d) ss))"
      using less.prems(2) by force
    from exec_all_member [OF m(2) [unfolded k retain_fragments_calls] this]
    obtain sa sb where sab: "shaker_le s sa" "exec S k (CSpread name d) sa = Some sb" .
    have "named_fragments sa name = Some f"
      using less.prems(1) shaker_leD(1) [OF sab(1)] by simp
    moreover from this sab(2) assms(3) have "retain_type S k u (Some (frag_selection_set f)) d sa = Some sb"
      by (simp add: retain_named_def)
    ultimately show False
      using less.IH [of k sa ds "frag_selection_set f" u] assms(2) m(1) k by simp
  qed
qed

text \<open>
  A document with a fragment that spreads itself exhausts any stack: whatever the depth of
  calls allowed, shaking an operation that spreads the fragment does not return.
\<close>

theorem recursive_fragment_never_returns:
  assumes "root_operation S (od_operation_type operation) = Some name"
    and "map_of (schema_types S) name = Some root"
    and "collect_fragments document frag = Some f"
    and "FragmentSpread frag ds \<in> set (frag_selection_set f)"
    and "map_of (schema_types S) (frag_type_condition f) = Some t"
    and "FragmentSpread frag ds' \<in> set (od_selection_set operation)"
  shows "retain_operation S fuel operation document Unlimited (new_shaker S) = None"
proof -
  obtain s where s: "retain_operation S fuel operation document Unlimited (new_shaker S) =
      retain_type S fuel root (Some (od_selection_set operation)) Unlimited s"
    "named_fragments s = collect_fragments document"
    using retain_operation_root [OF refl assms(1,2)] by metis
  show ?thesis
    unfolding s(1) by (rule self_spread_diverges [OF _ assms(4,5,6)]) (simp_all add: s(2) assms(3))
qed

theorem recursive_fragment_never_returns_witness:
  "\<forall>fuel. retain_operation example_schema fuel (example_operation [FragmentSpread ''F'' []])
     [FragmentDefinition \<lparr>frag_name = ''F'', frag_type_condition = ''Query'',
        frag_selection_set = [FragmentSpread ''F'' []], frag_description = None\<rparr>] Unlimited (new_shaker example_schema) = None"
proof
  let ?f = "\<lparr>frag_name = ''F'', frag_type_condition = ''Query'', frag_selection_set = [FragmentSpread ''F'' []], frag_description = None\<rparr>"
  have "map_of (schema_types example_schema) ''Query'' = Some (snd (hd (schema_types example_schema)))"
    by (simp add: example_simps)
  then show "retain_operation example_schema fuel (example_operation [FragmentSpread ''F'' []])
     [FragmentDefinition ?f] Unlimited (new_shaker example_schema) = None" for fuel
    by (intro recursive_fragment_never_returns [where name = "''Query''" and frag = "''F''" and f = ?f
          and ds = "[]" and ds' = "[]"]) (auto simp: example_schema_def example_operation_def collect_fragments_def)
qed

text \<open>
  An inline fragment without a type condition (as written to attach a directive to a group
  of fields) is dropped, with everything it selects: at an object type the traversal does
  exactly what it does for the rest of the selection set.
\<close>

theorem conditionless_fragment_dropped:
  "retain_type S n (ObjectType desc nm tds ifs fs) (Some (xs @ InlineFragment None ds ss # ys)) d s =
   retain_type S n (ObjectType desc nm tds ifs fs) (Some (xs @ ys)) d s"
proof (cases n)
  case (Suc m)
  let ?with = "Some (xs @ InlineFragment None ds ss # ys)" and ?without = "Some (xs @ ys)"
  have "retain_fragments S m (xs @ InlineFragment None ds ss # ys) d = retain_fragments S m (xs @ ys) d"
    by (cases m) (simp_all add: fun_eq_iff retain_calls)
  then have frags: "exec_all S m [CFragments (xs @ InlineFragment None ds ss # ys) d] =
      exec_all S m [CFragments (xs @ ys) d]"
    by (simp add: fun_eq_iff)
  have sel: "selected_fields ?with = selected_fields ?without"
    by (simp add: selected_fields_def)
  have "mark_type t ?with s = mark_type t ?without s" for t s
    unfolding mark_type_def sel by (rule refl)
  then show ?thesis
    unfolding Suc by (simp add: retain_calls spread_calls_def frags body_calls_def sel already_retained_def
        del: for_each.simps cong: if_cong option.case_cong)
qed simp

text \<open>
  What a root type retains on a fresh shaker when nothing is selected: without a depth limit
  exactly the types reachable from it through references; with a limit of d exactly those within
  d - 1 references. Both traversals return, given a stack of about twice the number of types, or
  twice the depth.
\<close>

lemma retained_types_reachable:
  assumes "well_keyed S" and "map_of (schema_types S) (et_name t) = Some t" and "flat_unions S"
    and "2 * card (dom (map_of (schema_types S))) + 1 \<le> fuel" and "2 * unat d + 1 \<le> fuel"
  shows "(\<exists>s'. retain_type S fuel t None Unlimited (new_shaker S) = Some s' \<and>
      retained s' = (references S)\<^sup>* `` {et_name t}) \<and>
    (\<exists>s'. retain_type S fuel t None (Limited d) (new_shaker S) = Some s' \<and>
      retained s' = {b. \<exists>j < unat d. (et_name t, b) \<in> references S ^^ j})"
proof
  have s: "shaker_of S (new_shaker S)" "left_over S (new_shaker S) = card (dom (map_of (schema_types S)))"
    using new_shaker_of [OF assms(1)] by (simp_all add: left_over_def)
  have "exec S fuel (CType t None Unlimited) (new_shaker S) \<noteq> None"
    using assms s
    by (intro enough_stack [OF assms(1,3), of _ "\<lambda>_. 0"]) (auto simp: ranked_fragments_def new_shaker_def)
  then show "\<exists>s'. retain_type S fuel t None Unlimited (new_shaker S) = Some s' \<and>
     retained s' = (references S)\<^sup>* `` {et_name t}"
    using reachable_retained [OF assms(1,2)] by auto
  show "\<exists>s'. retain_type S fuel t None (Limited d) (new_shaker S) = Some s' \<and>
     retained s' = {b. \<exists>j < unat d. (et_name t, b) \<in> references S ^^ j}"
    using retain_type_near [OF assms(1,5,2) s(1)] new_shaker_of(2) [OF assms(1)] by (simp add: near_def)
qed

end
