(* ===== verification/Private_Fields.thy ===== *)
theory Private_Fields
  imports Tree_Shake Web_Types
begin

text \<open>
  Fields marked \<open>@private\<close> (\<open>operations/private_fields.rs\<close>): collecting their paths from an
  operation, stripping the directive from the document sent upstream, and filtering the fields
  out of the response that a language model sees.
\<close>

definition PRIVATE_DIRECTIVE_NAME :: string where
  "PRIVATE_DIRECTIVE_NAME = ''private''"

section \<open>The tree of private paths\<close>

text \<open>The children are a hash map: an association list whose order nothing depends on.\<close>

datatype PrivateFieldTree = PrivateFieldTree (is_private: bool) (children: "(string \<times> PrivateFieldTree) list")

definition default_tree :: PrivateFieldTree where
  "default_tree = PrivateFieldTree False []"

definition has_private_fields :: "PrivateFieldTree \<Rightarrow> bool" where
  "has_private_fields t \<longleftrightarrow> is_private t \<or> children t \<noteq> []"

definition child_or_default :: "string \<Rightarrow> PrivateFieldTree \<Rightarrow> PrivateFieldTree" where
  "child_or_default k t = (case map_of (children t) k of None \<Rightarrow> default_tree | Some c \<Rightarrow> c)"

definition remove_child :: "string \<Rightarrow> PrivateFieldTree \<Rightarrow> PrivateFieldTree" where
  "remove_child k t = PrivateFieldTree (is_private t) (filter (\<lambda>kc. fst kc \<noteq> k) (children t))"

definition set_child :: "string \<Rightarrow> PrivateFieldTree \<Rightarrow> PrivateFieldTree \<Rightarrow> PrivateFieldTree" where
  "set_child k c t = PrivateFieldTree (is_private t) ((k, c) # children (remove_child k t))"

definition mark_private :: "string \<Rightarrow> PrivateFieldTree \<Rightarrow> PrivateFieldTree" where
  "mark_private k t = set_child k (PrivateFieldTree True (children (child_or_default k t))) t"

definition response_key :: "string option \<Rightarrow> string \<Rightarrow> string" where
  "response_key al name = (case al of Some a \<Rightarrow> a | None \<Rightarrow> name)"

definition marked_private :: "directive list \<Rightarrow> bool" where
  "marked_private ds = list_ex (\<lambda>d. dir_name d = PRIVATE_DIRECTIVE_NAME) ds"

text \<open>
  The walk returns the tree and the set of fragments visited so far, which it threads through
  the whole operation. The first argument bounds how deep fragments may nest (\<open>None\<close> is running
  out; a bound of the number of fragments is never exceeded).
\<close>

function collect_from_selections ::
    "nat \<Rightarrow> (string \<rightharpoonup> fragment_definition) \<Rightarrow> selection list \<Rightarrow> PrivateFieldTree \<Rightarrow> string list \<Rightarrow>
     (PrivateFieldTree \<times> string list) option" where
  "collect_from_selections n frags [] tree visited = Some (tree, visited)"
| "collect_from_selections n frags (Field al name args ds ss # rest) tree visited =
     (if marked_private ds
      then collect_from_selections n frags rest (mark_private (response_key al name) tree) visited
      else if ss \<noteq> []
      then (case collect_from_selections n frags ss (child_or_default (response_key al name) tree) visited of
              None \<Rightarrow> None
            | Some (child, visited') \<Rightarrow>
                collect_from_selections n frags rest
                  (if has_private_fields child then set_child (response_key al name) child tree
                   else remove_child (response_key al name) tree) visited')
      else collect_from_selections n frags rest tree visited)"
| "collect_from_selections n frags (FragmentSpread name ds # rest) tree visited =
     (if List.member visited name then collect_from_selections n frags rest tree visited
      else case frags name of
        None \<Rightarrow> collect_from_selections n frags rest tree (name # visited)
      | Some fragment \<Rightarrow>
          (case n of
             0 \<Rightarrow> None
           | Suc m \<Rightarrow>
               (case collect_from_selections m frags (frag_selection_set fragment) tree (name # visited) of
                  None \<Rightarrow> None
                | Some (tree', visited') \<Rightarrow> collect_from_selections n frags rest tree' visited')))"
| "collect_from_selections n frags (InlineFragment tc ds ss # rest) tree visited =
     (case collect_from_selections n frags ss tree visited of
        None \<Rightarrow> None
      | Some (tree', visited') \<Rightarrow> collect_from_selections n frags rest tree' visited')"
  by pat_completeness auto
termination by (relation "measures [fst, \<lambda>(n, frags, ss, tree, visited). size_list size ss]") auto

definition collect_private_fields ::
    "nat \<Rightarrow> (string \<rightharpoonup> fragment_definition) \<Rightarrow> selection list \<Rightarrow> PrivateFieldTree option" where
  "collect_private_fields n frags ss = map_option fst (collect_from_selections n frags ss default_tree [])"

section \<open>Stripping the directive\<close>

fun strip_selection :: "selection \<Rightarrow> selection" where
  "strip_selection (Field al name args ds ss) =
     Field al name args (filter (\<lambda>d. dir_name d \<noteq> PRIVATE_DIRECTIVE_NAME) ds) (map strip_selection ss)"
| "strip_selection (InlineFragment tc ds ss) = InlineFragment tc ds (map strip_selection ss)"
| "strip_selection (FragmentSpread name ds) = FragmentSpread name ds"

fun strip_definition :: "ast_definition \<Rightarrow> ast_definition" where
  "strip_definition (OperationDefinition op) =
     OperationDefinition (op\<lparr>od_selection_set := map strip_selection (od_selection_set op)\<rparr>)"
| "strip_definition (FragmentDefinition f) =
     FragmentDefinition (f\<lparr>frag_selection_set := map strip_selection (frag_selection_set f)\<rparr>)"
| "strip_definition OtherDefinition = OtherDefinition"

definition strip_private_directives :: "ast_definition list \<Rightarrow> ast_definition list" where
  "strip_private_directives document = map strip_definition document"

text \<open>\<open>collect_named_fragments\<close> builds the same map as the tree shaker's.\<close>

definition collect_named_fragments :: "ast_definition list \<Rightarrow> (string \<rightharpoonup> fragment_definition)" where
  "collect_named_fragments document =
     map_of (rev (filter_map (\<lambda>def. case def of FragmentDefinition f \<Rightarrow> Some (frag_name f, f) | _ \<Rightarrow> None) document))"

fun first_operation :: "ast_definition list \<Rightarrow> operation_definition option" where
  "first_operation [] = None"
| "first_operation (OperationDefinition op # ds) = Some op"
| "first_operation (_ # ds) = first_operation ds"

text \<open>The parser and the serialiser of \<open>apollo_compiler\<close> are parameters.\<close>

definition process_private_directives ::
    "nat \<Rightarrow> (string \<Rightarrow> ast_definition list option) \<Rightarrow> (ast_definition list \<Rightarrow> string) \<Rightarrow> string \<Rightarrow>
     (string \<times> PrivateFieldTree) option" where
  "process_private_directives n parse serialize query =
     (case parse query of
        None \<Rightarrow> None
      | Some document \<Rightarrow>
          (case first_operation document of
             None \<Rightarrow> None
           | Some operation \<Rightarrow>
               (case collect_private_fields n (collect_named_fragments document) (od_selection_set operation) of
                  None \<Rightarrow> None
                | Some tree \<Rightarrow>
                    if \<not> has_private_fields tree then None
                    else Some (serialize (strip_private_directives document), tree))))"

section \<open>Filtering a response\<close>

lemma filter_map_fundef_cong [fundef_cong]:
  "xs = ys \<Longrightarrow> (\<And>x. x \<in> set ys \<Longrightarrow> f x = g x) \<Longrightarrow> filter_map f xs = filter_map g ys"
  using filter_map_cong by auto

fun filter_object :: "json \<Rightarrow> PrivateFieldTree \<Rightarrow> json" where
  "filter_object (JObject kvs) tree =
     JObject (filter_map (\<lambda>(key, val).
       (case map_of (children tree) key of
          Some child \<Rightarrow> if is_private child then None else Some (key, filter_object val child)
        | None \<Rightarrow> Some (key, val))) kvs)"
| "filter_object (JArray vs) tree = JArray (map (\<lambda>item. filter_object item tree) vs)"
| "filter_object v tree = v"

fun filter_private_fields :: "json \<Rightarrow> PrivateFieldTree \<Rightarrow> json" where
  "filter_private_fields (JObject kvs) tree =
     JObject (map (\<lambda>(key, val). (key, if key = ''data'' then filter_object val tree else val)) kvs)"
| "filter_private_fields v tree = v"

section \<open>What the filter lets through\<close>

text \<open>A path of response keys leads somewhere in a value; arrays are transparent.\<close>

fun reaches :: "json \<Rightarrow> string list \<Rightarrow> bool" where
  "reaches v [] = True"
| "reaches (JObject kvs) (k # p) = list_ex (\<lambda>(k', v). k' = k \<and> reaches v p) kvs"
| "reaches (JArray vs) (k # p) = list_ex (\<lambda>v. reaches v (k # p)) vs"
| "reaches v (k # p) = False"

text \<open>Some key on the path, below the root, is private.\<close>

fun hidden :: "PrivateFieldTree \<Rightarrow> string list \<Rightarrow> bool" where
  "hidden t [] = False"
| "hidden t (k # p) = (case map_of (children t) k of None \<Rightarrow> False | Some c \<Rightarrow> is_private c \<or> hidden c p)"

lemma reaches_Nil [simp]: "reaches v []"
  by (cases v) auto

lemma reaches_leaf [simp]:
  "reaches JNull p \<longleftrightarrow> p = []"
  "reaches (JBool b) p \<longleftrightarrow> p = []"
  "reaches (JNumber n) p \<longleftrightarrow> p = []"
  "reaches (JFloat f) p \<longleftrightarrow> p = []"
  "reaches (JString s) p \<longleftrightarrow> p = []"
  by (cases p; simp)+

definition filter_entry :: "PrivateFieldTree \<Rightarrow> string \<times> json \<Rightarrow> (string \<times> json) option" where
  "filter_entry tree entry = (case entry of (key, val) \<Rightarrow>
     (case map_of (children tree) key of
        Some child \<Rightarrow> if is_private child then None else Some (key, filter_object val child)
      | None \<Rightarrow> Some (key, val)))"

lemma filter_entries:
  assumes "\<And>key val child. (key, val) \<in> set kvs \<Longrightarrow> map_of (children tree) key = Some child \<Longrightarrow> \<not> is_private child \<Longrightarrow>
      reaches (filter_object val child) q \<longleftrightarrow> reaches val q \<and> \<not> hidden child q"
  shows "list_ex (\<lambda>(k', v). k' = k \<and> reaches v q) (filter_map (filter_entry tree) kvs) \<longleftrightarrow>
    list_ex (\<lambda>(k', v). k' = k \<and> reaches v q) kvs \<and> \<not> hidden tree (k # q)"
  using assms
proof (induction kvs)
  case (Cons x kvs)
  obtain key val where x: "x = (key, val)" by (cases x)
  show ?case
  proof (cases "map_of (children tree) key")
    case None
    with Cons x show ?thesis by (auto simp: filter_entry_def)
  next
    case (Some child)
    with Cons.prems [of key val child] Cons.IH Cons.prems x show ?thesis
      by (auto simp: filter_entry_def)
  qed
qed simp

text \<open>A path leads somewhere in the filtered value just when it did and no key on it is private.\<close>

lemma reaches_filtered: "reaches (filter_object v tree) p \<longleftrightarrow> reaches v p \<and> \<not> hidden tree p"
proof (induction v tree arbitrary: p rule: filter_object.induct)
  case (1 kvs tree)
  then have "list_ex (\<lambda>(k', v). k' = k \<and> reaches v q) (filter_map (filter_entry tree) kvs) \<longleftrightarrow>
      list_ex (\<lambda>(k', v). k' = k \<and> reaches v q) kvs \<and> \<not> hidden tree (k # q)" for k q
    by (intro filter_entries) blast
  then show ?case by (cases p) (simp_all add: filter_entry_def [abs_def])
next
  case (2 vs tree)
  then show ?case by (cases p) (auto simp: list_ex_iff)
qed auto

text \<open>
  Places in a JSON value: a path of object keys and array positions, what is there (a list,
  since a JSON object could repeat a key), and what one sees there without descending: a scalar
  with its value, an array with its length, an object with its keys in their order.
\<close>

datatype place_step = Key string | Index nat

datatype seen = Scalar json | Items nat | Keys "string list"

fun values_at :: "json \<Rightarrow> place_step list \<Rightarrow> json list" where
  "values_at v [] = [v]"
| "values_at v (Key k # p) =
     (case v of
        JObject kvs \<Rightarrow> concat (map (\<lambda>(k', x). if k' = k then values_at x p else []) kvs)
      | _ \<Rightarrow> [])"
| "values_at v (Index i # p) =
     (case v of JArray vs \<Rightarrow> if i < length vs then values_at (vs ! i) p else [] | _ \<Rightarrow> [])"

fun seen_of :: "json \<Rightarrow> seen" where
  "seen_of (JObject kvs) = Keys (map fst kvs)"
| "seen_of (JArray vs) = Items (length vs)"
| "seen_of v = Scalar v"

definition seen_at :: "json \<Rightarrow> place_step list \<Rightarrow> seen list" where
  "seen_at v p = map seen_of (values_at v p)"

fun keys_on :: "place_step list \<Rightarrow> string list" where
  "keys_on [] = []"
| "keys_on (Key k # p) = k # keys_on p"
| "keys_on (Index i # p) = keys_on p"

text \<open>An object without the keys that are hidden right below the path \<open>ks\<close>.\<close>

fun unhidden :: "(string list \<Rightarrow> bool) \<Rightarrow> string list \<Rightarrow> seen \<Rightarrow> seen" where
  "unhidden hid ks (Keys names) = Keys (filter (\<lambda>k. \<not> hid (ks @ [k])) names)"
| "unhidden hid ks s = s"

fun subtree :: "PrivateFieldTree \<Rightarrow> string list \<Rightarrow> PrivateFieldTree" where
  "subtree t [] = t"
| "subtree t (k # ks) = subtree (child_or_default k t) ks"

lemma children_default [simp]: "children default_tree = []"
  by (simp add: default_tree_def)

lemma hidden_default [simp]: "\<not> hidden default_tree p"
  by (cases p) simp_all

lemma filter_map_Some: "(\<And>x. x \<in> set xs \<Longrightarrow> f x = Some x) \<Longrightarrow> filter_map f xs = xs"
  by (induction xs) auto

lemma filter_object_default [simp]: "filter_object v default_tree = v"
  by (induction v default_tree rule: filter_object.induct) (auto intro!: filter_map_Some map_idI)

lemma hidden_step: "hidden t (k # p) \<longleftrightarrow> hidden t [k] \<or> hidden (child_or_default k t) p"
  by (auto simp: child_or_default_def split: option.splits)

lemma hidden_append: "hidden t (p @ q) \<longleftrightarrow> hidden t p \<or> hidden (subtree t p) q"
proof (induction p arbitrary: t)
  case (Cons k p)
  then show ?case using hidden_step [of t k "p @ q"] hidden_step [of t k p] by auto
qed simp

lemma filter_entry_child:
  "filter_entry t (k, x) = (if hidden t [k] then None else Some (k, filter_object x (child_or_default k t)))"
  by (auto simp: filter_entry_def child_or_default_def split: option.splits)

lemma filter_object_entry: "filter_object (JObject kvs) t = JObject (filter_map (filter_entry t) kvs)"
  by (simp add: filter_entry_def [abs_def])

definition under_key :: "string \<Rightarrow> (string \<times> json) list \<Rightarrow> json list" where
  "under_key k kvs = map snd (filter (\<lambda>kv. fst kv = k) kvs)"

lemma values_at_key: "values_at (JObject kvs) (Key k # p) = concat (map (\<lambda>x. values_at x p) (under_key k kvs))"
  by (induction kvs) (auto simp: under_key_def)

lemma under_key_filtered:
  "under_key k (filter_map (filter_entry t) kvs) =
     (if hidden t [k] then [] else map (\<lambda>x. filter_object x (child_or_default k t)) (under_key k kvs))"
  by (induction kvs) (auto simp: under_key_def filter_entry_child simp del: hidden.simps)

lemma values_filtered:
  "values_at (filter_object v t) p =
     (if hidden t (keys_on p) then [] else map (\<lambda>w. filter_object w (subtree t (keys_on p))) (values_at v p))"
proof (induction p arbitrary: v t)
  case (Cons s p)
  show ?case
  proof (cases s)
    case (Key k)
    show ?thesis
    proof (cases v)
      case (JObject kvs)
      show ?thesis
        using hidden_step [of t k "keys_on p"]
        unfolding JObject Key filter_object_entry values_at_key under_key_filtered
        by (simp add: Cons.IH comp_def map_concat del: hidden.simps)
    qed (simp_all add: Key)
  next
    case (Index i)
    then show ?thesis by (cases v) (simp_all add: Cons.IH)
  qed
qed simp

lemma seen_filtered: "seen_of (filter_object v t) = unhidden (hidden t) [] (seen_of v)"
proof (cases v)
  case (JObject kvs)
  have "map fst (filter_map (filter_entry t) kvs) = filter (\<lambda>k. \<not> hidden t [k]) (map fst kvs)"
    by (induction kvs) (auto simp: filter_entry_child simp del: hidden.simps)
  with JObject show ?thesis by (simp add: filter_object_entry del: filter_object.simps hidden.simps)
qed simp_all

lemma unhidden_subtree: "\<not> hidden t ks \<Longrightarrow> unhidden (hidden (subtree t ks)) [] s = unhidden (hidden t) ks s"
  by (cases s) (simp_all add: hidden_append)

lemma filtered_seen_at:
  "seen_at (filter_object v tree) p =
     (if hidden tree (keys_on p) then [] else map (unhidden (hidden tree) (keys_on p)) (seen_at v p))"
  by (simp add: seen_at_def values_filtered seen_filtered unhidden_subtree)

text \<open>
  C24: the filter is exact, place by place. At a path of keys and array positions with a hidden
  key on it, nothing is left; at any other path the filtered value has what the original has: the
  same scalar, an array of the same length, or an object with the same keys in the same order
  but for those that are hidden. So nothing private survives, and nothing else is lost, changed,
  repeated or moved.
\<close>

theorem filter_object_exact:
  "seen_at (filter_object v tree) p =
     (if hidden tree (keys_on p) then [] else map (unhidden (hidden tree) (keys_on p)) (seen_at v p))"
  by (rule filtered_seen_at)

section \<open>What the walk collects\<close>

text \<open>Paths of private fields that are written in the operation itself, not in a named fragment.\<close>

inductive private_direct :: "selection list \<Rightarrow> string list \<Rightarrow> bool" where
  here: "Field al name args ds ss \<in> set sels \<Longrightarrow> marked_private ds \<Longrightarrow> private_direct sels [response_key al name]"
| under: "Field al name args ds ss \<in> set sels \<Longrightarrow> private_direct ss p \<Longrightarrow>
    private_direct sels (response_key al name # p)"
| inline: "InlineFragment tc ds ss \<in> set sels \<Longrightarrow> private_direct ss p \<Longrightarrow> private_direct sels p"

inductive_cases private_direct_cases: "private_direct sels p"

lemma private_direct_Cons:
  "private_direct (x # sels) p \<Longrightarrow> private_direct [x] p \<or> private_direct sels p"
  by (erule private_direct_cases) (auto intro: private_direct.intros)

lemma private_direct_Nil: "\<not> private_direct [] p"
  by (rule notI, erule private_direct_cases) auto

lemma private_direct_field:
  "private_direct [Field al name args ds ss] p \<Longrightarrow>
     (\<exists>q. p = response_key al name # q) \<and>
     (marked_private ds \<or> (\<exists>q. p = response_key al name # q \<and> private_direct ss q))"
  by (erule private_direct_cases) auto

lemma private_direct_inline: "private_direct [InlineFragment tc ds ss] p \<Longrightarrow> private_direct ss p"
  by (erule private_direct_cases) auto

lemma private_direct_spread: "\<not> private_direct [FragmentSpread name ds] p"
  by (rule notI, erule private_direct_cases) auto

lemma map_of_remove: "map_of (filter (\<lambda>kc. fst kc \<noteq> k) xs) = (map_of xs)(k := None)"
  by (induction xs) (auto simp: fun_eq_iff)

lemma child_maps [simp]:
  "map_of (children (set_child k c t)) = (map_of (children t))(k \<mapsto> c)"
  "map_of (children (remove_child k t)) = (map_of (children t))(k := None)"
  by (auto simp: set_child_def remove_child_def map_of_remove fun_eq_iff)

lemma hidden_has_private: "hidden t p \<Longrightarrow> has_private_fields t"
  by (cases p) (auto simp: has_private_fields_def)

text \<open>What a tree hides, another one hides too.\<close>

definition tree_le :: "PrivateFieldTree \<Rightarrow> PrivateFieldTree \<Rightarrow> bool" where
  "tree_le t t' \<longleftrightarrow> (is_private t \<longrightarrow> is_private t') \<and> (\<forall>p. hidden t p \<longrightarrow> hidden t' p)"

lemma tree_le_refl [simp]: "tree_le t t"
  by (simp add: tree_le_def)

lemma tree_le_trans: "tree_le a b \<Longrightarrow> tree_le b c \<Longrightarrow> tree_le a c"
  by (auto simp: tree_le_def)

lemma tree_le_mark: "tree_le t (mark_private k t)"
proof -
  have "hidden (mark_private k t) p" if "hidden t p" for p
    using that by (cases p) (auto simp: mark_private_def)
  then show ?thesis
    by (simp add: tree_le_def mark_private_def set_child_def)
qed

lemma hidden_mark: "hidden (mark_private k t) (k # p)"
  by (simp add: mark_private_def)

lemma tree_le_set:
  assumes "tree_le (child_or_default k t) c"
  shows "tree_le t (set_child k c t)"
proof -
  have "hidden (set_child k c t) p" if "hidden t p" for p
    using that assms by (cases p) (auto simp: tree_le_def child_or_default_def split: option.splits if_splits)
  then show ?thesis by (simp add: tree_le_def set_child_def)
qed

lemma tree_le_remove:
  assumes "tree_le (child_or_default k t) c" and "\<not> has_private_fields c"
  shows "tree_le t (remove_child k t)"
proof -
  have "\<not> is_private (child_or_default k t) \<and> \<not> hidden (child_or_default k t) p" for p
    using assms hidden_has_private [of c p] by (auto simp: tree_le_def has_private_fields_def)
  then have "hidden (remove_child k t) p" if "hidden t p" for p
    using that by (cases p) (auto simp: child_or_default_def split: option.splits)
  then show ?thesis by (simp add: tree_le_def remove_child_def)
qed

lemma collect_hides:
  "collect_from_selections n frags ss tree visited = Some (tree', visited') \<Longrightarrow>
   tree_le tree tree' \<and> (\<forall>p. private_direct ss p \<longrightarrow> hidden tree' p)"
proof (induction n frags ss tree visited arbitrary: tree' visited' rule: collect_from_selections.induct)
  case (1 n frags tree visited)
  then show ?case by (simp add: private_direct_Nil)
next
  case (2 n frags al name args ds ss rest tree visited)
  let ?k = "response_key al name"
  show ?case
  proof (cases "marked_private ds")
    case True
    with "2.prems" "2.IH"(1) have
      rest: "tree_le (mark_private ?k tree) tree'" "\<forall>p. private_direct rest p \<longrightarrow> hidden tree' p" by auto
    have "hidden tree' (?k # q)" for q
      using rest(1) hidden_mark [of ?k tree q] unfolding tree_le_def by blast
    then show ?thesis
      using rest tree_le_trans [OF tree_le_mark rest(1)] private_direct_Cons private_direct_field by metis
  next
    case unmarked: False
    show ?thesis
    proof (cases "ss = []")
      case True
      with unmarked "2.prems" "2.IH"(4) have
        "tree_le tree tree'" "\<forall>p. private_direct rest p \<longrightarrow> hidden tree' p" by auto
      moreover have "\<not> private_direct [Field al name args ds ss] p" for p
        using private_direct_field [of al name args ds ss p] unmarked True private_direct_Nil by blast
      ultimately show ?thesis using private_direct_Cons by blast
    next
      case False
      with unmarked "2.prems" obtain child v where
        child: "collect_from_selections n frags ss (child_or_default ?k tree) visited = Some (child, v)"
        and rest: "collect_from_selections n frags rest
            (if has_private_fields child then set_child ?k child tree else remove_child ?k tree) v = Some (tree', visited')"
        by (auto split: option.splits prod.splits)
      from "2.IH"(2) [OF unmarked False child] have
        c: "tree_le (child_or_default ?k tree) child" "\<forall>p. private_direct ss p \<longrightarrow> hidden child p" by auto
      let ?t = "if has_private_fields child then set_child ?k child tree else remove_child ?k tree"
      from "2.IH"(3) [OF unmarked False child refl rest] have
        r: "tree_le ?t tree'" "\<forall>p. private_direct rest p \<longrightarrow> hidden tree' p" by auto
      have le: "tree_le tree ?t"
        using tree_le_set [OF c(1)] tree_le_remove [OF c(1)] by simp
      have "hidden tree' (?k # q)" if "private_direct ss q" for q
      proof -
        have "hidden child q" using c(2) that by blast
        then have "hidden ?t (?k # q)" using hidden_has_private by auto
        then show ?thesis using r(1) unfolding tree_le_def by blast
      qed
      then show ?thesis
        using r(2) tree_le_trans [OF le r(1)] unmarked private_direct_Cons private_direct_field by metis
    qed
  qed
next
  case (3 n frags name ds rest tree visited)
  have "tree_le tree tree' \<and> (\<forall>p. private_direct rest p \<longrightarrow> hidden tree' p)"
  proof (cases "List.member visited name")
    case True
    then show ?thesis using "3.prems" "3.IH"(1) by simp
  next
    case fresh: False
    show ?thesis
    proof (cases "frags name")
      case None
      then show ?thesis using "3.prems" "3.IH"(2) fresh by simp
    next
      case (Some f)
      with fresh "3.prems" obtain m t v where m: "n = Suc m"
        and body: "collect_from_selections m frags (frag_selection_set f) tree (name # visited) = Some (t, v)"
        and rest: "collect_from_selections n frags rest t v = Some (tree', visited')"
        by (auto split: option.splits nat.splits prod.splits)
      show ?thesis
        using "3.IH"(3) [OF fresh Some m body] "3.IH"(4) [OF fresh Some m body refl rest] tree_le_trans by blast
    qed
  qed
  then show ?case using private_direct_Cons private_direct_spread by blast
next
  case (4 n frags tc ds ss rest tree visited)
  then obtain t v where
    body: "collect_from_selections n frags ss tree visited = Some (t, v)"
    and rest: "collect_from_selections n frags rest t v = Some (tree', visited')"
    by (auto split: option.splits prod.splits)
  from "4.IH"(1) [OF body] "4.IH"(2) [OF body refl rest]
  have "tree_le tree t" "\<forall>p. private_direct ss p \<longrightarrow> hidden t p" "tree_le t tree'"
    "\<forall>p. private_direct rest p \<longrightarrow> hidden tree' p" by auto
  moreover from this have "\<forall>p. private_direct ss p \<longrightarrow> hidden tree' p" by (auto simp: tree_le_def)
  ultimately show ?case
    using tree_le_trans private_direct_Cons private_direct_inline by metis
qed

text \<open>
  The same with named fragments: every place where the operation, or a fragment that it spreads,
  marks a field. What the walk hides is under such a place.
\<close>

inductive private_path :: "(string \<rightharpoonup> fragment_definition) \<Rightarrow> selection list \<Rightarrow> string list \<Rightarrow> bool"
  for frags where
  path_here: "Field al name args ds ss \<in> set sels \<Longrightarrow> marked_private ds \<Longrightarrow>
    private_path frags sels [response_key al name]"
| path_under: "Field al name args ds ss \<in> set sels \<Longrightarrow> private_path frags ss p \<Longrightarrow>
    private_path frags sels (response_key al name # p)"
| path_inline: "InlineFragment tc ds ss \<in> set sels \<Longrightarrow> private_path frags ss p \<Longrightarrow> private_path frags sels p"
| path_spread: "FragmentSpread name ds \<in> set sels \<Longrightarrow> frags name = Some f \<Longrightarrow>
    private_path frags (frag_selection_set f) p \<Longrightarrow> private_path frags sels p"

definition below_private :: "(string \<rightharpoonup> fragment_definition) \<Rightarrow> selection list \<Rightarrow> string list \<Rightarrow> bool" where
  "below_private frags ss p \<longleftrightarrow> (\<exists>q r. p = q @ r \<and> private_path frags ss q)"

lemma private_path_mono: "private_path frags ss p \<Longrightarrow> set ss \<subseteq> set ss' \<Longrightarrow> private_path frags ss' p"
  by (erule private_path.cases) (auto intro: private_path.intros)

lemma below_rest: "below_private frags rest p \<Longrightarrow> below_private frags (x # rest) p"
  unfolding below_private_def using private_path_mono set_subset_Cons by metis

lemma below_here: "marked_private ds \<Longrightarrow> below_private frags (Field al name args ds ss # rest) (response_key al name # p)"
  unfolding below_private_def by (intro exI [of _ "[response_key al name]"] exI [of _ p]) (auto intro: path_here)

lemma below_under: "below_private frags ss p \<Longrightarrow>
    below_private frags (Field al name args ds ss # rest) (response_key al name # p)"
  unfolding below_private_def by (metis append_Cons list.set_intros(1) path_under)

lemma below_inline: "below_private frags ss p \<Longrightarrow> below_private frags (InlineFragment tc ds ss # rest) p"
  unfolding below_private_def by (metis list.set_intros(1) path_inline)

lemma below_spread: "frags name = Some f \<Longrightarrow> below_private frags (frag_selection_set f) p \<Longrightarrow>
    below_private frags (FragmentSpread name ds # rest) p"
  unfolding below_private_def by (metis list.set_intros(1) path_spread)

lemma hidden_mark_cases: "hidden (mark_private k t) p \<Longrightarrow> hidden t p \<or> (\<exists>q. p = k # q)"
  by (cases p) (auto simp: mark_private_def split: if_splits)

lemma hidden_set_cases:
  "hidden (set_child k c t) p \<Longrightarrow> is_private c = is_private (child_or_default k t) \<Longrightarrow>
     hidden t p \<or> (\<exists>q. p = k # q \<and> hidden c q)"
  by (cases p) (auto simp: child_or_default_def default_tree_def split: if_splits option.splits)

lemma hidden_child: "hidden (child_or_default k t) q \<Longrightarrow> hidden t (k # q)"
  using hidden_step [of t k q] by blast

lemma hidden_remove: "hidden (remove_child k t) p \<Longrightarrow> hidden t p"
  by (cases p) (auto split: if_splits)

lemma root_private_kept [simp]:
  "is_private (mark_private k t) = is_private t"
  "is_private (set_child k c t) = is_private t"
  "is_private (remove_child k t) = is_private t"
  by (simp_all add: mark_private_def set_child_def remove_child_def)

lemma collect_hides_only:
  "collect_from_selections n frags ss tree visited = Some (tree', visited') \<Longrightarrow>
   is_private tree' = is_private tree \<and> (\<forall>p. hidden tree' p \<longrightarrow> hidden tree p \<or> below_private frags ss p)"
proof (induction n frags ss tree visited arbitrary: tree' visited' rule: collect_from_selections.induct)
  case (1 n frags tree visited)
  then show ?case by simp
next
  case (2 n frags al name args ds ss rest tree visited)
  let ?k = "response_key al name"
  consider "marked_private ds" | "\<not> marked_private ds" "ss = []" | "\<not> marked_private ds" "ss \<noteq> []" by blast
  then show ?case
  proof cases
    case 1
    with "2.prems" "2.IH"(1) show ?thesis
      using hidden_mark_cases below_here [OF 1] below_rest by (metis (full_types) collect_from_selections.simps(2) root_private_kept(1))
  next
    case 2
    with "2.prems" "2.IH"(4) show ?thesis using below_rest by auto
  next
    case 3
    let ?t = "\<lambda>child. if has_private_fields child then set_child ?k child tree else remove_child ?k tree"
    from 3 "2.prems" obtain child v where
      child: "collect_from_selections n frags ss (child_or_default ?k tree) visited = Some (child, v)"
      and rest: "collect_from_selections n frags rest (?t child) v = Some (tree', visited')"
      by (auto split: option.splits prod.splits)
    note c = "2.IH"(2) [OF 3 child] and r = "2.IH"(3) [OF 3 child refl rest]
    have "hidden tree p \<or> below_private frags (Field al name args ds ss # rest) p" if "hidden (?t child) p" for p
    proof (cases "has_private_fields child")
      case True
      with that hidden_set_cases [of ?k child tree p] c
      have "hidden tree p \<or> (\<exists>q. p = ?k # q \<and> hidden child q)" by simp
      then show ?thesis using c hidden_child below_under by metis
    next
      case False
      with that show ?thesis using hidden_remove by metis
    qed
    moreover have "is_private (?t child) = is_private tree" by simp
    ultimately show ?thesis using r below_rest by metis
  qed
next
  case (3 n frags name ds rest tree visited)
  consider "List.member visited name" | "\<not> List.member visited name" "frags name = None"
    | f where "\<not> List.member visited name" "frags name = Some f" by (cases "frags name") auto
  then show ?case
  proof cases
    case 1
    then show ?thesis using "3.prems" "3.IH"(1) below_rest by auto
  next
    case 2
    then show ?thesis using "3.prems" "3.IH"(2) below_rest by auto
  next
    case fresh: 3
    with "3.prems" obtain m t v where m: "n = Suc m"
      and body: "collect_from_selections m frags (frag_selection_set f) tree (name # visited) = Some (t, v)"
      and rest: "collect_from_selections n frags rest t v = Some (tree', visited')"
      by (auto split: option.splits nat.splits prod.splits)
    show ?thesis
      using "3.IH"(3) [OF fresh m body] "3.IH"(4) [OF fresh m body refl rest]
        below_rest below_spread [of frags name f] fresh(2) by metis
  qed
next
  case (4 n frags tc ds ss rest tree visited)
  then obtain t v where
    body: "collect_from_selections n frags ss tree visited = Some (t, v)"
    and rest: "collect_from_selections n frags rest t v = Some (tree', visited')"
    by (auto split: option.splits prod.splits)
  show ?case using "4.IH"(1) [OF body] "4.IH"(2) [OF body refl rest] below_rest below_inline by metis
qed

lemma collected_exactly:
  assumes "collect_private_fields n frags ss = Some tree"
  shows "private_direct ss p \<Longrightarrow> hidden tree p" and "hidden tree p \<Longrightarrow> below_private frags ss p"
proof -
  from assms obtain v where run: "collect_from_selections n frags ss default_tree [] = Some (tree, v)"
    by (auto simp: collect_private_fields_def)
  show "private_direct ss p \<Longrightarrow> hidden tree p" using collect_hides [OF run] by blast
  show "hidden tree p \<Longrightarrow> below_private frags ss p" using collect_hides_only [OF run] by simp
qed

text \<open>
  What is shown of a response: everything outside \<open>data\<close> as it is, and in \<open>data\<close> everything but
  the hidden paths, place by place.
\<close>

definition shows_all_but :: "(string list \<Rightarrow> bool) \<Rightarrow> json \<Rightarrow> json \<Rightarrow> bool" where
  "shows_all_but hid response shown \<longleftrightarrow>
     seen_of shown = seen_of response \<and>
     (\<forall>s p. seen_at shown (s # p) =
        (if s \<noteq> Key ''data'' then seen_at response (s # p)
         else if hid (keys_on p) then []
         else map (unhidden hid (keys_on p)) (seen_at response (s # p))))"

lemma filtered_shows: "shows_all_but (hidden tree) v (filter_private_fields v tree)"
proof (cases "\<exists>kvs. v = JObject kvs")
  case True
  then obtain kvs where JObject: "v = JObject kvs" by blast
  let ?f = "\<lambda>(key, val). (key, if key = ''data'' then filter_object val tree else val)"
  have shown: "filter_private_fields v tree = JObject (map ?f kvs)" using JObject by simp
  have under: "under_key k (map ?f kvs) =
      (if k = ''data'' then map (\<lambda>x. filter_object x tree) (under_key k kvs) else under_key k kvs)" for k
    by (induction kvs) (auto simp: under_key_def)
  have data: "seen_at (JObject (map ?f kvs)) (Key ''data'' # p) =
      (if hidden tree (keys_on p) then [] else
       map (unhidden (hidden tree) (keys_on p)) (seen_at v (Key ''data'' # p)))" for p
  proof -
    have "map seen_of (concat (map (\<lambda>x. values_at (filter_object x tree) p) xs)) =
      (if hidden tree (keys_on p) then [] else
       map (unhidden (hidden tree) (keys_on p)) (map seen_of (concat (map (\<lambda>x. values_at x p) xs))))" for xs
      by (induction xs) (use filtered_seen_at [of _ tree p] in \<open>auto simp: seen_at_def\<close>)
    then show ?thesis unfolding seen_at_def JObject values_at_key under by (simp add: comp_def)
  qed
  have other: "seen_at (JObject (map ?f kvs)) (s # p) = seen_at v (s # p)" if "s \<noteq> Key ''data''" for s p
  proof (cases s)
    case (Key k)
    with that show ?thesis unfolding seen_at_def JObject Key values_at_key under by auto
  qed (simp add: seen_at_def JObject)
  have "seen_of (JObject (map ?f kvs)) = seen_of v" using JObject by (auto simp: case_prod_beta)
  then show ?thesis unfolding shows_all_but_def shown using data other by simp
next
  case False
  then have "filter_private_fields v tree = v" and "seen_at v (Key ''data'' # p) = []" for p
    by (cases v; simp add: seen_at_def)+
  then show ?thesis by (simp add: shows_all_but_def)
qed

lemma unfiltered_shows: "shows_all_but (\<lambda>_. False) v v"
  unfolding shows_all_but_def
proof (intro conjI allI refl)
  have "unhidden (\<lambda>_. False) ks x = x" for ks x by (cases x) simp_all
  then show "seen_at v (s # p) = (if s \<noteq> Key ''data'' then seen_at v (s # p) else if False then []
      else map (unhidden (\<lambda>_. False) (keys_on p)) (seen_at v (s # p)))" for s p
    by (simp add: map_idI)
qed

section \<open>Properties\<close>

lemma reaches_filtered_data:
  "reaches (filter_private_fields (JObject kvs) tree) (''data'' # p) \<longleftrightarrow>
     reaches (JObject kvs) (''data'' # p) \<and> \<not> hidden tree p"
  by (induction kvs) (auto simp: reaches_filtered)

text \<open>
  No field that the operation itself marks private, whatever nesting of fields, aliases and
  inline fragments it is under, is left in the data of a filtered response; and every path of the
  response that the collected tree does not hide is still there.
\<close>

theorem private_fields_filtered:
  assumes "collect_private_fields n frags ss = Some tree" and "private_direct ss p"
  shows "\<not> reaches (filter_private_fields (JObject kvs) tree) (''data'' # p) \<and>
    (\<forall>q. \<not> hidden tree q \<longrightarrow> reaches (JObject kvs) (''data'' # q) \<longrightarrow>
         reaches (filter_private_fields (JObject kvs) tree) (''data'' # q))"
proof -
  from assms(1) obtain v where "collect_from_selections n frags ss default_tree [] = Some (tree, v)"
    by (auto simp: collect_private_fields_def)
  from collect_hides [OF this] assms(2) have "hidden tree p" by blast
  then show ?thesis by (simp only: reaches_filtered_data) blast
qed

theorem private_fields_filtered_witness:
  "\<exists>tree. collect_private_fields 0 Map.empty
      [Field None ''user'' [] [] [Field (Some ''pin'') ''code'' [] [\<lparr>dir_name = ''private'', dir_arguments = []\<rparr>] [],
         Field None ''name'' [] [] []]] = Some tree \<and>
    \<not> reaches (filter_private_fields (JObject [(''data'', JObject [(''user'', JArray [JObject [(''pin'', JString ''1''),
        (''name'', JString ''n'')]])])]) tree) [''data'', ''user'', ''pin'']"
proof -
  let ?d = "[\<lparr>dir_name = ''private'', dir_arguments = []\<rparr>]"
  let ?ss = "[Field None ''user'' [] [] [Field (Some ''pin'') ''code'' [] ?d [], Field None ''name'' [] [] []]]"
  have d: "marked_private ?d" "\<not> marked_private []"
    by (simp_all add: marked_private_def PRIVATE_DIRECTIVE_NAME_def)
  obtain tree where tree: "collect_private_fields 0 Map.empty ?ss = Some tree"
    by (simp add: collect_private_fields_def d)
  have "private_direct [Field (Some ''pin'') ''code'' [] ?d [], Field None ''name'' [] [] []] [''pin'']"
    using private_direct.here [of "Some ''pin''" "''code''" "[]" ?d "[]"] d(1) by (simp add: response_key_def)
  then have "private_direct ?ss [''user'', ''pin'']"
    using private_direct.under [of None "''user''" "[]" "[]" _ ?ss] by (simp add: response_key_def)
  with private_fields_filtered [OF tree this] tree show ?thesis by blast
qed

text \<open>
  A fragment spread at two places is walked only at the first one (the set of visited
  fragments is shared by all places), so the private field of the fragment is hidden under the
  first place and stays in the filtered response under every later one.
\<close>

theorem second_spread_leaks:
  assumes "frags f = Some \<lparr>frag_name = f, frag_type_condition = tc,
      frag_selection_set = [Field None secret [] [\<lparr>dir_name = ''private'', dir_arguments = []\<rparr>] []], frag_description = None\<rparr>"
    and "a \<noteq> b"
  shows "\<exists>tree. collect_private_fields (Suc n) frags
      [Field None a [] [] [FragmentSpread f []], Field None b [] [] [FragmentSpread f []]] = Some tree \<and>
    \<not> reaches (filter_private_fields (JObject [(''data'', JObject [(a, JObject [(secret, v)]), (b, JObject [(secret, w)])])]) tree)
        [''data'', a, secret] \<and>
    reaches (filter_private_fields (JObject [(''data'', JObject [(a, JObject [(secret, v)]), (b, JObject [(secret, w)])])]) tree)
        [''data'', b, secret]"
proof -
  have d: "marked_private [\<lparr>dir_name = ''private'', dir_arguments = []\<rparr>]" "\<not> marked_private []"
    by (simp_all add: marked_private_def PRIVATE_DIRECTIVE_NAME_def)
  let ?tree = "PrivateFieldTree False [(a, PrivateFieldTree False [(secret, PrivateFieldTree True [])])]"
  have "collect_private_fields (Suc n) frags
      [Field None a [] [] [FragmentSpread f []], Field None b [] [] [FragmentSpread f []]] = Some ?tree"
    using assms by (simp add: collect_private_fields_def d response_key_def mark_private_def set_child_def
        remove_child_def child_or_default_def default_tree_def has_private_fields_def)
  moreover have "hidden ?tree [a, secret]" "\<not> hidden ?tree [b, secret]"
    using assms(2) by auto
  ultimately show ?thesis
    using assms(2) by (intro exI [of _ ?tree]) (simp only: reaches_filtered_data, simp)
qed

theorem second_spread_leaks_witness:
  "\<exists>tree. collect_private_fields 1 [''F'' \<mapsto> \<lparr>frag_name = ''F'', frag_type_condition = ''User'',
        frag_selection_set = [Field None ''ssn'' [] [\<lparr>dir_name = ''private'', dir_arguments = []\<rparr>] []], frag_description = None\<rparr>]
      [Field None ''me'' [] [] [FragmentSpread ''F'' []], Field None ''boss'' [] [] [FragmentSpread ''F'' []]] = Some tree \<and>
    reaches (filter_private_fields (JObject [(''data'', JObject [(''me'', JObject [(''ssn'', JString ''1'')]),
        (''boss'', JObject [(''ssn'', JString ''2'')])])]) tree) [''data'', ''boss'', ''ssn'']"
proof -
  let ?f = "\<lparr>frag_name = ''F'', frag_type_condition = ''User'',
        frag_selection_set = [Field None ''ssn'' [] [\<lparr>dir_name = ''private'', dir_arguments = []\<rparr>] []], frag_description = None\<rparr>"
  have f: "[''F'' \<mapsto> ?f] ''F'' = Some ?f" and ne: "''me'' \<noteq> ''boss''" by simp_all
  show ?thesis
    using second_spread_leaks [where f = "''F''" and frags = "[''F'' \<mapsto> ?f]", OF f ne, of 0 "JString ''1''" "JString ''2''"] by (auto simp del: reaches.simps)
qed

lemma collect_returns_aux:
  assumes "finite (dom frags)"
  shows "card (dom frags - set visited) \<le> n \<Longrightarrow>
    \<exists>tree' visited'. collect_from_selections n frags ss tree visited = Some (tree', visited') \<and> set visited \<subseteq> set visited'"
  using assms
proof (induction n frags ss tree visited rule: collect_from_selections.induct)
  case (2 n frags al name args ds ss rest tree visited)
  let ?k = "response_key al name"
  consider "marked_private ds" | "\<not> marked_private ds" "ss \<noteq> []" | "\<not> marked_private ds" "ss = []" by blast
  then show ?case
  proof cases
    case 2
    from "2.IH"(2) [OF 2 "2.prems"] obtain child v where
      child: "collect_from_selections n frags ss (child_or_default ?k tree) visited = Some (child, v)" "set visited \<subseteq> set v"
      by blast
    have "card (dom frags - set v) \<le> card (dom frags - set visited)"
      using child(2) "2.prems"(2) by (intro card_mono) auto
    with "2.IH"(3) [OF 2 child(1) refl] "2.prems" child show ?thesis
      using 2 by (auto intro: order_trans)
  qed (use 2 in auto)
next
  case (3 n frags name ds rest tree visited)
  show ?case
  proof (cases "List.member visited name")
    case True
    then show ?thesis using 3 by simp
  next
    case fresh: False
    have mono: "card (dom frags - set v) \<le> card (dom frags - set visited)" if "set visited \<subseteq> set v" for v
      using that "3.prems"(2) by (intro card_mono) auto
    show ?thesis
    proof (cases "frags name")
      case None
      have "set visited \<subseteq> set (name # visited)" by auto
      then have "card (dom frags - set (name # visited)) \<le> n"
        using mono "3.prems"(1) le_trans by blast
      from "3.IH"(2) [OF fresh None this "3.prems"(2)] None fresh show ?thesis by auto
    next
      case (Some f)
      with fresh have "name \<in> dom frags - set visited" by (auto simp:)
      then have less: "card (dom frags - set (name # visited)) < card (dom frags - set visited)"
        using "3.prems"(2) by (intro psubset_card_mono) auto
      then obtain m where m: "n = Suc m" using "3.prems"(1) by (cases n) auto
      have "card (dom frags - set (name # visited)) \<le> m" using less "3.prems"(1) m by simp
      from "3.IH"(3) [OF fresh Some m this "3.prems"(2)] obtain t v where
        body: "collect_from_selections m frags (frag_selection_set f) tree (name # visited) = Some (t, v)"
        "set (name # visited) \<subseteq> set v" by blast
      have "card (dom frags - set v) \<le> n" using mono [of v] body(2) "3.prems"(1) by auto
      from "3.IH"(4) [OF fresh Some m body(1) refl this "3.prems"(2)] body fresh Some m
      show ?thesis by auto
    qed
  qed
next
  case (4 n frags tc ds ss rest tree visited)
  then obtain t v where
    body: "collect_from_selections n frags ss tree visited = Some (t, v)" "set visited \<subseteq> set v" by blast
  have "card (dom frags - set v) \<le> card (dom frags - set visited)"
    using body(2) "4.prems"(2) by (intro card_mono) auto
  then have "card (dom frags - set v) \<le> n" using "4.prems"(1) by simp
  from "4.IH"(2) [OF body(1) refl this "4.prems"(2)] body show ?case by auto
qed auto

lemma collect_private_returns:
  "collect_private_fields (length document) (collect_named_fragments document) ss \<noteq> None"
proof -
  have "dom (collect_named_fragments document) \<subseteq> fst ` set (filter_map
      (\<lambda>def. case def of FragmentDefinition f \<Rightarrow> Some (frag_name f, f) | _ \<Rightarrow> None) document)"
    by (auto simp: collect_named_fragments_def dom_map_of_conv_image_fst)
  then have "card (dom (collect_named_fragments document)) \<le> length (filter_map
      (\<lambda>def. case def of FragmentDefinition f \<Rightarrow> Some (frag_name f, f) | _ \<Rightarrow> None) document)"
    by (meson card_image_le card_length card_mono finite_imageI finite_set le_trans)
  also have "\<dots> \<le> length document" by (rule length_filter_map)
  finally show ?thesis
    using collect_returns_aux [of "collect_named_fragments document" "[]" "length document" ss default_tree]
    by (auto simp: collect_private_fields_def collect_named_fragments_def finite_dom_map_of)
qed

text \<open>
  Collecting private fields returns for every operation, recursive fragments included, within
  a nesting of fragments bounded by their number.
\<close>

theorem collecting_returns:
  "collect_private_fields (length document) (collect_named_fragments document) ss \<noteq> None"
  by (rule collect_private_returns)

fun no_private :: "selection \<Rightarrow> bool" where
  "no_private (Field al name args ds ss) \<longleftrightarrow> \<not> marked_private ds \<and> list_all no_private ss"
| "no_private (InlineFragment tc ds ss) \<longleftrightarrow> list_all no_private ss"
| "no_private (FragmentSpread name ds) \<longleftrightarrow> True"

lemma stripped_no_private: "no_private (strip_selection s)"
  by (induction s rule: strip_selection.induct) (auto simp: marked_private_def list_ex_iff list_all_iff)

lemma strip_unmarked: "no_private s \<Longrightarrow> strip_selection s = s"
  by (induction s rule: strip_selection.induct)
     (auto simp: marked_private_def list_ex_iff list_all_iff map_idI filter_id_conv)

text \<open>
  The document sent upstream has no private marker on any field of its operations and
  fragments, so stripping it again changes nothing.
\<close>

theorem stripping_exact:
  "list_all (\<lambda>def. case def of
      OperationDefinition op \<Rightarrow> list_all no_private (od_selection_set op)
    | FragmentDefinition f \<Rightarrow> list_all no_private (frag_selection_set f)
    | OtherDefinition \<Rightarrow> True) (strip_private_directives document) \<and>
   strip_private_directives (strip_private_directives document) = strip_private_directives document"
proof
  have sels: "map strip_selection (map strip_selection ss) = map strip_selection ss" for ss
    by (simp add: strip_unmarked stripped_no_private)
  have one: "(case strip_definition def of
      OperationDefinition op \<Rightarrow> list_all no_private (od_selection_set op)
    | FragmentDefinition f \<Rightarrow> list_all no_private (frag_selection_set f)
    | OtherDefinition \<Rightarrow> True)" for def
    by (cases def) (simp_all add: list_all_iff stripped_no_private)
  then show "list_all (\<lambda>def. case def of
      OperationDefinition op \<Rightarrow> list_all no_private (od_selection_set op)
    | FragmentDefinition f \<Rightarrow> list_all no_private (frag_selection_set f)
    | OtherDefinition \<Rightarrow> True) (strip_private_directives document)"
    by (simp add: strip_private_directives_def list_all_iff)
  have "strip_definition (strip_definition def) = strip_definition def" for def
    by (cases def) (simp_all add: sels del: map_map)
  then show "strip_private_directives (strip_private_directives document) = strip_private_directives document"
    by (simp add: strip_private_directives_def)
qed

end
