(* ===== verification/Operations.thy ===== *)
theory Operations
  imports Private_Fields
begin

text \<open>
  Predefined operations and the ad hoc \<open>execute\<close> tool: parsing one operation and the mutation
  gate (\<open>operations/operation.rs\<close>, \<open>operations/mutation_mode.rs\<close>), tool annotations
  (\<open>annotation_overrides.rs\<close>), and what each of them contributes to an upstream request
  (\<open>graphql::Executable\<close> for \<open>Operation\<close> and for \<open>introspection/tools/execute.rs\<close>).
\<close>

section \<open>Parsing exactly one operation\<close>

datatype MutationMode = NoMutations | Explicit | AllMutations

datatype OperationError =
    GraphQLDocument string
  | Internal string
  | MissingName "string option" string
  | NoOperations "string option"
  | Json string
  | TooManyOperations "string option" nat
  | File string
  | Collection string
  | Manifest string

text \<open>
  The GraphQL parser and serialiser of \<open>apollo_compiler\<close>: a document is its definitions, each
  with the source span the parser recorded for it (offset and end offset).
\<close>

type_synonym document = "(ast_definition \<times> (nat \<times> nat) option) list"

record graphql_api =
  parse_document :: "string \<Rightarrow> (string, document) result"
  serialize_document :: "ast_definition list \<Rightarrow> string"
  serialize_operation :: "operation_definition \<Rightarrow> string"

text \<open>The log levels that are enabled: the arguments of a log statement are evaluated only then.\<close>

record log_levels =
  debug_enabled :: bool
  warn_enabled :: bool

definition operation_name ::
    "graphql_api \<Rightarrow> operation_definition \<Rightarrow> string option \<Rightarrow> (OperationError, string) result" where
  "operation_name G operation source_path =
     (case od_name operation of
        Some n \<Rightarrow> Inr n
      | None \<Rightarrow> Inl (MissingName source_path (serialize_operation G operation)))"

text \<open>\<open>&source_text[start..end]\<close>\<close>

definition str_slice :: "nat \<Rightarrow> nat \<Rightarrow> string \<Rightarrow> string" where
  "str_slice i j s = drop i (take j s)"

text \<open>The operations of a document, each with the text between it and the definition before.\<close>

fun scan_operations ::
    "string \<Rightarrow> nat option \<Rightarrow> document \<Rightarrow> (operation_definition \<times> string option) list" where
  "scan_operations source_text last_offset [] = []"
| "scan_operations source_text last_offset ((def, span) # defs) =
     (let description = (case span of
            None \<Rightarrow> None
          | Some (offset, end_offset) \<Rightarrow> map_option (\<lambda>start. str_slice start offset source_text) last_offset);
          rest = scan_operations source_text (map_option snd span) defs
      in case def of OperationDefinition op \<Rightarrow> (op, description) # rest | _ \<Rightarrow> rest)"

definition operation_defs ::
    "graphql_api \<Rightarrow> log_levels \<Rightarrow> string \<Rightarrow> bool \<Rightarrow> string option \<Rightarrow>
     (OperationError, (document \<times> operation_definition \<times> string option) option) result" where
  "operation_defs G L source_text allow_mutations source_path =
     (case parse_document G source_text of
        Inl e \<Rightarrow> Inl (GraphQLDocument e)
      | Inr document \<Rightarrow>
          (case scan_operations source_text (Some 0) document of
             [] \<Rightarrow> Inl (NoOperations source_path)
           | (operation, comments) # others \<Rightarrow>
               if others \<noteq> [] then Inl (TooManyOperations source_path (Suc (length others)))
               else
                 (case od_operation_type operation of
                    Subscription \<Rightarrow>
                      if debug_enabled L
                      then try_result (operation_name G operation source_path) (\<lambda>_. Inr None)
                      else Inr None
                  | Mutation \<Rightarrow>
                      if \<not> allow_mutations
                      then (if warn_enabled L
                            then try_result (operation_name G operation source_path) (\<lambda>_. Inr None)
                            else Inr None)
                      else Inr (Some (document, operation, comments))
                  | Query \<Rightarrow> Inr (Some (document, operation, comments)))))"

section \<open>Annotations\<close>

record ToolAnnotations =
  ann_title :: "string option"
  ann_read_only :: "bool option"
  ann_destructive :: "bool option"
  ann_idempotent :: "bool option"
  ann_open_world :: "bool option"

text \<open>\<open>AnnotationOverrides\<close> has the same five optional fields.\<close>

record AnnotationOverrides =
  ov_title :: "string option"
  ov_read_only :: "bool option"
  ov_destructive :: "bool option"
  ov_idempotent :: "bool option"
  ov_open_world :: "bool option"

definition override :: "'a option \<Rightarrow> 'a option \<Rightarrow> 'a option" where
  "override new old = (case new of Some v \<Rightarrow> Some v | None \<Rightarrow> old)"

definition apply_overrides :: "AnnotationOverrides \<Rightarrow> ToolAnnotations \<Rightarrow> ToolAnnotations" where
  "apply_overrides ov base =
     \<lparr>ann_title = override (ov_title ov) (ann_title base),
      ann_read_only = override (ov_read_only ov) (ann_read_only base),
      ann_destructive = override (ov_destructive ov) (ann_destructive base),
      ann_idempotent = override (ov_idempotent ov) (ann_idempotent base),
      ann_open_world = override (ov_open_world ov) (ann_open_world base)\<rparr>"

definition operation_annotations ::
    "operation_definition \<Rightarrow> string \<Rightarrow> (string \<rightharpoonup> AnnotationOverrides) \<Rightarrow> ToolAnnotations" where
  "operation_annotations operation name overrides =
     (let is_query = (od_operation_type operation \<noteq> Mutation);
          annotations =
            \<lparr>ann_title = None, ann_read_only = Some is_query, ann_destructive = Some (\<not> is_query),
             ann_idempotent = (if is_query then Some True else None), ann_open_world = Some True\<rparr>
      in case overrides name of Some ov \<Rightarrow> apply_overrides ov annotations | None \<Rightarrow> annotations)"

section \<open>Operations\<close>

record RawOperation =
  source_text :: string
  raw_headers :: "(string \<times> string) list option"
  raw_variables :: "(string \<times> json) list option"
  source_path :: "string option"

record Tool =
  tool_name :: string
  tool_description :: string
  tool_input_schema :: json
  tool_output_schema :: "json option"
  tool_annotations :: ToolAnnotations
  tool_meta :: "(string \<times> json) list option"

record Operation =
  op_tool :: Tool
  op_inner :: RawOperation
  op_operation_name :: string
  op_stripped_source_text :: "string option"
  op_private_fields :: "PrivateFieldTree option"

record CompileOptions =
  mutation_mode :: MutationMode
  enable_output_schema :: bool
  annotation_overrides :: "string \<rightharpoonup> AnnotationOverrides"
  description_overrides :: "string \<rightharpoonup> string"

text \<open>
  The model-facing texts of a tool that are not part of this development yet are arguments: the
  generated description, the input schema of the variables, and the output schema of the
  selection.
\<close>

record 'schema tool_texts =
  generated_description :: "'schema \<Rightarrow> document \<Rightarrow> operation_definition \<Rightarrow> string option \<Rightarrow> string"
  input_json_schema :: "'schema \<Rightarrow> document \<Rightarrow> operation_definition \<Rightarrow> RawOperation \<Rightarrow> json"
  output_json_schema :: "'schema \<Rightarrow> document \<Rightarrow> operation_definition \<Rightarrow> PrivateFieldTree option \<Rightarrow> json option"

text \<open>
  \<open>strip_executable_descriptions\<close>: the document without the descriptions of operations,
  variables and fragments, and whether it had any.
\<close>

definition non_blank_description :: "string option \<Rightarrow> string option" where
  "non_blank_description d =
     (case d of None \<Rightarrow> None | Some s \<Rightarrow> if str_trim s = [] then None else Some (str_trim s))"

fun described :: "ast_definition \<Rightarrow> bool" where
  "described (OperationDefinition op) \<longleftrightarrow>
     od_description op \<noteq> None \<or> list_ex (\<lambda>v. vd_description v \<noteq> None) (od_variables op)"
| "described (FragmentDefinition f) \<longleftrightarrow> frag_description f \<noteq> None"
| "described OtherDefinition \<longleftrightarrow> False"

fun undescribed :: "ast_definition \<Rightarrow> ast_definition" where
  "undescribed (OperationDefinition op) =
     OperationDefinition (op\<lparr>od_description := None,
       od_variables := map (\<lambda>v. v\<lparr>vd_description := None\<rparr>) (od_variables op)\<rparr>)"
| "undescribed (FragmentDefinition f) = FragmentDefinition (f\<lparr>frag_description := None\<rparr>)"
| "undescribed OtherDefinition = OtherDefinition"

definition strip_executable_descriptions :: "ast_definition list \<Rightarrow> ast_definition list \<times> bool" where
  "strip_executable_descriptions definitions =
     (map (\<lambda>d. if described d then undescribed d else d) definitions, list_ex described definitions)"

definition stripped_document :: "bool \<Rightarrow> ast_definition list \<Rightarrow> ast_definition list option" where
  "stripped_document has_private definitions =
     (let (outgoing, stripped) = strip_executable_descriptions
            (if has_private then strip_private_directives definitions else definitions)
      in if has_private \<or> stripped then Some outgoing else None)"

definition from_raw ::
    "graphql_api \<Rightarrow> log_levels \<Rightarrow> 'schema tool_texts \<Rightarrow> 'schema \<Rightarrow> CompileOptions \<Rightarrow> RawOperation \<Rightarrow>
     (OperationError, Operation option) result" where
  "from_raw G L X schema opts raw =
     try_result (operation_defs G L (source_text raw) (mutation_mode opts \<noteq> NoMutations) (source_path raw))
       (\<lambda>found. case found of
          None \<Rightarrow> Inr None
        | Some (document, operation, comments) \<Rightarrow>
            (case operation_name G operation (source_path raw) of
               Inl (MissingName p t) \<Rightarrow> Inr None
             | Inl e \<Rightarrow> Inl e
             | Inr name \<Rightarrow>
                 let definitions = map fst document;
                     description = (case description_overrides opts name of
                        Some d \<Rightarrow> d
                      | None \<Rightarrow> generated_description X schema document operation comments);
                     private_tree = the (collect_private_fields (length definitions)
                        (collect_named_fragments definitions) (od_selection_set operation));
                     has_private = has_private_fields private_tree;
                     private = (if has_private then Some private_tree else None);
                     output_schema = (if enable_output_schema opts
                        then output_json_schema X schema document operation private else None)
                 in Inr (Some \<lparr>op_tool = \<lparr>tool_name = name, tool_description = description,
                      tool_input_schema = input_json_schema X schema document operation raw,
                      tool_output_schema = output_schema,
                      tool_annotations = operation_annotations operation name (annotation_overrides opts),
                      tool_meta = None\<rparr>,
                    op_inner = raw, op_operation_name = name,
                    op_stripped_source_text =
                      map_option (serialize_document G) (stripped_document has_private definitions),
                    op_private_fields = private\<rparr>)))"

section \<open>What an executable contributes\<close>

record OperationDetails =
  det_query :: string
  det_operation_name :: "string option"
  det_private_fields :: "PrivateFieldTree option"

definition operation_details :: "Operation \<Rightarrow> json \<Rightarrow> (string, OperationDetails) result" where
  "operation_details op input =
     Inr \<lparr>det_query = (case op_stripped_source_text op of Some t \<Rightarrow> t | None \<Rightarrow> source_text (op_inner op)),
          det_operation_name = Some (op_operation_name op),
          det_private_fields = op_private_fields op\<rparr>"

definition conflict_message :: "string \<Rightarrow> string" where
  "conflict_message key = ''Parameter '' @ [CHR 0x27] @ key @ [CHR 0x27] @ '' conflicts with operation-defined variable''"

fun add_raw_variables :: "(string \<times> json) list \<Rightarrow> (string \<times> json) list \<Rightarrow> (string, (string \<times> json) list) result" where
  "add_raw_variables [] variables = Inr variables"
| "add_raw_variables ((key, value) # raw) variables =
     (if list_ex (\<lambda>kv. fst kv = key) variables then Inl (conflict_message key)
      else add_raw_variables raw (variables @ [(key, value)]))"

definition operation_variables :: "Operation \<Rightarrow> json \<Rightarrow> (string, json) result" where
  "operation_variables op input =
     (case raw_variables (op_inner op) of
        None \<Rightarrow> Inr input
      | Some raw \<Rightarrow>
          try_result
            (case input of
               JNull \<Rightarrow> Inr []
             | JObject obj \<Rightarrow> Inr obj
             | _ \<Rightarrow> Inl ''Variables must be a JSON object or null'')
            (\<lambda>variables. try_result (add_raw_variables raw variables) (\<lambda>vs. Inr (JObject vs))))"

text \<open>The headers fixed by an operation, as the list their iterator yields, one entry per value.\<close>

definition header_list_map :: "(string \<times> string) list \<Rightarrow> header_map" where
  "header_list_map hs = (\<lambda>n. map snd (filter (\<lambda>h. fst h = n) hs))"

definition operation_headers :: "Operation \<Rightarrow> header_map \<Rightarrow> header_map" where
  "operation_headers op default_headers =
     (case raw_headers (op_inner op) of
        None \<Rightarrow> default_headers
      | Some raw \<Rightarrow>
          if default_headers = hm_empty then header_list_map raw
          else foldl (\<lambda>headers kv. hm_insert (fst kv) (snd kv) headers) default_headers raw)"

section \<open>The execute tool\<close>

record Execute =
  ex_mutation_mode :: MutationMode

text \<open>
  Decoding the input struct (an object, or an array of the fields in order); the JSON parser for
  variables given as text and the rendering of errors are arguments.
\<close>

definition optional_json :: "json \<Rightarrow> json option" where
  "optional_json v = (case v of JNull \<Rightarrow> None | _ \<Rightarrow> Some v)"

fun decode_execute_input :: "json \<Rightarrow> (string \<times> json option) option" where
  "decode_execute_input (JObject kvs) =
     (case map_of kvs ''query'' of
        Some (JString q) \<Rightarrow>
          Some (q, case map_of kvs ''variables'' of None \<Rightarrow> None | Some v \<Rightarrow> optional_json v)
      | _ \<Rightarrow> None)"
| "decode_execute_input (JArray [JString q]) = Some (q, None)"
| "decode_execute_input (JArray [JString q, v]) = Some (q, optional_json v)"
| "decode_execute_input _ = None"

record text_api =
  show_operation_error :: "OperationError \<Rightarrow> string"
  invalid_input :: "json \<Rightarrow> string"
  parse_json :: "string \<Rightarrow> (string, json) result"

definition execute_operation_details ::
    "graphql_api \<Rightarrow> log_levels \<Rightarrow> text_api \<Rightarrow> Execute \<Rightarrow> json \<Rightarrow> (string, OperationDetails) result" where
  "execute_operation_details G L T ex input =
     (case decode_execute_input input of
        None \<Rightarrow> Inl (invalid_input T input)
      | Some (query, _) \<Rightarrow>
          (case operation_defs G L query (ex_mutation_mode ex = AllMutations) None of
             Inl e \<Rightarrow> Inl (show_operation_error T e)
           | Inr None \<Rightarrow> Inl ''Invalid operation type''
           | Inr (Some (document, operation_def, comments)) \<Rightarrow>
               (let op_name = (case operation_name G operation_def comments of Inl _ \<Rightarrow> None | Inr n \<Rightarrow> Some n);
                    parse = (\<lambda>q. case parse_document G q of Inl _ \<Rightarrow> None | Inr d \<Rightarrow> Some (map fst d))
                in case process_private_directives (length document) parse (serialize_document G) query of
                     Some (stripped_query, tree) \<Rightarrow>
                       Inr \<lparr>det_query = stripped_query, det_operation_name = op_name, det_private_fields = Some tree\<rparr>
                   | None \<Rightarrow>
                       Inr \<lparr>det_query = query, det_operation_name = op_name, det_private_fields = None\<rparr>)))"

definition execute_variables :: "text_api \<Rightarrow> json \<Rightarrow> (string, json) result" where
  "execute_variables T input =
     (case decode_execute_input input of
        None \<Rightarrow> Inl (invalid_input T input)
      | Some (_, variables) \<Rightarrow>
          (case variables of
             None \<Rightarrow> Inr JNull
           | Some JNull \<Rightarrow> Inr JNull
           | Some (JString s) \<Rightarrow>
               (case parse_json T s of Inl e \<Rightarrow> Inl (''Invalid variables: '' @ e) | Inr v \<Rightarrow> Inr v)
           | Some (JObject obj) \<Rightarrow> Inr (JObject obj)
           | Some _ \<Rightarrow> Inl ''Variables must be a JSON object or string''))"

end
