(* ===== verification/Json_Schema.thy ===== *)
theory Json_Schema
  imports Web_Types
begin

text \<open>
  JSON Schema as the clients of the server read it: whether a value is valid under one of the
  schemas that the server generates (draft 7, the keywords the generators emit). Other keywords,
  which only the schemas of custom scalars may have, are a parameter of the validator. References
  point into the definitions of the root schema; a chain of references at one and the same value
  that is longer than the limit of the validator is a cycle, which no value satisfies.
\<close>

section \<open>The validator\<close>

record validator =
  vd_definitions :: "(string \<times> json) list"
  vd_ref_limit :: nat
  vd_keyword :: "string \<Rightarrow> json \<Rightarrow> json \<Rightarrow> bool"

fun has_type :: "string \<Rightarrow> json \<Rightarrow> bool" where
  "has_type t JNull = (t = ''null'')"
| "has_type t (JBool b) = (t = ''boolean'')"
| "has_type t (JNumber n) = (t = ''integer'' \<or> t = ''number'')"
| "has_type t (JFloat f) = (t = ''number'')"
| "has_type t (JString s) = (t = ''string'')"
| "has_type t (JArray vs) = (t = ''array'')"
| "has_type t (JObject kvs) = (t = ''object'')"

fun type_keyword :: "json \<Rightarrow> json \<Rightarrow> bool" where
  "type_keyword (JString t) v = has_type t v"
| "type_keyword (JArray ts) v = (\<exists>t \<in> set ts. case t of JString s \<Rightarrow> has_type s v | _ \<Rightarrow> False)"
| "type_keyword _ v = False"

fun json_elements :: "json \<Rightarrow> json list" where
  "json_elements (JArray vs) = vs"
| "json_elements _ = []"

fun json_entries :: "json \<Rightarrow> (string \<times> json) list" where
  "json_entries (JObject kvs) = kvs"
| "json_entries _ = []"

definition required_keyword :: "json \<Rightarrow> json \<Rightarrow> bool" where
  "required_keyword a v =
     (case v of
        JObject kvs \<Rightarrow> (\<forall>k \<in> set (json_elements a). case k of JString s \<Rightarrow> s \<in> fst ` set kvs | _ \<Rightarrow> True)
      | _ \<Rightarrow> True)"

text \<open>A reference as the generators write it: \<open>#/definitions/\<close> and a name.\<close>

definition DEFINITIONS :: string where
  "DEFINITIONS = ''#/definitions/''"

definition ref_target :: "json \<Rightarrow> string option" where
  "ref_target a =
     (case a of
        JString p \<Rightarrow> if starts_with DEFINITIONS p then Some (drop (length DEFINITIONS) p) else None
      | _ \<Rightarrow> None)"

lemma ref_target_definitions [simp]: "ref_target (JString (DEFINITIONS @ n)) = Some n"
  by (simp add: ref_target_def starts_with_def)

lemma size_element [termination_simp]:
  "s \<in> set (json_elements a) \<Longrightarrow> size s < size a"
  by (cases a) (auto simp: less_Suc_eq_le dest: size_list_estimation'[of _ _ _ size])

lemma size_entry_le: "kv \<in> set kvs \<Longrightarrow> size (snd kv) \<le> size_list (size_prod (\<lambda>_. 0) size) kvs"
  by (induction kvs) (auto simp: le_Suc_eq)

lemma size_entry [termination_simp]:
  "kv \<in> set (json_entries a) \<Longrightarrow> size (snd kv) < size a"
  using size_entry_le[of kv "json_entries a"] by (cases a) auto

lemma size_map_of [termination_simp]:
  "map_of (json_entries a) k = Some x \<Longrightarrow> size x < size a"
  using size_entry[of "(k, x)" a] by (auto dest: map_of_SomeD)

lemma size_nonempty: "kv \<in> set (json_entries a) \<Longrightarrow> size a \<noteq> 0"
  by (cases a) auto

text \<open>
  \<open>accepts V r s v\<close>: the value \<open>v\<close> is valid under the schema \<open>s\<close>, with \<open>r\<close> more references
  allowed at this value.
\<close>

function (sequential) accepts :: "validator \<Rightarrow> nat \<Rightarrow> json \<Rightarrow> json \<Rightarrow> bool"
  and keyword_holds :: "validator \<Rightarrow> nat \<Rightarrow> string \<Rightarrow> json \<Rightarrow> json \<Rightarrow> bool"
where
  "accepts V r (JBool b) v = b"
| "accepts V r (JObject kws) v = (\<forall>kw \<in> set kws. keyword_holds V r (fst kw) (snd kw) v)"
| "accepts V r _ v = False"
| "keyword_holds V r k a v =
     (if k = ''$ref'' then
        (case (ref_target a, r) of
           (Some n, Suc r') \<Rightarrow>
             (case map_of (vd_definitions V) n of None \<Rightarrow> False | Some s \<Rightarrow> accepts V r' s v)
         | _ \<Rightarrow> False)
      else if k = ''type'' then type_keyword a v
      else if k = ''enum'' then v \<in> set (json_elements a)
      else if k = ''required'' then required_keyword a v
      else if k = ''items'' then
        (\<forall>x \<in> set (json_elements v). accepts V (vd_ref_limit V) a x)
      else if k = ''properties'' then
        (\<forall>ps \<in> set (json_entries a). case map_of (json_entries v) (fst ps) of
             None \<Rightarrow> True | Some x \<Rightarrow> accepts V (vd_ref_limit V) (snd ps) x)
      else if k = ''propertyNames'' then
        (\<forall>kv \<in> set (json_entries v). accepts V (vd_ref_limit V) a (JString (fst kv)))
      else if k = ''anyOf'' then (\<exists>s \<in> set (json_elements a). accepts V r s v)
      else if k = ''allOf'' then (\<forall>s \<in> set (json_elements a). accepts V r s v)
      else if k = ''oneOf'' then length (filter (\<lambda>s. accepts V r s v) (json_elements a)) = 1
      else if k = ''not'' then \<not> accepts V r a v
      else if k \<in> {''description'', ''default'', ''definitions'', ''title'', ''$schema''} then True
      else vd_keyword V k a v)"
  by pat_completeness auto
termination
  by (relation "measures
        [case_sum (\<lambda>(V, r, s, v). size v) (\<lambda>(V, r, k, a, v). size v),
         case_sum (\<lambda>(V, r, s, v). r) (\<lambda>(V, r, k, a, v). r),
         case_sum (\<lambda>(V, r, s, v). 2 * size s) (\<lambda>(V, r, k, a, v). 2 * size a + 1)]")
     (auto simp: termination_simp less_Suc_eq_le dest: size_nonempty)

section \<open>Reading one keyword\<close>

named_theorems schema_simps \<comment> \<open>validity under an explicit schema, keyword by keyword\<close>

declare keyword_holds.simps [simp del]

lemma accepts_object [schema_simps]:
  "accepts V r (JObject kws) v \<longleftrightarrow> (\<forall>kw \<in> set kws. keyword_holds V r (fst kw) (snd kw) v)"
  by simp

declare accepts.simps(2) [simp del]

lemma keyword_holds_simps [schema_simps]:
  "keyword_holds V r ''type'' a v = type_keyword a v"
  "keyword_holds V r ''enum'' a v \<longleftrightarrow> v \<in> set (json_elements a)"
  "keyword_holds V r ''required'' a v = required_keyword a v"
  "keyword_holds V r ''items'' a v \<longleftrightarrow> (\<forall>x \<in> set (json_elements v). accepts V (vd_ref_limit V) a x)"
  "keyword_holds V r ''properties'' a v \<longleftrightarrow>
     (\<forall>ps \<in> set (json_entries a). case map_of (json_entries v) (fst ps) of
        None \<Rightarrow> True | Some x \<Rightarrow> accepts V (vd_ref_limit V) (snd ps) x)"
  "keyword_holds V r ''propertyNames'' a v \<longleftrightarrow>
     (\<forall>kv \<in> set (json_entries v). accepts V (vd_ref_limit V) a (JString (fst kv)))"
  "keyword_holds V r ''anyOf'' a v \<longleftrightarrow> (\<exists>s \<in> set (json_elements a). accepts V r s v)"
  "keyword_holds V r ''allOf'' a v \<longleftrightarrow> (\<forall>s \<in> set (json_elements a). accepts V r s v)"
  "keyword_holds V r ''oneOf'' a v \<longleftrightarrow> length (filter (\<lambda>s. accepts V r s v) (json_elements a)) = 1"
  "keyword_holds V r ''not'' a v \<longleftrightarrow> \<not> accepts V r a v"
  "keyword_holds V r ''description'' a v" "keyword_holds V r ''default'' a v"
  "keyword_holds V r ''definitions'' a v" "keyword_holds V r ''title'' a v"
  "keyword_holds V r ''$schema'' a v"
  by (simp_all add: keyword_holds.simps)

lemma keyword_holds_ref [schema_simps]:
  "keyword_holds V r ''$ref'' (JString (DEFINITIONS @ n)) v \<longleftrightarrow>
     (case r of 0 \<Rightarrow> False
      | Suc r' \<Rightarrow> (case map_of (vd_definitions V) n of None \<Rightarrow> False | Some s \<Rightarrow> accepts V r' s v))"
  by (simp add: keyword_holds.simps split: nat.split option.split)

text \<open>Annotations do not constrain a value.\<close>

definition annotations :: "string set" where
  "annotations = {''description'', ''default'', ''definitions'', ''title'', ''$schema''}"

lemma accepts_annotated:
  "set kws = set kws' \<union> A \<Longrightarrow> fst ` A \<subseteq> annotations \<Longrightarrow>
   accepts V r (JObject kws) v \<longleftrightarrow> accepts V r (JObject kws') v"
  by (auto simp: accepts_object annotations_def schema_simps ball_Un) 

text \<open>A schema that is just a reference to a definition.\<close>

definition schema_ref :: "string \<Rightarrow> json" where
  "schema_ref n = JObject [(''$ref'', JString (DEFINITIONS @ n))]"

lemma accepts_schema_ref [schema_simps]:
  "accepts V (Suc r) (schema_ref n) v \<longleftrightarrow>
     (case map_of (vd_definitions V) n of None \<Rightarrow> False | Some s \<Rightarrow> accepts V r s v)"
  by (simp add: schema_ref_def schema_simps)

text \<open>The whole schema of a tool: its own definitions resolve its references.\<close>

definition root_definitions :: "json \<Rightarrow> (string \<times> json) list" where
  "root_definitions root =
     (case map_of (json_entries root) ''definitions'' of None \<Rightarrow> [] | Some d \<Rightarrow> json_entries d)"

definition valid_under :: "(string \<Rightarrow> json \<Rightarrow> json \<Rightarrow> bool) \<Rightarrow> json \<Rightarrow> json \<Rightarrow> bool" where
  "valid_under other root v =
     (let D = root_definitions root
      in accepts \<lparr>vd_definitions = D, vd_ref_limit = Suc (length D), vd_keyword = other\<rparr>
           (Suc (length D)) root v)"

end
