(* ===== verification/Schema_Walker.thy ===== *)
theory Schema_Walker
  imports Graphql_Types Json_Schema
begin

text \<open>
  JSON schemas of GraphQL input types (\<open>operations/schema_walker.rs\<close>, \<open>schema_walker/type.rs\<close>,
  \<open>schema_walker/name.rs\<close>): the walk over a type with its cache of definitions, the defaults in
  their JSON form, and what a value that is valid under the generated schema is worth to the
  GraphQL server.
\<close>

section \<open>The walker's surroundings\<close>

text \<open>
  The schema, the map of custom scalars (absent, or without an entry, is the same to the walker),
  and two conversions of other crates: \<open>schemars::Schema::ensure_object\<close> on the boolean schemas
  a custom scalar may have, and the JSON number of a float literal (\<open>try_to_f64\<close> of
  \<open>apollo_compiler\<close> and \<open>Number::from_f64\<close>), if it has one.
\<close>

record walker =
  wk_schema :: schema
  wk_custom_scalars :: "string \<rightharpoonup> json"
  wk_bool_schema :: "bool \<Rightarrow> (string \<times> json) list"
  wk_float :: "string \<Rightarrow> json option"

abbreviation lookup_type :: "walker \<Rightarrow> string \<Rightarrow> extended_type option" where
  "lookup_type W n \<equiv> map_of (schema_types (wk_schema W)) n"

definition ensure_object :: "walker \<Rightarrow> json \<Rightarrow> (string \<times> json) list" where
  "ensure_object W s = (case s of JObject m \<Rightarrow> m | JBool b \<Rightarrow> wk_bool_schema W b | _ \<Rightarrow> [])"

text \<open>\<open>entry(k).or_insert(v)\<close>\<close>

definition obj_default :: "string \<Rightarrow> 'v \<Rightarrow> (string \<times> 'v) list \<Rightarrow> (string \<times> 'v) list" where
  "obj_default k v kvs = (if k \<in> obj_keys kvs then kvs else kvs @ [(k, v)])"

definition with_desc :: "walker \<Rightarrow> json \<Rightarrow> string option \<Rightarrow> json" where
  "with_desc W s description =
     (case description of
        None \<Rightarrow> s
      | Some desc \<Rightarrow> JObject (obj_default ''description'' (JString desc) (ensure_object W s)))"

section \<open>Defaults\<close>

fun is_non_null :: "gtype \<Rightarrow> bool" where
  "is_non_null (NonNullNamed n) = True"
| "is_non_null (NonNullList t) = True"
| "is_non_null _ = False"

fun item_type :: "gtype option \<Rightarrow> gtype option" where
  "item_type (Some (ListOf t)) = Some t"
| "item_type (Some (NonNullList t)) = Some t"
| "item_type _ = None"

text \<open>\<open>str::parse::<i64>\<close>: a sign, digits, and the range of the type.\<close>

definition is_digit :: "char \<Rightarrow> bool" where
  "is_digit c \<longleftrightarrow> c \<in> set ''0123456789''"

definition digits_value :: "string \<Rightarrow> int" where
  "digits_value ds = foldl (\<lambda>n c. 10 * n + (of_char c - 48)) 0 ds"

definition parse_i64 :: "string \<Rightarrow> int option" where
  "parse_i64 s =
     (let (sign, ds) = (case s of
            CHR ''-'' # ds \<Rightarrow> (-1, ds)
          | CHR ''+'' # ds \<Rightarrow> (1, ds)
          | _ \<Rightarrow> (1, s));
          n = sign * digits_value ds
      in if ds \<noteq> [] \<and> list_all is_digit ds \<and> - (2 ^ 63) \<le> n \<and> n < 2 ^ 63 then Some n else None)"

definition collect_map :: "(string \<times> 'v) list \<Rightarrow> (string \<times> 'v) list" where
  "collect_map kvs = foldl (\<lambda>m kv. obj_insert (fst kv) (snd kv) m) [] kvs"

definition input_object_fields :: "walker \<Rightarrow> gtype option \<Rightarrow> (string \<times> input_value_definition) list option" where
  "input_object_fields W ty =
     (case ty of
        None \<Rightarrow> None
      | Some t \<Rightarrow>
          (case lookup_type W (inner_named_type t) of
             Some (InputObjectType d n ds fs) \<Rightarrow> Some fs
           | _ \<Rightarrow> None))"

definition field_type :: "walker \<Rightarrow> gtype option \<Rightarrow> string \<Rightarrow> gtype option" where
  "field_type W ty name =
     (case input_object_fields W ty of
        None \<Rightarrow> None
      | Some fs \<Rightarrow> map_option iv_ty (map_of fs name))"

definition declared_id :: "gtype option \<Rightarrow> bool" where
  "declared_id ty = (case ty of None \<Rightarrow> False | Some t \<Rightarrow> inner_named_type t = ''ID'')"

lemma size_item_type [termination_simp]: "item_type ty = Some t \<Longrightarrow> size t < size (the ty)"
  by (cases ty rule: item_type.cases) auto

lemma size_vlist [termination_simp]: "v \<in> set vs \<Longrightarrow> size v < Suc (size_list size vs)"
  by (simp add: less_Suc_eq_le size_list_estimation')

lemma size_vobject [termination_simp]:
  "kv \<in> set kvs \<Longrightarrow> size (snd kv) < Suc (size_list (size_prod (\<lambda>_. 0) size) kvs)"
  by (induction kvs) (auto simp: less_Suc_eq)

function (sequential) graphql_value_to_json :: "walker \<Rightarrow> gvalue \<Rightarrow> gtype option \<Rightarrow> json option" where
  "graphql_value_to_json W VNull ty = Some JNull"
| "graphql_value_to_json W (VVariable x) ty = None"
| "graphql_value_to_json W (VList vs) ty =
     map_option JArray (those (map (\<lambda>v. graphql_value_to_json W v (item_type ty)) vs))"
| "graphql_value_to_json W v ty =
     (case item_type ty of
        Some t \<Rightarrow> map_option (\<lambda>j. JArray [j]) (graphql_value_to_json W v (Some t))
      | None \<Rightarrow>
          (case v of
             VBoolean b \<Rightarrow> Some (JBool b)
           | VString s \<Rightarrow> Some (JString s)
           | VEnum n \<Rightarrow> Some (JString n)
           | VInt i \<Rightarrow>
               if declared_id ty then Some (JString i)
               else map_option JNumber (parse_i64 i)
           | VFloat f \<Rightarrow> wk_float W f
           | VObject kvs \<Rightarrow>
               map_option (\<lambda>js. JObject (collect_map (zip (map fst kvs) js)))
                 (those (map (\<lambda>kv. graphql_value_to_json W (snd kv) (field_type W ty (fst kv))) kvs))
           | _ \<Rightarrow> None))"
  by pat_completeness auto
termination
  by (relation "measures [\<lambda>(W, v, ty). size v, \<lambda>(W, v, ty). size (the ty)]")
     (auto simp: termination_simp)

declare graphql_value_to_json.simps [simp del]

lemmas to_json_simps [simp] = graphql_value_to_json.simps(1-3)

fun is_vlist :: "gvalue \<Rightarrow> bool" where
  "is_vlist (VList vs) = True"
| "is_vlist v = False"

fun is_vvariable :: "gvalue \<Rightarrow> bool" where
  "is_vvariable (VVariable x) = True"
| "is_vvariable v = False"

text \<open>An item stands for a list of one, and without a list type the literal has its own shape.\<close>

lemma to_json_single:
  "item_type ty = Some t \<Longrightarrow> v \<noteq> VNull \<Longrightarrow> \<not> is_vvariable v \<Longrightarrow> \<not> is_vlist v \<Longrightarrow>
   graphql_value_to_json W v ty = map_option (\<lambda>j. JArray [j]) (graphql_value_to_json W v (Some t))"
  by (cases v) (simp_all add: graphql_value_to_json.simps(4-9)[where ty = ty])

lemma to_json_atom [simp]:
  "item_type ty = None \<Longrightarrow> graphql_value_to_json W (VBoolean b) ty = Some (JBool b)"
  "item_type ty = None \<Longrightarrow> graphql_value_to_json W (VString s) ty = Some (JString s)"
  "item_type ty = None \<Longrightarrow> graphql_value_to_json W (VEnum n) ty = Some (JString n)"
  "item_type ty = None \<Longrightarrow> graphql_value_to_json W (VFloat f) ty = wk_float W f"
  "item_type ty = None \<Longrightarrow> graphql_value_to_json W (VInt i) ty =
     (if declared_id ty then Some (JString i) else map_option JNumber (parse_i64 i))"
  "item_type ty = None \<Longrightarrow> graphql_value_to_json W (VObject kvs) ty =
     map_option (\<lambda>js. JObject (collect_map (zip (map fst kvs) js)))
       (those (map (\<lambda>kv. graphql_value_to_json W (snd kv) (field_type W ty (fst kv))) kvs))"
  by (simp_all add: graphql_value_to_json.simps(4-9)[where ty = ty])

definition with_default :: "walker \<Rightarrow> json \<Rightarrow> gvalue option \<Rightarrow> gtype \<Rightarrow> json" where
  "with_default W s default_value ty =
     (case default_value of
        None \<Rightarrow> s
      | Some value \<Rightarrow>
          (case graphql_value_to_json W value (Some ty) of
             None \<Rightarrow> s
           | Some d \<Rightarrow> JObject (obj_insert ''default'' d (ensure_object W s))))"

section \<open>The walk\<close>

type_synonym cache = "(string \<times> json) list"

definition builtin_schema :: "string \<Rightarrow> json option" where
  "builtin_schema n =
     (if n = ''String'' \<or> n = ''ID'' then Some (JObject [(''type'', JString ''string'')])
      else if n = ''Float'' then Some (JObject [(''type'', JString ''number'')])
      else if n = ''Int'' then Some (JObject [(''type'', JString ''integer'')])
      else if n = ''Boolean'' then Some (JObject [(''type'', JString ''boolean'')])
      else None)"

definition newline :: string where
  "newline = [CHR 10]"

definition enum_line :: "string \<times> enum_value_definition \<Rightarrow> string" where
  "enum_line v = fst v @ '': '' @ (case ev_description (snd v) of None \<Rightarrow> [] | Some d \<Rightarrow> d)"

definition enum_schema ::
    "walker \<Rightarrow> string option \<Rightarrow> (string \<times> enum_value_definition) list \<Rightarrow> json" where
  "enum_schema W d vs =
     with_desc W
       (JObject [(''type'', JString ''string''), (''enum'', JArray (map (\<lambda>v. JString (ev_value (snd v))) vs))])
       (Some ((case d of None \<Rightarrow> [] | Some text \<Rightarrow> text) @ newline @ newline @ ''Values:'' @ newline @
              join_with newline (map enum_line vs)))"

text \<open>The description of a custom scalar's own schema goes before that of the GraphQL schema.\<close>

definition scalar_schema :: "walker \<Rightarrow> string \<Rightarrow> string option \<Rightarrow> json" where
  "scalar_schema W n d =
     (case wk_custom_scalars W n of
        None \<Rightarrow> with_desc W (JObject []) d
      | Some s \<Rightarrow>
          with_desc W s
            (case map_of (ensure_object W s) ''description'' of Some (JString text) \<Rightarrow> Some text | _ \<Rightarrow> d))"

definition is_required :: "input_value_definition \<Rightarrow> bool" where
  "is_required f \<longleftrightarrow> is_non_null (iv_ty f) \<and> iv_default f = None"

definition required_entry :: "string list \<Rightarrow> (string \<times> json) list" where
  "required_entry names = (if names = [] then [] else [(''required'', JArray (map JString names))])"

definition input_schema ::
    "walker \<Rightarrow> string option \<Rightarrow> (string \<times> json) list \<Rightarrow> string list \<Rightarrow> json" where
  "input_schema W d properties names =
     JObject (obj_insert ''properties'' (JObject properties)
       (ensure_object W (with_desc W
          (JObject [(''type'', JString ''object''), (''properties'', JObject [])]) d))
      @ required_entry names)"

definition array_schema :: "json \<Rightarrow> json" where
  "array_schema s = JObject [(''type'', JString ''array''), (''items'', s)]"

definition or_null :: "json \<Rightarrow> json" where
  "or_null s = JObject [(''anyOf'', JArray [s, JObject [(''type'', JString ''null'')]])]"

definition nullable :: "gtype \<Rightarrow> json \<Rightarrow> json" where
  "nullable t s = (if is_non_null t then s else or_null s)"

text \<open>
  The number bounds the nesting of input objects: every input object that is entered is in the
  cache from then on, as a placeholder first.
\<close>

function (sequential) walk_type ::
    "walker \<Rightarrow> nat \<Rightarrow> string option \<Rightarrow> gtype \<Rightarrow> cache \<Rightarrow> (json \<times> cache) option"
  and walk_name :: "walker \<Rightarrow> nat \<Rightarrow> string \<Rightarrow> cache \<Rightarrow> (json \<times> cache) option"
  and walk_fields ::
    "walker \<Rightarrow> nat \<Rightarrow> (string \<times> input_value_definition) list \<Rightarrow> (string \<times> json) list \<Rightarrow> string list \<Rightarrow>
     cache \<Rightarrow> ((string \<times> json) list \<times> string list \<times> cache) option"
where
  "walk_type W k description t c =
     map_option (\<lambda>(inner, c'). (with_desc W (nullable t inner) description, c'))
       (case t of
          ListOf items \<Rightarrow> map_option (apfst array_schema) (walk_type W k None items c)
        | NonNullList items \<Rightarrow> map_option (apfst array_schema) (walk_type W k None items c)
        | Named n \<Rightarrow> walk_name W k n c
        | NonNullNamed n \<Rightarrow> walk_name W k n c)"
| "walk_name W k n c =
     (case builtin_schema n of
        Some s \<Rightarrow> Some (s, c)
      | None \<Rightarrow>
          if n \<in> obj_keys c then Some (schema_ref n, c)
          else
            (case lookup_type W n of
               Some (EnumType d n' ds vs) \<Rightarrow> Some (schema_ref n, obj_insert n (enum_schema W d vs) c)
             | Some (InputObjectType d n' ds fs) \<Rightarrow>
                 (case k of
                    0 \<Rightarrow> None
                  | Suc k' \<Rightarrow>
                      (case walk_fields W k' fs [] [] (obj_insert n JNull c) of
                         None \<Rightarrow> None
                       | Some (properties, names, c') \<Rightarrow>
                           Some (schema_ref n, obj_insert n (input_schema W d properties names) c')))
             | Some (ScalarType d n' ds) \<Rightarrow> Some (schema_ref n, obj_insert n (scalar_schema W n d) c)
             | _ \<Rightarrow> Some (JObject [], c)))"
| "walk_fields W k [] properties names c = Some (properties, names, c)"
| "walk_fields W k (nf # fs) properties names c =
     (case walk_type W k (iv_description (snd nf)) (iv_ty (snd nf)) c of
        None \<Rightarrow> None
      | Some (s, c') \<Rightarrow>
          walk_fields W k fs
            (obj_insert (fst nf) (with_default W s (iv_default (snd nf)) (iv_ty (snd nf))) properties)
            (if is_required (snd nf) then names @ [fst nf] else names) c')"
  by pat_completeness auto
termination
  by (relation "measures
        [\<lambda>x. case x of Inl (W, k, d, t, c) \<Rightarrow> k | Inr (Inl (W, k, n, c)) \<Rightarrow> k | Inr (Inr (W, k, fs, p, r, c)) \<Rightarrow> k,
         \<lambda>x. case x of Inl (W, k, d, t, c) \<Rightarrow> Suc (size t) | Inr (Inl (W, k, n, c)) \<Rightarrow> 0
           | Inr (Inr (W, k, fs, p, r, c)) \<Rightarrow> (\<Sum>nf\<leftarrow>fs. 2 + size (iv_ty (snd nf)))]") auto

definition type_to_schema ::
    "walker \<Rightarrow> gtype \<Rightarrow> cache \<Rightarrow> string option \<Rightarrow> gvalue option \<Rightarrow> (json \<times> cache) option" where
  "type_to_schema W ty c description default_value =
     map_option (\<lambda>(s, c'). (with_default W s default_value ty, c'))
       (walk_type W (length (schema_types (wk_schema W))) description ty c)"

section \<open>The walk answers one schema per type\<close>

text \<open>
  What the walker computes, without its cache: the schema of a type only depends on the type, and
  so does the definition of a named type.
\<close>

fun definable_type :: "extended_type \<Rightarrow> bool" where
  "definable_type (EnumType d n ds vs) = True"
| "definable_type (InputObjectType d n ds fs) = True"
| "definable_type (ScalarType d n ds) = True"
| "definable_type _ = False"

definition definable :: "walker \<Rightarrow> string \<Rightarrow> bool" where
  "definable W n \<longleftrightarrow>
     builtin_schema n = None \<and> (case lookup_type W n of None \<Rightarrow> False | Some t \<Rightarrow> definable_type t)"

definition named_schema :: "walker \<Rightarrow> string \<Rightarrow> json" where
  "named_schema W n =
     (case builtin_schema n of
        Some s \<Rightarrow> s
      | None \<Rightarrow> if definable W n then schema_ref n else JObject [])"

fun type_schema :: "walker \<Rightarrow> string option \<Rightarrow> gtype \<Rightarrow> json" where
  "type_schema W description (Named n) = with_desc W (or_null (named_schema W n)) description"
| "type_schema W description (NonNullNamed n) = with_desc W (named_schema W n) description"
| "type_schema W description (ListOf t) = with_desc W (or_null (array_schema (type_schema W None t))) description"
| "type_schema W description (NonNullList t) = with_desc W (array_schema (type_schema W None t)) description"

definition field_schema :: "walker \<Rightarrow> input_value_definition \<Rightarrow> json" where
  "field_schema W f = with_default W (type_schema W (iv_description f) (iv_ty f)) (iv_default f) (iv_ty f)"

definition field_properties ::
    "walker \<Rightarrow> (string \<times> json) list \<Rightarrow> (string \<times> input_value_definition) list \<Rightarrow> (string \<times> json) list" where
  "field_properties W properties fs =
     foldl (\<lambda>p nf. obj_insert (fst nf) (field_schema W (snd nf)) p) properties fs"

definition required_names :: "(string \<times> input_value_definition) list \<Rightarrow> string list" where
  "required_names fs = map fst (filter (is_required \<circ> snd) fs)"

definition type_definition :: "walker \<Rightarrow> string \<Rightarrow> json" where
  "type_definition W n =
     (case lookup_type W n of
        Some (EnumType d n' ds vs) \<Rightarrow> enum_schema W d vs
      | Some (InputObjectType d n' ds fs) \<Rightarrow> input_schema W d (field_properties W [] fs) (required_names fs)
      | Some (ScalarType d n' ds) \<Rightarrow> scalar_schema W n d
      | _ \<Rightarrow> JObject [])"

text \<open>The definition a type refers to, if any, and those that a definition refers to.\<close>

definition type_refs :: "walker \<Rightarrow> gtype \<Rightarrow> string set" where
  "type_refs W t = {n. n = inner_named_type t \<and> definable W n}"

definition definition_refs :: "walker \<Rightarrow> string \<Rightarrow> string set" where
  "definition_refs W n =
     (case lookup_type W n of
        Some (InputObjectType d n' ds fs) \<Rightarrow> (\<Union>nf \<in> set fs. type_refs W (iv_ty (snd nf)))
      | _ \<Rightarrow> {})"

text \<open>
  The invariant of the cache while the types of \<open>P\<close> are in progress (their entries are
  placeholders): any other entry is the definition of its type, and what it refers to is there.
\<close>

definition cache_ok :: "walker \<Rightarrow> string set \<Rightarrow> cache \<Rightarrow> bool" where
  "cache_ok W P c \<longleftrightarrow>
     distinct (map fst c) \<and>
     (\<forall>n \<in> obj_keys c. definable W n \<and>
        (n \<notin> P \<longrightarrow> map_of c n = Some (type_definition W n) \<and> definition_refs W n \<subseteq> obj_keys c))"

declare map_of_eq_Some_iff [simp del] Some_eq_map_of_iff [simp del]

abbreviation entry_ok :: "walker \<Rightarrow> string set \<Rightarrow> cache \<Rightarrow> string \<Rightarrow> bool" where
  "entry_ok W P c n \<equiv> definable W n \<and>
     (n \<notin> P \<longrightarrow> map_of c n = Some (type_definition W n) \<and> definition_refs W n \<subseteq> obj_keys c)"

lemma cache_okI:
  "distinct (map fst c) \<Longrightarrow> (\<And>n. n \<in> obj_keys c \<Longrightarrow> entry_ok W P c n) \<Longrightarrow> cache_ok W P c"
  by (simp add: cache_ok_def)

lemma cache_okD: "cache_ok W P c \<Longrightarrow> n \<in> obj_keys c \<Longrightarrow> entry_ok W P c n"
  by (simp add: cache_ok_def)

lemma cache_ok_distinct: "cache_ok W P c \<Longrightarrow> distinct (map fst c)"
  by (simp add: cache_ok_def)

lemma cache_ok_Nil [simp]: "cache_ok W {} []"
  by (simp add: cache_ok_def)

lemma cache_ok_start:
  assumes "cache_ok W P c" "definable W n"
  shows "cache_ok W (insert n P) (obj_insert n v c)"
proof (rule cache_okI)
  fix m assume "m \<in> obj_keys (obj_insert n v c)"
  then show "entry_ok W (insert n P) (obj_insert n v c) m"
    using cache_okD[OF assms(1), of m] assms(2) by (cases "m = n") (simp_all add: subset_insertI2)
qed (simp add: cache_ok_distinct[OF assms(1)])

lemma cache_ok_finish:
  assumes "cache_ok W (insert n P) c" "n \<in> obj_keys c" "definition_refs W n \<subseteq> obj_keys c"
  shows "cache_ok W P (obj_insert n (type_definition W n) c)"
proof (rule cache_okI)
  fix m assume "m \<in> obj_keys (obj_insert n (type_definition W n) c)"
  then show "entry_ok W P (obj_insert n (type_definition W n) c) m"
    using cache_okD[OF assms(1), of m] assms(2,3) by (cases "m = n") (simp_all add: subset_insertI2)
qed (simp add: cache_ok_distinct[OF assms(1)])

lemma cache_ok_leaf:
  assumes "cache_ok W P c" "definable W n" "definition_refs W n = {}"
  shows "cache_ok W P (obj_insert n (type_definition W n) c)"
proof (rule cache_okI)
  fix m assume "m \<in> obj_keys (obj_insert n (type_definition W n) c)"
  then show "entry_ok W P (obj_insert n (type_definition W n) c) m"
    using cache_okD[OF assms(1), of m] assms(2,3) by (cases "m = n") (simp_all add: subset_insertI2)
qed (simp add: cache_ok_distinct[OF assms(1)])

lemma type_refs_simps [simp]:
  "type_refs W (ListOf t) = type_refs W t" "type_refs W (NonNullList t) = type_refs W t"
  "type_refs W (Named n) \<subseteq> K \<longleftrightarrow> (definable W n \<longrightarrow> n \<in> K)"
  "type_refs W (NonNullNamed n) \<subseteq> K \<longleftrightarrow> (definable W n \<longrightarrow> n \<in> K)"
  by (auto simp: type_refs_def)

text \<open>The walk follows the pure schemas and keeps the invariant.\<close>

declare walk_type.simps [simp del] walk_name.simps [simp del] walk_fields.simps [simp del]

lemma walk_type_cases:
  "walk_type W k d (Named n) c =
     map_option (\<lambda>(s, c'). (with_desc W (or_null s) d, c')) (walk_name W k n c)"
  "walk_type W k d (NonNullNamed n) c = map_option (\<lambda>(s, c'). (with_desc W s d, c')) (walk_name W k n c)"
  "walk_type W k d (ListOf t) c =
     map_option (\<lambda>(s, c'). (with_desc W (or_null (array_schema s)) d, c')) (walk_type W k None t c)"
  "walk_type W k d (NonNullList t) c =
     map_option (\<lambda>(s, c'). (with_desc W (array_schema s) d, c')) (walk_type W k None t c)"
  by (subst walk_type.simps, simp add: nullable_def option.map_comp comp_def case_prod_beta)+

lemma walk_name_builtin: "builtin_schema n = Some s \<Longrightarrow> walk_name W k n c = Some (s, c)"
  by (simp add: walk_name.simps)

lemma walk_name_cached:
  "builtin_schema n = None \<Longrightarrow> n \<in> obj_keys c \<Longrightarrow> walk_name W k n c = Some (schema_ref n, c)"
  by (simp add: walk_name.simps)

text \<open>A type that is not in the cache: a leaf is defined at once, an input object after its fields.\<close>

lemma walk_name_input:
  assumes "builtin_schema n = None" "n \<notin> obj_keys c" "lookup_type W n = Some (InputObjectType d n' ds fs)"
  shows "walk_name W (Suc k) n c =
     map_option (\<lambda>(p, r, c'). (schema_ref n, obj_insert n (input_schema W d p r) c'))
       (walk_fields W k fs [] [] (obj_insert n JNull c))"
    "walk_name W 0 n c = None"
  using assms by (simp_all add: walk_name.simps split: option.split)

lemma walk_name_leaf:
  assumes "builtin_schema n = None" "n \<notin> obj_keys c"
    "\<nexists>d n' ds fs. lookup_type W n = Some (InputObjectType d n' ds fs)"
  shows "walk_name W k n c =
     Some (named_schema W n, if definable W n then obj_insert n (type_definition W n) c else c)"
  using assms
  by (auto simp: walk_name.simps named_schema_def definable_def type_definition_def split: option.split
      extended_type.split)

lemma walk_correct:
  "walk_type W k d t c = Some (s, c') \<Longrightarrow> cache_ok W P c \<Longrightarrow>
     s = type_schema W d t \<and> cache_ok W P c' \<and> obj_keys c \<subseteq> obj_keys c' \<and> type_refs W t \<subseteq> obj_keys c'"
  "walk_name W k n c = Some (s, c') \<Longrightarrow> cache_ok W P c \<Longrightarrow>
     s = named_schema W n \<and> cache_ok W P c' \<and> obj_keys c \<subseteq> obj_keys c' \<and>
     (definable W n \<longrightarrow> n \<in> obj_keys c')"
  "walk_fields W k fs p r c = Some (p', r', c') \<Longrightarrow> cache_ok W P c \<Longrightarrow>
     p' = field_properties W p fs \<and> r' = r @ required_names fs \<and> cache_ok W P c' \<and>
     obj_keys c \<subseteq> obj_keys c' \<and> (\<forall>nf \<in> set fs. type_refs W (iv_ty (snd nf)) \<subseteq> obj_keys c')"
proof (induction W k d t c and W k n c and W k fs p r c arbitrary: P s c' and P s c' and P p' r' c'
       rule: walk_type_walk_name_walk_fields.induct)
  case (1 W k d t c)
  show ?case
  proof (cases t)
    case (ListOf u)
    with "1.prems"(1) obtain s0 where w: "walk_type W k None u c = Some (s0, c')"
      by (auto simp: walk_type_cases)
    from "1.IH"(3)[OF ListOf w "1.prems"(2)] ListOf w "1.prems"(1) show ?thesis
      by (simp add: walk_type_cases)
  next
    case (NonNullList u)
    with "1.prems"(1) obtain s0 where w: "walk_type W k None u c = Some (s0, c')"
      by (auto simp: walk_type_cases)
    from "1.IH"(4)[OF NonNullList w "1.prems"(2)] NonNullList w "1.prems"(1) show ?thesis
      by (simp add: walk_type_cases)
  next
    case (Named u)
    with "1.prems"(1) obtain s0 where w: "walk_name W k u c = Some (s0, c')"
      by (auto simp: walk_type_cases)
    from "1.IH"(1)[OF Named w "1.prems"(2)] Named w "1.prems"(1) show ?thesis
      by (simp add: walk_type_cases)
  next
    case (NonNullNamed u)
    with "1.prems"(1) obtain s0 where w: "walk_name W k u c = Some (s0, c')"
      by (auto simp: walk_type_cases)
    from "1.IH"(2)[OF NonNullNamed w "1.prems"(2)] NonNullNamed w "1.prems"(1) show ?thesis
      by (simp add: walk_type_cases)
  qed
next
  case (3 W k p r c)
  then show ?case by (simp add: walk_fields.simps field_properties_def required_names_def)
next
  case (2 W k n c)
  show ?case
  proof (cases "builtin_schema n = None \<and> n \<notin> obj_keys c")
    case False
    then show ?thesis
      using 2(2,3) cache_okD[OF 2(3), of n]
      by (cases "builtin_schema n")
         (auto simp: walk_name_builtin walk_name_cached named_schema_def definable_def)
  next
    case new: True
    show ?thesis
    proof (cases "\<exists>d n' ds fs. lookup_type W n = Some (InputObjectType d n' ds fs)")
      case True
      then obtain d n' ds fs where fs: "lookup_type W n = Some (InputObjectType d n' ds fs)" by blast
      obtain k' where k: "k = Suc k'"
        using 2(2) walk_name_input[OF _ _ fs] new by (cases k) auto
      obtain p r c1 where w: "walk_fields W k' fs [] [] (obj_insert n JNull c) = Some (p, r, c1)"
        and s: "s = schema_ref n" "c' = obj_insert n (input_schema W d p r) c1"
        using 2(2) walk_name_input[OF _ _ fs] new k by auto
      have "definable W n" using new fs by (simp add: definable_def)
      note IH = 2(1)[OF _ _ fs refl k w cache_ok_start[OF 2(3) this]]
      have def: "type_definition W n = input_schema W d p r"
        and refs: "definition_refs W n \<subseteq> obj_keys c1"
        and inv: "cache_ok W (insert n P) c1" "insert n (obj_keys c) \<subseteq> obj_keys c1"
        using IH new fs by (auto simp: type_definition_def definition_refs_def)
      have "cache_ok W P c'" using cache_ok_finish[OF inv(1) _ refs] inv(2) def s by simp
      then show ?thesis using s inv(2) new \<open>definable W n\<close> by (auto simp: named_schema_def)
    next
      case False
      then have "definition_refs W n = {}"
        by (auto simp: definition_refs_def split: option.split extended_type.split)
      then show ?thesis
        using 2(2,3) walk_name_leaf[of n c W k] new False cache_ok_leaf[of W P c n]
        by (auto split: if_splits)
    qed
  qed
next
  case (4 W k nf fs p r c)
  from 4(3) obtain s c1 where ty: "walk_type W k (iv_description (snd nf)) (iv_ty (snd nf)) c = Some (s, c1)"
    by (auto simp: walk_fields.simps split: option.splits)
  note one = 4(1)[OF ty 4(4)]
  from 4(3) ty have "walk_fields W k fs
      (obj_insert (fst nf) (with_default W s (iv_default (snd nf)) (iv_ty (snd nf))) p)
      (if is_required (snd nf) then r @ [fst nf] else r) c1 = Some (p', r', c')"
    by (simp add: walk_fields.simps)
  from 4(2)[OF ty refl this, of P] one show ?case
    by (simp add: field_properties_def required_names_def field_schema_def) blast
qed

section \<open>The walk returns\<close>

definition uncached :: "walker \<Rightarrow> cache \<Rightarrow> string set" where
  "uncached W c =
     {n. (\<exists>d n' ds fs. lookup_type W n = Some (InputObjectType d n' ds fs)) \<and> n \<notin> obj_keys c}"

lemma uncached_subset: "uncached W c \<subseteq> fst ` set (schema_types (wk_schema W))"
  by (auto simp: uncached_def simp flip: dom_map_of_conv_image_fst)

lemma finite_uncached [simp]: "finite (uncached W c)"
  using finite_subset[OF uncached_subset] by simp

lemma uncached_mono: "obj_keys c \<subseteq> obj_keys c' \<Longrightarrow> card (uncached W c') \<le> card (uncached W c)"
  by (rule card_mono[OF finite_uncached]) (auto simp: uncached_def)

lemma uncached_insert:
  assumes "lookup_type W n = Some (InputObjectType d n' ds fs)" "n \<notin> obj_keys c"
  shows "card (uncached W c) = Suc (card (uncached W (obj_insert n v c)))"
proof -
  have "uncached W c = insert n (uncached W (obj_insert n v c))" "n \<notin> uncached W (obj_insert n v c)"
    using assms by (auto simp: uncached_def)
  then show ?thesis by simp
qed

lemma uncached_bound: "card (uncached W c) \<le> length (schema_types (wk_schema W))"
  using card_mono[OF _ uncached_subset, of W c] card_length[of "map fst (schema_types (wk_schema W))"]
  by simp

lemma walk_returns:
  "card (uncached W c) \<le> k \<Longrightarrow> cache_ok W P c \<Longrightarrow> walk_type W k d t c \<noteq> None"
  "card (uncached W c) \<le> k \<Longrightarrow> cache_ok W P c \<Longrightarrow> walk_name W k n c \<noteq> None"
  "card (uncached W c) \<le> k \<Longrightarrow> cache_ok W P c \<Longrightarrow> walk_fields W k fs p r c \<noteq> None"
proof (induction W k d t c and W k n c and W k fs p r c arbitrary: P and P and P
       rule: walk_type_walk_name_walk_fields.induct)
  case (1 W k d t c)
  then show ?case by (cases t) (simp_all add: walk_type_cases)
next
  case (2 W k n c)
  show ?case
  proof (cases "builtin_schema n = None \<and> n \<notin> obj_keys c")
    case False
    then show ?thesis
      by (cases "builtin_schema n") (auto simp: walk_name_builtin walk_name_cached)
  next
    case new: True
    show ?thesis
    proof (cases "\<exists>d n' ds fs. lookup_type W n = Some (InputObjectType d n' ds fs)")
      case True
      then obtain d n' ds fs where fs: "lookup_type W n = Some (InputObjectType d n' ds fs)" by blast
      have "card (uncached W c) = Suc (card (uncached W (obj_insert n JNull c)))"
        by (rule uncached_insert[OF fs]) (use new in simp)
      with 2(2) obtain k' where k: "k = Suc k'" "card (uncached W (obj_insert n JNull c)) \<le> k'"
        by (cases k) auto
      have "definable W n" using new fs by (simp add: definable_def)
      from 2(1)[OF _ _ fs refl k(1) k(2) cache_ok_start[OF 2(3) this]] show ?thesis
        using walk_name_input(1)[OF _ _ fs] new k(1) by auto
    next
      case False
      then show ?thesis using walk_name_leaf[of n c W k] new by auto
    qed
  qed
next
  case (3 W k p r c)
  then show ?case by (simp add: walk_fields.simps)
next
  case (4 W k nf fs p r c)
  then obtain s c1 where ty: "walk_type W k (iv_description (snd nf)) (iv_ty (snd nf)) c = Some (s, c1)"
    by fastforce
  have "cache_ok W P c1" "obj_keys c \<subseteq> obj_keys c1" using walk_correct(1)[OF ty 4(4)] by auto
  then show ?case
    using 4(2)[OF ty refl _ \<open>cache_ok W P c1\<close>] uncached_mono[of c c1 W] 4(3) ty
    by (simp add: walk_fields.simps)
qed

text \<open>The interface of the walk: a schema per type, over a growing cache of definitions.\<close>

lemma type_to_schema_eq:
  assumes "cache_ok W {} c"
  obtains c' where
    "type_to_schema W ty c description v = Some (with_default W (type_schema W description ty) v ty, c')"
    "cache_ok W {} c'" "obj_keys c \<subseteq> obj_keys c'" "type_refs W ty \<subseteq> obj_keys c'"
proof -
  obtain s c' where "walk_type W (length (schema_types (wk_schema W))) description ty c = Some (s, c')"
    using walk_returns(1)[OF uncached_bound assms] by fastforce
  with walk_correct(1)[OF this assms] that show thesis by (simp add: type_to_schema_def)
qed

end
