(* ===== verification/Input_Values.thy ===== *)
theory Input_Values
  imports Schema_Walker
begin

text \<open>
  What the generated input schemas mean: the JSON values of a GraphQL input type, read off the
  type itself, are exactly the values valid under the schema that the walker generates for it.
\<close>

section \<open>The values of an input type\<close>

text \<open>
  The JSON forms of the values of an input type: lists are arrays, scalars are what their names
  say, an enum value is its name, and an input object has a value for every required field and a
  proper one for each of its fields that is there; keys that are not fields are not looked at. A
  custom scalar takes what its configured schema takes, or anything.
\<close>

fun builtin_value :: "string \<Rightarrow> json \<Rightarrow> bool" where
  "builtin_value n (JString s) = (n = ''String'' \<or> n = ''ID'')"
| "builtin_value n (JNumber i) = (n = ''Int'' \<or> n = ''Float'')"
| "builtin_value n (JFloat f) = (n = ''Float'')"
| "builtin_value n (JBool b) = (n = ''Boolean'')"
| "builtin_value n _ = False"

function (sequential) input_value ::
    "walker \<Rightarrow> (string \<Rightarrow> json \<Rightarrow> json \<Rightarrow> bool) \<Rightarrow> gtype \<Rightarrow> json \<Rightarrow> bool"
  and named_value :: "walker \<Rightarrow> (string \<Rightarrow> json \<Rightarrow> json \<Rightarrow> bool) \<Rightarrow> string \<Rightarrow> json \<Rightarrow> bool"
where
  "input_value W other (Named n) v \<longleftrightarrow> v = JNull \<or> named_value W other n v"
| "input_value W other (NonNullNamed n) v \<longleftrightarrow> named_value W other n v"
| "input_value W other (ListOf t) v \<longleftrightarrow>
     v = JNull \<or> has_type ''array'' v \<and> (\<forall>x \<in> set (json_elements v). input_value W other t x)"
| "input_value W other (NonNullList t) v \<longleftrightarrow>
     has_type ''array'' v \<and> (\<forall>x \<in> set (json_elements v). input_value W other t x)"
| "named_value W other n v \<longleftrightarrow>
     (if builtin_schema n \<noteq> None then builtin_value n v
      else
        (case lookup_type W n of
           Some (EnumType d n' ds vs) \<Rightarrow> (\<exists>ev \<in> set vs. v = JString (ev_value (snd ev)))
         | Some (InputObjectType d n' ds fs) \<Rightarrow>
             has_type ''object'' v \<and>
             (\<forall>nf \<in> set fs. case map_of (json_entries v) (fst nf) of
                None \<Rightarrow> \<not> is_required (snd nf)
              | Some x \<Rightarrow> input_value W other (iv_ty (snd nf)) x)
         | Some (ScalarType d n' ds) \<Rightarrow>
             (case wk_custom_scalars W n of
                None \<Rightarrow> True
              | Some s \<Rightarrow> accepts \<lparr>vd_definitions = [], vd_ref_limit = 0, vd_keyword = other\<rparr> 0 s v)
         | _ \<Rightarrow> True))"
  by pat_completeness auto
termination
  by (relation "measures
        [case_sum (\<lambda>(W, k, t, v). size v) (\<lambda>(W, k, n, v). size v),
         case_sum (\<lambda>(W, k, t, v). Suc (size t)) (\<lambda>(W, k, n, v). 0)]")
     (auto simp: termination_simp)

declare named_value.simps [simp del]

lemma named_value_builtin: "builtin_schema n = Some s \<Longrightarrow> named_value W other n v = builtin_value n v"
  by (simp add: named_value.simps)

section \<open>What the walker may be given\<close>

text \<open>
  The fields of an input object have distinct names; the schema of a custom scalar is a schema
  that does not refer to definitions; and the object form of a boolean schema means the same.
\<close>

fun ref_free :: "json \<Rightarrow> bool" where
  "ref_free (JObject kvs) = (\<forall>kv \<in> set kvs. fst kv \<noteq> ''$ref'' \<and> ref_free (snd kv))"
| "ref_free (JArray vs) = (\<forall>v \<in> set vs. ref_free v)"
| "ref_free _ = True"

fun is_schema :: "json \<Rightarrow> bool" where
  "is_schema (JObject m) = True"
| "is_schema (JBool b) = True"
| "is_schema _ = False"

definition walker_ok :: "walker \<Rightarrow> bool" where
  "walker_ok W \<longleftrightarrow>
     (\<forall>n d n' ds fs. lookup_type W n = Some (InputObjectType d n' ds fs) \<longrightarrow> distinct (map fst fs)) \<and>
     (\<forall>n s. wk_custom_scalars W n = Some s \<longrightarrow> is_schema s \<and> ref_free s) \<and>
     (\<forall>V r b v. accepts V r (JObject (wk_bool_schema W b)) v = b)"

lemma ref_free_parts [simp]:
  "ref_free a \<Longrightarrow> s \<in> set (json_elements a) \<Longrightarrow> ref_free s"
  "ref_free a \<Longrightarrow> kv \<in> set (json_entries a) \<Longrightarrow> ref_free (snd kv)"
  by (cases a; auto)+

lemma accepts_ref_free:
  "ref_free s \<Longrightarrow> vd_keyword V' = vd_keyword V \<Longrightarrow> accepts V r s v = accepts V' r' s v"
  "ref_free a \<Longrightarrow> k \<noteq> ''$ref'' \<Longrightarrow> vd_keyword V' = vd_keyword V \<Longrightarrow>
     keyword_holds V r k a v = keyword_holds V' r' k a v"
proof (induction V r s v and V r k a v arbitrary: r' and r' rule: accepts_keyword_holds.induct)
  case (2 V r kws v)
  show ?case
    unfolding accepts_object by (rule ball_cong[OF refl]) (use 2 in auto)
next
  case (4 V r k a v)
  note k = \<open>k \<noteq> ''$ref''\<close> and a = \<open>ref_free a\<close> and V = \<open>vd_keyword V' = vd_keyword V\<close>
  consider "k = ''items''" | "k = ''properties''" | "k = ''propertyNames''" | "k = ''anyOf''" | "k = ''allOf''"
    | "k = ''oneOf''" | "k = ''not''"
    | "k \<notin> {''$ref'', ''items'', ''properties'', ''propertyNames'', ''anyOf'', ''allOf'', ''oneOf'', ''not''}"
    using k by auto
  then show ?case
  proof cases
    case 1
    with 4(2) a V show ?thesis by (simp add: keyword_holds_simps)
  next
    case 2
    with 4(3) a V show ?thesis
      by (auto simp: keyword_holds_simps split: option.split intro!: ball_cong)
  next
    case 3
    with 4(4) a V show ?thesis by (simp add: keyword_holds_simps)
  next
    case 4
    with "4.IH"(5) a V show ?thesis by (simp add: keyword_holds_simps)
  next
    case 5
    with "4.IH"(6) a V show ?thesis by (simp add: keyword_holds_simps)
  next
    case 6
    with "4.IH"(7) a V show ?thesis by (simp add: keyword_holds_simps cong: filter_cong)
  next
    case 7
    with "4.IH"(8) a V show ?thesis by (simp add: keyword_holds_simps)
  next
    case 8
    then show ?thesis by (simp add: keyword_holds.simps V)
  qed
qed simp_all

section \<open>Annotations\<close>

lemma annotation_holds: "k \<in> annotations \<Longrightarrow> keyword_holds V r k a v"
  by (auto simp: annotations_def keyword_holds_simps)

lemma accepts_obj_default:
  "k \<in> annotations \<Longrightarrow> accepts V r (JObject (obj_default k a m)) v = accepts V r (JObject m) v"
  by (auto simp: obj_default_def accepts_object annotation_holds)

lemma accepts_obj_insert:
  "k \<in> annotations \<Longrightarrow> accepts V r (JObject (obj_insert k a m)) v = accepts V r (JObject m) v"
  by (induction k a m rule: obj_insert.induct) (auto simp: accepts_object annotation_holds)

lemma accepts_ensure_object:
  "walker_ok W \<Longrightarrow> is_schema s \<Longrightarrow> accepts V r (JObject (ensure_object W s)) v = accepts V r s v"
  by (cases s) (auto simp: ensure_object_def walker_ok_def)

lemma accepts_with_desc [simp]:
  "walker_ok W \<Longrightarrow> is_schema s \<Longrightarrow> accepts V r (with_desc W s d) v = accepts V r s v"
  by (simp add: with_desc_def accepts_obj_default annotations_def accepts_ensure_object split: option.split)

lemma accepts_with_default [simp]:
  "walker_ok W \<Longrightarrow> is_schema s \<Longrightarrow> accepts V r (with_default W s d ty) v = accepts V r s v"
  by (simp add: with_default_def accepts_obj_insert annotations_def accepts_ensure_object split: option.split)

lemma is_schema_builders [simp]:
  "is_schema s \<Longrightarrow> is_schema (with_desc W s d)" "is_schema s \<Longrightarrow> is_schema (with_default W s v ty)"
  "is_schema (or_null s)" "is_schema (array_schema s)" "is_schema (schema_ref n)"
  by (simp_all add: with_desc_def with_default_def or_null_def array_schema_def schema_ref_def
      split: option.split)

lemma is_schema_named [simp]: "is_schema (named_schema W n)"
  by (auto simp: named_schema_def builtin_schema_def)

lemma is_schema_type [simp]: "is_schema (type_schema W d t)"
  by (cases t) simp_all

lemma accepts_or_null [simp]: "accepts V r (or_null s) v \<longleftrightarrow> v = JNull \<or> accepts V r s v"
  by (cases v) (auto simp: or_null_def schema_simps)

lemma accepts_array_schema [simp]:
  "accepts V r (array_schema s) v \<longleftrightarrow>
     has_type ''array'' v \<and> (\<forall>x \<in> set (json_elements v). accepts V (vd_ref_limit V) s x)"
  by (simp add: array_schema_def schema_simps)

section \<open>The schemas mean their types\<close>

lemma accepts_builtin:
  "builtin_schema n = Some s \<Longrightarrow> accepts V r s v = builtin_value n v"
  by (cases v) (auto simp: builtin_schema_def schema_simps split: if_splits)

lemma accepts_enum:
  "walker_ok W \<Longrightarrow> accepts V r (enum_schema W d vs) v \<longleftrightarrow> (\<exists>ev \<in> set vs. v = JString (ev_value (snd ev)))"
  by (auto simp: enum_schema_def schema_simps)

lemma accepts_scalar:
  assumes "walker_ok W"
  shows "accepts V r (scalar_schema W n d) v \<longleftrightarrow>
    (case wk_custom_scalars W n of
       None \<Rightarrow> True
     | Some s \<Rightarrow> accepts \<lparr>vd_definitions = [], vd_ref_limit = 0, vd_keyword = vd_keyword V\<rparr> 0 s v)"
proof (cases "wk_custom_scalars W n")
  case None
  then show ?thesis using assms by (simp add: scalar_schema_def accepts_object)
next
  case (Some s)
  then have "is_schema s" "ref_free s" using assms by (auto simp: walker_ok_def)
  then show ?thesis
    using Some assms accepts_ref_free(1)[of s "\<lparr>vd_definitions = [], vd_ref_limit = 0, vd_keyword = vd_keyword V\<rparr>" V]
    by (simp add: scalar_schema_def)
qed

lemma field_properties_map:
  "distinct (map fst p @ map fst fs) \<Longrightarrow>
     field_properties W p fs = p @ map (\<lambda>nf. (fst nf, field_schema W (snd nf))) fs"
proof (induction fs arbitrary: p)
  case (Cons nf fs)
  then have "fst nf \<notin> obj_keys p" by (auto simp: obj_keys_def)
  then show ?case
    using Cons.IH[of "p @ [(fst nf, field_schema W (snd nf))]"] Cons.prems
    by (simp add: field_properties_def obj_insert_new)
qed (simp add: field_properties_def)

lemma accepts_field_schema [simp]:
  "walker_ok W \<Longrightarrow> accepts V r (field_schema W f) v = accepts V r (type_schema W None (iv_ty f)) v"
  by (cases "iv_ty f") (simp_all add: field_schema_def)

lemma required_names_hold:
  "has_type ''object'' v \<Longrightarrow>
     required_keyword (JArray (map JString (required_names fs))) v \<longleftrightarrow>
     (\<forall>nf \<in> set fs. is_required (snd nf) \<longrightarrow> map_of (json_entries v) (fst nf) \<noteq> None)"
  by (cases v) (auto simp: required_keyword_def required_names_def map_of_None_keys simp flip: obj_keys_def, blast)

lemma accepts_input:
  assumes "walker_ok W" "distinct (map fst fs)"
  shows "accepts V r (input_schema W d (field_properties W [] fs) (required_names fs)) v \<longleftrightarrow>
    has_type ''object'' v \<and>
    (\<forall>nf \<in> set fs. case map_of (json_entries v) (fst nf) of
       None \<Rightarrow> \<not> is_required (snd nf)
     | Some x \<Rightarrow> accepts V (vd_ref_limit V) (type_schema W None (iv_ty (snd nf))) x)"
proof -
  define props where "props = JObject (map (\<lambda>nf. (fst nf, field_schema W (snd nf))) fs)"
  have entries: "obj_insert ''properties'' props (ensure_object W (with_desc W
      (JObject [(''type'', JString ''object''), (''properties'', JObject [])]) d)) =
    [(''type'', JString ''object''), (''properties'', props)] @
      (case d of None \<Rightarrow> [] | Some s \<Rightarrow> [(''description'', JString s)])"
    by (simp add: with_desc_def ensure_object_def obj_default_def split: option.split)
  have req: "(\<forall>kw \<in> set (required_entry (required_names fs)). keyword_holds V r (fst kw) (snd kw) v) \<longleftrightarrow>
      required_keyword (JArray (map JString (required_names fs))) v"
    by (cases v) (auto simp: required_entry_def keyword_holds_simps required_keyword_def)
  have "accepts V r (input_schema W d (field_properties W [] fs) (required_names fs)) v \<longleftrightarrow>
     has_type ''object'' v \<and>
     (\<forall>nf \<in> set fs. case map_of (json_entries v) (fst nf) of None \<Rightarrow> True
        | Some x \<Rightarrow> accepts V (vd_ref_limit V) (type_schema W None (iv_ty (snd nf))) x) \<and>
     required_keyword (JArray (map JString (required_names fs))) v"
    using assms(1) req
    by (simp add: input_schema_def field_properties_map[of "[]"] assms(2) entries accepts_object
        ball_Un keyword_holds_simps flip: props_def)
       (auto simp: keyword_holds_simps props_def split: option.split)
  then show ?thesis
    using required_names_hold[of v fs] by (fastforce split: option.splits)
qed

text \<open>
  Under definitions that are a finished cache of the walker, with one reference allowed, the
  schema of a type accepts exactly the values of the type.
\<close>

lemma accepts_type_schema:
  assumes limit: "vd_ref_limit V = Suc l"
  shows "walker_ok W \<Longrightarrow> cache_ok W {} (vd_definitions V) \<Longrightarrow> vd_keyword V = other \<Longrightarrow>
      type_refs W t \<subseteq> obj_keys (vd_definitions V) \<Longrightarrow>
      accepts V (Suc r) (type_schema W d t) v \<longleftrightarrow> input_value W other t v"
    and "walker_ok W \<Longrightarrow> cache_ok W {} (vd_definitions V) \<Longrightarrow> vd_keyword V = other \<Longrightarrow>
      (definable W n \<Longrightarrow> n \<in> obj_keys (vd_definitions V)) \<Longrightarrow>
      accepts V (Suc r) (named_schema W n) v \<longleftrightarrow> named_value W other n v"
proof (induction W other t v and W other n v arbitrary: d r and r rule: input_value_named_value.induct)
  case (1 W other n v)
  then show ?case by simp
next
  case (2 W other n v)
  then show ?case by simp
next
  case (3 W other t v)
  then show ?case by (auto simp: limit)
next
  case (4 W other t v)
  then show ?case by (auto simp: limit)
next
  case (5 W other n v)
  let ?D = "vd_definitions V"
  show ?case
  proof (cases "definable W n")
    case False
    then show ?thesis
      by (cases "builtin_schema n")
         (auto simp: named_schema_def named_value.simps accepts_builtin accepts_object definable_def
           split: option.splits extended_type.split)
  next
    case True
    then have b: "builtin_schema n = None" and n: "n \<in> obj_keys ?D" using 5(5) by (auto simp: definable_def)
    have D: "map_of ?D n = Some (type_definition W n)" "definition_refs W n \<subseteq> obj_keys ?D"
      using cache_okD[OF 5(3) n] by simp_all
    have "accepts V (Suc r) (named_schema W n) v = accepts V r (type_definition W n) v"
      using True b by (simp add: named_schema_def accepts_schema_ref D(1))
    also have "\<dots> = named_value W other n v"
    proof (cases "\<exists>d n' ds fs. lookup_type W n = Some (InputObjectType d n' ds fs)")
      case True
      then obtain d n' ds fs where fs: "lookup_type W n = Some (InputObjectType d n' ds fs)" by blast
      then have dist: "distinct (map fst fs)" using 5(2) by (auto simp: walker_ok_def)
      have refs: "nf \<in> set fs \<Longrightarrow> type_refs W (iv_ty (snd nf)) \<subseteq> obj_keys ?D" for nf
        using D(2) fs by (auto simp: definition_refs_def)
      have "accepts V (vd_ref_limit V) (type_schema W None (iv_ty (snd nf))) x =
          input_value W other (iv_ty (snd nf)) x"
        if "nf \<in> set fs" "map_of (json_entries v) (fst nf) = Some x" for nf x
        using 5(1)[OF _ fs refl that(1) that(2) 5(2-4) refs[OF that(1)], of l None] b by (simp add: limit)
      then show ?thesis
        by (auto simp: type_definition_def fs accepts_input[OF 5(2) dist] named_value.simps b split: option.split
            intro!: ball_cong)
    next
      case False
      then show ?thesis
        using \<open>definable W n\<close> 5(2,4)
        by (auto simp: definable_def type_definition_def named_value.simps accepts_enum accepts_scalar
            split: option.splits extended_type.splits)
    qed
    finally show ?thesis .
  qed
qed

section \<open>Defaults are values of their type\<close>

text \<open>
  The literals GraphQL takes for an input type: a single item stands for a list of one, an integer
  for a float or an identifier, and an input object names declared fields only. What a custom
  scalar takes is what its schema takes.
\<close>

fun builtin_literal :: "string \<Rightarrow> gvalue \<Rightarrow> bool" where
  "builtin_literal n (VString s) = (n = ''String'' \<or> n = ''ID'')"
| "builtin_literal n (VInt i) = (n = ''Int'' \<or> n = ''Float'' \<or> n = ''ID'')"
| "builtin_literal n (VFloat f) = (n = ''Float'')"
| "builtin_literal n (VBoolean b) = (n = ''Boolean'')"
| "builtin_literal n _ = False"

fun literal_items :: "gvalue \<Rightarrow> gvalue list" where
  "literal_items (VList vs) = vs"
| "literal_items v = []"

fun literal_entries :: "gvalue \<Rightarrow> (string \<times> gvalue) list" where
  "literal_entries (VObject kvs) = kvs"
| "literal_entries v = []"

fun is_vobject :: "gvalue \<Rightarrow> bool" where
  "is_vobject (VObject kvs) = True"
| "is_vobject v = False"

lemma size_literal_item [termination_simp]: "v \<in> set (literal_items l) \<Longrightarrow> size v < size l"
  using size_vlist[of v "literal_items l"] by (cases l) simp_all

lemma size_literal_entry [termination_simp]:
  "map_of (literal_entries l) k = Some v \<Longrightarrow> size v < size l"
  using size_vobject[of "(k, v)" "literal_entries l"] map_of_SomeD[of "literal_entries l" k v]
  by (cases l) simp_all

function (sequential) literal_ok ::
    "walker \<Rightarrow> (string \<Rightarrow> json \<Rightarrow> json \<Rightarrow> bool) \<Rightarrow> gtype \<Rightarrow> gvalue \<Rightarrow> bool"
  and named_literal_ok ::
    "walker \<Rightarrow> (string \<Rightarrow> json \<Rightarrow> json \<Rightarrow> bool) \<Rightarrow> string \<Rightarrow> gvalue \<Rightarrow> bool"
where
  "literal_ok W other (Named n) v \<longleftrightarrow> v = VNull \<or> named_literal_ok W other n v"
| "literal_ok W other (NonNullNamed n) v \<longleftrightarrow> named_literal_ok W other n v"
| "literal_ok W other (ListOf t) v \<longleftrightarrow>
     v = VNull \<or> (if is_vlist v then \<forall>x \<in> set (literal_items v). literal_ok W other t x
                    else literal_ok W other t v)"
| "literal_ok W other (NonNullList t) v \<longleftrightarrow>
     v \<noteq> VNull \<and> (if is_vlist v then \<forall>x \<in> set (literal_items v). literal_ok W other t x
                    else literal_ok W other t v)"
| "named_literal_ok W other n v \<longleftrightarrow>
     v \<noteq> VNull \<and>
     (if builtin_schema n \<noteq> None then builtin_literal n v
      else
        (case lookup_type W n of
           Some (EnumType d n' ds vs) \<Rightarrow> (\<exists>ev \<in> set vs. v = VEnum (ev_value (snd ev)))
         | Some (InputObjectType d n' ds fs) \<Rightarrow>
             is_vobject v \<and> distinct (map fst (literal_entries v)) \<and>
             fst ` set (literal_entries v) \<subseteq> fst ` set fs \<and>
             (\<forall>nf \<in> set fs. case map_of (literal_entries v) (fst nf) of
                None \<Rightarrow> \<not> is_required (snd nf)
              | Some x \<Rightarrow> literal_ok W other (iv_ty (snd nf)) x)
         | Some (ScalarType d n' ds) \<Rightarrow>
             (case (wk_custom_scalars W n, graphql_value_to_json W v (Some (Named n))) of
                (Some s, Some j) \<Rightarrow> accepts \<lparr>vd_definitions = [], vd_ref_limit = 0, vd_keyword = other\<rparr> 0 s j
              | _ \<Rightarrow> True)
         | _ \<Rightarrow> False))"
  by pat_completeness auto
termination
  by (relation "measures
        [case_sum (\<lambda>(W, k, t, v). size v) (\<lambda>(W, k, n, v). size v),
         case_sum (\<lambda>(W, k, t, v). Suc (size t)) (\<lambda>(W, k, n, v). 0)]")
     (auto simp: termination_simp)

declare named_literal_ok.simps [simp del]

text \<open>The conversion, type by type.\<close>

lemma those_map_Some_iff:
  "those (map f xs) = Some ys \<longleftrightarrow> list_all2 (\<lambda>x y. f x = Some y) xs ys"
  by (induction xs arbitrary: ys) (auto simp: list_all2_Cons1 split: option.splits)

lemma to_json_list:
  "graphql_value_to_json W (VList vs) ty = Some j \<Longrightarrow>
     \<exists>js. j = JArray js \<and> list_all2 (\<lambda>v x. graphql_value_to_json W v (item_type ty) = Some x) vs js"
  by (auto simp: those_map_Some_iff)

lemma collect_map_distinct:
  "distinct (map fst p @ map fst kvs) \<Longrightarrow> foldl (\<lambda>m kv. obj_insert (fst kv) (snd kv) m) p kvs = p @ kvs"
proof (induction kvs arbitrary: p)
  case (Cons kv kvs)
  then have "fst kv \<notin> obj_keys p" by (auto simp: obj_keys_def)
  then show ?case using Cons.IH[of "p @ [kv]"] Cons.prems by (simp add: obj_insert_new)
qed simp

lemma collect_map_distinct':
  "distinct (map fst kvs) \<Longrightarrow> length js = length kvs \<Longrightarrow>
     collect_map (zip (map fst kvs) js) = zip (map fst kvs) js"
  using collect_map_distinct[of "[]" "zip (map fst kvs) js"] by (simp add: collect_map_def)

lemma to_json_non_null:
  "graphql_value_to_json W v (Some (NonNullNamed n)) = graphql_value_to_json W v (Some (Named n))"
  by (cases v) (simp_all add: declared_id_def field_type_def input_object_fields_def)

lemma map_of_zip_related:
  "list_all2 (\<lambda>kv j. R (fst kv) (snd kv) j) kvs js \<Longrightarrow>
     (case map_of kvs k of None \<Rightarrow> map_of (zip (map fst kvs) js) k = None
      | Some x \<Rightarrow> \<exists>j. map_of (zip (map fst kvs) js) k = Some j \<and> R k x j)"
  by (induction rule: list_all2_induct) (auto split: option.splits)

lemma builtin_literal_valid:
  assumes numbers: "\<And>f j. wk_float W f = Some j \<Longrightarrow> has_type ''number'' j"
  shows "builtin_literal n v \<Longrightarrow> graphql_value_to_json W v (Some (Named n)) = Some j \<Longrightarrow> builtin_value n j"
  using numbers by (cases v; cases j) (fastforce simp: declared_id_def split: if_splits)+

lemma to_json_valid:
  assumes numbers: "\<And>W f j. P W \<Longrightarrow> wk_float W f = Some j \<Longrightarrow> has_type ''number'' j"
  shows "literal_ok W other t v \<Longrightarrow> walker_ok W \<Longrightarrow> P W \<Longrightarrow>
      graphql_value_to_json W v (Some t) = Some j \<Longrightarrow> input_value W other t j"
    and "named_literal_ok W other n v \<Longrightarrow> walker_ok W \<Longrightarrow> P W \<Longrightarrow>
      graphql_value_to_json W v (Some (Named n)) = Some j \<Longrightarrow> named_value W other n j"
proof (induction W other t v and W other n v arbitrary: j and j rule: literal_ok_named_literal_ok.induct)
  case (1 W other n v)
  then show ?case by auto
next
  case (2 W other n v)
  then show ?case by (auto simp: to_json_non_null)
next
  case (3 W other t v)
  show ?case
  proof (cases "is_vlist v")
    case True
    then obtain vs where v: "v = VList vs" by (cases v) auto
    with 3 show ?thesis
      by (fastforce dest!: to_json_list simp: list_all2_iff in_set_zip in_set_conv_nth)
  next
    case False
    with 3(3-) have "v = VNull \<or> v \<noteq> VNull \<and> \<not> is_vvariable v" by (cases v) auto
    then show ?thesis using 3 False by (auto simp: to_json_single)
  qed
next
  case (4 W other t v)
  show ?case
  proof (cases "is_vlist v")
    case True
    then obtain vs where v: "v = VList vs" by (cases v) auto
    with 4 show ?thesis
      by (fastforce dest!: to_json_list simp: list_all2_iff in_set_zip in_set_conv_nth)
  next
    case False
    with 4(3-) have "v = VNull \<or> v \<noteq> VNull \<and> \<not> is_vvariable v" by (cases v) auto
    then show ?thesis using 4 False by (auto simp: to_json_single)
  qed
next
  case (5 W other n v)
  show ?case
  proof (cases "builtin_schema n")
    case (Some s)
    then show ?thesis
      using 5(2-) builtin_literal_valid[of W n v j, OF numbers] by (simp add: named_literal_ok.simps named_value.simps)
  next
    case None
    show ?thesis
    proof (cases "\<exists>d n' ds fs. lookup_type W n = Some (InputObjectType d n' ds fs)")
      case True
      then obtain d n' ds fs where fs: "lookup_type W n = Some (InputObjectType d n' ds fs)" by blast
      then have dist: "distinct (map fst fs)" using 5(3) by (auto simp: walker_ok_def)
      from 5(2) None fs obtain kvs where v: "v = VObject kvs" "distinct (map fst kvs)"
        and ok: "\<forall>nf \<in> set fs. case map_of kvs (fst nf) of None \<Rightarrow> \<not> is_required (snd nf)
          | Some x \<Rightarrow> literal_ok W other (iv_ty (snd nf)) x"
        by (cases v) (auto simp: named_literal_ok.simps)
      obtain js where j0: "j = JObject (collect_map (zip (map fst kvs) js))"
        and js: "list_all2 (\<lambda>kv x. graphql_value_to_json W (snd kv) (field_type W (Some (Named n)) (fst kv)) = Some x) kvs js"
        using 5(5) v by (auto simp: those_map_Some_iff)
      have j: "j = JObject (zip (map fst kvs) js)"
        using j0 collect_map_distinct'[OF v(2), of js] list_all2_lengthD[OF js] by simp
      have "case map_of (json_entries j) (fst nf) of None \<Rightarrow> \<not> is_required (snd nf)
          | Some x \<Rightarrow> input_value W other (iv_ty (snd nf)) x" if nf: "nf \<in> set fs" for nf
      proof (cases "map_of kvs (fst nf)")
        case None
        with map_of_zip_related[OF js, of "fst nf"] bspec[OF ok nf] show ?thesis by (simp add: j)
      next
        case (Some x)
        have ty: "field_type W (Some (Named n)) (fst nf) = Some (iv_ty (snd nf))"
          using fs map_of_is_SomeI[OF dist, of "fst nf" "snd nf"] nf
          by (simp add: field_type_def input_object_fields_def)
        from Some map_of_zip_related[OF js, of "fst nf"] ty obtain y where
          y: "map_of (zip (map fst kvs) js) (fst nf) = Some y"
             "graphql_value_to_json W x (Some (iv_ty (snd nf))) = Some y" by auto
        from 5(1)[OF _ fs refl nf _ _ 5(3,4) y(2)] None Some bspec[OF ok nf] y(1) show ?thesis
          by (simp add: j v)
      qed
      then show ?thesis by (simp add: named_value.simps None fs j)
    next
      case False
      then show ?thesis
        using 5(2,5) None
        by (auto simp: named_literal_ok.simps named_value.simps intro: bexI[rotated]
            split: option.splits extended_type.splits)
    qed
  qed
qed

section \<open>The default beside a schema\<close>

lemma no_default_entry:
  "map_of (json_entries (type_schema W d t)) ''default'' = None"
  by (cases t)
     (auto simp: with_desc_def or_null_def array_schema_def ensure_object_def obj_default_def named_schema_def
       builtin_schema_def schema_ref_def map_add_def split: option.split)

text \<open>
  C34: a default the walker emits is valid under the schema it stands in. When a variable or an
  input field of GraphQL has a legal default literal, the JSON form of it (one-element lists for
  single items, strings for integer identifiers, input objects field by field) is accepted by the
  generated schema of the type.
\<close>

theorem emitted_default_valid:
  assumes "walker_ok W"
    and "\<forall>f j. wk_float W f = Some j \<longrightarrow> has_type ''number'' j"
    and "literal_ok W other ty literal"
    and "type_to_schema W ty [] description (Some literal) = Some (s, definitions)"
    and "map_of (json_entries s) ''default'' = Some j"
  shows "accepts \<lparr>vd_definitions = definitions, vd_ref_limit = Suc l, vd_keyword = other\<rparr> (Suc r) s j"
proof -
  obtain c where c: "type_to_schema W ty [] description (Some literal) =
      Some (with_default W (type_schema W description ty) (Some literal) ty, c)"
    "cache_ok W {} c" "type_refs W ty \<subseteq> obj_keys c"
    by (rule type_to_schema_eq[OF cache_ok_Nil])
  then have s: "s = with_default W (type_schema W description ty) (Some literal) ty" "definitions = c"
    using assms(4) by auto
  have "graphql_value_to_json W literal (Some ty) = Some j"
    using assms(5) no_default_entry[of W description ty]
    by (cases "graphql_value_to_json W literal (Some ty)") (simp_all add: s(1) with_default_def)
  then have "input_value W other ty j"
    using to_json_valid(1)[of "(=) W" W other ty literal j] assms(1,2,3) by auto
  then show ?thesis
    using accepts_type_schema(1)[of "\<lparr>vd_definitions = c, vd_ref_limit = Suc l, vd_keyword = other\<rparr>" l W other ty r
        description j] assms(1) c(2,3) by (simp add: s)
qed

lemma default_entry:
  "graphql_value_to_json W v (Some ty) = Some j \<Longrightarrow>
     map_of (json_entries (with_default W s (Some v) ty)) ''default'' = Some j"
  by (simp add: with_default_def)

definition ids_walker :: walker where
  "ids_walker =
     \<lparr>wk_schema = \<lparr>schema_description = None, schema_directives = [], root_operation = (\<lambda>ot. None),
        schema_types = [(''In'', InputObjectType None ''In'' []
          [(''ids'', \<lparr>iv_description = None, iv_name = ''ids'', iv_ty = ListOf (NonNullNamed ''ID''),
             iv_default = None, iv_directives = []\<rparr>)])],
        directive_definitions = [], built_in_type = (\<lambda>n. n = ''ID''), built_in_directive = (\<lambda>_. False)\<rparr>,
      wk_custom_scalars = Map.empty, wk_bool_schema = (\<lambda>b. if b then [] else [(''not'', JBool True)]),
      wk_float = (\<lambda>_. None)\<rparr>"

theorem emitted_default_valid_witness:
  "\<exists>s definitions. type_to_schema ids_walker (Named ''In'') [] None (Some (VObject [(''ids'', VInt ''7'')])) =
       Some (s, definitions) \<and>
     map_of (json_entries s) ''default'' = Some (JObject [(''ids'', JArray [JString ''7''])]) \<and>
     accepts \<lparr>vd_definitions = definitions, vd_ref_limit = 1, vd_keyword = (\<lambda>_ _ _. True)\<rparr> 1 s
       (JObject [(''ids'', JArray [JString ''7''])])"
proof -
  let ?lit = "VObject [(''ids'', VInt ''7'')]"
  obtain c where c: "type_to_schema ids_walker (Named ''In'') [] None (Some ?lit) =
      Some (with_default ids_walker (type_schema ids_walker None (Named ''In'')) (Some ?lit) (Named ''In''), c)"
    by (rule type_to_schema_eq[OF cache_ok_Nil])
  have j: "graphql_value_to_json ids_walker ?lit (Some (Named ''In'')) = Some (JObject [(''ids'', JArray [JString ''7''])])"
    by (simp add: ids_walker_def field_type_def input_object_fields_def to_json_single declared_id_def collect_map_def)
  have d: "map_of (json_entries (with_default ids_walker (type_schema ids_walker None (Named ''In''))
      (Some ?lit) (Named ''In''))) ''default'' = Some (JObject [(''ids'', JArray [JString ''7''])])"
    by (rule default_entry[OF j])
  have ok: "walker_ok ids_walker"
    by (auto simp: walker_ok_def ids_walker_def accepts_object keyword_holds_simps split: if_splits)
  have lit: "literal_ok ids_walker (\<lambda>_ _ _. True) (Named ''In'') ?lit"
    by (simp add: named_literal_ok.simps builtin_schema_def ids_walker_def)
  have "accepts \<lparr>vd_definitions = c, vd_ref_limit = Suc 0, vd_keyword = (\<lambda>_ _ _. True)\<rparr> (Suc 0)
      (with_default ids_walker (type_schema ids_walker None (Named ''In'')) (Some ?lit) (Named ''In''))
      (JObject [(''ids'', JArray [JString ''7''])])"
    by (rule emitted_default_valid[OF ok _ lit c d]) (simp add: ids_walker_def)
  with c d show ?thesis by auto
qed

end
