(* ===== verification/Output_Schema.thy ===== *)
theory Output_Schema
  imports Schema_Walker Private_Fields
begin

text \<open>
  JSON schemas of GraphQL responses (\<open>operations/schema_walker/output.rs\<close>): the fields a selection
  set selects on each concrete type, the grouping of the types by the fields that apply to them,
  and the schema of an operation's response.

  The recursion into the selections of a field carries fuel, the number of nested calls the stack
  has room for, and \<open>None\<close> is running out of it; so does the expansion of fragments.
\<close>

section \<open>Ordered sets and numbered names\<close>

text \<open>\<open>BTreeSet\<close>: sorted, without duplicates.\<close>

fun insert_sorted :: "('a \<Rightarrow> 'a \<Rightarrow> bool) \<Rightarrow> 'a \<Rightarrow> 'a list \<Rightarrow> 'a list" where
  "insert_sorted le x [] = [x]"
| "insert_sorted le x (y # ys) =
     (if x = y then y # ys else if le x y then x # y # ys else y # insert_sorted le x ys)"

definition btree_set :: "('a \<Rightarrow> 'a \<Rightarrow> bool) \<Rightarrow> 'a list \<Rightarrow> 'a list" where
  "btree_set le xs = foldl (\<lambda>s x. insert_sorted le x s) [] xs"

fun lex_le :: "nat list \<Rightarrow> nat list \<Rightarrow> bool" where
  "lex_le [] ys = True"
| "lex_le (x # xs) [] = False"
| "lex_le (x # xs) (y # ys) = (x < y \<or> x = y \<and> lex_le xs ys)"

lemma set_insert_sorted [simp]: "set (insert_sorted le x ys) = insert x (set ys)"
  by (induction ys) auto

lemma set_btree_set [simp]: "set (btree_set le xs) = set xs"
proof -
  have "set (foldl (\<lambda>s x. insert_sorted le x s) acc xs) = set acc \<union> set xs" for acc
    by (induction xs arbitrary: acc) auto
  then show ?thesis by (simp add: btree_set_def)
qed

text \<open>\<open>format!("{}", n)\<close>\<close>

fun decimal :: "nat \<Rightarrow> string" where
  "decimal n = (if n < 10 then [char_of (48 + n)] else decimal (n div 10) @ [char_of (48 + n mod 10)])"

declare decimal.simps [simp del]

lemma decimal_value: "foldl (\<lambda>a c. 10 * a + (of_char c - 48)) 0 (decimal n) = n"
proof (induction n rule: decimal.induct)
  case (1 n)
  have d: "of_char (char_of (48 + m) :: char) = 48 + m" if "m < 10" for m :: nat
    using that by (simp add: of_char_of)
  show ?case
  proof (cases "n < 10")
    case True
    then show ?thesis by (simp add: decimal.simps d)
  next
    case False
    then have "foldl (\<lambda>a c. 10 * a + (of_char c - 48)) 0 (decimal n) = 10 * (n div 10) + n mod 10"
      using 1 by (subst decimal.simps) (simp add: d)
    then show ?thesis by simp
  qed
qed

lemma decimal_inject [simp]: "decimal m = decimal n \<longleftrightarrow> m = n"
  by (metis decimal_value)

section \<open>Fields and the members they apply to\<close>

record output_env =
  oe_walker :: walker
  oe_fragments :: "string \<rightharpoonup> fragment_definition"
  oe_implementers :: "string \<rightharpoonup> string list"

abbreviation output_type :: "output_env \<Rightarrow> string \<Rightarrow> extended_type option" where
  "output_type E n \<equiv> lookup_type (oe_walker E) n"

record SelectedField =
  sf_field :: selection
  declared_on :: extended_type
  members :: "nat list"

text \<open>
  \<open>Schema::is_subtype\<close> of \<open>apollo_compiler\<close>: the type implements the interface, or is a member of
  the union.
\<close>

definition is_subtype :: "schema \<Rightarrow> string \<Rightarrow> string \<Rightarrow> bool" where
  "is_subtype S abstract maybe_subtype =
     (case map_of (schema_types S) abstract of
        Some (InterfaceType d n ds is fs) \<Rightarrow>
          (case map_of (schema_types S) maybe_subtype of
             Some (ObjectType d' n' ds' is' fs') \<Rightarrow> abstract \<in> set is'
           | Some (InterfaceType d' n' ds' is' fs') \<Rightarrow> abstract \<in> set is'
           | _ \<Rightarrow> False)
      | Some (UnionType d n ds ms) \<Rightarrow> maybe_subtype \<in> set ms
      | _ \<Rightarrow> False)"

fun is_object_type :: "extended_type \<Rightarrow> bool" where
  "is_object_type (ObjectType d n ds is fs) = True"
| "is_object_type _ = False"

text \<open>The index of a member by its name; the last one wins.\<close>

definition member_index :: "string list \<Rightarrow> string \<Rightarrow> nat option" where
  "member_index member_names n = map_of (rev (zip member_names [0..<length member_names])) n"

definition matching_members :: "output_env \<Rightarrow> string list \<Rightarrow> nat list \<Rightarrow> extended_type \<Rightarrow> nat list" where
  "matching_members E member_names applicable condition =
     (if is_object_type condition
      then (case member_index member_names (et_name condition) of
              Some index \<Rightarrow> if index \<in> set applicable then [index] else []
            | None \<Rightarrow> [])
      else filter (\<lambda>index. index < length member_names \<and>
             (et_name condition = member_names ! index \<or>
              is_subtype (wk_schema (oe_walker E)) (et_name condition) (member_names ! index))) applicable)"

definition inline_target :: "output_env \<Rightarrow> string option \<Rightarrow> extended_type \<Rightarrow> extended_type option" where
  "inline_target E condition d = (case condition of None \<Rightarrow> Some d | Some c \<Rightarrow> output_type E c)"

definition spread_target :: "output_env \<Rightarrow> string \<Rightarrow> (fragment_definition \<times> extended_type) option" where
  "spread_target E n =
     (case oe_fragments E n of
        None \<Rightarrow> None
      | Some f \<Rightarrow> map_option (\<lambda>t. (f, t)) (output_type E (frag_type_condition f)))"

type_synonym collected = "(string \<times> nat list) list \<times> SelectedField list"

function (sequential) collect_selected_fields ::
    "output_env \<Rightarrow> string list \<Rightarrow> nat \<Rightarrow> selection list \<Rightarrow> extended_type \<Rightarrow> nat list \<Rightarrow> collected \<Rightarrow> collected option" where
  "collect_selected_fields E ms k [] d applicable st = Some st"
| "collect_selected_fields E ms k (Field al n args ds ss # rest) d applicable st =
     collect_selected_fields E ms k rest d applicable
       (fst st, snd st @ [\<lparr>sf_field = Field al n args ds ss, declared_on = d, members = applicable\<rparr>])"
| "collect_selected_fields E ms k (InlineFragment c ds ss # rest) d applicable st =
     (case inline_target E c d of
        None \<Rightarrow> collect_selected_fields E ms k rest d applicable st
      | Some t \<Rightarrow>
          let matching = matching_members E ms applicable t
          in if matching = [] then collect_selected_fields E ms k rest d applicable st
             else
               (case collect_selected_fields E ms k ss t matching st of
                  None \<Rightarrow> None
                | Some st' \<Rightarrow> collect_selected_fields E ms k rest d applicable st'))"
| "collect_selected_fields E ms k (FragmentSpread n ds # rest) d applicable st =
     (case spread_target E n of
        None \<Rightarrow> collect_selected_fields E ms k rest d applicable st
      | Some (f, t) \<Rightarrow>
          let matching = matching_members E ms applicable t
          in if matching = [] \<or> (n, matching) \<in> set (fst st)
             then collect_selected_fields E ms k rest d applicable st
             else
               (case k of
                  0 \<Rightarrow> None
                | Suc k' \<Rightarrow>
                    (case collect_selected_fields E ms k' (frag_selection_set f) t matching
                            ((n, matching) # fst st, snd st) of
                       None \<Rightarrow> None
                     | Some st' \<Rightarrow> collect_selected_fields E ms k rest d applicable st')))"
  by pat_completeness auto
termination
  by (relation "measures [\<lambda>(E, ms, k, ss, d, a, st). k, \<lambda>(E, ms, k, ss, d, a, st). size_list size ss]") auto

section \<open>The schema of a set of fields\<close>

type_synonym definitions = "(string \<times> json) list"

text \<open>The schema of a named type with the selection below it: a parameter of the steps that use it.\<close>

type_synonym named_output =
  "string \<Rightarrow> selection list \<Rightarrow> PrivateFieldTree \<Rightarrow> definitions \<Rightarrow> (json \<times> definitions) option"

fun type_to_output_schema ::
    "named_output \<Rightarrow> gtype \<Rightarrow> selection list \<Rightarrow> PrivateFieldTree \<Rightarrow> definitions \<Rightarrow> (json \<times> definitions) option" where
  "type_to_output_schema named (NonNullNamed n) ss priv D = named n ss priv D"
| "type_to_output_schema named (NonNullList t) ss priv D =
     map_option (apfst array_schema) (type_to_output_schema named t ss priv D)"
| "type_to_output_schema named (Named n) ss priv D = map_option (apfst or_null) (named n ss priv D)"
| "type_to_output_schema named (ListOf t) ss priv D =
     map_option (apfst (\<lambda>s. or_null (array_schema s))) (type_to_output_schema named t ss priv D)"

definition field_key :: "selection \<Rightarrow> string" where
  "field_key f = response_key (sel_alias f) (sel_name f)"

definition key_hidden :: "PrivateFieldTree \<Rightarrow> string \<Rightarrow> bool" where
  "key_hidden priv k = (case map_of (children priv) k of Some child \<Rightarrow> is_private child | None \<Rightarrow> False)"

definition get_field_definition :: "extended_type \<Rightarrow> string \<Rightarrow> field_definition option" where
  "get_field_definition t name =
     (case t of
        ObjectType d n ds is fs \<Rightarrow> map_of fs name
      | InterfaceType d n ds is fs \<Rightarrow> map_of fs name
      | _ \<Rightarrow> None)"

text \<open>\<open>Value\<close>s are equal as \<open>serde_json\<close> compares them: the entries of objects in any order.\<close>

fun json_same :: "json \<Rightarrow> json \<Rightarrow> bool" where
  "json_same (JObject a) (JObject b) \<longleftrightarrow>
     length a = length b \<and>
     (\<forall>kv \<in> set a. case map_of b (fst kv) of None \<Rightarrow> False | Some v \<Rightarrow> json_same (snd kv) v)"
| "json_same (JArray a) (JArray b) \<longleftrightarrow> list_all2 json_same a b"
| "json_same v w \<longleftrightarrow> v = w"

text \<open>The schemas of a response key, in the order of its fields; the same schema twice in a row counts once.\<close>

definition push_schema :: "string \<Rightarrow> json \<Rightarrow> (string \<times> json list) list \<Rightarrow> (string \<times> json list) list" where
  "push_schema key s m =
     (let schemas = (case map_of m key of None \<Rightarrow> [] | Some l \<Rightarrow> l)
      in obj_insert key (if schemas \<noteq> [] \<and> json_same (last schemas) s then schemas else schemas @ [s]) m)"

definition typename_schema :: json where
  "typename_schema = JObject [(''type'', JString ''string''), (''description'', JString ''The typename of this object'')]"

type_synonym fields_state = "(string \<times> json list) list \<times> string list \<times> definitions"

definition add_field ::
    "walker \<Rightarrow> named_output \<Rightarrow> PrivateFieldTree \<Rightarrow> SelectedField \<Rightarrow> fields_state \<Rightarrow> fields_state option" where
  "add_field W named priv sf st =
     (case st of (schemas, required, D) \<Rightarrow>
        let key = field_key (sf_field sf)
        in if key_hidden priv key then Some st
           else if sel_name (sf_field sf) = ''__typename'' then Some (push_schema key typename_schema schemas, required, D)
           else
             (case get_field_definition (declared_on sf) (sel_name (sf_field sf)) of
                None \<Rightarrow> Some st
              | Some fd \<Rightarrow>
                  (case type_to_output_schema named (fd_ty fd) (sel_selection_set (sf_field sf))
                          (child_or_default key priv) D of
                     None \<Rightarrow> None
                   | Some (s, D') \<Rightarrow>
                       Some (push_schema key (with_desc W s (fd_description fd)) schemas,
                             if is_non_null (fd_ty fd) \<and> key \<notin> set required then required @ [key] else required,
                             D'))))"

fun add_fields ::
    "walker \<Rightarrow> named_output \<Rightarrow> PrivateFieldTree \<Rightarrow> SelectedField list \<Rightarrow> fields_state \<Rightarrow> fields_state option" where
  "add_fields W named priv [] st = Some st"
| "add_fields W named priv (sf # sfs) st =
     (case add_field W named priv sf st of None \<Rightarrow> None | Some st' \<Rightarrow> add_fields W named priv sfs st')"

definition all_of :: "json list \<Rightarrow> json" where
  "all_of ss = JObject [(''allOf'', JArray ss)]"

definition any_of :: "json list \<Rightarrow> json" where
  "any_of ss = JObject [(''anyOf'', JArray ss)]"

definition property_schema :: "json list \<Rightarrow> json" where
  "property_schema ss = (case ss of [s] \<Rightarrow> s | _ \<Rightarrow> all_of ss)"

definition build_fields_schema ::
    "walker \<Rightarrow> named_output \<Rightarrow> SelectedField list \<Rightarrow> PrivateFieldTree \<Rightarrow> definitions \<Rightarrow> (json \<times> definitions) option" where
  "build_fields_schema W named selected priv D =
     map_option (\<lambda>(schemas, required, D').
         (JObject ([(''type'', JString ''object'')] @
            (if schemas = [] then []
             else [(''properties'', JObject (map (\<lambda>ks. (fst ks, property_schema (snd ks))) schemas))]) @
            required_entry required), D'))
       (add_fields W named priv selected ([], [], D))"

section \<open>The schema of a selection set\<close>

definition member_names :: "output_env \<Rightarrow> extended_type \<Rightarrow> string list" where
  "member_names E parent =
     (let names = (case parent of
            UnionType d n ds ms \<Rightarrow> ms
          | InterfaceType d n ds is fs \<Rightarrow> (case oe_implementers E n of None \<Rightarrow> [] | Some objects \<Rightarrow> objects)
          | _ \<Rightarrow> [et_name parent])
      in if names = [] then [et_name parent] else names)"

definition enumerated :: "'a list \<Rightarrow> (nat \<times> 'a) list" where
  "enumerated xs = zip [0..<length xs] xs"

text \<open>The conditional fields of a member, by their numbers.\<close>

definition signature :: "SelectedField list \<Rightarrow> nat \<Rightarrow> nat list" where
  "signature conditional m = map fst (filter (\<lambda>(i, sf). m \<in> set (members sf)) (enumerated conditional))"

definition fallback_exclusions :: "SelectedField list \<Rightarrow> SelectedField list \<Rightarrow> PrivateFieldTree \<Rightarrow> string list" where
  "fallback_exclusions common conditional priv =
     btree_set str_le
       (filter (\<lambda>key. key \<notin> set (map (field_key \<circ> sf_field) common) \<and> \<not> key_hidden priv key)
         (map (field_key \<circ> sf_field) conditional))"

definition group_keys :: "SelectedField list \<Rightarrow> string list \<Rightarrow> nat list \<Rightarrow> string list" where
  "group_keys conditional exclusions sig =
     btree_set str_le (filter (\<lambda>key. key \<in> set exclusions)
       (map (\<lambda>i. field_key (sf_field (conditional ! i))) (filter (\<lambda>i. i < length conditional) sig)))"

definition other_keys :: "string list \<Rightarrow> definitions \<Rightarrow> json option \<times> definitions" where
  "other_keys exclusions D =
     (if exclusions = [] then (None, D)
      else
        let name = ''$otherResponseKeys'' @ decimal (length D)
        in (Some (schema_ref name),
            obj_insert name (JObject [(''not'', JObject [(''enum'', JArray (map JString exclusions))])]) D))"

text \<open>Fields of several groups are described once, in a definition.\<close>

fun share_fields ::
    "walker \<Rightarrow> named_output \<Rightarrow> nat list list \<Rightarrow> PrivateFieldTree \<Rightarrow> (nat \<times> SelectedField) list \<Rightarrow>
     (nat \<times> json) list \<Rightarrow> definitions \<Rightarrow> ((nat \<times> json) list \<times> definitions) option" where
  "share_fields W named groups priv [] shared D = Some (shared, D)"
| "share_fields W named groups priv ((i, sf) # rest) shared D =
     (if length (filter (\<lambda>sig. i \<in> set sig) groups) < 2 \<or> key_hidden priv (field_key (sf_field sf))
      then share_fields W named groups priv rest shared D
      else
        (case build_fields_schema W named [sf] priv D of
           None \<Rightarrow> None
         | Some (s, D') \<Rightarrow>
             let name = ''$sharedField'' @ decimal (length D')
             in share_fields W named groups priv rest (shared @ [(i, schema_ref name)]) (obj_insert name s D')))"

text \<open>One branch per group.\<close>

definition branch_schema :: "json option \<Rightarrow> string list \<Rightarrow> json list \<Rightarrow> json \<Rightarrow> json" where
  "branch_schema others keys shared s =
     (let branch = (if shared = [] then s else all_of (s # shared))
      in case others of
           None \<Rightarrow> branch
         | Some other \<Rightarrow>
             JObject (obj_insert ''propertyNames''
               (if keys = [] then other
                else any_of [JObject [(''enum'', JArray (map JString keys))], other]) (json_entries branch)))"

fun build_branches ::
    "walker \<Rightarrow> named_output \<Rightarrow> SelectedField list \<Rightarrow> string list \<Rightarrow> json option \<Rightarrow> (nat \<times> json) list \<Rightarrow>
     PrivateFieldTree \<Rightarrow> nat list list \<Rightarrow> definitions \<Rightarrow> (json list \<times> definitions) option" where
  "build_branches W named conditional exclusions others shared priv [] D = Some ([], D)"
| "build_branches W named conditional exclusions others shared priv (sig # groups) D =
     (case build_fields_schema W named
             (map ((!) conditional)
               (filter (\<lambda>i. map_of shared i = None \<and> i < length conditional) sig)) priv D of
        None \<Rightarrow> None
      | Some (s, D') \<Rightarrow>
          map_option (apfst ((#) (branch_schema others (group_keys conditional exclusions sig)
              (filter_map (map_of shared) sig) s)))
            (build_branches W named conditional exclusions others shared priv groups D'))"

definition build_selection_set_schema ::
    "output_env \<Rightarrow> nat \<Rightarrow> named_output \<Rightarrow> selection list \<Rightarrow> extended_type \<Rightarrow> PrivateFieldTree \<Rightarrow>
     definitions \<Rightarrow> (json \<times> definitions) option" where
  "build_selection_set_schema E k named ss parent priv D =
     (let W = oe_walker E; ms = member_names E parent
      in case collect_selected_fields E ms k ss parent [0..<length ms] ([], []) of
           None \<Rightarrow> None
         | Some (visited, selected) \<Rightarrow>
             let common = filter (\<lambda>sf. length (members sf) = length ms) selected;
                 conditional = filter (\<lambda>sf. length (members sf) \<noteq> length ms) selected
             in case build_fields_schema W named common priv D of
                  None \<Rightarrow> None
                | Some (common_schema, D1) \<Rightarrow>
                    if conditional = [] then Some (common_schema, D1)
                    else
                      let groups = btree_set lex_le (map (signature conditional) [0..<length ms]);
                          exclusions = fallback_exclusions common conditional priv;
                          (others, D2) = other_keys exclusions D1
                      in case share_fields W named groups priv (enumerated conditional) [] D2 of
                           None \<Rightarrow> None
                         | Some (shared, D3) \<Rightarrow>
                             map_option (apfst (\<lambda>branches. all_of [common_schema, any_of branches]))
                               (build_branches W named conditional exclusions others shared priv groups D3))"

section \<open>Named types and the response\<close>

definition builtin_output :: "string \<Rightarrow> json option" where
  "builtin_output n =
     (if n = ''String'' then Some (JObject [(''type'', JString ''string'')])
      else if n = ''Int'' then Some (JObject [(''type'', JString ''integer'')])
      else if n = ''Float'' then Some (JObject [(''type'', JString ''number'')])
      else if n = ''Boolean'' then Some (JObject [(''type'', JString ''boolean'')])
      else if n = ''ID'' then Some (JObject [(''oneOf'',
        JArray [JObject [(''type'', JString ''string'')], JObject [(''type'', JString ''integer'')]])])
      else None)"

definition output_enum_schema :: "string option \<Rightarrow> (string \<times> enum_value_definition) list \<Rightarrow> json" where
  "output_enum_schema d vs =
     JObject ([(''type'', JString ''string''), (''enum'', JArray (map (\<lambda>v. JString (ev_value (snd v))) vs))] @
       (case d of None \<Rightarrow> [] | Some text \<Rightarrow> [(''description'', JString text)]))"

definition output_scalar_schema :: "walker \<Rightarrow> string \<Rightarrow> string option \<Rightarrow> json" where
  "output_scalar_schema W n d =
     with_desc W (case wk_custom_scalars W n of None \<Rightarrow> JObject [] | Some s \<Rightarrow> s) d"

fun named_type_to_output_schema :: "output_env \<Rightarrow> nat \<Rightarrow> named_output" where
  "named_type_to_output_schema E k n ss priv D =
     (case builtin_output n of
        Some s \<Rightarrow> Some (s, D)
      | None \<Rightarrow>
          if n \<in> obj_keys D then Some (schema_ref n, D)
          else
            (case output_type E n of
               Some (EnumType d n' ds vs) \<Rightarrow> Some (schema_ref n, obj_insert n (output_enum_schema d vs) D)
             | Some (ScalarType d n' ds) \<Rightarrow> Some (output_scalar_schema (oe_walker E) n d, D)
             | Some (InputObjectType d n' ds fs) \<Rightarrow> Some (JObject [], D)
             | None \<Rightarrow> Some (JObject [], D)
             | Some composite \<Rightarrow>
                 if ss = [] then Some (JObject [], D)
                 else
                   (case k of
                      0 \<Rightarrow> None
                    | Suc k' \<Rightarrow>
                        build_selection_set_schema E k' (named_type_to_output_schema E k') ss composite priv D)))"

declare named_type_to_output_schema.simps [simp del]

definition string_type :: json where
  "string_type = JObject [(''type'', JString ''string'')]"

definition integer_type :: json where
  "integer_type = JObject [(''type'', JString ''integer'')]"

definition object_type :: "(string \<times> json) list \<Rightarrow> json" where
  "object_type properties = JObject [(''type'', JString ''object''), (''properties'', JObject properties)]"

definition errors_schema :: json where
  "errors_schema = array_schema (JObject
     [(''type'', JString ''object''),
      (''properties'', JObject
        [(''message'', string_type),
         (''locations'', array_schema (object_type [(''line'', integer_type), (''column'', integer_type)])),
         (''path'', array_schema (JObject [(''oneOf'', JArray [string_type, integer_type])])),
         (''extensions'', JObject [(''type'', JString ''object'')])]),
      (''required'', JArray [JString ''message''])])"

definition selection_set_to_schema ::
    "output_env \<Rightarrow> nat \<Rightarrow> selection list \<Rightarrow> extended_type \<Rightarrow> PrivateFieldTree option \<Rightarrow> json option" where
  "selection_set_to_schema E k ss parent private_tree =
     map_option (\<lambda>(s, D).
         JObject ([(''type'', JString ''object''),
           (''properties'', JObject
             [(''data'', s), (''errors'', errors_schema), (''extensions'', JObject [(''type'', JString ''object'')])])] @
           (if D = [] then [] else [(''definitions'', JObject D)])))
       (build_selection_set_schema E k (named_type_to_output_schema E k) ss parent
          (case private_tree of None \<Rightarrow> default_tree | Some t \<Rightarrow> t) [])"

end
