(* ===== verification/Tool_Texts.thy ===== *)
theory Tool_Texts
  imports Operations Tree_Shake Input_Values Output_Schema
begin

text \<open>
  What a tool tells the model about its operation (\<open>operations/operation.rs\<close>): the description of
  the tool, from the operation, its comments or the schema; the descriptions of its arguments; and
  the JSON schema of its input. \<open>load_tool\<close> is \<open>Operation::from_raw\<close> with these texts.

  Offsets count characters; they are the byte offsets of the source for ASCII texts. A slice whose
  start is after its end is a panic, which is \<open>None\<close>, as is running out of stack.
\<close>

section \<open>Comments\<close>

text \<open>The characters of \<open>[\s,]\<close>, and the regular expression \<open>(\n|^)(\s*,*)*#\<close> replaced by its first group.\<close>

definition comment_space :: "char \<Rightarrow> bool" where
  "comment_space c \<longleftrightarrow> is_white c \<or> c = CHR '',''"

definition after_hash :: "string \<Rightarrow> string option" where
  "after_hash s = (case dropWhile comment_space s of c # r \<Rightarrow> if c = CHR ''#'' then Some r else None | [] \<Rightarrow> None)"

lemma after_hash_shorter [termination_simp]:
  "after_hash s = Some r \<Longrightarrow> length r < length s"
  using length_dropWhile_le[of comment_space s]
  by (auto simp: after_hash_def split: list.splits if_splits)

function (sequential) strip_comment_marks :: "bool \<Rightarrow> string \<Rightarrow> string" where
  "strip_comment_marks start [] = []"
| "strip_comment_marks start (c # s) =
     (if c = CHR 10 \<and> after_hash s \<noteq> None then CHR 10 # strip_comment_marks False (the (after_hash s))
      else if start \<and> after_hash (c # s) \<noteq> None then strip_comment_marks False (the (after_hash (c # s)))
      else c # strip_comment_marks False s)"
  by pat_completeness auto
termination
  by (relation "measure (\<lambda>(start, s). length s)")
     (fastforce dest: after_hash_shorter)+

definition extract_and_format_comments :: "string option \<Rightarrow> string option" where
  "extract_and_format_comments comments =
     (case comments of
        None \<Rightarrow> None
      | Some text \<Rightarrow>
          let trimmed = str_trim (strip_comment_marks True text)
          in if trimmed = [] then None else Some trimmed)"

text \<open>
  The end of the leftmost match of \<open>(?m)^\s*\(\<close> in a text: the first line on which white space and
  an opening parenthesis start, white space running over line ends.
\<close>

definition paren_from :: "string \<Rightarrow> nat option" where
  "paren_from s =
     (case dropWhile is_white s of
        c # r \<Rightarrow> if c = CHR ''('' then Some (Suc (length (takeWhile is_white s))) else None
      | [] \<Rightarrow> None)"

fun find_paren_end :: "bool \<Rightarrow> nat \<Rightarrow> string \<Rightarrow> nat option" where
  "find_paren_end line_start i [] = None"
| "find_paren_end line_start i (c # s) =
     (case (if line_start then paren_from (c # s) else None) of
        Some n \<Rightarrow> Some (i + n)
      | None \<Rightarrow> find_paren_end (c = CHR 10) (Suc i) s)"

definition find_opening_parens_offset :: "string \<Rightarrow> operation_definition \<Rightarrow> nat option" where
  "find_opening_parens_offset source operation =
     (case od_name operation of
        None \<Rightarrow> None
      | Some n \<Rightarrow>
          (case od_name_location operation of
             None \<Rightarrow> None
           | Some (offset, end_offset) \<Rightarrow>
               (case find_paren_end True 0 (drop end_offset source) of
                  Some m \<Rightarrow> Some (m + end_offset)
                | None \<Rightarrow> Some 0)))"

text \<open>The descriptions that the operation itself gives its variables.\<close>

definition comment_description :: "string option \<Rightarrow> string option" where
  "comment_description comment =
     (case comment of
        None \<Rightarrow> None
      | Some d \<Rightarrow> if d \<noteq> [] \<and> CHR ''#'' \<in> set d then extract_and_format_comments (Some d) else None)"

fun variable_descriptions ::
    "string \<Rightarrow> variable_definition list \<Rightarrow> nat option \<Rightarrow> (string \<rightharpoonup> string) \<Rightarrow> (string \<rightharpoonup> string) option" where
  "variable_descriptions source [] last_offset overrides = Some overrides"
| "variable_descriptions source (v # vs) last_offset overrides =
     (case vd_location v of
        None \<Rightarrow> variable_descriptions source vs None overrides
      | Some (offset, end_offset) \<Rightarrow>
          if (case last_offset of None \<Rightarrow> False | Some start \<Rightarrow> offset < start) then None
          else
            let comment = map_option (\<lambda>start. str_slice start offset source) last_offset;
                description = (case non_blank_description (vd_description v) of
                   Some d \<Rightarrow> Some d | None \<Rightarrow> comment_description comment)
            in variable_descriptions source vs (Some end_offset)
                 (case description of None \<Rightarrow> overrides | Some d \<Rightarrow> overrides(vd_name v \<mapsto> d)))"

definition variable_description_overrides ::
    "string \<Rightarrow> operation_definition \<Rightarrow> (string \<rightharpoonup> string) option" where
  "variable_description_overrides source operation =
     variable_descriptions source (od_variables operation)
       (find_opening_parens_offset source operation) Map.empty"

section \<open>The schema of the input\<close>

definition argument_description ::
    "(string \<rightharpoonup> string list) \<Rightarrow> (string \<rightharpoonup> string) \<Rightarrow> string \<Rightarrow> string option" where
  "argument_description schema_descriptions overrides name =
     (case overrides name of
        Some d \<Rightarrow> Some d
      | None \<Rightarrow>
          (case schema_descriptions name of
             None \<Rightarrow> None
           | Some ds \<Rightarrow> if ds = [] then None else Some (join_with ''#'' ds)))"

fun variable_schemas ::
    "walker \<Rightarrow> (string \<Rightarrow> string option) \<Rightarrow> variable_definition list \<Rightarrow> (string \<times> json) list \<Rightarrow>
     string list \<Rightarrow> cache \<Rightarrow> ((string \<times> json) list \<times> string list \<times> cache) option" where
  "variable_schemas W description [] properties names c = Some (properties, names, c)"
| "variable_schemas W description (v # vs) properties names c =
     (case type_to_schema W (vd_ty v) c (description (vd_name v)) (vd_default v) of
        None \<Rightarrow> None
      | Some (nested, c') \<Rightarrow>
          variable_schemas W description vs (obj_insert (vd_name v) nested properties)
            (if is_non_null (vd_ty v) \<and> vd_default v = None then names @ [vd_name v] else names) c')"

definition free_variables :: "(string \<times> json) list option \<Rightarrow> variable_definition list \<Rightarrow> variable_definition list" where
  "free_variables fixed vs =
     filter (\<lambda>v. case fixed of None \<Rightarrow> True | Some o' \<Rightarrow> vd_name v \<notin> obj_keys o') vs"

definition get_json_schema ::
    "walker \<Rightarrow> operation_definition \<Rightarrow> (string \<rightharpoonup> string list) \<Rightarrow> (string \<rightharpoonup> string) \<Rightarrow>
     (string \<times> json) list option \<Rightarrow> json option" where
  "get_json_schema W operation schema_descriptions overrides fixed =
     map_option (\<lambda>(properties, names, definitions).
         JObject ([(''type'', JString ''object''), (''properties'', JObject properties)] @
           required_entry names @
           (if definitions = [] then [] else [(''definitions'', JObject definitions)])))
       (variable_schemas W (argument_description schema_descriptions overrides)
          (free_variables fixed (od_variables operation)) [] [] [])"

definition ensure_properties_exists :: "json \<Rightarrow> json" where
  "ensure_properties_exists s =
     (case s of
        JObject m \<Rightarrow>
          if map_of m ''type'' = Some (JString ''object'')
          then (case map_of m ''properties'' of
                  Some (JObject p) \<Rightarrow> JObject m
                | _ \<Rightarrow> JObject (obj_insert ''properties'' (JObject []) m))
          else s
      | _ \<Rightarrow> s)"

section \<open>The description of a tool\<close>

text \<open>
  What the compiler of tools is configured with. The conversion of the shaken document into a
  schema (or the partial schema of its errors), the built-in flag of its types and their
  serialisation are \<open>apollo_compiler\<close>'s. \<open>ts_walker\<close> has the custom scalars and is used with the
  schema in place; \<open>ts_stack\<close> is the number of nested calls the tree shaker and the generator of
  output schemas have room for, and \<open>ts_implementers\<close> is \<open>Schema::implementers_map\<close>: the object types
  that implement an interface.
\<close>

record text_settings =
  ts_walker :: walker
  ts_disable_type_description :: bool
  ts_disable_schema_description :: bool
  ts_to_schema :: "schema_definition list \<Rightarrow> (string \<times> extended_type) list"
  ts_is_built_in :: "extended_type \<Rightarrow> bool"
  ts_serialize_type :: "extended_type \<Rightarrow> string"
  ts_stack :: nat
  ts_implementers :: "schema \<Rightarrow> string \<rightharpoonup> string list"

fun is_list :: "gtype \<Rightarrow> bool" where
  "is_list (ListOf t) = True"
| "is_list (NonNullList t) = True"
| "is_list _ = False"

definition type_description :: "gtype \<Rightarrow> string" where
  "type_description ty =
     ''The returned value '' @ (if is_non_null ty then [] else ''is optional and '') @
     (if is_list ty then ''is an array of type'' else ''has type'') @ '' `'' @ inner_named_type ty @ ''`''"

fun field_description :: "schema \<Rightarrow> operation_type \<Rightarrow> selection \<Rightarrow> string option" where
  "field_description S ot (Field al name args ds ss) =
     (case root_operation S ot of
        None \<Rightarrow> None
      | Some root \<Rightarrow>
          (case map_of (schema_types S) root of
             Some (ObjectType d n ds' is fs) \<Rightarrow>
               (case map_of fs name of
                  None \<Rightarrow> Some []
                | Some fd \<Rightarrow> Some (join_with newline
                    (filter_map id [fd_description fd, Some (type_description (fd_ty fd))])))
           | _ \<Rightarrow> None))"
| "field_description S ot _ = None"

fun described_kind :: "extended_type \<Rightarrow> bool" where
  "described_kind (InputObjectType d n ds fs) = False"
| "described_kind _ = True"

definition listed_type :: "text_settings \<Rightarrow> schema \<Rightarrow> operation_type \<Rightarrow> extended_type \<Rightarrow> bool" where
  "listed_type C S ot t \<longleftrightarrow>
     \<not> ts_is_built_in C t \<and> described_kind t \<and>
     root_operation S ot \<noteq> Some (et_name t) \<and> root_operation S Query \<noteq> Some (et_name t)"

definition tool_description_text ::
    "text_settings \<Rightarrow> string option \<Rightarrow> SchemaTreeShaker \<Rightarrow> schema \<Rightarrow> operation_definition \<Rightarrow> string" where
  "tool_description_text C comments shaker S operation =
     (case non_blank_description (od_description operation) of
        Some d \<Rightarrow> d
      | None \<Rightarrow>
          (case extract_and_format_comments comments of
             Some d \<Rightarrow> d
           | None \<Rightarrow>
               let ot = od_operation_type operation;
                   types = filter (listed_type C S ot) (map snd (ts_to_schema C (shaken_document S shaker)))
               in join_with newline
                    ((if ts_disable_type_description C then []
                      else [join_with (newline @ ''---'' @ newline)
                              (filter_map (field_description S ot) (od_selection_set operation))]) @
                     (if ts_disable_schema_description C then []
                      else (if types = [] then [] else [''---'']) @ map (ts_serialize_type C) types))))"

section \<open>Loading a tool\<close>

definition operation_shaker ::
    "text_settings \<Rightarrow> schema \<Rightarrow> document \<Rightarrow> operation_definition \<Rightarrow> SchemaTreeShaker option" where
  "operation_shaker C S document operation =
     retain_operation S (ts_stack C) operation (map fst document) Unlimited (new_shaker S)"

definition walker_for :: "text_settings \<Rightarrow> schema \<Rightarrow> walker" where
  "walker_for C S = (ts_walker C)\<lparr>wk_schema := S\<rparr>"

text \<open>The output schema, if the stack lasts (the outer option) and the operation has a root type.\<close>

definition output_env_for :: "text_settings \<Rightarrow> schema \<Rightarrow> document \<Rightarrow> output_env" where
  "output_env_for C S document =
     \<lparr>oe_walker = walker_for C S, oe_fragments = collect_named_fragments (map fst document),
      oe_implementers = ts_implementers C S\<rparr>"

definition operation_output_schema ::
    "text_settings \<Rightarrow> schema \<Rightarrow> document \<Rightarrow> operation_definition \<Rightarrow> PrivateFieldTree option \<Rightarrow> json option option" where
  "operation_output_schema C S document operation private =
     (case root_operation S (od_operation_type operation) of
        None \<Rightarrow> Some None
      | Some root \<Rightarrow>
          (case map_of (schema_types S) root of
             None \<Rightarrow> Some None
           | Some root_type \<Rightarrow>
               map_option Some (selection_set_to_schema (output_env_for C S document) (ts_stack C)
                 (od_selection_set operation) root_type private)))"

definition private_tree_of :: "document \<Rightarrow> operation_definition \<Rightarrow> PrivateFieldTree option" where
  "private_tree_of document operation =
     (let tree = the (collect_private_fields (length document) (collect_named_fragments (map fst document))
            (od_selection_set operation))
      in if has_private_fields tree then Some tree else None)"

definition server_texts ::
    "text_settings \<Rightarrow> SchemaTreeShaker \<Rightarrow> (string \<rightharpoonup> string) \<Rightarrow> json \<Rightarrow> schema tool_texts" where
  "server_texts C shaker overrides input =
     \<lparr>generated_description = (\<lambda>S document operation comments.
        tool_description_text C comments shaker S operation),
      input_json_schema = (\<lambda>S document operation raw. ensure_properties_exists input),
      output_json_schema = (\<lambda>S document operation private.
        case operation_output_schema C S document operation private of None \<Rightarrow> None | Some s \<Rightarrow> s)\<rparr>"

definition load_tool ::
    "graphql_api \<Rightarrow> log_levels \<Rightarrow> text_settings \<Rightarrow> schema \<Rightarrow> CompileOptions \<Rightarrow> RawOperation \<Rightarrow>
     (OperationError, Operation option) result option" where
  "load_tool G L C S opts raw =
     (let compile = (\<lambda>X. from_raw G L X S opts raw);
          no_texts = \<lparr>generated_description = (\<lambda>_ _ _ _. []), input_json_schema = (\<lambda>_ _ _ _. JNull),
            output_json_schema = (\<lambda>_ _ _ _. None)\<rparr>
      in case operation_defs G L (source_text raw) (mutation_mode opts \<noteq> NoMutations) (source_path raw) of
           Inr (Some (document, operation, comments)) \<Rightarrow>
             if od_name operation = None then Some (compile no_texts)
             else
               (case variable_description_overrides (source_text raw) operation of
                  None \<Rightarrow> None
                | Some overrides \<Rightarrow>
                    (case operation_shaker C S document operation of
                       None \<Rightarrow> None
                     | Some shaker \<Rightarrow>
                         (case get_json_schema (walker_for C S) operation (arguments_descriptions shaker)
                                 overrides (raw_variables raw) of
                            None \<Rightarrow> None
                          | Some input \<Rightarrow>
                              if enable_output_schema opts \<and>
                                 operation_output_schema C S document operation (private_tree_of document operation) = None
                              then None
                              else Some (compile (server_texts C shaker overrides input)))))
         | _ \<Rightarrow> Some (compile no_texts))"

section \<open>The input schema takes the values of the variables\<close>

text \<open>A variable is described like an input field of its type and default.\<close>

definition as_field :: "(string \<Rightarrow> string option) \<Rightarrow> variable_definition \<Rightarrow> string \<times> input_value_definition" where
  "as_field description v =
     (vd_name v, \<lparr>iv_description = description (vd_name v), iv_name = vd_name v, iv_ty = vd_ty v,
        iv_default = vd_default v, iv_directives = []\<rparr>)"

lemma as_field_simps [simp]:
  "fst (as_field d v) = vd_name v" "iv_ty (snd (as_field d v)) = vd_ty v"
  "is_required (snd (as_field d v)) \<longleftrightarrow> is_non_null (vd_ty v) \<and> vd_default v = None"
  by (simp_all add: as_field_def is_required_def)

lemma variable_schemas_eq:
  assumes "cache_ok W {} c"
  shows "\<exists>c'. variable_schemas W description vs p r c =
       Some (field_properties W p (map (as_field description) vs),
             r @ required_names (map (as_field description) vs), c') \<and>
     cache_ok W {} c' \<and> obj_keys c \<subseteq> obj_keys c' \<and> (\<forall>v \<in> set vs. type_refs W (vd_ty v) \<subseteq> obj_keys c')"
  using assms
proof (induction vs arbitrary: p r c)
  case (Cons v vs)
  obtain c1 where c1: "type_to_schema W (vd_ty v) c (description (vd_name v)) (vd_default v) =
      Some (with_default W (type_schema W (description (vd_name v)) (vd_ty v)) (vd_default v) (vd_ty v), c1)"
    "cache_ok W {} c1" "obj_keys c \<subseteq> obj_keys c1" "type_refs W (vd_ty v) \<subseteq> obj_keys c1"
    by (rule type_to_schema_eq[OF Cons.prems])
  have field: "field_schema W (snd (as_field description v)) =
      with_default W (type_schema W (description (vd_name v)) (vd_ty v)) (vd_default v) (vd_ty v)"
    by (simp add: field_schema_def as_field_def)
  let ?p = "obj_insert (vd_name v) (field_schema W (snd (as_field description v))) p"
  let ?r = "if is_non_null (vd_ty v) \<and> vd_default v = None then r @ [vd_name v] else r"
  from Cons.IH[OF c1(2), of ?p ?r] obtain c' where
    "variable_schemas W description vs ?p ?r c1 =
       Some (field_properties W ?p (map (as_field description) vs),
             ?r @ required_names (map (as_field description) vs), c')"
    "cache_ok W {} c'" "obj_keys c1 \<subseteq> obj_keys c'" "\<forall>v \<in> set vs. type_refs W (vd_ty v) \<subseteq> obj_keys c'"
    by blast
  then show ?case
    using c1 field by (auto simp: field_properties_def required_names_def)
qed (simp add: field_properties_def required_names_def)

text \<open>The values an operation's free variables may have.\<close>

definition variables_value ::
    "walker \<Rightarrow> (string \<Rightarrow> json \<Rightarrow> json \<Rightarrow> bool) \<Rightarrow> variable_definition list \<Rightarrow> (string \<times> json) list \<Rightarrow> bool" where
  "variables_value W other vs args \<longleftrightarrow>
     (\<forall>v \<in> set vs. case map_of args (vd_name v) of
        None \<Rightarrow> \<not> (is_non_null (vd_ty v) \<and> vd_default v = None)
      | Some x \<Rightarrow> input_value W other (vd_ty v) x)"

lemma get_json_schema_valid:
  assumes W: "walker_ok W" and dist: "distinct (map vd_name (free_variables fixed (od_variables operation)))"
  obtains root where
    "get_json_schema W operation schema_descriptions overrides fixed = Some root"
    "ensure_properties_exists root = root"
    "valid_under other root v \<longleftrightarrow>
       has_type ''object'' v \<and>
       variables_value W other (free_variables fixed (od_variables operation)) (json_entries v)"
proof -
  let ?d = "argument_description schema_descriptions overrides"
  let ?vs = "free_variables fixed (od_variables operation)"
  let ?fs = "map (as_field ?d) ?vs"
  obtain c where c: "variable_schemas W ?d ?vs [] [] [] = Some (field_properties W [] ?fs, required_names ?fs, c)"
    "cache_ok W {} c" "\<forall>v \<in> set ?vs. type_refs W (vd_ty v) \<subseteq> obj_keys c"
    using variable_schemas_eq[OF cache_ok_Nil, of W ?d ?vs "[]" "[]"] by auto
  define defs where "defs = (if c = [] then [] else [(''definitions'', JObject c)])"
  define root where "root = JObject ([(''type'', JString ''object''),
      (''properties'', JObject (field_properties W [] ?fs))] @ required_entry (required_names ?fs) @ defs)"
  have get: "get_json_schema W operation schema_descriptions overrides fixed = Some root"
    by (simp add: get_json_schema_def c(1) root_def defs_def)
  have ens: "ensure_properties_exists root = root"
    by (simp add: ensure_properties_exists_def root_def)
  have D: "root_definitions root = c"
    by (auto simp: root_definitions_def root_def required_entry_def defs_def)
  define V where "V = \<lparr>vd_definitions = c, vd_ref_limit = Suc (length c), vd_keyword = other\<rparr>"
  have fields: "distinct (map fst ?fs)" using dist by (simp add: comp_def)
  have "valid_under other root v = accepts V (Suc (length c)) root v"
    by (simp add: valid_under_def D V_def Let_def)
  also have "\<dots> \<longleftrightarrow>
      accepts V (Suc (length c)) (input_schema W None (field_properties W [] ?fs) (required_names ?fs)) v"
    by (simp add: root_def input_schema_def with_desc_def ensure_object_def
        accepts_object defs_def ball_Un keyword_holds_simps)
  also have "\<dots> \<longleftrightarrow> has_type ''object'' v \<and>
      (\<forall>nf \<in> set ?fs. case map_of (json_entries v) (fst nf) of
         None \<Rightarrow> \<not> is_required (snd nf)
       | Some x \<Rightarrow> accepts V (vd_ref_limit V) (type_schema W None (iv_ty (snd nf))) x)"
    by (rule accepts_input[OF W fields])
  also have "\<dots> \<longleftrightarrow> has_type ''object'' v \<and> variables_value W other ?vs (json_entries v)"
    using accepts_type_schema(1)[of V "length c" W other, OF _ W] c(2,3)
    by (auto simp: V_def variables_value_def split: option.splits)
  finally show thesis using that get ens by blast
qed

lemma load_tool_found:
  assumes "load_tool G L C S opts raw = Some (Inr (Some op))"
    and "operation_defs G L (source_text raw) (mutation_mode opts \<noteq> NoMutations) (source_path raw) =
      Inr (Some (document, operation, comments))"
  obtains overrides shaker input where
    "variable_description_overrides (source_text raw) operation = Some overrides"
    "operation_shaker C S document operation = Some shaker"
    "get_json_schema (walker_for C S) operation (arguments_descriptions shaker) overrides (raw_variables raw) = Some input"
    "from_raw G L (server_texts C shaker overrides input) S opts raw = Inr (Some op)"
    "tool_input_schema (op_tool op) = ensure_properties_exists input"
proof (cases "od_name operation")
  case None
  with assms show thesis
    by (simp add: load_tool_def from_raw_def operation_name_def)
next
  case (Some name)
  with assms(1,2) obtain overrides shaker input where found:
    "variable_description_overrides (source_text raw) operation = Some overrides"
    "operation_shaker C S document operation = Some shaker"
    "get_json_schema (walker_for C S) operation (arguments_descriptions shaker) overrides (raw_variables raw) = Some input"
    "from_raw G L (server_texts C shaker overrides input) S opts raw = Inr (Some op)"
    by (auto simp: load_tool_def Let_def split: option.splits if_splits)
  moreover have "tool_input_schema (op_tool op) = ensure_properties_exists input"
    using found(4) assms(2) Some
    by (auto simp: from_raw_def operation_name_def server_texts_def Let_def)
  ultimately show thesis by (rule that)
qed

text \<open>A tool loads unless a slice of its source panics or one of the generators runs out of stack.\<close>

lemma load_tool_returns:
  assumes "operation_defs G L (source_text raw) (mutation_mode opts \<noteq> NoMutations) (source_path raw) =
      Inr (Some (document, operation, comments))"
    and "od_name operation = Some name"
    and "variable_description_overrides (source_text raw) operation \<noteq> None"
    and "operation_shaker C S document operation \<noteq> None"
    and "enable_output_schema opts \<Longrightarrow>
      operation_output_schema C S document operation (private_tree_of document operation) \<noteq> None"
    and "walker_ok (walker_for C S)" "distinct (map vd_name (od_variables operation))"
  shows "\<exists>op. load_tool G L C S opts raw = Some (Inr (Some op))"
proof -
  have dist: "distinct (map vd_name (free_variables (raw_variables raw) (od_variables operation)))"
    using assms(7) by (simp add: free_variables_def distinct_map_filter)
  obtain overrides shaker where
    *: "variable_description_overrides (source_text raw) operation = Some overrides"
       "operation_shaker C S document operation = Some shaker"
    using assms(3,4) by blast
  obtain input where
    "get_json_schema (walker_for C S) operation (arguments_descriptions shaker) overrides (raw_variables raw) = Some input"
    by (rule get_json_schema_valid[OF assms(6) dist])
  with * assms(1,2,5) show ?thesis
    by (simp add: load_tool_def from_raw_def operation_name_def Let_def)
qed

text \<open>
  C4: the input schema of a loaded tool is exact. A client's value is valid under it if and only if
  it is an object that gives every variable the operation leaves open a value of its GraphQL type,
  or leaves it out where it is nullable or has a default; variables fixed by the operation are not
  asked for. Recursive input types are described by references that resolve.
\<close>

theorem tool_input_schema_exact:
  assumes "load_tool G L C S opts raw = Some (Inr (Some op))"
    and "operation_defs G L (source_text raw) (mutation_mode opts \<noteq> NoMutations) (source_path raw) =
      Inr (Some (document, operation, comments))"
    and "walker_ok (walker_for C S)"
    and "distinct (map vd_name (od_variables operation))"
  shows "valid_under other (tool_input_schema (op_tool op)) v \<longleftrightarrow>
    (\<exists>args. v = JObject args \<and>
       variables_value (walker_for C S) other (free_variables (raw_variables raw) (od_variables operation)) args)"
proof -
  obtain overrides and shaker :: SchemaTreeShaker and input where input:
    "get_json_schema (walker_for C S) operation (arguments_descriptions shaker) overrides (raw_variables raw) = Some input"
    "tool_input_schema (op_tool op) = ensure_properties_exists input"
    by (rule load_tool_found[OF assms(1,2)]) (rule that)
  have dist: "distinct (map vd_name (free_variables (raw_variables raw) (od_variables operation)))"
    using assms(4) by (simp add: free_variables_def distinct_map_filter)
  obtain root where
    "get_json_schema (walker_for C S) operation (arguments_descriptions shaker) overrides (raw_variables raw) = Some root"
    "ensure_properties_exists root = root"
    "valid_under other root v \<longleftrightarrow> has_type ''object'' v \<and>
       variables_value (walker_for C S) other (free_variables (raw_variables raw) (od_variables operation)) (json_entries v)"
    by (rule get_json_schema_valid[OF assms(3) dist])
  then show ?thesis using input by (cases v) auto
qed

definition example_field :: "string \<Rightarrow> gtype \<Rightarrow> gvalue option \<Rightarrow> string \<times> input_value_definition" where
  "example_field n t d = (n, \<lparr>iv_description = None, iv_name = n, iv_ty = t, iv_default = d, iv_directives = []\<rparr>)"

definition filter_schema :: schema where
  "filter_schema =
     \<lparr>schema_description = None, schema_directives = [], root_operation = (\<lambda>ot. None),
      schema_types =
        [(''Filter'', InputObjectType None ''Filter'' []
            [example_field ''name'' (NonNullNamed ''String'') None,
             example_field ''any'' (ListOf (NonNullNamed ''Filter'')) None,
             example_field ''limit'' (NonNullNamed ''Int'') (Some (VInt ''10''))])],
      directive_definitions = [], built_in_type = (\<lambda>n. n = ''String''), built_in_directive = (\<lambda>_. False)\<rparr>"

definition filter_settings :: text_settings where
  "filter_settings =
     \<lparr>ts_walker = \<lparr>wk_schema = filter_schema, wk_custom_scalars = Map.empty,
        wk_bool_schema = (\<lambda>b. if b then [] else [(''not'', JBool True)]), wk_float = (\<lambda>_. None)\<rparr>,
      ts_disable_type_description = False, ts_disable_schema_description = False, ts_to_schema = (\<lambda>_. []),
      ts_is_built_in = (\<lambda>_. False), ts_serialize_type = (\<lambda>_. []), ts_stack = 1, ts_implementers = (\<lambda>_ _. None)\<rparr>"

definition example_variable :: "string \<Rightarrow> gtype \<Rightarrow> variable_definition" where
  "example_variable n t =
     \<lparr>vd_name = n, vd_ty = t, vd_default = None, vd_directives = [], vd_description = None, vd_location = None\<rparr>"

definition filter_operation :: operation_definition where
  "filter_operation =
     \<lparr>od_operation_type = Query, od_name = Some ''Find'',
      od_variables = [example_variable ''f'' (NonNullNamed ''Filter''), example_variable ''page'' (NonNullNamed ''Int'')],
      od_directives = [], od_selection_set = [], od_description = None, od_name_location = None\<rparr>"

definition filter_graphql :: graphql_api where
  "filter_graphql =
     \<lparr>parse_document = (\<lambda>s. Inr [(OperationDefinition filter_operation, None)]),
      serialize_document = (\<lambda>_. []), serialize_operation = (\<lambda>_. [])\<rparr>"

definition filter_raw :: RawOperation where
  "filter_raw = \<lparr>source_text = [], raw_headers = None, raw_variables = Some [(''page'', JNumber 1)], source_path = None\<rparr>"

definition plain_options :: CompileOptions where
  "plain_options = \<lparr>mutation_mode = NoMutations, enable_output_schema = False,
     annotation_overrides = Map.empty, description_overrides = Map.empty\<rparr>"

abbreviation "quiet \<equiv> \<lparr>debug_enabled = False, warn_enabled = False\<rparr>"

lemma filter_walker_ok: "walker_ok (walker_for filter_settings filter_schema)"
  by (auto simp: walker_ok_def walker_for_def filter_settings_def filter_schema_def example_field_def
      accepts_object keyword_holds_simps split: if_splits)

lemma filter_defs:
  "operation_defs filter_graphql quiet (source_text filter_raw) (mutation_mode plain_options \<noteq> NoMutations)
     (source_path filter_raw) = Inr (Some ([(OperationDefinition filter_operation, None)], filter_operation, None))"
  by (simp add: operation_defs_def filter_graphql_def filter_operation_def)

lemma filter_tool:
  "\<exists>op. load_tool filter_graphql quiet filter_settings filter_schema plain_options filter_raw = Some (Inr (Some op))"
proof (rule load_tool_returns[OF filter_defs _ _ _ _ filter_walker_ok])
  show "operation_shaker filter_settings filter_schema [(OperationDefinition filter_operation, None)] filter_operation \<noteq> None"
    by (simp add: operation_shaker_def retain_operation_def retain_operation_type_def retain_named_def
        filter_operation_def filter_schema_def new_shaker_def new_root_operation_names_def operation_name_or_def)
  show "variable_description_overrides (source_text filter_raw) filter_operation \<noteq> None"
    by (simp add: variable_description_overrides_def filter_operation_def example_variable_def)
qed (simp_all add: filter_operation_def example_variable_def plain_options_def)

lemma filter_value:
  "named_value (walker_for filter_settings filter_schema) other ''Filter'' (JObject kvs) \<longleftrightarrow>
     (case map_of kvs ''name'' of None \<Rightarrow> False | Some x \<Rightarrow> builtin_value ''String'' x) \<and>
     (case map_of kvs ''any'' of None \<Rightarrow> True
      | Some x \<Rightarrow> input_value (walker_for filter_settings filter_schema) other (ListOf (NonNullNamed ''Filter'')) x) \<and>
     (case map_of kvs ''limit'' of None \<Rightarrow> True | Some x \<Rightarrow> builtin_value ''Int'' x)"
  by (subst named_value.simps)
     (simp add: builtin_schema_def walker_for_def filter_settings_def filter_schema_def example_field_def
       is_required_def named_value_builtin split: option.split)

theorem tool_input_schema_exact_witness:
  "\<exists>op. load_tool filter_graphql quiet filter_settings filter_schema plain_options filter_raw = Some (Inr (Some op)) \<and>
     valid_under (\<lambda>_ _ _. True) (tool_input_schema (op_tool op))
       (JObject [(''f'', JObject [(''name'', JString ''a''), (''any'', JArray [JObject [(''name'', JString ''b'')]])])]) \<and>
     \<not> valid_under (\<lambda>_ _ _. True) (tool_input_schema (op_tool op))
       (JObject [(''f'', JObject [(''name'', JString ''a''), (''any'', JArray [JObject []])])])"
proof -
  obtain op where op: "load_tool filter_graphql quiet filter_settings filter_schema plain_options filter_raw = Some (Inr (Some op))"
    using filter_tool by blast
  have exact: "valid_under (\<lambda>_ _ _. True) (tool_input_schema (op_tool op)) v \<longleftrightarrow>
      (\<exists>args. v = JObject args \<and> variables_value (walker_for filter_settings filter_schema) (\<lambda>_ _ _. True)
         (free_variables (raw_variables filter_raw) (od_variables filter_operation)) args)" for v
    by (rule tool_input_schema_exact[OF op filter_defs filter_walker_ok])
       (simp add: filter_operation_def example_variable_def)
  show ?thesis
    by (intro exI[of _ op] conjI op)
       (simp_all add: exact variables_value_def filter_operation_def example_variable_def free_variables_def
         filter_raw_def filter_value)
qed

section \<open>A comment that cannot be cut out\<close>

text \<open>The variables of an operation stand in the source in order.\<close>

fun in_order :: "nat \<Rightarrow> variable_definition list \<Rightarrow> bool" where
  "in_order i [] = True"
| "in_order i (v # vs) =
     (case vd_location v of
        None \<Rightarrow> False
      | Some (offset, end_offset) \<Rightarrow> i \<le> offset \<and> offset \<le> end_offset \<and> in_order end_offset vs)"

lemma in_order_returns:
  "in_order i vs \<Longrightarrow> (case last_offset of None \<Rightarrow> True | Some start \<Rightarrow> start \<le> i) \<Longrightarrow>
     variable_descriptions source vs last_offset overrides \<noteq> None"
proof (induction vs arbitrary: i last_offset overrides)
  case (Cons v vs)
  then obtain a b where v: "vd_location v = Some (a, b)" "i \<le> a" "a \<le> b" "in_order b vs"
    by (auto split: option.splits)
  then show ?case
    using Cons.prems(2) Cons.IH[OF v(4), of "Some b"] by (auto simp: Let_def split: option.splits)
qed simp

text \<open>
  Reading the comments of variables panics exactly when the opening parenthesis that the
  search finds lies behind the first variable. The search looks for a parenthesis at the start of
  a line or directly after the operation's name, while GraphQL allows a comma there: the first
  parenthesis that starts a later line, such as an argument list on a line of its own, is found
  then, and the slice up to the first variable starts after its end.
\<close>

theorem variable_comment_panic:
  assumes "od_variables operation = v # vs" "vd_location v = Some (offset, end_offset)"
    and "in_order 0 (v # vs)"
  shows "variable_description_overrides source operation = None \<longleftrightarrow>
    (\<exists>paren. find_opening_parens_offset source operation = Some paren \<and> offset < paren)"
proof -
  have "in_order end_offset vs" "offset \<le> end_offset" using assms(2,3) by auto
  then have "variable_descriptions source vs (Some end_offset) overrides \<noteq> None" for overrides
    using in_order_returns[of end_offset vs "Some end_offset" source overrides] by simp
  then show ?thesis
    using assms(1,2) by (auto simp: variable_description_overrides_def Let_def split: option.splits)
qed

definition comma_source :: string where
  "comma_source = ''query Q,($a: Int) {'' @ newline @ ''f'' @ newline @ ''(x: $a) }''"

definition comma_operation :: operation_definition where
  "comma_operation =
     \<lparr>od_operation_type = Query, od_name = Some ''Q'',
      od_variables = [\<lparr>vd_name = ''a'', vd_ty = Named ''Int'', vd_default = None, vd_directives = [],
        vd_description = None, vd_location = Some (9, 16)\<rparr>],
      od_directives = [], od_selection_set = [Field None ''f'' [(''x'', VVariable ''a'')] [] []],
      od_description = None, od_name_location = Some (6, 7)\<rparr>"

theorem variable_comment_panic_witness:
  "str_slice 6 7 comma_source = ''Q'' \<and> str_slice 9 16 comma_source = ''$a: Int'' \<and>
   variable_description_overrides comma_source comma_operation = None"
proof -
  have "find_opening_parens_offset comma_source comma_operation = Some 23"
    by (simp add: find_opening_parens_offset_def comma_operation_def comma_source_def newline_def
        paren_from_def is_white_def)
  moreover have "od_variables comma_operation = [\<lparr>vd_name = ''a'', vd_ty = Named ''Int'', vd_default = None,
      vd_directives = [], vd_description = None, vd_location = Some (9, 16)\<rparr>]"
    by (simp add: comma_operation_def)
  ultimately have "variable_description_overrides comma_source comma_operation = None"
    using variable_comment_panic[of comma_operation _ "[]" 9 16 comma_source] by simp
  then show ?thesis by (simp add: str_slice_def comma_source_def newline_def)
qed

end
