(* ===== verification/Output_Values.thy ===== *)
theory Output_Values
  imports Output_Schema Input_Values
begin

text \<open>
  What the generated output schemas accept: every response of a GraphQL server to an operation
  whose fields need no merging and are not skipped. The responses are described from the types
  and selections of the operation, independently of how the generator groups the fields.
\<close>

section \<open>The fields selected for a concrete type\<close>

definition type_applies :: "output_env \<Rightarrow> string \<Rightarrow> extended_type \<Rightarrow> bool" where
  "type_applies E T condition \<longleftrightarrow>
     et_name condition = T \<or>
     \<not> is_object_type condition \<and> is_subtype (wk_schema (oe_walker E)) (et_name condition) T"

inductive selects ::
    "output_env \<Rightarrow> string \<Rightarrow> extended_type \<Rightarrow> selection list \<Rightarrow> selection \<Rightarrow> extended_type \<Rightarrow> bool"
  for E T where
  here: "Field al n args ds ss \<in> set sels \<Longrightarrow> selects E T d sels (Field al n args ds ss) d"
| inline: "InlineFragment None ds ss \<in> set sels \<Longrightarrow> selects E T d ss f d' \<Longrightarrow> selects E T d sels f d'"
| inline_on: "InlineFragment (Some c) ds ss \<in> set sels \<Longrightarrow> output_type E c = Some t \<Longrightarrow> type_applies E T t \<Longrightarrow>
    selects E T t ss f d' \<Longrightarrow> selects E T d sels f d'"
| spread: "FragmentSpread n ds \<in> set sels \<Longrightarrow> spread_target E n = Some (frag, t) \<Longrightarrow> type_applies E T t \<Longrightarrow>
    selects E T t (frag_selection_set frag) f d' \<Longrightarrow> selects E T d sels f d'"

lemma member_index_distinct:
  "distinct ms \<Longrightarrow> member_index ms n = Some i \<longleftrightarrow> i < length ms \<and> ms ! i = n"
proof -
  assume "distinct ms"
  then have "distinct (map fst (rev (zip ms [0..<length ms])))" by (simp flip: rev_map)
  then show ?thesis
    by (auto simp: member_index_def map_of_eq_Some_iff in_set_zip)
qed

lemma matching_iff:
  assumes "distinct ms" "set app \<subseteq> {..<length ms}"
  shows "m \<in> set (matching_members E ms app t) \<longleftrightarrow> m \<in> set app \<and> type_applies E (ms ! m) t"
proof (cases "is_object_type t")
  case True
  then have "m \<in> set (matching_members E ms app t) \<longleftrightarrow> member_index ms (et_name t) = Some m \<and> m \<in> set app"
    by (auto simp: matching_members_def split: option.split)
  then show ?thesis
    using assms(2) True by (auto simp: member_index_distinct[OF assms(1)] type_applies_def)
next
  case False
  then show ?thesis
    using assms by (auto simp: matching_members_def type_applies_def)
qed

lemma matching_distinct: "distinct app \<Longrightarrow> distinct (matching_members E ms app t)"
  by (auto simp: matching_members_def split: option.split)

text \<open>
  What a state of the collection must have when a selection is done: its fields, and for its
  spreads the mark that they are visited.
\<close>

fun covers :: "output_env \<Rightarrow> string list \<Rightarrow> collected \<Rightarrow> extended_type \<Rightarrow> nat list \<Rightarrow> selection \<Rightarrow> bool" where
  "covers E ms st d app (Field al n args ds ss) =
     (\<lparr>sf_field = Field al n args ds ss, declared_on = d, members = app\<rparr> \<in> set (snd st))"
| "covers E ms st d app (InlineFragment c ds ss) =
     (case inline_target E c d of
        None \<Rightarrow> True
      | Some t \<Rightarrow>
          matching_members E ms app t = [] \<or>
          (\<forall>sel \<in> set ss. covers E ms st t (matching_members E ms app t) sel))"
| "covers E ms st d app (FragmentSpread n ds) =
     (case spread_target E n of
        None \<Rightarrow> True
      | Some (f, t) \<Rightarrow>
          matching_members E ms app t = [] \<or> (n, matching_members E ms app t) \<in> set (fst st))"

definition state_le :: "collected \<Rightarrow> collected \<Rightarrow> bool" where
  "state_le st st' \<longleftrightarrow> set (fst st) \<subseteq> set (fst st') \<and> set (snd st) \<subseteq> set (snd st')"

lemma state_le_refl [simp]: "state_le st st"
  by (simp add: state_le_def)

lemma state_le_trans: "state_le a b \<Longrightarrow> state_le b c \<Longrightarrow> state_le a c"
  by (auto simp: state_le_def)

lemma covers_mono: "covers E ms st d app sel \<Longrightarrow> state_le st st' \<Longrightarrow> covers E ms st' d app sel"
  by (induction E ms st d app sel rule: covers.induct)
     (auto simp: state_le_def split: option.splits)

definition all_covered ::
    "output_env \<Rightarrow> string list \<Rightarrow> collected \<Rightarrow> extended_type \<Rightarrow> nat list \<Rightarrow> selection list \<Rightarrow> bool" where
  "all_covered E ms st d app sels \<longleftrightarrow> (\<forall>sel \<in> set sels. covers E ms st d app sel)"

lemma all_covered_mono: "all_covered E ms st d app sels \<Longrightarrow> state_le st st' \<Longrightarrow> all_covered E ms st' d app sels"
  by (auto simp: all_covered_def intro: covers_mono)

text \<open>The bodies of visited fragments are covered, those in progress (\<open>P\<close>) excepted.\<close>

definition closed_except :: "output_env \<Rightarrow> string list \<Rightarrow> (string \<times> nat list) set \<Rightarrow> collected \<Rightarrow> bool" where
  "closed_except E ms P st \<longleftrightarrow>
     (\<forall>n M f t. (n, M) \<in> set (fst st) \<longrightarrow> (n, M) \<notin> P \<longrightarrow> spread_target E n = Some (f, t) \<longrightarrow>
        all_covered E ms st t M (frag_selection_set f))"

lemma closed_except_grow:
  assumes "closed_except E ms P st" "state_le st st'" "set (fst st') \<subseteq> set (fst st) \<union> Q"
  shows "closed_except E ms (P \<union> Q) st'"
  unfolding closed_except_def
proof (intro allI impI)
  fix n M f t
  assume "(n, M) \<in> set (fst st')" "(n, M) \<notin> P \<union> Q" "spread_target E n = Some (f, t)"
  then have "all_covered E ms st t M (frag_selection_set f)"
    using assms(1,3) by (auto simp: closed_except_def)
  then show "all_covered E ms st' t M (frag_selection_set f)" by (rule all_covered_mono) (rule assms(2))
qed

lemma closed_except_mono_fields:
  "closed_except E ms P st \<Longrightarrow> closed_except E ms P (fst st, snd st @ sfs)"
  using closed_except_grow[of E ms P st "(fst st, snd st @ sfs)" "{}"] by (simp add: state_le_def)

lemma closed_except_enter:
  "closed_except E ms P st \<Longrightarrow> closed_except E ms (insert x P) (x # fst st, snd st)"
  using closed_except_grow[of E ms P st "(x # fst st, snd st)" "{x}"] by (auto simp: state_le_def)

lemma closed_except_leave:
  "closed_except E ms (insert (n, M) P) st \<Longrightarrow> spread_target E n = Some (f, t) \<Longrightarrow>
   all_covered E ms st t M (frag_selection_set f) \<Longrightarrow> closed_except E ms P st"
  unfolding closed_except_def by fastforce

text \<open>The successful runs of the collection, as a relation with one rule per step.\<close>

inductive collects ::
    "output_env \<Rightarrow> string list \<Rightarrow> selection list \<Rightarrow> extended_type \<Rightarrow> nat list \<Rightarrow> collected \<Rightarrow> collected \<Rightarrow> bool"
  for E ms where
  finish: "collects E ms [] d app st st"
| field: "collects E ms rest d app
      (fst st, snd st @ [\<lparr>sf_field = Field al n args ds ss, declared_on = d, members = app\<rparr>]) st' \<Longrightarrow>
    collects E ms (Field al n args ds ss # rest) d app st st'"
| inline_skip: "inline_target E c d = None \<or>
      (\<exists>t. inline_target E c d = Some t \<and> matching_members E ms app t = []) \<Longrightarrow>
    collects E ms rest d app st st' \<Longrightarrow> collects E ms (InlineFragment c ds ss # rest) d app st st'"
| inline_enter: "inline_target E c d = Some t \<Longrightarrow> matching_members E ms app t \<noteq> [] \<Longrightarrow>
    collects E ms ss t (matching_members E ms app t) st st1 \<Longrightarrow> collects E ms rest d app st1 st' \<Longrightarrow>
    collects E ms (InlineFragment c ds ss # rest) d app st st'"
| spread_skip: "spread_target E n = None \<or>
      (\<exists>f t. spread_target E n = Some (f, t) \<and>
         (matching_members E ms app t = [] \<or> (n, matching_members E ms app t) \<in> set (fst st))) \<Longrightarrow>
    collects E ms rest d app st st' \<Longrightarrow> collects E ms (FragmentSpread n ds # rest) d app st st'"
| spread_enter: "spread_target E n = Some (f, t) \<Longrightarrow> matching_members E ms app t \<noteq> [] \<Longrightarrow>
    collects E ms (frag_selection_set f) t (matching_members E ms app t)
      ((n, matching_members E ms app t) # fst st, snd st) st1 \<Longrightarrow>
    collects E ms rest d app st1 st' \<Longrightarrow> collects E ms (FragmentSpread n ds # rest) d app st st'"

lemma collect_collects:
  "collect_selected_fields E ms k sels d app st = Some st' \<Longrightarrow> collects E ms sels d app st st'"
proof (induction E ms k sels d app st arbitrary: st' rule: collect_selected_fields.induct)
  case (3 E ms k c ds ss rest d app st)
  show ?case
  proof (cases "inline_target E c d")
    case None
    then show ?thesis using 3 by (auto intro: inline_skip)
  next
    case (Some t)
    show ?thesis
    proof (cases "matching_members E ms app t = []")
      case True
      then show ?thesis using "3.IH"(2)[OF Some refl] "3.prems" Some by (auto intro: inline_skip)
    next
      case False
      with "3.prems" Some obtain st1 where
        "collect_selected_fields E ms k ss t (matching_members E ms app t) st = Some st1"
        "collect_selected_fields E ms k rest d app st1 = Some st'"
        by (cases "collect_selected_fields E ms k ss t (matching_members E ms app t) st") (auto simp: Let_def)
      then show ?thesis
        using "3.IH"(3)[OF Some refl False] "3.IH"(4)[OF Some refl False] inline_enter[OF Some False] by blast
    qed
  qed
next
  case (4 E ms k n ds rest d app st)
  show ?case
  proof (cases "spread_target E n")
    case None
    then show ?thesis using 4 by (auto intro: spread_skip)
  next
    case (Some ft)
    obtain f t where ft: "ft = (f, t)" by (cases ft)
    let ?M = "matching_members E ms app t"
    show ?thesis
    proof (cases "?M = [] \<or> (n, ?M) \<in> set (fst st)")
      case True
      then show ?thesis
        using "4.IH"(2)[OF Some _ refl True] "4.prems" Some ft by (intro spread_skip) (auto simp: Let_def)
    next
      case False
      with "4.prems" Some ft obtain k' st1 where k: "k = Suc k'" and
        "collect_selected_fields E ms k' (frag_selection_set f) t ?M ((n, ?M) # fst st, snd st) = Some st1"
        "collect_selected_fields E ms k rest d app st1 = Some st'"
        by (cases k) (auto simp: Let_def split: option.splits)
      moreover have "spread_target E n = Some (f, t)" "?M \<noteq> []" using Some ft False by auto
      ultimately show ?thesis
        using "4.IH"(3)[OF Some ft[symmetric] refl False k] "4.IH"(4)[OF Some ft[symmetric] refl False k]
          spread_enter[of E n f t ms app st st1 rest d st' ds] by blast
    qed
  qed
qed (auto intro: collects.intros)

lemma collects_covers:
  "collects E ms sels d app st st' \<Longrightarrow> closed_except E ms P st \<Longrightarrow>
     closed_except E ms P st' \<and> state_le st st' \<and> all_covered E ms st' d app sels"
proof (induction arbitrary: P rule: collects.induct)
  case (finish d app st)
  then show ?case by (simp add: all_covered_def)
next
  case (field rest d app st al n args ds ss st')
  from field.IH[OF closed_except_mono_fields[OF field.prems]] show ?case
    by (auto simp: all_covered_def state_le_def)
next
  case (inline_skip c d app rest st st' ds ss)
  from inline_skip.IH[OF inline_skip.prems] inline_skip.hyps(1) show ?case
    by (auto simp: all_covered_def)
next
  case (inline_enter c d t app ss st st1 rest st' ds)
  note one = inline_enter.IH(1)[OF inline_enter.prems]
  note two = inline_enter.IH(2)[OF conjunct1[OF one]]
  have "all_covered E ms st' t (matching_members E ms app t) ss"
    using one two all_covered_mono by blast
  then show ?case
    using one two inline_enter.hyps(1) state_le_trans[of st st1 st'] by (auto simp: all_covered_def)
next
  case (spread_skip n app st rest d st' ds)
  note IH = spread_skip.IH[OF spread_skip.prems]
  then show ?case
    using spread_skip.hyps(1) by (auto simp: all_covered_def state_le_def)
next
  case (spread_enter n f t app st st1 rest d st' ds)
  let ?M = "matching_members E ms app t"
  note one = spread_enter.IH(1)[OF closed_except_enter[OF spread_enter.prems]]
  have "closed_except E ms P st1"
    using closed_except_leave[of E ms n ?M P st1 f t] one spread_enter.hyps(1) by simp
  note two = spread_enter.IH(2)[OF this]
  have "(n, ?M) \<in> set (fst st')" "state_le st st'"
    using one two by (auto simp: state_le_def)
  then show ?case using two spread_enter.hyps(1) by (auto simp: all_covered_def)
qed

lemma selects_mono:
  assumes "selects E T d sels f d'" "set sels \<subseteq> set sels'"
  shows "selects E T d sels' f d'"
  using assms(1)
proof (cases rule: selects.cases)
  case (here al n args ds ss)
  then show ?thesis using assms(2) selects.here by blast
next
  case (inline ds ss)
  then show ?thesis using assms(2) selects.inline by blast
next
  case (inline_on c ds ss t)
  then show ?thesis using assms(2) selects.inline_on by blast
next
  case (spread n ds frag t)
  then show ?thesis using assms(2) selects.spread by blast
qed

lemma covered_selected:
  assumes "closed_except E ms {} st" "distinct ms"
  shows "selects E (ms ! m) d sels f d' \<Longrightarrow> all_covered E ms st d app sels \<Longrightarrow> m \<in> set app \<Longrightarrow>
    set app \<subseteq> {..<length ms} \<Longrightarrow> type_applies E (ms ! m) d \<Longrightarrow>
    \<exists>sf \<in> set (snd st). sf_field sf = f \<and> declared_on sf = d' \<and> m \<in> set (members sf)"
proof (induction arbitrary: app rule: selects.induct)
  case (here al n args ds ss sels d)
  then have "\<lparr>sf_field = Field al n args ds ss, declared_on = d, members = app\<rparr> \<in> set (snd st)"
    by (fastforce simp: all_covered_def)
  then show ?case using here.prems by (auto intro!: bexI)
next
  case (inline ds ss sels d f d')
  let ?M = "matching_members E ms app d"
  have m: "m \<in> set ?M" and sub: "set ?M \<subseteq> {..<length ms}"
    using inline.prems matching_iff[OF assms(2) inline.prems(3)] by auto
  have "all_covered E ms st d ?M ss"
    using inline.prems(1) inline.hyps(1) m by (fastforce simp: all_covered_def inline_target_def)
  from inline.IH[OF this m sub inline.prems(4)] show ?case .
next
  case (inline_on c ds ss sels t f d' d)
  let ?M = "matching_members E ms app t"
  have m: "m \<in> set ?M" and sub: "set ?M \<subseteq> {..<length ms}"
    using inline_on.prems inline_on.hyps(3) matching_iff[OF assms(2) inline_on.prems(3)] by auto
  have "all_covered E ms st t ?M ss"
    using inline_on.prems(1) inline_on.hyps(1,2) m by (fastforce simp: all_covered_def inline_target_def)
  from inline_on.IH[OF this m sub inline_on.hyps(3)] show ?case .
next
  case (spread n ds sels frag t f d' d)
  let ?M = "matching_members E ms app t"
  have m: "m \<in> set ?M" and sub: "set ?M \<subseteq> {..<length ms}"
    using spread.prems spread.hyps(3) matching_iff[OF assms(2) spread.prems(3)] by auto
  have "(n, ?M) \<in> set (fst st)"
    using spread.prems(1) spread.hyps(1,2) m by (fastforce simp: all_covered_def)
  then have "all_covered E ms st t ?M (frag_selection_set frag)"
    using assms(1) spread.hyps(2) by (auto simp: closed_except_def)
  from spread.IH[OF this m sub spread.hyps(3)] show ?case .
qed

definition sf_sound :: "output_env \<Rightarrow> string list \<Rightarrow> nat list \<Rightarrow> extended_type \<Rightarrow> selection list \<Rightarrow> SelectedField \<Rightarrow> bool" where
  "sf_sound E ms app d sels sf \<longleftrightarrow>
     distinct (members sf) \<and> set (members sf) \<subseteq> set app \<and>
     (\<forall>m \<in> set (members sf). selects E (ms ! m) d sels (sf_field sf) (declared_on sf))"

lemma sf_sound_mono: "sf_sound E ms app d sels sf \<Longrightarrow> set sels \<subseteq> set sels' \<Longrightarrow> sf_sound E ms app d sels' sf"
  unfolding sf_sound_def using selects_mono by blast

lemma collects_sound:
  assumes "distinct ms"
  shows "collects E ms sels d app st st' \<Longrightarrow> distinct app \<Longrightarrow> set app \<subseteq> {..<length ms} \<Longrightarrow>
    sf \<in> set (snd st') \<Longrightarrow> sf \<in> set (snd st) \<or> sf_sound E ms app d sels sf"
proof (induction rule: collects.induct)
  case (field rest d app st al n args ds ss st')
  have "sf_sound E ms app d (Field al n args ds ss # rest)
      \<lparr>sf_field = Field al n args ds ss, declared_on = d, members = app\<rparr>"
    using field.prems by (auto simp: sf_sound_def intro: selects.here)
  with field.IH field.prems sf_sound_mono[of E ms app d rest sf "Field al n args ds ss # rest"] show ?case by auto
next
  case (inline_skip c d app rest st st' ds ss)
  then show ?case using sf_sound_mono[of E ms app d rest sf "InlineFragment c ds ss # rest"] by auto
next
  case (inline_enter c d t app ss st st1 rest st' ds)
  let ?M = "matching_members E ms app t"
  have M: "distinct ?M" "set ?M \<subseteq> set app" "\<And>m. m \<in> set ?M \<Longrightarrow> type_applies E (ms ! m) t"
    using matching_distinct[OF inline_enter.prems(1)] matching_iff[OF assms inline_enter.prems(2)] by auto
  have "selects E (ms ! m) d (InlineFragment c ds ss # rest) (sf_field sf) (declared_on sf)"
    if "m \<in> set ?M" "selects E (ms ! m) t ss (sf_field sf) (declared_on sf)" for m
  proof (cases c)
    case None
    then show ?thesis
      using that(2) inline_enter.hyps(1)
      by (simp add: inline_target_def selects.inline[where ds = ds and ss = ss])
  next
    case (Some a)
    then show ?thesis
      using that inline_enter.hyps(1) M(3)
      by (simp add: inline_target_def selects.inline_on[where c = a and ds = ds and ss = ss and t = t])
  qed
  then have "sf_sound E ms ?M t ss sf \<Longrightarrow> sf_sound E ms app d (InlineFragment c ds ss # rest) sf"
    using M(2) by (auto simp: sf_sound_def)
  with inline_enter M(1,2) sf_sound_mono[of E ms app d rest sf "InlineFragment c ds ss # rest"] show ?case by auto
next
  case (spread_skip n app st rest d st' ds)
  then show ?case using sf_sound_mono[of E ms app d rest sf "FragmentSpread n ds # rest"] by auto
next
  case (spread_enter n f t app st st1 rest d st' ds)
  let ?M = "matching_members E ms app t"
  have M: "distinct ?M" "set ?M \<subseteq> set app" "\<And>m. m \<in> set ?M \<Longrightarrow> type_applies E (ms ! m) t"
    using matching_distinct[OF spread_enter.prems(1)] matching_iff[OF assms spread_enter.prems(2)] by auto
  have "sf_sound E ms ?M t (frag_selection_set f) sf \<Longrightarrow> sf_sound E ms app d (FragmentSpread n ds # rest) sf"
    using M(2,3) spread_enter.hyps(1) selects.spread[where n = n and ds = ds and frag = f and t = t]
    by (auto simp: sf_sound_def subset_iff)
  with spread_enter M(1,2) sf_sound_mono[of E ms app d rest sf "FragmentSpread n ds # rest"] show ?case by auto
qed auto

lemma collect_top:
  assumes "collect_selected_fields E ms k ss parent [0..<length ms] ([], []) = Some (visited, selected)"
    and "distinct ms" "\<And>m. m < length ms \<Longrightarrow> type_applies E (ms ! m) parent"
  shows "sf \<in> set selected \<Longrightarrow> sf_sound E ms [0..<length ms] parent ss sf"
    and "m < length ms \<Longrightarrow> selects E (ms ! m) parent ss f d \<Longrightarrow>
      \<exists>sf \<in> set selected. sf_field sf = f \<and> declared_on sf = d \<and> m \<in> set (members sf)"
proof -
  note run = collect_collects[OF assms(1)]
  show "sf \<in> set selected \<Longrightarrow> sf_sound E ms [0..<length ms] parent ss sf"
    using collects_sound[OF assms(2) run, of sf] by (auto simp: lessThan_atLeast0)
  have "closed_except E ms {} (visited, selected)" "all_covered E ms (visited, selected) parent [0..<length ms] ss"
    using collects_covers[OF run, of "{}"] by (auto simp: closed_except_def)
  then show "m < length ms \<Longrightarrow> selects E (ms ! m) parent ss f d \<Longrightarrow>
      \<exists>sf \<in> set selected. sf_field sf = f \<and> declared_on sf = d \<and> m \<in> set (members sf)"
    using covered_selected[of E ms "(visited, selected)" m parent ss f d "[0..<length ms]"] assms(2,3)
    by (auto simp: lessThan_atLeast0)
qed

section \<open>Responses\<close>

type_synonym response_pred = "string \<Rightarrow> selection list \<Rightarrow> PrivateFieldTree \<Rightarrow> json \<Rightarrow> bool"

fun response_type :: "response_pred \<Rightarrow> gtype \<Rightarrow> selection list \<Rightarrow> PrivateFieldTree \<Rightarrow> json \<Rightarrow> bool" where
  "response_type R (Named n) ss p v \<longleftrightarrow> v = JNull \<or> R n ss p v"
| "response_type R (NonNullNamed n) ss p v \<longleftrightarrow> R n ss p v"
| "response_type R (ListOf t) ss p v \<longleftrightarrow>
     v = JNull \<or> has_type ''array'' v \<and> (\<forall>x \<in> set (json_elements v). response_type R t ss p x)"
| "response_type R (NonNullList t) ss p v \<longleftrightarrow>
     has_type ''array'' v \<and> (\<forall>x \<in> set (json_elements v). response_type R t ss p x)"

definition field_response :: "response_pred \<Rightarrow> PrivateFieldTree \<Rightarrow> selection \<Rightarrow> extended_type \<Rightarrow> json \<Rightarrow> bool" where
  "field_response R p f d x \<longleftrightarrow>
     (if sel_name f = ''__typename'' then has_type ''string'' x
      else
        (case get_field_definition d (sel_name f) of
           None \<Rightarrow> True
         | Some fd \<Rightarrow> response_type R (fd_ty fd) (sel_selection_set f) (child_or_default (field_key f) p) x))"

text \<open>
  An object of one of the concrete types: every field selected for the type is there with a value
  of its own, the private ones excepted, and nothing else is there.
\<close>

definition object_response ::
    "output_env \<Rightarrow> response_pred \<Rightarrow> extended_type \<Rightarrow> selection list \<Rightarrow> PrivateFieldTree \<Rightarrow> (string \<times> json) list \<Rightarrow> bool" where
  "object_response E R parent ss p kvs \<longleftrightarrow>
     (\<exists>T \<in> set (member_names E parent).
        (\<forall>f d. selects E T parent ss f d \<longrightarrow> \<not> key_hidden p (field_key f) \<longrightarrow>
           (\<exists>x. map_of kvs (field_key f) = Some x \<and> field_response R p f d x)) \<and>
        (\<forall>k \<in> obj_keys kvs. \<exists>f d. selects E T parent ss f d \<and> field_key f = k))"

fun builtin_response :: "string \<Rightarrow> json \<Rightarrow> bool" where
  "builtin_response n (JString s) = (n = ''String'' \<or> n = ''ID'')"
| "builtin_response n (JNumber i) = (n = ''Int'' \<or> n = ''Float'' \<or> n = ''ID'')"
| "builtin_response n (JFloat f) = (n = ''Float'')"
| "builtin_response n (JBool b) = (n = ''Boolean'')"
| "builtin_response n _ = False"

fun is_composite :: "extended_type \<Rightarrow> bool" where
  "is_composite (ObjectType d n ds is fs) = True"
| "is_composite (InterfaceType d n ds is fs) = True"
| "is_composite (UnionType d n ds ms) = True"
| "is_composite _ = False"

lemma response_type_mono [mono]:
  "R \<le> R' \<Longrightarrow> response_type R t ss p v \<longrightarrow> response_type R' t ss p v"
  by (induction R t ss p v rule: response_type.induct) (auto simp: le_fun_def)

lemma field_response_mono [mono]:
  "R \<le> R' \<Longrightarrow> field_response R p f d x \<longrightarrow> field_response R' p f d x"
  using response_type_mono[of R R'] by (auto simp: field_response_def split: option.split)

lemma object_response_mono [mono]:
  "R \<le> R' \<Longrightarrow> object_response E R parent ss p kvs \<longrightarrow> object_response E R' parent ss p kvs"
  using field_response_mono[of R R'] unfolding object_response_def by blast

inductive response_named ::
    "output_env \<Rightarrow> (string \<Rightarrow> json \<Rightarrow> json \<Rightarrow> bool) \<Rightarrow> string \<Rightarrow> selection list \<Rightarrow> PrivateFieldTree \<Rightarrow> json \<Rightarrow> bool"
  for E other where
  builtin: "builtin_output n = Some s \<Longrightarrow> builtin_response n v \<Longrightarrow> response_named E other n ss p v"
| enum: "builtin_output n = None \<Longrightarrow> output_type E n = Some (EnumType d n' ds vs) \<Longrightarrow> ev \<in> set vs \<Longrightarrow>
    response_named E other n ss p (JString (ev_value (snd ev)))"
| scalar: "builtin_output n = None \<Longrightarrow> output_type E n = Some (ScalarType d n' ds) \<Longrightarrow>
    (\<And>s. wk_custom_scalars (oe_walker E) n = Some s \<Longrightarrow>
       accepts \<lparr>vd_definitions = [], vd_ref_limit = 0, vd_keyword = other\<rparr> 0 s v) \<Longrightarrow>
    response_named E other n ss p v"
| composite: "builtin_output n = None \<Longrightarrow> output_type E n = Some parent \<Longrightarrow> is_composite parent \<Longrightarrow> ss \<noteq> [] \<Longrightarrow>
    object_response E (response_named E other) parent ss p kvs \<Longrightarrow>
    response_named E other n ss p (JObject kvs)"

end
