(* ===== verification/Output_Sound.thy ===== *)
theory Output_Sound
  imports Output_Values
begin

text \<open>
  Soundness of the output schemas: the contract of the generator of named types, what the steps
  that use it make of it (in the locale \<open>output_builder\<close>), and its fulfilment by the generator
  itself at every depth.
\<close>

declare map_of_eq_Some_iff [simp del] Some_eq_map_of_iff [simp del]

section \<open>What the generator may be given\<close>

text \<open>
  Types are stored under their names, which do not start with a dollar sign; the members of a
  union are distinct; and the map of implementers lists, in some order, object types that
  implement the interface.
\<close>

definition implements_interface :: "output_env \<Rightarrow> string \<Rightarrow> string \<Rightarrow> bool" where
  "implements_interface E T n \<longleftrightarrow>
     (case output_type E T of Some (ObjectType d n' ds is fs) \<Rightarrow> n \<in> set is | _ \<Rightarrow> False)"

definition env_ok :: "output_env \<Rightarrow> bool" where
  "env_ok E \<longleftrightarrow>
     walker_ok (oe_walker E) \<and>
     (\<forall>n t. output_type E n = Some t \<longrightarrow> et_name t = n \<and> take 1 n \<noteq> ''$'') \<and>
     (\<forall>n d n' ds ms. output_type E n = Some (UnionType d n' ds ms) \<longrightarrow> distinct ms) \<and>
     (\<forall>n objects. oe_implementers E n = Some objects \<longrightarrow>
        distinct objects \<and> (\<forall>T \<in> set objects. implements_interface E T n))"

lemma env_walker: "env_ok E \<Longrightarrow> walker_ok (oe_walker E)"
  unfolding env_ok_def by blast

lemma env_name: "env_ok E \<Longrightarrow> output_type E n = Some t \<Longrightarrow> et_name t = n"
  unfolding env_ok_def by blast

lemma env_dollar: "env_ok E \<Longrightarrow> output_type E (CHR ''$'' # n) = None"
proof (rule ccontr)
  assume "env_ok E" "output_type E (CHR ''$'' # n) \<noteq> None"
  then have "take 1 (CHR ''$'' # n) \<noteq> ''$''" unfolding env_ok_def by blast
  then show False by simp
qed

lemma env_union: "env_ok E \<Longrightarrow> output_type E n = Some (UnionType d n' ds ms) \<Longrightarrow> distinct ms"
  unfolding env_ok_def by blast

lemma env_implementers:
  "env_ok E \<Longrightarrow> oe_implementers E n = Some objects \<Longrightarrow>
     distinct objects \<and> (\<forall>T \<in> set objects. implements_interface E T n)"
  unfolding env_ok_def by blast

lemma members_apply:
  assumes "env_ok E" "output_type E n = Some parent" "is_composite parent"
  shows "distinct (member_names E parent) \<and> (\<forall>T \<in> set (member_names E parent). type_applies E T parent)"
proof -
  have name: "et_name parent = n" by (rule env_name[OF assms(1,2)])
  show ?thesis
  proof (cases parent)
    case (ObjectType d n' ds ifs fs)
    then show ?thesis by (simp add: member_names_def type_applies_def)
  next
    case (InterfaceType d n' ds ifs fs)
    have "type_applies E T parent" if "implements_interface E T n" for T
      using that InterfaceType name assms(2)
      by (auto simp: implements_interface_def type_applies_def is_subtype_def split: option.splits extended_type.splits)
    then have ap: "distinct l \<and> (\<forall>T \<in> set l. type_applies E T parent)" if "oe_implementers E n = Some l" for l
      using env_implementers[OF assms(1) that] by blast
    have self: "type_applies E (et_name parent) parent" by (simp add: type_applies_def)
    have "n' = n" using name InterfaceType by simp
    then have "member_names E parent =
        (case oe_implementers E n of None \<Rightarrow> [et_name parent] | Some l \<Rightarrow> if l = [] then [et_name parent] else l)"
      using InterfaceType by (simp add: member_names_def split: option.split)
    then show ?thesis using ap self by (cases "oe_implementers E n") simp_all
  next
    case (UnionType d n' ds ms)
    have dist: "distinct ms" using env_union[OF assms(1)] assms(2) UnionType by blast
    have ap: "type_applies E T parent" if "T \<in> set ms" for T
      using that name assms(2) UnionType by (simp add: type_applies_def is_subtype_def)
    have self: "type_applies E (et_name parent) parent" by (simp add: type_applies_def)
    have "member_names E parent = (if ms = [] then [et_name parent] else ms)"
      using UnionType by (simp add: member_names_def)
    then show ?thesis using dist ap self by simp
  qed (use assms(3) in simp_all)
qed

section \<open>The definitions grow\<close>

definition defs_ok :: "output_env \<Rightarrow> definitions \<Rightarrow> bool" where
  "defs_ok E D \<longleftrightarrow>
     (\<forall>n \<in> obj_keys D.
        (\<exists>d n' ds vs. output_type E n = Some (EnumType d n' ds vs) \<and> map_of D n = Some (output_enum_schema d vs)) \<or>
        (\<exists>i < length D. n = ''$otherResponseKeys'' @ decimal i \<or> n = ''$sharedField'' @ decimal i))"

definition defs_le :: "definitions \<Rightarrow> definitions \<Rightarrow> bool" where
  "defs_le D D' \<longleftrightarrow> map_of D \<subseteq>\<^sub>m map_of D'"

lemma defs_ok_Nil [simp]: "defs_ok E []"
  by (simp add: defs_ok_def)

lemma defs_le_refl [simp]: "defs_le D D"
  by (simp add: defs_le_def)

lemma defs_le_trans: "defs_le A B \<Longrightarrow> defs_le B C \<Longrightarrow> defs_le A C"
  unfolding defs_le_def by (rule map_le_trans)

lemma defs_leD: "defs_le D D' \<Longrightarrow> map_of D n = Some s \<Longrightarrow> map_of D' n = Some s"
  by (auto simp: defs_le_def map_le_def dom_def)

lemma defs_le_insert: "n \<notin> obj_keys D \<Longrightarrow> defs_le D (obj_insert n s D)"
  by (auto simp: defs_le_def map_le_def simp flip: map_of_None_keys)

lemma defs_ok_insert:
  assumes "defs_ok E D" "n \<notin> obj_keys D"
    and "(\<exists>d n' ds vs. output_type E n = Some (EnumType d n' ds vs) \<and> s = output_enum_schema d vs) \<or>
      n = ''$otherResponseKeys'' @ decimal (length D) \<or> n = ''$sharedField'' @ decimal (length D)"
  shows "defs_ok E (obj_insert n s D)"
proof -
  have len: "length (obj_insert n s D) = Suc (length D)" using assms(2) by (simp add: obj_insert_new)
  show ?thesis
    unfolding defs_ok_def
  proof
    fix m assume m: "m \<in> obj_keys (obj_insert n s D)"
    show "(\<exists>d n' ds vs. output_type E m = Some (EnumType d n' ds vs) \<and>
          map_of (obj_insert n s D) m = Some (output_enum_schema d vs)) \<or>
        (\<exists>i < length (obj_insert n s D). m = ''$otherResponseKeys'' @ decimal i \<or> m = ''$sharedField'' @ decimal i)"
    proof (cases "m = n")
      case True
      then show ?thesis using assms(3) by (auto simp: len)
    next
      case False
      then have "m \<in> obj_keys D" using m by simp
      with assms(1) False show ?thesis unfolding defs_ok_def by (auto simp: len less_Suc_eq)
    qed
  qed
qed

text \<open>A numbered name is not taken yet, and no definition has the name of another type.\<close>

lemma numbered_fresh:
  assumes "env_ok E" "defs_ok E D" "length D \<le> i"
  shows "''$otherResponseKeys'' @ decimal i \<notin> obj_keys D" "''$sharedField'' @ decimal i \<notin> obj_keys D"
  using assms(2,3) env_dollar[OF assms(1)] by (fastforce simp: defs_ok_def)+

lemma type_in_defs:
  assumes "env_ok E" "defs_ok E D" "n \<in> obj_keys D" "output_type E n = Some t"
  obtains d n' ds vs where "t = EnumType d n' ds vs" "map_of D n = Some (output_enum_schema d vs)"
proof -
  have "n \<noteq> ''$otherResponseKeys'' @ decimal i" "n \<noteq> ''$sharedField'' @ decimal i" for i
    using assms(4) env_dollar[OF assms(1)] by auto
  with bspec[OF assms(2)[unfolded defs_ok_def] assms(3)] assms(4) that show thesis by auto
qed

section \<open>The contract of a generator of named types\<close>

definition reader :: "(string \<Rightarrow> json \<Rightarrow> json \<Rightarrow> bool) \<Rightarrow> nat \<Rightarrow> definitions \<Rightarrow> validator" where
  "reader other l F = \<lparr>vd_definitions = F, vd_ref_limit = Suc l, vd_keyword = other\<rparr>"

lemma reader_simps [simp]:
  "vd_definitions (reader other l F) = F" "vd_ref_limit (reader other l F) = Suc l"
  "vd_keyword (reader other l F) = other"
  by (simp_all add: reader_def)

lemma accepts_defined:
  "map_of F n = Some s \<Longrightarrow> accepts (reader other l F) (Suc r) (schema_ref n) v = accepts (reader other l F) r s v"
  by (simp add: accepts_schema_ref)

text \<open>
  The generator extends the definitions, and its schema accepts the responses of the type under
  any definitions that extend those it leaves.
\<close>

locale output_builder =
  fixes E :: output_env and other :: "string \<Rightarrow> json \<Rightarrow> json \<Rightarrow> bool" and named :: named_output
    and R :: response_pred
  assumes named_grows: "env_ok E \<Longrightarrow> defs_ok E D \<Longrightarrow> named n ss p D = Some (s, D') \<Longrightarrow>
      defs_ok E D' \<and> defs_le D D' \<and> is_schema s"
    and named_accepts: "env_ok E \<Longrightarrow> defs_ok E D \<Longrightarrow> named n ss p D = Some (s, D') \<Longrightarrow> defs_le D' F \<Longrightarrow>
      R n ss p v \<Longrightarrow> accepts (reader other l F) (Suc r) s v"

context output_builder
begin

lemma type_grows:
  "env_ok E \<Longrightarrow> defs_ok E D \<Longrightarrow> type_to_output_schema named t ss p D = Some (s, D') \<Longrightarrow>
     defs_ok E D' \<and> defs_le D D' \<and> is_schema s"
  by (induction t arbitrary: s) (auto dest: named_grows)

lemma type_accepts:
  "env_ok E \<Longrightarrow> defs_ok E D \<Longrightarrow> type_to_output_schema named t ss p D = Some (s, D') \<Longrightarrow> defs_le D' F \<Longrightarrow>
     response_type R t ss p v \<Longrightarrow> accepts (reader other l F) (Suc r) s v"
proof (induction t arbitrary: s v r)
  case (Named n)
  then show ?case using named_accepts by auto
next
  case (NonNullNamed n)
  then show ?case using named_accepts by auto
next
  case (ListOf t)
  then show ?case by auto
next
  case (NonNullList t)
  then show ?case by auto
qed

text \<open>The state of the fields loop under the entries of a response object.\<close>

definition fields_ok :: "definitions \<Rightarrow> nat \<Rightarrow> (string \<times> json) list \<Rightarrow> (string \<times> json list) list \<Rightarrow> string list \<Rightarrow> bool" where
  "fields_ok F l kvs schemas required \<longleftrightarrow>
     distinct (map fst schemas) \<and>
     (\<forall>k ss. map_of schemas k = Some ss \<longrightarrow>
        (\<exists>x. map_of kvs k = Some x \<and> (\<forall>s \<in> set ss. accepts (reader other l F) (Suc l) s x))) \<and>
     (\<forall>k \<in> set required. map_of kvs k \<noteq> None)"

lemma fields_ok_push:
  assumes "fields_ok F l kvs schemas required" "map_of kvs k = Some x" "accepts (reader other l F) (Suc l) s x"
  shows "fields_ok F l kvs (push_schema k s schemas) required"
  using assms by (fastforce simp: fields_ok_def push_schema_def Let_def split: option.splits if_splits)

definition field_held :: "PrivateFieldTree \<Rightarrow> (string \<times> json) list \<Rightarrow> SelectedField \<Rightarrow> bool" where
  "field_held p kvs sf \<longleftrightarrow>
     (key_hidden p (field_key (sf_field sf)) \<or>
      (\<exists>x. map_of kvs (field_key (sf_field sf)) = Some x \<and> field_response R p (sf_field sf) (declared_on sf) x))"

lemma add_field_grows:
  "env_ok E \<Longrightarrow> defs_ok E D \<Longrightarrow> add_field (oe_walker E) named p sf (schemas, required, D) = Some (schemas', required', D') \<Longrightarrow>
     defs_ok E D' \<and> defs_le D D'"
  by (auto simp: add_field_def Let_def split: if_splits option.splits dest: type_grows)

lemma add_field_ok:
  assumes "env_ok E" "defs_ok E D"
    and add: "add_field (oe_walker E) named p sf (schemas, required, D) = Some (schemas', required', D')"
    and "defs_le D' F" "fields_ok F l kvs schemas required" "field_held p kvs sf"
  shows "fields_ok F l kvs schemas' required'"
proof (cases "key_hidden p (field_key (sf_field sf))")
  case True
  then show ?thesis using add assms(5) by (simp add: add_field_def)
next
  case False
  then obtain x where x: "map_of kvs (field_key (sf_field sf)) = Some x"
    and resp: "field_response R p (sf_field sf) (declared_on sf) x"
    using assms(6) by (auto simp: field_held_def)
  show ?thesis
  proof (cases "sel_name (sf_field sf) = ''__typename''")
    case True
    with resp have "accepts (reader other l F) (Suc l) typename_schema x"
      by (simp add: field_response_def typename_schema_def schema_simps)
    with fields_ok_push[OF assms(5) x] show ?thesis
      using add True \<open>\<not> key_hidden p _\<close> by (auto simp: add_field_def)
  next
    case named_field: False
    show ?thesis
    proof (cases "get_field_definition (declared_on sf) (sel_name (sf_field sf))")
      case None
      then show ?thesis using add False named_field assms(5) by (simp add: add_field_def)
    next
      case (Some fd)
      obtain s where s: "type_to_output_schema named (fd_ty fd) (sel_selection_set (sf_field sf))
          (child_or_default (field_key (sf_field sf)) p) D = Some (s, D')"
        and st: "schemas' = push_schema (field_key (sf_field sf)) (with_desc (oe_walker E) s (fd_description fd)) schemas"
        "set required' \<subseteq> insert (field_key (sf_field sf)) (set required)"
        using add False named_field Some by (auto simp: add_field_def Let_def split: option.splits if_splits)
      have "response_type R (fd_ty fd) (sel_selection_set (sf_field sf)) (child_or_default (field_key (sf_field sf)) p) x"
        using resp named_field Some by (simp add: field_response_def)
      then have "accepts (reader other l F) (Suc l) (with_desc (oe_walker E) s (fd_description fd)) x"
        using type_accepts[OF assms(1,2) s assms(4)] type_grows[OF assms(1,2) s] env_walker[OF assms(1)] by simp
      from fields_ok_push[OF assms(5) x this] st x show ?thesis by (auto simp: fields_ok_def)
    qed
  qed
qed

lemma add_fields_grows:
  "env_ok E \<Longrightarrow> defs_ok E D \<Longrightarrow> add_fields (oe_walker E) named p sfs (schemas, required, D) = Some (schemas', required', D') \<Longrightarrow>
     defs_ok E D' \<and> defs_le D D'"
proof (induction sfs arbitrary: schemas required D)
  case (Cons sf sfs)
  obtain schemas1 required1 D1 where one: "add_field (oe_walker E) named p sf (schemas, required, D) = Some (schemas1, required1, D1)"
    and two: "add_fields (oe_walker E) named p sfs (schemas1, required1, D1) = Some (schemas', required', D')"
    using Cons.prems(3) by (auto split: option.splits)
  from add_field_grows[OF Cons.prems(1,2) one] Cons.IH[OF Cons.prems(1) _ two] show ?case
    using defs_le_trans by blast
qed auto

lemma add_fields_ok:
  "env_ok E \<Longrightarrow> defs_ok E D \<Longrightarrow> add_fields (oe_walker E) named p sfs (schemas, required, D) = Some (schemas', required', D') \<Longrightarrow>
     defs_le D' F \<Longrightarrow> fields_ok F l kvs schemas required \<Longrightarrow> \<forall>sf \<in> set sfs. field_held p kvs sf \<Longrightarrow>
     fields_ok F l kvs schemas' required'"
proof (induction sfs arbitrary: schemas required D)
  case (Cons sf sfs)
  obtain schemas1 required1 D1 where one: "add_field (oe_walker E) named p sf (schemas, required, D) = Some (schemas1, required1, D1)"
    and two: "add_fields (oe_walker E) named p sfs (schemas1, required1, D1) = Some (schemas', required', D')"
    using Cons.prems(3) by (auto split: option.splits)
  note g1 = add_field_grows[OF Cons.prems(1,2) one]
  note g2 = add_fields_grows[OF Cons.prems(1) conjunct1[OF g1] two]
  have "fields_ok F l kvs schemas1 required1"
    using add_field_ok[OF Cons.prems(1,2) one _ Cons.prems(5)] g2 Cons.prems(4,6) defs_le_trans by auto
  from Cons.IH[OF Cons.prems(1) conjunct1[OF g1] two Cons.prems(4) this] Cons.prems(6) show ?case by simp
qed auto

lemma build_fields_grows:
  assumes "env_ok E" "defs_ok E D" "build_fields_schema (oe_walker E) named sfs p D = Some (s, D')"
  shows "defs_ok E D'" "defs_le D D'"
    "\<exists>entries. s = JObject entries \<and> ''propertyNames'' \<notin> obj_keys entries"
proof -
  obtain schemas required where add: "add_fields (oe_walker E) named p sfs ([], [], D) = Some (schemas, required, D')"
    and s: "s = JObject ([(''type'', JString ''object'')] @
            (if schemas = [] then []
             else [(''properties'', JObject (map (\<lambda>ks. (fst ks, property_schema (snd ks))) schemas))]) @
            required_entry required)"
    using assms(3) by (auto simp: build_fields_schema_def)
  show "defs_ok E D'" "defs_le D D'" using add_fields_grows[OF assms(1,2) add] by auto
  show "\<exists>entries. s = JObject entries \<and> ''propertyNames'' \<notin> obj_keys entries"
    by (rule exI, rule conjI[OF s]) (auto simp: required_entry_def obj_keys_def)
qed

lemma accepts_property_schema:
  "accepts V r (property_schema ss) x \<longleftrightarrow> (\<forall>s \<in> set ss. accepts V r s x)"
  by (auto simp: property_schema_def all_of_def schema_simps split: list.split)

lemma build_fields_accepts:
  assumes "env_ok E" "defs_ok E D" "build_fields_schema (oe_walker E) named sfs p D = Some (s, D')"
    and "defs_le D' F" "\<forall>sf \<in> set sfs. field_held p kvs sf"
  shows "accepts (reader other l F) r s (JObject kvs)"
proof -
  obtain schemas required where add: "add_fields (oe_walker E) named p sfs ([], [], D) = Some (schemas, required, D')"
    and s: "s = JObject ([(''type'', JString ''object'')] @
            (if schemas = [] then []
             else [(''properties'', JObject (map (\<lambda>ks. (fst ks, property_schema (snd ks))) schemas))]) @
            required_entry required)"
    using assms(3) by (auto simp: build_fields_schema_def)
  have ok: "fields_ok F l kvs schemas required"
    by (rule add_fields_ok[OF assms(1,2) add assms(4) _ assms(5)]) (simp add: fields_ok_def)
  have props: "\<forall>ks \<in> set schemas. case map_of kvs (fst ks) of None \<Rightarrow> True
      | Some x \<Rightarrow> accepts (reader other l F) (Suc l) (property_schema (snd ks)) x"
  proof
    fix ks assume "ks \<in> set schemas"
    then have "map_of schemas (fst ks) = Some (snd ks)"
      using ok map_of_is_SomeI[of schemas "fst ks" "snd ks"] by (simp add: fields_ok_def)
    then obtain x where "map_of kvs (fst ks) = Some x"
      "\<forall>s \<in> set (snd ks). accepts (reader other l F) (Suc l) s x"
      using ok unfolding fields_ok_def by blast
    then show "case map_of kvs (fst ks) of None \<Rightarrow> True
        | Some x \<Rightarrow> accepts (reader other l F) (Suc l) (property_schema (snd ks)) x"
      by (simp add: accepts_property_schema)
  qed
  have req: "required_keyword (JArray (map JString required)) (JObject kvs)"
    using ok by (auto simp: fields_ok_def required_keyword_def map_of_eq_None_iff)
  show ?thesis
    using props req
    by (simp add: s accepts_object keyword_holds_simps required_entry_def cong: option.case_cong)
qed

lemma share_fields_spec:
  "env_ok E \<Longrightarrow> defs_ok E D \<Longrightarrow> share_fields (oe_walker E) named groups p rest shared D = Some (shared', D') \<Longrightarrow>
     defs_ok E D' \<and> defs_le D D' \<and>
     (\<forall>i ref. (i, ref) \<in> set shared' \<longrightarrow> (i, ref) \<in> set shared \<or>
        (\<exists>sf name s Da Db. (i, sf) \<in> set rest \<and> ref = schema_ref name \<and>
           build_fields_schema (oe_walker E) named [sf] p Da = Some (s, Db) \<and> defs_ok E Da \<and>
           defs_le Db D' \<and> map_of D' name = Some s))"
proof (induction rest arbitrary: shared D)
  case (Cons isf rest)
  obtain i sf where isf: "isf = (i, sf)" by (cases isf)
  show ?case
  proof (cases "length (filter (\<lambda>sig. i \<in> set sig) groups) < 2 \<or> key_hidden p (field_key (sf_field sf))")
    case True
    with Cons isf show ?thesis by fastforce
  next
    case False
    then obtain s Db where s: "build_fields_schema (oe_walker E) named [sf] p D = Some (s, Db)"
      using Cons.prems(3) isf by (auto split: option.splits)
    let ?name = "''$sharedField'' @ decimal (length Db)"
    let ?D = "obj_insert ?name s Db"
    have rest: "share_fields (oe_walker E) named groups p rest (shared @ [(i, schema_ref ?name)]) ?D = Some (shared', D')"
      using Cons.prems(3) isf False s by (simp add: Let_def)
    note grows = build_fields_grows[OF Cons.prems(1,2) s]
    have fresh: "?name \<notin> obj_keys Db" by (rule numbered_fresh(2)[OF Cons.prems(1) grows(1)]) simp
    have ok: "defs_ok E ?D" by (rule defs_ok_insert[OF grows(1) fresh]) simp
    have le: "defs_le Db ?D" by (rule defs_le_insert[OF fresh])
    note IH = Cons.IH[OF Cons.prems(1) ok rest]
    have "defs_le D D'" using grows(2) le IH defs_le_trans by blast
    moreover have "defs_le Db D'" using le IH defs_le_trans by blast
    moreover have "map_of D' ?name = Some s" using IH defs_leD[of ?D D' ?name s] by simp
    ultimately show ?thesis using IH isf s Cons.prems(2) by fastforce
  qed
qed auto

lemma build_branches_spec:
  "env_ok E \<Longrightarrow> defs_ok E D \<Longrightarrow>
   build_branches (oe_walker E) named conditional exclusions others shared p groups D = Some (branches, D') \<Longrightarrow>
     defs_ok E D' \<and> defs_le D D' \<and>
     (\<forall>sig \<in> set groups. \<exists>s Da Db.
        build_fields_schema (oe_walker E) named
          (map ((!) conditional) (filter (\<lambda>i. map_of shared i = None \<and> i < length conditional) sig)) p Da = Some (s, Db) \<and>
        defs_ok E Da \<and> defs_le Db D' \<and>
        branch_schema others (group_keys conditional exclusions sig) (filter_map (map_of shared) sig) s \<in> set branches)"
proof (induction groups arbitrary: D branches)
  case (Cons sig groups)
  let ?sfs = "map ((!) conditional) (filter (\<lambda>i. map_of shared i = None \<and> i < length conditional) sig)"
  obtain s Db bs where s: "build_fields_schema (oe_walker E) named ?sfs p D = Some (s, Db)"
    and rest: "build_branches (oe_walker E) named conditional exclusions others shared p groups Db = Some (bs, D')"
    and branches: "branches = branch_schema others (group_keys conditional exclusions sig)
        (filter_map (map_of shared) sig) s # bs"
    using Cons.prems(3) by (auto split: option.splits)
  note grows = build_fields_grows[OF Cons.prems(1,2) s]
  note IH = Cons.IH[OF Cons.prems(1) grows(1) rest]
  have "defs_le D D'" using grows(2) IH defs_le_trans by blast
  then show ?case using IH branches s Cons.prems(2) by fastforce
qed auto

lemma other_keys_spec:
  assumes "env_ok E" "defs_ok E D" "other_keys exclusions D = (others, D')"
  shows "defs_ok E D'" "defs_le D D'"
    "exclusions = [] \<Longrightarrow> others = None"
    "exclusions \<noteq> [] \<Longrightarrow> \<exists>name. others = Some (schema_ref name) \<and>
       map_of D' name = Some (JObject [(''not'', JObject [(''enum'', JArray (map JString exclusions))])])"
proof -
  let ?name = "''$otherResponseKeys'' @ decimal (length D)"
  have fresh: "?name \<notin> obj_keys D" by (rule numbered_fresh(1)[OF assms(1,2)]) simp
  show "defs_ok E D'"
    using assms(2,3) defs_ok_insert[OF assms(2) fresh] by (auto simp: other_keys_def Let_def split: if_splits)
  show "defs_le D D'"
    using assms(3) defs_le_insert[OF fresh] by (auto simp: other_keys_def Let_def split: if_splits)
  show "exclusions = [] \<Longrightarrow> others = None"
    using assms(3) by (simp add: other_keys_def)
  show "exclusions \<noteq> [] \<Longrightarrow> \<exists>name. others = Some (schema_ref name) \<and>
       map_of D' name = Some (JObject [(''not'', JObject [(''enum'', JArray (map JString exclusions))])])"
    using assms(3) by (auto simp: other_keys_def Let_def)
qed

lemma accepts_branch:
  assumes entries: "s = JObject entries" "''propertyNames'' \<notin> obj_keys entries"
    and s: "accepts V r s (JObject kvs)" "\<forall>ref \<in> set shared. accepts V r ref (JObject kvs)"
    and others: "case others of None \<Rightarrow> True | Some ref \<Rightarrow> \<forall>k \<in> obj_keys kvs.
       k \<in> set keys \<or> accepts V (vd_ref_limit V) ref (JString k)"
  shows "accepts V r (branch_schema others keys shared s) (JObject kvs)"
proof -
  define branch where "branch = (if shared = [] then s else all_of (s # shared))"
  have acc: "accepts V r branch (JObject kvs)"
    using s by (simp add: branch_def all_of_def schema_simps)
  have keys: "''propertyNames'' \<notin> obj_keys (json_entries branch)" "branch = JObject (json_entries branch)"
    using entries by (auto simp: branch_def all_of_def)
  show ?thesis
  proof (cases others)
    case None
    then show ?thesis using acc by (simp add: branch_schema_def branch_def)
  next
    case (Some ref)
    let ?names = "if keys = [] then ref else any_of [JObject [(''enum'', JArray (map JString keys))], ref]"
    have "accepts V (vd_ref_limit V) ?names (JString k)" if "k \<in> obj_keys kvs" for k
      using others Some that by (auto simp: any_of_def schema_simps)
    then have "keyword_holds V r ''propertyNames'' ?names (JObject kvs)"
      by (auto simp: keyword_holds_simps obj_keys_def)
    moreover have "\<forall>kw \<in> set (json_entries branch). keyword_holds V r (fst kw) (snd kw) (JObject kvs)"
      using acc keys(2) accepts_object by metis
    ultimately show ?thesis
      using keys(1) Some
      by (auto simp: branch_schema_def Let_def accepts_object obj_insert_new simp flip: branch_def)
  qed
qed

lemma selection_parts:
  assumes "build_selection_set_schema E k named ss parent p D = Some (s, D')"
  obtains visited selected common conditional common_schema D1 where
    "collect_selected_fields E (member_names E parent) k ss parent [0..<length (member_names E parent)] ([], []) =
       Some (visited, selected)"
    "common = filter (\<lambda>sf. length (members sf) = length (member_names E parent)) selected"
    "conditional = filter (\<lambda>sf. length (members sf) \<noteq> length (member_names E parent)) selected"
    "build_fields_schema (oe_walker E) named common p D = Some (common_schema, D1)"
    "conditional = [] \<and> s = common_schema \<and> D' = D1 \<or>
     (\<exists>others D2 shared D3 branches.
        other_keys (fallback_exclusions common conditional p) D1 = (others, D2) \<and>
        share_fields (oe_walker E) named
          (btree_set lex_le (map (signature conditional) [0..<length (member_names E parent)])) p
          (enumerated conditional) [] D2 = Some (shared, D3) \<and>
        build_branches (oe_walker E) named conditional (fallback_exclusions common conditional p) others shared p
          (btree_set lex_le (map (signature conditional) [0..<length (member_names E parent)])) D3 = Some (branches, D') \<and>
        s = all_of [common_schema, any_of branches])"
proof -
  let ?W = "oe_walker E" and ?ms = "member_names E parent"
  note def = assms[unfolded build_selection_set_schema_def Let_def]
  obtain visited selected where
    c: "collect_selected_fields E ?ms k ss parent [0..<length ?ms] ([], []) = Some (visited, selected)"
    using def by (cases "collect_selected_fields E ?ms k ss parent [0..<length ?ms] ([], [])") auto
  let ?common = "filter (\<lambda>sf. length (members sf) = length ?ms) selected"
  let ?conditional = "filter (\<lambda>sf. length (members sf) \<noteq> length ?ms) selected"
  note def1 = def[unfolded c option.case prod.case]
  obtain common_schema D1 where
    b: "build_fields_schema ?W named ?common p D = Some (common_schema, D1)"
    using def1 by (cases "build_fields_schema ?W named ?common p D") auto
  note def2 = def1[unfolded b option.case prod.case]
  show thesis
  proof (cases "?conditional = []")
    case True
    then have "s = common_schema \<and> D' = D1" using def2 by simp
    with that[OF c refl refl b] True show thesis by blast
  next
    case False
    obtain others D2 where o: "other_keys (fallback_exclusions ?common ?conditional p) D1 = (others, D2)"
      by fastforce
    let ?groups = "btree_set lex_le (map (signature ?conditional) [0..<length ?ms])"
    note def3 = def2[unfolded if_not_P[OF False] o prod.case]
    obtain shared D3 where sh: "share_fields ?W named ?groups p (enumerated ?conditional) [] D2 = Some (shared, D3)"
      using def3 by (cases "share_fields ?W named ?groups p (enumerated ?conditional) [] D2") auto
    note def4 = def3[unfolded sh option.case prod.case]
    obtain branches where br: "build_branches ?W named ?conditional (fallback_exclusions ?common ?conditional p)
        others shared p ?groups D3 = Some (branches, D')" and s: "s = all_of [common_schema, any_of branches]"
      using def4 by (cases "build_branches ?W named ?conditional (fallback_exclusions ?common ?conditional p)
        others shared p ?groups D3") auto
    show thesis
      by (rule that[OF c refl refl b], rule disjI2, intro exI conjI, rule o, rule sh, rule br, rule s)
  qed
qed

lemma selection_grows:
  assumes "env_ok E" "defs_ok E D" "build_selection_set_schema E k named ss parent p D = Some (s, D')"
  shows "defs_ok E D' \<and> defs_le D D' \<and> is_schema s"
  using assms(3)
proof (rule selection_parts)
  fix visited selected common conditional common_schema D1
  assume common: "build_fields_schema (oe_walker E) named common p D = Some (common_schema, D1)"
    and rest: "conditional = [] \<and> s = common_schema \<and> D' = D1 \<or>
     (\<exists>others D2 shared D3 branches.
        other_keys (fallback_exclusions common conditional p) D1 = (others, D2) \<and>
        share_fields (oe_walker E) named
          (btree_set lex_le (map (signature conditional) [0..<length (member_names E parent)])) p
          (enumerated conditional) [] D2 = Some (shared, D3) \<and>
        build_branches (oe_walker E) named conditional (fallback_exclusions common conditional p) others shared p
          (btree_set lex_le (map (signature conditional) [0..<length (member_names E parent)])) D3 = Some (branches, D') \<and>
        s = all_of [common_schema, any_of branches])"
  note g = build_fields_grows[OF assms(1,2) common]
  from rest show ?thesis
  proof (elim disjE exE conjE)
    assume "s = common_schema" "D' = D1"
    then show ?thesis using g by auto
  next
    fix others D2 shared D3 branches
    assume o: "other_keys (fallback_exclusions common conditional p) D1 = (others, D2)"
      and sh: "share_fields (oe_walker E) named
          (btree_set lex_le (map (signature conditional) [0..<length (member_names E parent)])) p
          (enumerated conditional) [] D2 = Some (shared, D3)"
      and b: "build_branches (oe_walker E) named conditional (fallback_exclusions common conditional p) others shared p
          (btree_set lex_le (map (signature conditional) [0..<length (member_names E parent)])) D3 = Some (branches, D')"
      and s: "s = all_of [common_schema, any_of branches]"
    note go = other_keys_spec[OF assms(1) g(1) o]
    note gs = share_fields_spec[OF assms(1) go(1) sh]
    note gb = build_branches_spec[OF assms(1) conjunct1[OF gs] b]
    have "defs_le D D'"
      by (rule defs_le_trans[OF g(2) defs_le_trans[OF go(2) defs_le_trans[of _ D3]]]) (simp_all add: gs gb)
    then show ?thesis using conjunct1[OF gb] s by (simp add: all_of_def)
  qed
qed

lemma selected_held:
  assumes "env_ok E" "output_type E n = Some parent" "is_composite parent"
    and c: "collect_selected_fields E (member_names E parent) k ss parent [0..<length (member_names E parent)] ([], []) =
       Some (visited, selected)"
    and m: "m < length (member_names E parent)"
    and resp: "\<forall>f d. selects E (member_names E parent ! m) parent ss f d \<longrightarrow> \<not> key_hidden p (field_key f) \<longrightarrow>
           (\<exists>x. map_of kvs (field_key f) = Some x \<and> field_response R p f d x)"
  shows "sf \<in> set selected \<Longrightarrow> m \<in> set (members sf) \<Longrightarrow> field_held p kvs sf"
    and "sf \<in> set selected \<Longrightarrow> length (members sf) = length (member_names E parent) \<Longrightarrow> field_held p kvs sf"
proof -
  let ?ms = "member_names E parent"
  have ms: "distinct ?ms" "\<And>m. m < length ?ms \<Longrightarrow> type_applies E (?ms ! m) parent"
    using members_apply[OF assms(1-3)] by auto
  have sound: "sf_sound E ?ms [0..<length ?ms] parent ss sf" if "sf \<in> set selected" for sf
    using collect_top(1)[OF c ms(1) _ that] ms(2) by blast
  show held: "field_held p kvs sf" if "sf \<in> set selected" "m \<in> set (members sf)" for sf
    using sound[OF that(1)] that(2) resp unfolding sf_sound_def field_held_def by blast
  assume sf: "sf \<in> set selected" and all: "length (members sf) = length ?ms"
  have "distinct (members sf)" "set (members sf) \<subseteq> {..<length ?ms}"
    using sound[OF sf] by (auto simp: sf_sound_def)
  then have "set (members sf) = {..<length ?ms}"
    using all by (intro card_subset_eq) (simp_all add: distinct_card)
  with m have "m \<in> set (members sf)" by simp
  then show "field_held p kvs sf" by (rule held[OF sf])
qed

lemma signature_index:
  "i \<in> set (signature conditional m) \<longleftrightarrow> i < length conditional \<and> m \<in> set (members (conditional ! i))"
  by (force simp: signature_def enumerated_def in_set_zip)

lemma shared_accepts:
  assumes "env_ok E" "defs_ok E D"
    and sh: "share_fields (oe_walker E) named groups p (enumerated conditional) [] D = Some (shared, D')"
    and "defs_le D' F" "map_of shared i = Some ref" "field_held p kvs (conditional ! i)"
  shows "accepts (reader other l F) (Suc r) ref (JObject kvs)"
proof -
  have "(i, ref) \<in> set shared" using assms(5) by (rule map_of_SomeD)
  then obtain sf name s Da Db where sf: "(i, sf) \<in> set (enumerated conditional)" and ref: "ref = schema_ref name"
    and s: "build_fields_schema (oe_walker E) named [sf] p Da = Some (s, Db)" "defs_ok E Da"
    and le: "defs_le Db D'" "map_of D' name = Some s"
    using share_fields_spec[OF assms(1,2) sh] by fastforce
  have "sf = conditional ! i" using sf by (auto simp: enumerated_def in_set_zip)
  then have "\<forall>sf \<in> set [sf]. field_held p kvs sf" using assms(6) by simp
  note acc = build_fields_accepts[OF assms(1) s(2,1) defs_le_trans[OF le(1) assms(4)] this]
  show ?thesis
    using acc by (simp add: ref accepts_defined[OF defs_leD[OF assms(4) le(2)]])
qed

lemma excluded_key_grouped:
  assumes "k \<in> set (fallback_exclusions common conditional p)"
    and "i < length conditional" "m \<in> set (members (conditional ! i))" "field_key (sf_field (conditional ! i)) = k"
  shows "k \<in> set (group_keys conditional (fallback_exclusions common conditional p) (signature conditional m))"
  using assms by (auto simp: group_keys_def signature_index intro!: image_eqI[of k _ i])

lemma exclusions_common:
  "sf \<in> set common \<Longrightarrow> field_key (sf_field sf) \<notin> set (fallback_exclusions common conditional p)"
  by (auto simp: fallback_exclusions_def)

lemma excluded_response_key:
  assumes "env_ok E" "output_type E n = Some parent" "is_composite parent"
    and c: "collect_selected_fields E (member_names E parent) k ss parent [0..<length (member_names E parent)] ([], []) =
       Some (visited, selected)"
    and m: "m < length (member_names E parent)"
    and only: "\<forall>key \<in> obj_keys kvs. \<exists>f d. selects E (member_names E parent ! m) parent ss f d \<and> field_key f = key"
    and key: "key \<in> obj_keys kvs" "key \<in> set (fallback_exclusions common conditional p)"
    and common: "common = filter (\<lambda>sf. length (members sf) = length (member_names E parent)) selected"
    and conditional: "conditional = filter (\<lambda>sf. length (members sf) \<noteq> length (member_names E parent)) selected"
  shows "key \<in> set (group_keys conditional (fallback_exclusions common conditional p) (signature conditional m))"
proof -
  let ?ms = "member_names E parent"
  have ms: "distinct ?ms" "\<And>m. m < length ?ms \<Longrightarrow> type_applies E (?ms ! m) parent"
    using members_apply[OF assms(1-3)] by auto
  obtain f d where f: "selects E (?ms ! m) parent ss f d" "field_key f = key" using only key(1) by blast
  obtain sf where sf: "sf \<in> set selected" "sf_field sf = f" "m \<in> set (members sf)"
    using collect_top(2)[OF c ms(1) _ m f(1)] ms(2) by blast
  have "sf \<notin> set common" using exclusions_common[of sf common conditional p] sf(2) f(2) key(2) by auto
  then have "sf \<in> set conditional" using sf(1) by (simp add: common conditional)
  then obtain i where "i < length conditional" "conditional ! i = sf" by (auto simp: in_set_conv_nth)
  with excluded_key_grouped[OF key(2)] sf f(2) show ?thesis by blast
qed

lemma selection_accepts:
  assumes E: "env_ok E" and D: "defs_ok E D"
    and parent: "output_type E n = Some parent" "is_composite parent"
    and built: "build_selection_set_schema E k named ss parent p D = Some (s, D')"
    and F: "defs_le D' F" and resp: "object_response E R parent ss p kvs"
  shows "accepts (reader other l F) (Suc r) s (JObject kvs)"
  using built
proof (rule selection_parts)
  let ?ms = "member_names E parent"
  fix visited selected common conditional common_schema D1
  assume c: "collect_selected_fields E ?ms k ss parent [0..<length ?ms] ([], []) = Some (visited, selected)"
    and common: "common = filter (\<lambda>sf. length (members sf) = length ?ms) selected"
    and conditional: "conditional = filter (\<lambda>sf. length (members sf) \<noteq> length ?ms) selected"
    and b: "build_fields_schema (oe_walker E) named common p D = Some (common_schema, D1)"
    and rest: "conditional = [] \<and> s = common_schema \<and> D' = D1 \<or>
     (\<exists>others D2 shared D3 branches.
        other_keys (fallback_exclusions common conditional p) D1 = (others, D2) \<and>
        share_fields (oe_walker E) named (btree_set lex_le (map (signature conditional) [0..<length ?ms])) p
          (enumerated conditional) [] D2 = Some (shared, D3) \<and>
        build_branches (oe_walker E) named conditional (fallback_exclusions common conditional p) others shared p
          (btree_set lex_le (map (signature conditional) [0..<length ?ms])) D3 = Some (branches, D') \<and>
        s = all_of [common_schema, any_of branches])"
  let ?excl = "fallback_exclusions common conditional p"
  obtain m where m: "m < length ?ms"
    and given: "\<forall>f d. selects E (?ms ! m) parent ss f d \<longrightarrow> \<not> key_hidden p (field_key f) \<longrightarrow>
        (\<exists>x. map_of kvs (field_key f) = Some x \<and> field_response R p f d x)"
    and only: "\<forall>key \<in> obj_keys kvs. \<exists>f d. selects E (?ms ! m) parent ss f d \<and> field_key f = key"
    using resp by (auto simp: object_response_def in_set_conv_nth)
  note held = selected_held[OF E parent c m given]
  note g = build_fields_grows[OF E D b]
  have acc_common: "accepts (reader other l F) r' common_schema (JObject kvs)" if "defs_le D1 F" for r'
    using build_fields_accepts[OF E D b that] held(2) common by simp
  from rest show ?thesis
  proof (elim disjE exE conjE)
    assume "s = common_schema" "D' = D1"
    then show ?thesis using acc_common F by simp
  next
    fix others D2 shared D3 branches
    let ?groups = "btree_set lex_le (map (signature conditional) [0..<length ?ms])"
    let ?sig = "signature conditional m"
    assume o: "other_keys ?excl D1 = (others, D2)"
      and sh: "share_fields (oe_walker E) named ?groups p (enumerated conditional) [] D2 = Some (shared, D3)"
      and br: "build_branches (oe_walker E) named conditional ?excl others shared p ?groups D3 = Some (branches, D')"
      and s: "s = all_of [common_schema, any_of branches]"
    let ?own = "map ((!) conditional) (filter (\<lambda>i. map_of shared i = None \<and> i < length conditional) ?sig)"
    note go = other_keys_spec[OF E g(1) o]
    note gs = share_fields_spec[OF E go(1) sh]
    note gb = build_branches_spec[OF E conjunct1[OF gs] br]
    have le3: "defs_le D3 F" using gb F defs_le_trans by blast
    have le2: "defs_le D2 F" using gs le3 defs_le_trans by blast
    have le1: "defs_le D1 F" using go(2) le2 by (rule defs_le_trans)
    have sig: "field_held p kvs (conditional ! i)" if "i \<in> set ?sig" for i
    proof (rule held(1))
      show "conditional ! i \<in> set selected"
        using that conditional nth_mem[of i conditional] by (auto simp: signature_index)
    qed (use that in \<open>simp add: signature_index\<close>)
    have "?sig \<in> set ?groups" using m by simp
    with gb obtain s0 Da Db where s0: "build_fields_schema (oe_walker E) named ?own p Da = Some (s0, Db)" "defs_ok E Da"
      and le0: "defs_le Db D'"
      and branch: "branch_schema others (group_keys conditional ?excl ?sig) (filter_map (map_of shared) ?sig) s0 \<in> set branches"
      by blast
    have leb: "defs_le Db F" using le0 F by (rule defs_le_trans)
    have acc0: "accepts (reader other l F) (Suc r) s0 (JObject kvs)"
      by (rule build_fields_accepts[OF E s0(2,1) leb]) (auto intro: sig)
    have accsh: "\<forall>ref \<in> set (filter_map (map_of shared) ?sig). accepts (reader other l F) (Suc r) ref (JObject kvs)"
      using shared_accepts[OF E go(1) sh le3] sig by (auto simp: set_filter_map)
    obtain entries where entries: "s0 = JObject entries" "''propertyNames'' \<notin> obj_keys entries"
      using build_fields_grows(3)[OF E s0(2,1)] by blast
    have names: "case others of None \<Rightarrow> True | Some ref \<Rightarrow> \<forall>key \<in> obj_keys kvs.
        key \<in> set (group_keys conditional ?excl ?sig) \<or>
        accepts (reader other l F) (vd_ref_limit (reader other l F)) ref (JString key)"
    proof (cases "?excl = []")
      case True
      then show ?thesis using go(3) by simp
    next
      case False
      then obtain name where others: "others = Some (schema_ref name)"
        and def: "map_of D2 name = Some (JObject [(''not'', JObject [(''enum'', JArray (map JString ?excl))])])"
        using go(4) by blast
      have "accepts (reader other l F) (Suc l) (schema_ref name) (JString key)" if "key \<notin> set ?excl" for key
        using that defs_leD[OF le2 def] by (auto simp: schema_simps)
      moreover have "key \<in> set (group_keys conditional ?excl ?sig)" if key: "key \<in> obj_keys kvs" "key \<in> set ?excl" for key
        using excluded_response_key[OF E parent c m only key common conditional] by simp
      ultimately show ?thesis by (auto simp: others)
    qed
    have "accepts (reader other l F) (Suc r)
        (branch_schema others (group_keys conditional ?excl ?sig) (filter_map (map_of shared) ?sig) s0) (JObject kvs)"
      by (rule accepts_branch[OF entries acc0 accsh names])
    with branch acc_common[OF le1] show ?thesis
      by (auto simp: s all_of_def any_of_def schema_simps)
  qed
qed

end

section \<open>The generator fulfils its contract\<close>

lemma builtin_output_schema: "builtin_output n = Some s \<Longrightarrow> is_schema s"
  by (auto simp: builtin_output_def split: if_splits)

lemma builtin_output_accepts:
  "builtin_output n = Some s \<Longrightarrow> builtin_response n v \<Longrightarrow> accepts V r s v"
  by (cases "(n, v)" rule: builtin_response.cases) (auto simp: builtin_output_def schema_simps split: if_splits)

lemma output_enum_accepts: "ev \<in> set vs \<Longrightarrow> accepts V r (output_enum_schema d vs) (JString (ev_value (snd ev)))"
  by (auto simp: output_enum_schema_def schema_simps split: option.split)

lemma output_scalar_accepts:
  assumes "walker_ok W"
    and "\<And>s. wk_custom_scalars W n = Some s \<Longrightarrow>
      accepts \<lparr>vd_definitions = [], vd_ref_limit = 0, vd_keyword = vd_keyword V\<rparr> 0 s v"
  shows "accepts V r (output_scalar_schema W n d) v"
proof (cases "wk_custom_scalars W n")
  case None
  then show ?thesis using assms(1) by (simp add: output_scalar_schema_def accepts_object)
next
  case (Some s)
  then have "is_schema s" "ref_free s" using assms(1) by (auto simp: walker_ok_def)
  then show ?thesis
    using Some assms
      accepts_ref_free(1)[of s "\<lparr>vd_definitions = [], vd_ref_limit = 0, vd_keyword = vd_keyword V\<rparr>" V r v 0]
    by (simp add: output_scalar_schema_def)
qed

lemma is_schema_scalar: "walker_ok W \<Longrightarrow> is_schema (output_scalar_schema W n d)"
  by (auto simp: output_scalar_schema_def walker_ok_def split: option.split)

text \<open>The answers of the generator for a type of the schema, one case per kind of type.\<close>

lemma named_builtin:
  "builtin_output n = Some b \<Longrightarrow> named_type_to_output_schema E k n ss p D = Some (b, D)"
  by (subst named_type_to_output_schema.simps) simp

lemma named_cached:
  "builtin_output n = None \<Longrightarrow> n \<in> obj_keys D \<Longrightarrow>
     named_type_to_output_schema E k n ss p D = Some (schema_ref n, D)"
  by (subst named_type_to_output_schema.simps) simp

lemma named_new:
  assumes "builtin_output n = None" "n \<notin> obj_keys D"
  shows "output_type E n = Some (EnumType d n' ds vs) \<Longrightarrow>
      named_type_to_output_schema E k n ss p D = Some (schema_ref n, obj_insert n (output_enum_schema d vs) D)"
    and "output_type E n = Some (ScalarType d n' ds) \<Longrightarrow>
      named_type_to_output_schema E k n ss p D = Some (output_scalar_schema (oe_walker E) n d, D)"
    and "output_type E n = Some (InputObjectType d n' ds fs) \<Longrightarrow>
      named_type_to_output_schema E k n ss p D = Some (JObject [], D)"
    and "output_type E n = None \<Longrightarrow> named_type_to_output_schema E k n ss p D = Some (JObject [], D)"
    and "output_type E n = Some t \<Longrightarrow> is_composite t \<Longrightarrow> named_type_to_output_schema E k n [] p D = Some (JObject [], D)"
    and "output_type E n = Some t \<Longrightarrow> is_composite t \<Longrightarrow> ss \<noteq> [] \<Longrightarrow> named_type_to_output_schema E 0 n ss p D = None"
    and "output_type E n = Some t \<Longrightarrow> is_composite t \<Longrightarrow> ss \<noteq> [] \<Longrightarrow> named_type_to_output_schema E (Suc k) n ss p D =
      build_selection_set_schema E k (named_type_to_output_schema E k) ss t p D"
  using assms by (subst named_type_to_output_schema.simps; cases t; simp)+

text \<open>
  Every depth of the generator is a builder: the depth below it is the generator that its
  selection sets use.
\<close>

lemma builder_grows:
  assumes below: "k = 0 \<or> (\<exists>k'. k = Suc k' \<and>
      output_builder E other (named_type_to_output_schema E k') (response_named E other))"
    and E: "env_ok E" and D: "defs_ok E D"
    and run: "named_type_to_output_schema E k n ss p D = Some (s, D')"
  shows "defs_ok E D' \<and> defs_le D D' \<and> is_schema s"
proof (cases "builtin_output n")
  case (Some b)
  then show ?thesis using run D by (auto simp: named_builtin builtin_output_schema)
next
  case None
  show ?thesis
  proof (cases "n \<in> obj_keys D")
    case True
    then show ?thesis using run D None by (auto simp: named_cached)
  next
    case new: False
    note run' = named_new[OF None new]
    show ?thesis
    proof (cases "output_type E n")
      case None
      then show ?thesis using run run'(4) D by auto
    next
      case (Some t)
      have composite: ?thesis if t: "is_composite t"
      proof (cases "ss = []")
        case True
        then show ?thesis using run run'(5)[OF Some t] D by auto
      next
        case False
        then obtain k' where k: "k = Suc k'"
            and IH: "output_builder E other (named_type_to_output_schema E k') (response_named E other)"
          using below run run'(6)[OF Some t] by auto
        show ?thesis
          using output_builder.selection_grows[OF IH E D] run run'(7)[OF Some t False] k by simp
      qed
      show ?thesis
      proof (cases t)
        case (EnumType d n' ds vs)
        have "defs_ok E (obj_insert n (output_enum_schema d vs) D)"
          by (rule defs_ok_insert[OF D new]) (use Some EnumType in blast)
        then show ?thesis using run run'(1) Some EnumType defs_le_insert[OF new] by auto
      next
        case (ScalarType d n' ds)
        then show ?thesis using run run'(2) Some D is_schema_scalar[OF env_walker[OF E]] by auto
      next
        case (InputObjectType d n' ds fs)
        then show ?thesis using run run'(3) Some D by auto
      qed (use composite in simp_all)
    qed
  qed
qed

lemma builder_accepts:
  assumes below: "k = 0 \<or> (\<exists>k'. k = Suc k' \<and>
      output_builder E other (named_type_to_output_schema E k') (response_named E other))"
    and E: "env_ok E" and D: "defs_ok E D"
    and run: "named_type_to_output_schema E k n ss p D = Some (s, D')"
    and F: "defs_le D' F" and v: "response_named E other n ss p v"
  shows "accepts (reader other l F) (Suc r) s v"
  using v
proof cases
  case (builtin b)
  then show ?thesis using run by (auto simp: named_builtin builtin_output_accepts)
next
  case (enum d n' ds vs ev)
  have F_n: "map_of F n = Some (output_enum_schema d vs) \<and> s = schema_ref n"
  proof (cases "n \<in> obj_keys D")
    case True
    have "map_of D n = Some (output_enum_schema d vs)"
      by (rule type_in_defs[OF E D True enum(3)]) auto
    then show ?thesis using run named_cached[OF enum(2) True] defs_leD[OF F] by auto
  next
    case False
    then show ?thesis
      using run named_new(1)[OF enum(2) False enum(3)] defs_leD[OF F, of n "output_enum_schema d vs"] by auto
  qed
  then show ?thesis using enum(1,4) by (simp add: accepts_defined output_enum_accepts)
next
  case (scalar d n' ds)
  have "n \<notin> obj_keys D"
  proof
    assume "n \<in> obj_keys D"
    then show False by (rule type_in_defs[OF E D _ scalar(2)]) simp
  qed
  then have "s = output_scalar_schema (oe_walker E) n d"
    using run named_new(2)[OF scalar(1) _ scalar(2)] by simp
  then show ?thesis using output_scalar_accepts[OF env_walker[OF E]] scalar(3) by simp
next
  case (composite parent kvs)
  have new: "n \<notin> obj_keys D"
  proof
    assume "n \<in> obj_keys D"
    then show False by (rule type_in_defs[OF E D _ composite(3)]) (use composite(4) in auto)
  qed
  note run' = named_new[OF composite(2) new]
  obtain k' where k: "k = Suc k'"
      and IH: "output_builder E other (named_type_to_output_schema E k') (response_named E other)"
    using below run run'(6)[OF composite(3-5)] by auto
  have built: "build_selection_set_schema E k' (named_type_to_output_schema E k') ss parent p D = Some (s, D')"
    using run run'(7)[OF composite(3-5)] k by simp
  show ?thesis
    using output_builder.selection_accepts[OF IH E D composite(3,4) built F composite(6)] composite(1) by simp
qed

lemma builder_step:
  assumes "k = 0 \<or> (\<exists>k'. k = Suc k' \<and>
      output_builder E other (named_type_to_output_schema E k') (response_named E other))"
  shows "output_builder E other (named_type_to_output_schema E k) (response_named E other)"
  by unfold_locales (use builder_grows[OF assms] builder_accepts[OF assms] in blast)+

interpretation generator: output_builder E other "named_type_to_output_schema E k" "response_named E other"
  for E other k
proof (induction k)
  case 0
  show ?case by (rule builder_step) simp
next
  case (Suc k)
  then show ?case by (intro builder_step) simp
qed

end
