(* ===== verification/Output_Tool.thy ===== *)
theory Output_Tool
  imports Output_Sound
begin

text \<open>
  The output schema of a tool accepts the responses of its operation: the theorem over the whole
  response, an operation on which it is evaluated, and a response that the generated schema
  rejects because two selections of one field are described apart.
\<close>

declare map_of_eq_Some_iff [simp del] Some_eq_map_of_iff [simp del]

section \<open>Responses\<close>

text \<open>An error as the GraphQL specification gives its format, and the response around the data.\<close>

definition entry_holds :: "(string \<times> json) list \<Rightarrow> string \<Rightarrow> (json \<Rightarrow> bool) \<Rightarrow> bool" where
  "entry_holds kvs k P = (case map_of kvs k of None \<Rightarrow> True | Some v \<Rightarrow> P v)"

definition location_value :: "json \<Rightarrow> bool" where
  "location_value v \<longleftrightarrow> has_type ''object'' v \<and>
     entry_holds (json_entries v) ''line'' (has_type ''integer'') \<and>
     entry_holds (json_entries v) ''column'' (has_type ''integer'')"

definition error_value :: "json \<Rightarrow> bool" where
  "error_value v \<longleftrightarrow> has_type ''object'' v \<and>
     (\<exists>m. map_of (json_entries v) ''message'' = Some (JString m)) \<and>
     entry_holds (json_entries v) ''locations''
       (\<lambda>l. has_type ''array'' l \<and> (\<forall>x \<in> set (json_elements l). location_value x)) \<and>
     entry_holds (json_entries v) ''path''
       (\<lambda>l. has_type ''array'' l \<and> (\<forall>x \<in> set (json_elements l). has_type ''string'' x \<or> has_type ''integer'' x)) \<and>
     entry_holds (json_entries v) ''extensions'' (has_type ''object'')"

definition response_value ::
    "output_env \<Rightarrow> (string \<Rightarrow> json \<Rightarrow> json \<Rightarrow> bool) \<Rightarrow> extended_type \<Rightarrow> selection list \<Rightarrow> PrivateFieldTree \<Rightarrow> json \<Rightarrow> bool" where
  "response_value E other parent ss p v \<longleftrightarrow> has_type ''object'' v \<and>
     entry_holds (json_entries v) ''data''
       (\<lambda>d. \<exists>kvs. d = JObject kvs \<and> object_response E (response_named E other) parent ss p kvs) \<and>
     entry_holds (json_entries v) ''errors''
       (\<lambda>l. has_type ''array'' l \<and> (\<forall>x \<in> set (json_elements l). error_value x)) \<and>
     entry_holds (json_entries v) ''extensions'' (has_type ''object'')"

lemma accepts_string_type [simp]: "accepts V r string_type v = has_type ''string'' v"
  by (simp add: string_type_def schema_simps)

lemma accepts_integer_type [simp]: "accepts V r integer_type v = has_type ''integer'' v"
  by (simp add: integer_type_def schema_simps)

lemma accepts_properties:
  "keyword_holds V r ''properties'' (JObject ps) v \<longleftrightarrow>
     (\<forall>x \<in> set ps. entry_holds (json_entries v) (fst x) (accepts V (vd_ref_limit V) (snd x)))"
  by (simp add: keyword_holds_simps entry_holds_def)

lemma accepts_object_type: "accepts V r (JObject [(''type'', JString ''object'')]) v = has_type ''object'' v"
  by (simp add: schema_simps)

lemma location_accepts:
  "location_value v \<Longrightarrow> accepts V r (object_type [(''line'', integer_type), (''column'', integer_type)]) v"
  by (auto simp: object_type_def accepts_object accepts_properties keyword_holds_simps(1) location_value_def entry_holds_def
      split: option.splits)

lemma path_accepts:
  "has_type ''string'' v \<or> has_type ''integer'' v \<Longrightarrow>
     accepts V r (JObject [(''oneOf'', JArray [string_type, integer_type])]) v"
  by (cases v) (auto simp: schema_simps)

lemma entry_holds_mono: "entry_holds kvs k P \<Longrightarrow> (\<And>v. P v \<Longrightarrow> Q v) \<Longrightarrow> entry_holds kvs k Q"
  by (simp add: entry_holds_def split: option.splits)

lemma error_accepts:
  assumes "error_value v"
  shows "accepts V r (JObject
     [(''type'', JString ''object''),
      (''properties'', JObject
        [(''message'', string_type),
         (''locations'', array_schema (object_type [(''line'', integer_type), (''column'', integer_type)])),
         (''path'', array_schema (JObject [(''oneOf'', JArray [string_type, integer_type])])),
         (''extensions'', JObject [(''type'', JString ''object'')])]),
      (''required'', JArray [JString ''message''])]) v"
proof -
  have "required_keyword (JArray [JString ''message'']) v"
    using assms by (cases v) (auto simp: error_value_def required_keyword_def dest: map_of_SomeD intro: image_eqI[rotated])
  moreover have "entry_holds (json_entries v) ''message'' (has_type ''string'')"
    using assms by (auto simp: error_value_def entry_holds_def)
  moreover have "entry_holds (json_entries v) ''locations''
      (accepts V (vd_ref_limit V) (array_schema (object_type [(''line'', integer_type), (''column'', integer_type)])))"
    using assms by (auto simp: error_value_def location_accepts elim!: entry_holds_mono)
  moreover have "entry_holds (json_entries v) ''path''
      (accepts V (vd_ref_limit V) (array_schema (JObject [(''oneOf'', JArray [string_type, integer_type])])))"
    using assms by (auto simp: error_value_def path_accepts elim!: entry_holds_mono)
  moreover have "entry_holds (json_entries v) ''extensions''
      (accepts V (vd_ref_limit V) (JObject [(''type'', JString ''object'')]))"
    using assms by (auto simp: error_value_def accepts_object_type elim!: entry_holds_mono)
  moreover have "has_type ''object'' v" using assms by (simp add: error_value_def)
  ultimately show ?thesis
    by (simp add: accepts_object accepts_properties keyword_holds_simps(1,3) entry_holds_mono)
qed

lemma envelope_accepts:
  assumes "response_value E other parent ss p v"
    and "\<And>kvs. object_response E (response_named E other) parent ss p kvs \<Longrightarrow>
       accepts (reader other l D) (Suc l) s (JObject kvs)"
  shows "accepts (reader other l D) r (JObject ([(''type'', JString ''object''),
       (''properties'', JObject [(''data'', s), (''errors'', errors_schema),
          (''extensions'', JObject [(''type'', JString ''object'')])])] @
       (if D = [] then [] else [(''definitions'', JObject D)]))) v"
proof -
  have "entry_holds (json_entries v) ''data'' (accepts (reader other l D) (Suc l) s)"
    using assms by (auto simp: response_value_def elim!: entry_holds_mono)
  moreover have "entry_holds (json_entries v) ''errors'' (accepts (reader other l D) (Suc l) errors_schema)"
    using assms(1) by (auto simp: response_value_def errors_schema_def error_accepts elim!: entry_holds_mono)
  moreover have "entry_holds (json_entries v) ''extensions''
      (accepts (reader other l D) (Suc l) (JObject [(''type'', JString ''object'')]))"
    using assms(1) by (auto simp: response_value_def accepts_object_type elim!: entry_holds_mono)
  moreover have "has_type ''object'' v" using assms(1) by (simp add: response_value_def)
  ultimately show ?thesis
    by (simp add: accepts_object accepts_properties keyword_holds_simps(1,13))
qed

text \<open>The root schema accepts the whole response.\<close>

lemma declared_schema_accepts_responses:
  assumes "env_ok E"
    and "output_type E n = Some parent" "is_composite parent"
    and "selection_set_to_schema E k ss parent private = Some root"
    and "response_value E other parent ss (case private of None \<Rightarrow> default_tree | Some t \<Rightarrow> t) v"
  shows "valid_under other root v"
proof -
  let ?p = "case private of None \<Rightarrow> default_tree | Some t \<Rightarrow> t"
  obtain s D where built: "build_selection_set_schema E k (named_type_to_output_schema E k) ss parent ?p [] = Some (s, D)"
    and root: "root = JObject ([(''type'', JString ''object''),
       (''properties'', JObject [(''data'', s), (''errors'', errors_schema),
          (''extensions'', JObject [(''type'', JString ''object'')])])] @
       (if D = [] then [] else [(''definitions'', JObject D)]))"
    using assms(4) by (auto simp: selection_set_to_schema_def)
  have defs: "root_definitions root = D" by (simp add: root_definitions_def root)
  have "accepts (reader other (length D) D) (Suc (length D)) s (JObject kvs)"
    if "object_response E (response_named E other) parent ss ?p kvs" for kvs
    by (rule generator.selection_accepts[OF assms(1) _ assms(2,3) built _ that]) simp_all
  from envelope_accepts[OF assms(5) this, of "Suc (length D)"] show ?thesis
    unfolding valid_under_def Let_def defs root[symmetric] reader_def by simp
qed

section \<open>An operation on a union\<close>

lemma selects_Nil [simp]: "\<not> selects E T d [] f d'"
  by (auto elim: selects.cases)

lemma selects_Cons:
  "selects E T d (sel # sels) f d' \<longleftrightarrow> selects E T d [sel] f d' \<or> selects E T d sels f d'"
proof
  assume "selects E T d (sel # sels) f d'"
  then show "selects E T d [sel] f d' \<or> selects E T d sels f d'"
    by cases (auto intro: selects.intros)
next
  assume "selects E T d [sel] f d' \<or> selects E T d sels f d'"
  then show "selects E T d (sel # sels) f d'"
    by (auto elim: selects_mono)
qed

lemmas selects_more [simp] = selects_Cons[where sels = "sel # sels" for sel sels]

lemma selects_single [simp]:
  "selects E T d [Field al n args ds ss] f d' \<longleftrightarrow> f = Field al n args ds ss \<and> d' = d"
  "selects E T d [InlineFragment None ds ss] f d' \<longleftrightarrow> selects E T d ss f d'"
  "selects E T d [InlineFragment (Some c) ds ss] f d' \<longleftrightarrow>
     (\<exists>t. output_type E c = Some t \<and> type_applies E T t \<and> selects E T t ss f d')"
  "selects E T d [FragmentSpread n ds] f d' \<longleftrightarrow>
     (\<exists>frag t. spread_target E n = Some (frag, t) \<and> type_applies E T t \<and>
        selects E T t (frag_selection_set frag) f d')"
  by (auto elim: selects.cases intro: selects.intros)

lemma response_builtin:
  "builtin_output n = Some s \<Longrightarrow> response_named E other n ss p v \<longleftrightarrow> builtin_response n v"
  by (auto elim: response_named.cases intro: response_named.builtin)

abbreviation plain_field :: "string \<Rightarrow> gtype \<Rightarrow> string \<times> field_definition" where
  "plain_field n ty \<equiv>
     (n, \<lparr>fd_description = None, fd_name = n, fd_arguments = [], fd_ty = ty, fd_directives = []\<rparr>)"

text \<open>
  A query with a field \<open>media\<close> of the union of books, which have a title and a number of pages, and
  films, which have a title.
\<close>

definition media_query :: extended_type where
  "media_query = ObjectType None ''Query'' [] [] [plain_field ''media'' (Named ''Media'')]"

definition media_schema :: schema where
  "media_schema =
     \<lparr>schema_description = None, schema_directives = [],
      root_operation = (\<lambda>ot. if ot = Query then Some ''Query'' else None),
      schema_types =
        [(''Query'', media_query),
         (''Media'', UnionType None ''Media'' [] [''Book'', ''Film'']),
         (''Book'', ObjectType None ''Book'' [] []
            [plain_field ''title'' (Named ''String''), plain_field ''pages'' (NonNullNamed ''Int'')]),
         (''Film'', ObjectType None ''Film'' [] [] [plain_field ''title'' (Named ''String'')])],
      directive_definitions = [], built_in_type = (\<lambda>n. False), built_in_directive = (\<lambda>_. False)\<rparr>"

definition media_walker :: walker where
  "media_walker =
     \<lparr>wk_schema = media_schema, wk_custom_scalars = Map.empty,
      wk_bool_schema = (\<lambda>b. if b then [] else [(''not'', JBool True)]), wk_float = (\<lambda>_. None)\<rparr>"

definition media_env :: output_env where
  "media_env = \<lparr>oe_walker = media_walker, oe_fragments = Map.empty, oe_implementers = Map.empty\<rparr>"

lemmas media_defs = media_env_def media_walker_def media_schema_def

abbreviation leaf :: "string \<Rightarrow> selection" where
  "leaf n \<equiv> Field None n [] [] []"

abbreviation on :: "string \<Rightarrow> selection list \<Rightarrow> selection" where
  "on t ss \<equiv> InlineFragment (Some t) [] ss"

lemma media_env_ok: "env_ok media_env"
  by (auto simp: env_ok_def walker_ok_def media_defs media_query_def accepts_object keyword_holds_simps
      split: if_splits)

abbreviation media_response :: "(string \<times> json) list \<Rightarrow> json" where
  "media_response kvs \<equiv> JObject [(''data'', JObject [(''media'', JObject kvs)])]"

definition book_selection :: "directive list \<Rightarrow> selection list" where
  "book_selection ds =
     [on ''Book'' [leaf ''title'', Field None ''pages'' [] ds []], on ''Film'' [leaf ''title'']]"

definition book :: extended_type where
  "book = ObjectType None ''Book'' [] []
     [plain_field ''title'' (Named ''String''), plain_field ''pages'' (NonNullNamed ''Int'')]"

lemma media_types:
  "output_type media_env ''Book'' = Some book"
  "output_type media_env ''Film'' = Some (ObjectType None ''Film'' [] [] [plain_field ''title'' (Named ''String'')])"
  "output_type media_env ''Media'' = Some (UnionType None ''Media'' [] [''Book'', ''Film''])"
  "output_type media_env ''Query'' = Some media_query"
  by (simp_all add: media_defs book_def)

lemma book_selects:
  "selects media_env ''Book'' parent (book_selection ds) f d \<longleftrightarrow>
     d = book \<and> (f = leaf ''title'' \<or> f = Field None ''pages'' [] ds [])"
  by (auto simp: book_selection_def media_types type_applies_def book_def)

lemma book_title:
  "field_response (response_named media_env (\<lambda>_ _ _. True)) p (leaf ''title'') book (JString s)"
  by (simp add: field_response_def get_field_definition_def book_def response_builtin builtin_output_def)

lemma book_pages:
  "field_response (response_named media_env (\<lambda>_ _ _. True)) p (Field None ''pages'' [] ds []) book (JNumber i)"
  by (simp add: field_response_def get_field_definition_def book_def response_builtin builtin_output_def)

text \<open>\<open>{ media { ... on Book { title pages } ... on Film { title } } }\<close> and the answer with a book.\<close>

lemma media_answer:
  "response_value media_env (\<lambda>_ _ _. True) media_query [Field None ''media'' [] [] (book_selection ds)] default_tree
     (media_response [(''title'', JString ''Dune''), (''pages'', JNumber 412)])"
proof -
  let ?pages = "Field None ''pages'' [] ds []"
  have "object_response media_env (response_named media_env (\<lambda>_ _ _. True))
      (UnionType None ''Media'' [] [''Book'', ''Film'']) (book_selection ds) default_tree
      [(''title'', JString ''Dune''), (''pages'', JNumber 412)]"
    unfolding object_response_def
  proof (intro bexI[where x = "''Book''"] conjI allI impI ballI, unfold book_selects)
    fix f d assume "d = book \<and> (f = leaf ''title'' \<or> f = ?pages)"
    then show "\<exists>x. map_of [(''title'', JString ''Dune''), (''pages'', JNumber 412)] (field_key f) = Some x \<and>
        field_response (response_named media_env (\<lambda>_ _ _. True)) default_tree f d x"
      by (elim conjE disjE) (simp_all add: field_key_def response_key_def book_title book_pages)
  next
    fix key assume "key \<in> obj_keys [(''title'', JString ''Dune''), (''pages'', JNumber 412)]"
    then consider "key = ''title''" | "key = ''pages''" by (auto simp: obj_keys_def)
    then have "field_key (leaf ''title'') = key \<or> field_key ?pages = key"
      by cases (simp_all add: field_key_def response_key_def)
    then show "\<exists>f d. (d = book \<and> (f = leaf ''title'' \<or> f = ?pages)) \<and> field_key f = key" by blast
  qed (simp add: member_names_def)
  then have "response_named media_env (\<lambda>_ _ _. True) ''Media'' (book_selection ds) default_tree
      (JObject [(''title'', JString ''Dune''), (''pages'', JNumber 412)])"
    by (intro response_named.composite[where parent = "UnionType None ''Media'' [] [''Book'', ''Film'']"])
      (simp_all add: builtin_output_def media_types book_selection_def)
  then show ?thesis
    by (simp add: response_value_def entry_holds_def object_response_def member_names_def
        media_query_def field_response_def get_field_definition_def field_key_def response_key_def obj_keys_def
        child_or_default_def default_tree_def)
qed

section \<open>Selections that the server merges\<close>

text \<open>
  The field \<open>media\<close> selected twice, as two fragments of an operation do: with the title and the
  pages of a book, and with the title of a film. A server answers with one object, in which the
  fields of both selections are merged.
\<close>

definition split_selection :: "selection list" where
  "split_selection =
     [Field None ''media'' [] [] [on ''Book'' [leaf ''title'', leaf ''pages'']],
      Field None ''media'' [] [] [on ''Film'' [leaf ''title'']]]"

definition merged_selection :: "selection list" where
  "merged_selection =
     [Field None ''media'' [] []
        [on ''Book'' [leaf ''title'', leaf ''pages''], on ''Film'' [leaf ''title'']]]"

definition declared_verdict :: "selection list \<Rightarrow> json \<Rightarrow> bool option" where
  "declared_verdict ss v =
     map_option (\<lambda>root. valid_under (\<lambda>_ _ _. True) root v)
       (selection_set_to_schema media_env 2 ss media_query None)"

text \<open>
  Two selections of one field are described apart, and each description forbids the keys that
  it does not give to the type at hand: the response to an operation that selects \<open>media\<close> twice is
  rejected by the schema declared for it, and accepted by the schema of the same operation with
  its selections written as one.
\<close>

theorem split_selection_rejected:
  "declared_verdict split_selection (media_response [(''title'', JString ''Solaris'')]) = Some False \<and>
   declared_verdict merged_selection (media_response [(''title'', JString ''Solaris'')]) = Some True"
  by code_simp

end
