(* ===== verification/Execution.thy ===== *)
theory Execution
  imports Operations Request_Headers
begin

text \<open>
  Executing a tool as a GraphQL request (\<open>graphql.rs\<close>, \<open>operations/execution.rs\<close>): the request
  sent upstream, the split of the response into what the model sees and what only the client
  gets, and the two executables of the server as instances of one interface.
\<close>

section \<open>Requests and results\<close>

record outgoing_request =
  out_endpoint :: string
  out_headers :: header_map
  out_body :: json

text \<open>rmcp's call result, with the content blocks the server produces.\<close>

datatype content = TextBlock string | JsonTextBlock json

record CallToolResult =
  ctr_content :: "content list"
  ctr_structured_content :: "json option"
  ctr_is_error :: "bool option"
  ctr_meta :: "(string \<times> json) list option"

definition error_result :: "string \<Rightarrow> CallToolResult" where
  "error_result msg =
     \<lparr>ctr_content = [TextBlock msg], ctr_structured_content = None, ctr_is_error = Some True, ctr_meta = None\<rparr>"

definition structured_result :: "bool \<Rightarrow> json \<Rightarrow> CallToolResult" where
  "structured_result is_error v =
     \<lparr>ctr_content = [JsonTextBlock v], ctr_structured_content = Some v, ctr_is_error = Some is_error, ctr_meta = None\<rparr>"

text \<open>The HTTP client: a transport error, an unreadable body, or a JSON response.\<close>

datatype upstream_response = SendError string | BodyError string | JsonResponse json

definition has_errors :: "json \<Rightarrow> bool" where
  "has_errors v =
     (case v of
        JObject kvs \<Rightarrow> (case map_of kvs ''errors'' of None \<Rightarrow> False | Some JNull \<Rightarrow> False | Some _ \<Rightarrow> True)
      | _ \<Rightarrow> False)"

definition split_response :: "PrivateFieldTree option \<Rightarrow> json \<Rightarrow> json \<times> (string \<times> json) list option" where
  "split_response private_fields v =
     (case private_fields of
        Some tree \<Rightarrow> (filter_private_fields v tree, Some [(''structuredContent'', v)])
      | None \<Rightarrow> (v, None))"

definition response_result :: "PrivateFieldTree option \<Rightarrow> upstream_response \<Rightarrow> CallToolResult" where
  "response_result private_fields response =
     (case response of
        SendError e \<Rightarrow> error_result (''Failed to send GraphQL request: '' @ e)
      | BodyError e \<Rightarrow> error_result (''Failed to read GraphQL response body: '' @ e)
      | JsonResponse v \<Rightarrow>
          (case split_response private_fields v of
             (structured_content, meta) \<Rightarrow>
               (structured_result (has_errors v) structured_content)\<lparr>ctr_meta := meta\<rparr>))"

definition request_body :: "json \<Rightarrow> json \<Rightarrow> OperationDetails \<Rightarrow> json" where
  "request_body client_metadata variables d =
     JObject ([(''variables'', variables), (''query'', JString (det_query d)),
        (''extensions'', JObject [(''clientLibrary'', client_metadata)])] @
       (case det_operation_name d of None \<Rightarrow> [] | Some n \<Rightarrow> [(''operationName'', JString n)]))"

text \<open>
  \<open>Executable::execute\<close> over the three methods of an executable: the request sent, if any, and
  the result.
\<close>

definition execute_request ::
    "(json \<Rightarrow> (string, OperationDetails) result) \<Rightarrow> (json \<Rightarrow> (string, json) result) \<Rightarrow>
     (header_map \<Rightarrow> header_map) \<Rightarrow> json \<Rightarrow> (outgoing_request \<Rightarrow> upstream_response) \<Rightarrow> string \<Rightarrow> header_map \<Rightarrow> json \<Rightarrow>
     outgoing_request option \<times> CallToolResult" where
  "execute_request operation variables headers client_metadata send endpoint default_headers input =
     (case variables input of
        Inl msg \<Rightarrow> (None, error_result msg)
      | Inr vs \<Rightarrow>
          (case operation input of
             Inl msg \<Rightarrow> (None, error_result msg)
           | Inr d \<Rightarrow>
               let request = \<lparr>out_endpoint = endpoint, out_headers = headers default_headers,
                     out_body = request_body client_metadata vs d\<rparr>
               in (Some request, response_result (det_private_fields d) (send request))))"

text \<open>
  \<open>execute_operation\<close>: the Rhai hook may fail, or rewrite endpoint and headers; and the lookup
  of a predefined operation by its tool name.
\<close>

definition arguments_json :: "(string \<times> json) list option \<Rightarrow> json" where
  "arguments_json args = (case args of None \<Rightarrow> JNull | Some obj \<Rightarrow> JObject obj)"

definition execute_operation ::
    "(string \<Rightarrow> header_map \<Rightarrow> string \<Rightarrow> ('e, string \<times> header_map) result) \<Rightarrow>
     (string \<Rightarrow> header_map \<Rightarrow> json \<Rightarrow> outgoing_request option \<times> CallToolResult) \<Rightarrow>
     header_map \<Rightarrow> (string \<times> json) list option \<Rightarrow> string \<Rightarrow> string \<Rightarrow>
     ('e, outgoing_request option \<times> CallToolResult) result" where
  "execute_operation rhai_hook execute headers arguments endpoint name =
     try_result (rhai_hook endpoint headers name)
       (\<lambda>(endpoint, headers). Inr (execute endpoint headers (arguments_json arguments)))"

definition find_and_execute_operation ::
    "(string \<Rightarrow> header_map \<Rightarrow> string \<Rightarrow> ('e, string \<times> header_map) result) \<Rightarrow>
     (Operation \<Rightarrow> string \<Rightarrow> header_map \<Rightarrow> json \<Rightarrow> outgoing_request option \<times> CallToolResult) \<Rightarrow>
     Operation list \<Rightarrow> string \<Rightarrow> header_map \<Rightarrow> (string \<times> json) list option \<Rightarrow> string \<Rightarrow>
     ('e, outgoing_request option \<times> CallToolResult) result option" where
  "find_and_execute_operation rhai_hook execute operations name headers arguments endpoint =
     (case find (\<lambda>op. tool_name (op_tool op) = name) operations of
        None \<Rightarrow> None
      | Some operation \<Rightarrow> Some (execute_operation rhai_hook (execute operation) headers arguments endpoint name))"

section \<open>The interface of an executable\<close>

text \<open>
  What the execution relies on: private fields are announced only when there are some. The
  response meta, which carries the unfiltered response, is then present only if something was
  filtered.
\<close>

locale executable =
  fixes valid :: "'x \<Rightarrow> bool"
    and operation :: "'x \<Rightarrow> json \<Rightarrow> (string, OperationDetails) result"
    and variables :: "'x \<Rightarrow> json \<Rightarrow> (string, json) result"
    and headers :: "'x \<Rightarrow> header_map \<Rightarrow> header_map"
  assumes announced_private: "valid x \<Longrightarrow> operation x input = Inr d \<Longrightarrow> det_private_fields d = Some tree \<Longrightarrow>
      has_private_fields tree"
begin

lemma meta_only_if_private:
  assumes "valid x"
    and "execute_request (operation x) (variables x) (headers x) cm send endpoint hs input = (req, r)"
    and "ctr_meta r = Some m"
  shows "\<exists>d tree. operation x input = Inr d \<and> det_private_fields d = Some tree \<and> has_private_fields tree"
  using assms announced_private
  by (fastforce simp: execute_request_def response_result_def split_response_def error_result_def
        structured_result_def Let_def
      split: sum.splits upstream_response.splits option.splits)

lemma sent_once:
  assumes "execute_request (operation x) (variables x) (headers x) cm send endpoint hs input = (req, r)"
  shows "req = None \<longleftrightarrow> (\<exists>msg. variables x input = Inl msg \<or> operation x input = Inl msg)"
  using assms by (auto simp: execute_request_def Let_def split: sum.splits)

end

definition operation_ok :: "Operation \<Rightarrow> bool" where
  "operation_ok op \<longleftrightarrow> (\<forall>tree. op_private_fields op = Some tree \<longrightarrow> has_private_fields tree)"

interpretation predefined: executable operation_ok operation_details operation_variables operation_headers
  by unfold_locales (auto simp: operation_ok_def operation_details_def)

lemma process_private_has:
  "process_private_directives n parse ser query = Some (q, tree) \<Longrightarrow> has_private_fields tree"
  by (auto simp: process_private_directives_def split: option.splits if_splits)

interpretation adhoc: executable "\<lambda>_. True" "execute_operation_details G L T" "\<lambda>_. execute_variables T" "\<lambda>_ h. h"
  for G L T
  by unfold_locales
     (auto simp: execute_operation_details_def Let_def dest: process_private_has
       split: option.splits sum.splits prod.splits)

section \<open>The mutation gate\<close>

lemma scan_operations_ops:
  "map fst (scan_operations t off document) =
     filter_map (\<lambda>(def, _). case def of OperationDefinition op \<Rightarrow> Some op | _ \<Rightarrow> None) document"
  by (induction t off document rule: scan_operations.induct) (auto simp: Let_def split: ast_definition.splits)

definition operations_of :: "document \<Rightarrow> operation_definition list" where
  "operations_of document =
     filter_map (\<lambda>(def, _). case def of OperationDefinition op \<Rightarrow> Some op | _ \<Rightarrow> None) document"

lemma operation_defs_found:
  assumes "operation_defs G L src allow path = Inr (Some (document, op, comments))"
  shows "parse_document G src = Inr document" "operations_of document = [op]"
    "od_operation_type op \<noteq> Subscription" "od_operation_type op = Mutation \<Longrightarrow> allow"
proof -
  from assms have scan: "parse_document G src = Inr document \<and>
      scan_operations src (Some 0) document = [(op, comments)] \<and>
      od_operation_type op \<noteq> Subscription \<and> (od_operation_type op = Mutation \<longrightarrow> allow)"
    by (auto simp: operation_defs_def try_result_Inr_iff
        split: sum.splits list.splits if_splits operation_type.splits)
  then show "parse_document G src = Inr document" "od_operation_type op \<noteq> Subscription"
    "od_operation_type op = Mutation \<Longrightarrow> allow" by auto
  show "operations_of document = [op]"
    using scan_operations_ops [of src "Some 0" document] scan by (simp add: operations_of_def)
qed

lemma operation_name_error: "operation_name G op p = Inl e \<Longrightarrow> \<exists>t. e = MissingName p t"
  by (auto simp: operation_name_def split: option.splits)

lemma from_raw_found:
  assumes "from_raw G L X S opts raw = Inr (Some op)"
  obtains document operation comments private_tree where
    "operation_defs G L (source_text raw) (mutation_mode opts \<noteq> NoMutations) (source_path raw) =
      Inr (Some (document, operation, comments))"
    "od_name operation = Some (tool_name (op_tool op))" "op_operation_name op = tool_name (op_tool op)"
    "op_inner op = raw"
    "tool_annotations (op_tool op) = operation_annotations operation (tool_name (op_tool op)) (annotation_overrides opts)"
    "op_private_fields op = (if has_private_fields private_tree then Some private_tree else None)"
    "collect_private_fields (length document) (collect_named_fragments (map fst document))
      (od_selection_set operation) = Some private_tree"
    "op_stripped_source_text op = map_option (serialize_document G)
      (stripped_document (has_private_fields private_tree) (map fst document))"
proof -
  from assms obtain found where found:
    "operation_defs G L (source_text raw) (mutation_mode opts \<noteq> NoMutations) (source_path raw) = Inr found"
    unfolding from_raw_def try_result_Inr_iff by blast
  show ?thesis
  proof (cases found)
    case None
    then show ?thesis using assms found by (simp add: from_raw_def)
  next
    case (Some x)
    obtain document operation comments where x: "x = (document, operation, comments)" by (cases x)
    show ?thesis
    proof (cases "od_name operation")
      case None
      then show ?thesis using assms found Some x by (simp add: from_raw_def operation_name_def)
    next
      case name: (Some name)
      let ?tree = "the (collect_private_fields (length document) (collect_named_fragments (map fst document))
          (od_selection_set operation))"
      show ?thesis
        by (rule that [of document operation comments ?tree])
           (use assms found Some x name collect_private_returns [of "map fst document" "od_selection_set operation"]
            in \<open>auto simp: from_raw_def operation_name_def Let_def\<close>)
    qed
  qed
qed

text \<open>
  What may go upstream for a document: its source text, or the serialised document with the same
  definitions in the same order, in which only descriptions and the directives that mark private
  fields may be missing.
\<close>

definition same_selections :: "selection list \<Rightarrow> selection list \<Rightarrow> bool" where
  "same_selections ss ss' \<longleftrightarrow> ss' = ss \<or> ss' = map strip_selection ss"

definition same_operation :: "operation_definition \<Rightarrow> operation_definition \<Rightarrow> bool" where
  "same_operation op op' \<longleftrightarrow>
     od_operation_type op' = od_operation_type op \<and> od_name op' = od_name op \<and>
     od_directives op' = od_directives op \<and> same_selections (od_selection_set op) (od_selection_set op') \<and>
     map (vd_description_update (\<lambda>_. None)) (od_variables op') =
       map (vd_description_update (\<lambda>_. None)) (od_variables op)"

fun same_definition :: "ast_definition \<Rightarrow> ast_definition \<Rightarrow> bool" where
  "same_definition (OperationDefinition op) d' \<longleftrightarrow>
     (\<exists>op'. d' = OperationDefinition op' \<and> same_operation op op')"
| "same_definition (FragmentDefinition f) d' \<longleftrightarrow>
     (\<exists>f'. d' = FragmentDefinition f' \<and> frag_name f' = frag_name f \<and>
        same_selections (frag_selection_set f) (frag_selection_set f'))"
| "same_definition OtherDefinition d' \<longleftrightarrow> d' = OtherDefinition"

definition outgoing_query :: "graphql_api \<Rightarrow> string \<Rightarrow> ast_definition list \<Rightarrow> string \<Rightarrow> bool" where
  "outgoing_query G source definitions sent \<longleftrightarrow>
     sent = source \<or>
     (\<exists>outgoing. list_all2 same_definition definitions outgoing \<and> sent = serialize_document G outgoing)"

lemma same_strip: "same_definition d (strip_definition d)"
  by (cases d) (simp_all add: same_selections_def same_operation_def)

lemma same_undescribed: "same_definition d d' \<Longrightarrow> same_definition d (undescribed d')"
  by (cases d; cases d') (auto simp: same_operation_def comp_def)

lemma same_refl: "same_definition d d"
  by (cases d) (simp_all add: same_selections_def same_operation_def)

lemma stripped_document_same:
  "stripped_document b ds = Some outgoing \<Longrightarrow> list_all2 same_definition ds outgoing"
  by (auto simp: stripped_document_def strip_executable_descriptions_def strip_private_directives_def
        Let_def list_all2_map2 intro!: list.rel_refl_strong same_refl same_strip same_undescribed
        split: if_splits)

lemma predefined_query:
  assumes "from_raw G L X S opts raw = Inr (Some op)" and "parse_document G (source_text raw) = Inr document"
    and "operation_details op input = Inr d"
  shows "outgoing_query G (source_text raw) (map fst document) (det_query d)"
proof -
  from assms(1) obtain document' operation comments tree where
    found: "operation_defs G L (source_text raw) (mutation_mode opts \<noteq> NoMutations) (source_path raw) =
      Inr (Some (document', operation, comments))" and inner: "op_inner op = raw"
    and stripped: "op_stripped_source_text op = map_option (serialize_document G)
      (stripped_document (has_private_fields tree) (map fst document'))"
    by (rule from_raw_found)
  have "document' = document" using operation_defs_found(1) [OF found] assms(2) by simp
  with inner stripped assms(3) show ?thesis
    by (auto simp: operation_details_def outgoing_query_def dest!: stripped_document_same
        split: option.splits)
qed

lemma strip_private_same: "list_all2 same_definition ds (strip_private_directives ds)"
  by (auto simp: strip_private_directives_def list_all2_map2 intro!: list.rel_refl_strong same_strip)

lemma adhoc_query:
  assumes "execute_operation_details G L T ex input = Inr d"
  obtains query v document operation where "decode_execute_input input = Some (query, v)"
    "parse_document G query = Inr document" "operations_of document = [operation]"
    "od_operation_type operation \<noteq> Subscription"
    "od_operation_type operation = Mutation \<Longrightarrow> ex_mutation_mode ex = AllMutations"
    "det_operation_name d = od_name operation"
    "outgoing_query G query (map fst document) (det_query d)"
proof -
  from assms obtain query v document operation comments where
    input: "decode_execute_input input = Some (query, v)"
    and found: "operation_defs G L query (ex_mutation_mode ex = AllMutations) None = Inr (Some (document, operation, comments))"
    by (auto simp: execute_operation_details_def split: option.splits sum.splits)
  note parsed = operation_defs_found [OF found]
  have d: "det_operation_name d = od_name operation \<and> outgoing_query G query (map fst document) (det_query d)"
  proof (cases "process_private_directives (length document)
      (\<lambda>q. case parse_document G q of Inl _ \<Rightarrow> None | Inr d \<Rightarrow> Some (map fst d)) (serialize_document G) query")
    case None
    then show ?thesis using assms input found
      by (auto simp: execute_operation_details_def Let_def outgoing_query_def operation_name_def
          split: option.splits)
  next
    case (Some x)
    then obtain tree where
      x: "x = (serialize_document G (strip_private_directives (map fst document)), tree)"
      using parsed(1) by (auto simp: process_private_directives_def split: option.splits if_splits)
    have "outgoing_query G query (map fst document)
        (serialize_document G (strip_private_directives (map fst document)))"
      unfolding outgoing_query_def using strip_private_same by blast
    then show ?thesis using Some x assms input found
      by (auto simp: execute_operation_details_def Let_def operation_name_def split: option.splits)
  qed
  show ?thesis by (rule that [OF input parsed]) (use d in auto)
qed

text \<open>
  The request of an executable: what its three methods answered, in the body that the GraphQL
  endpoint gets.
\<close>

lemma execute_request_sent:
  assumes "execute_request operation variables headers cm send endpoint hs input = (Some q, result)"
  obtains vs d where "variables input = Inr vs" "operation input = Inr d"
    "q = \<lparr>out_endpoint = endpoint, out_headers = headers hs, out_body = request_body cm vs d\<rparr>"
    "result = response_result (det_private_fields d) (send q)"
  using assms by (auto simp: execute_request_def Let_def split: sum.splits)

text \<open>
  C3: the mutation gate, up to the request that is sent. A predefined tool is built only from a
  document with exactly one operation, which is named, is no subscription, and is a mutation only
  if mutations are enabled at all; and whatever a call of the tool sends, its query is the source
  of that document, or that document serialised without descriptions and privacy directives, with
  the operation's name. The execute tool sends a request only when its input carries a document
  with exactly one operation that is no subscription, and a mutation only in the mode that allows
  all of them; what it sends is that document, again up to privacy directives.
\<close>

theorem mutation_gate:
  "(from_raw G L X S opts raw = Inr (Some op) \<longrightarrow>
      (\<exists>document operation name. parse_document G (source_text raw) = Inr document \<and>
         operations_of document = [operation] \<and> od_operation_type operation \<noteq> Subscription \<and>
         (od_operation_type operation = Mutation \<longrightarrow> mutation_mode opts \<noteq> NoMutations) \<and>
         od_name operation = Some name \<and> tool_name (op_tool op) = name \<and> op_inner op = raw \<and>
         (\<forall>cm send endpoint hs input q result.
            execute_request (operation_details op) (operation_variables op) (operation_headers op)
              cm send endpoint hs input = (Some q, result) \<longrightarrow>
            (\<exists>vs sent. operation_variables op input = Inr vs \<and>
               outgoing_query G (source_text raw) (map fst document) sent \<and>
               out_endpoint q = endpoint \<and>
               out_body q = JObject [(''variables'', vs), (''query'', JString sent),
                 (''extensions'', JObject [(''clientLibrary'', cm)]), (''operationName'', JString name)])))) \<and>
   (execute_request (execute_operation_details G L T ex) (execute_variables T) (\<lambda>h. h)
        cm send endpoint hs input = (Some q, result) \<longrightarrow>
      (\<exists>query v document operation vs sent. decode_execute_input input = Some (query, v) \<and>
         parse_document G query = Inr document \<and> operations_of document = [operation] \<and>
         od_operation_type operation \<noteq> Subscription \<and>
         (od_operation_type operation = Mutation \<longrightarrow> ex_mutation_mode ex = AllMutations) \<and>
         execute_variables T input = Inr vs \<and> outgoing_query G query (map fst document) sent \<and>
         out_endpoint q = endpoint \<and>
         out_body q = JObject ([(''variables'', vs), (''query'', JString sent),
           (''extensions'', JObject [(''clientLibrary'', cm)])] @
           (case od_name operation of None \<Rightarrow> [] | Some n \<Rightarrow> [(''operationName'', JString n)]))))"
proof (intro conjI impI)
  assume raw: "from_raw G L X S opts raw = Inr (Some op)"
  then obtain document operation comments where
    found: "operation_defs G L (source_text raw) (mutation_mode opts \<noteq> NoMutations) (source_path raw) =
      Inr (Some (document, operation, comments))"
    and name: "od_name operation = Some (tool_name (op_tool op))" "op_operation_name op = tool_name (op_tool op)"
      "op_inner op = raw"
    by (rule from_raw_found)
  note parsed = operation_defs_found [OF found]
  have "\<exists>vs sent. operation_variables op input = Inr vs \<and>
         outgoing_query G (source_text raw) (map fst document) sent \<and> out_endpoint q = endpoint \<and>
         out_body q = JObject [(''variables'', vs), (''query'', JString sent),
           (''extensions'', JObject [(''clientLibrary'', cm)]), (''operationName'', JString (tool_name (op_tool op)))]"
    if "execute_request (operation_details op) (operation_variables op) (operation_headers op)
         cm send endpoint hs input = (Some q, result)"
    for cm send endpoint hs input q result
  proof -
    from execute_request_sent [OF that] obtain vs d where
      vs: "operation_variables op input = Inr vs" and d: "operation_details op input = Inr d"
      and q: "q = \<lparr>out_endpoint = endpoint, out_headers = operation_headers op hs, out_body = request_body cm vs d\<rparr>"
      by metis
    have "det_operation_name d = Some (tool_name (op_tool op))"
      using d name(2) by (auto simp: operation_details_def)
    with vs q predefined_query [OF raw parsed(1) d] show ?thesis
      by (auto simp: request_body_def)
  qed
  with parsed name show "\<exists>document operation name. parse_document G (source_text raw) = Inr document \<and>
         operations_of document = [operation] \<and> od_operation_type operation \<noteq> Subscription \<and>
         (od_operation_type operation = Mutation \<longrightarrow> mutation_mode opts \<noteq> NoMutations) \<and>
         od_name operation = Some name \<and> tool_name (op_tool op) = name \<and> op_inner op = raw \<and>
         (\<forall>cm send endpoint hs input q result.
            execute_request (operation_details op) (operation_variables op) (operation_headers op)
              cm send endpoint hs input = (Some q, result) \<longrightarrow>
            (\<exists>vs sent. operation_variables op input = Inr vs \<and>
               outgoing_query G (source_text raw) (map fst document) sent \<and>
               out_endpoint q = endpoint \<and>
               out_body q = JObject [(''variables'', vs), (''query'', JString sent),
                 (''extensions'', JObject [(''clientLibrary'', cm)]), (''operationName'', JString name)]))"
    by blast
next
  assume "execute_request (execute_operation_details G L T ex) (execute_variables T) (\<lambda>h. h)
        cm send endpoint hs input = (Some q, result)"
  from execute_request_sent [OF this] obtain vs d where
    vs: "execute_variables T input = Inr vs" and d: "execute_operation_details G L T ex input = Inr d"
    and q: "q = \<lparr>out_endpoint = endpoint, out_headers = hs, out_body = request_body cm vs d\<rparr>"
    by metis
  from adhoc_query [OF d] obtain query v document operation where
    gate: "decode_execute_input input = Some (query, v)"
    "parse_document G query = Inr document" "operations_of document = [operation]"
    "od_operation_type operation \<noteq> Subscription"
    "od_operation_type operation = Mutation \<longrightarrow> ex_mutation_mode ex = AllMutations"
    and "det_operation_name d = od_name operation" and sent: "outgoing_query G query (map fst document) (det_query d)"
    by metis
  then have "out_endpoint q = endpoint \<and>
      out_body q = JObject ([(''variables'', vs), (''query'', JString (det_query d)),
        (''extensions'', JObject [(''clientLibrary'', cm)])] @
        (case od_name operation of None \<Rightarrow> [] | Some n \<Rightarrow> [(''operationName'', JString n)]))"
    using q by (simp add: request_body_def)
  with gate sent vs show "\<exists>query v document operation vs sent. decode_execute_input input = Some (query, v) \<and>
         parse_document G query = Inr document \<and> operations_of document = [operation] \<and>
         od_operation_type operation \<noteq> Subscription \<and>
         (od_operation_type operation = Mutation \<longrightarrow> ex_mutation_mode ex = AllMutations) \<and>
         execute_variables T input = Inr vs \<and> outgoing_query G query (map fst document) sent \<and>
         out_endpoint q = endpoint \<and>
         out_body q = JObject ([(''variables'', vs), (''query'', JString sent),
           (''extensions'', JObject [(''clientLibrary'', cm)])] @
           (case od_name operation of None \<Rightarrow> [] | Some n \<Rightarrow> [(''operationName'', JString n)]))"
    by blast
qed

definition example_graphql :: graphql_api where
  "example_graphql =
     \<lparr>parse_document = (\<lambda>s. Inr [(OperationDefinition \<lparr>od_operation_type = (if s = ''m'' then Mutation else Query),
          od_name = Some ''Q'', od_variables = [], od_directives = [], od_selection_set = [], od_description = None, od_name_location = None\<rparr>, Some (0, 1))]),
      serialize_document = (\<lambda>_. ''q''), serialize_operation = (\<lambda>_. ''q'')\<rparr>"

definition example_texts :: "unit tool_texts" where
  "example_texts =
     \<lparr>generated_description = (\<lambda>_ _ _ _. ''d''), input_json_schema = (\<lambda>_ _ _ _. JObject []),
      output_json_schema = (\<lambda>_ _ _ _. None)\<rparr>"

definition example_raw :: "string \<Rightarrow> RawOperation" where
  "example_raw s = \<lparr>source_text = s, raw_headers = None, raw_variables = None, source_path = None\<rparr>"

definition example_options :: "MutationMode \<Rightarrow> CompileOptions" where
  "example_options mode = \<lparr>mutation_mode = mode, enable_output_schema = False,
     annotation_overrides = Map.empty, description_overrides = Map.empty\<rparr>"

lemmas example_execution_simps = from_raw_def example_graphql_def example_texts_def example_raw_def
  example_options_def operation_defs_def Let_def str_slice_def operation_name_def

definition example_log :: log_levels where
  "example_log = \<lparr>debug_enabled = False, warn_enabled = True\<rparr>"

definition example_text_api :: text_api where
  "example_text_api = \<lparr>show_operation_error = (\<lambda>_. []), invalid_input = (\<lambda>_. []), parse_json = (\<lambda>_. Inr JNull)\<rparr>"

theorem mutation_gate_witness:
  "(\<exists>op q r sent. from_raw example_graphql example_log example_texts ()
        (example_options NoMutations) (example_raw ''q'') = Inr (Some op) \<and>
      execute_request (operation_details op) (operation_variables op) (operation_headers op)
        JNull (\<lambda>_. JsonResponse JNull) ''u'' hm_empty (JObject []) = (Some q, r) \<and>
      out_body q = JObject [(''variables'', JObject []), (''query'', JString sent),
        (''extensions'', JObject [(''clientLibrary'', JNull)]), (''operationName'', JString ''Q'')] \<and>
      (sent = ''q'' \<or> (\<exists>ds. sent = serialize_document example_graphql ds))) \<and>
   from_raw example_graphql example_log example_texts () (example_options NoMutations) (example_raw ''m'') = Inr None"
proof -
  obtain op where op: "from_raw example_graphql example_log example_texts () (example_options NoMutations) (example_raw ''q'') = Inr (Some op)"
    by (simp add: example_execution_simps example_log_def)
  have raw: "op_inner op = example_raw ''q''" using op by (auto elim: from_raw_found)
  obtain q r where sent: "execute_request (operation_details op) (operation_variables op) (operation_headers op)
        JNull (\<lambda>_. JsonResponse JNull) ''u'' hm_empty (JObject []) = (Some q, r)"
    using raw by (simp add: execute_request_def operation_details_def operation_variables_def Let_def example_raw_def)
  have vs: "operation_variables op (JObject []) = Inr (JObject [])"
    using raw by (simp add: operation_variables_def example_raw_def)
  from mutation_gate [of example_graphql example_log example_texts "()" "example_options NoMutations" "example_raw ''q''" op
      example_text_api "\<lparr>ex_mutation_mode = Explicit\<rparr>" JNull "\<lambda>_. JsonResponse JNull" "''u''" hm_empty JNull q r]
  obtain document operation name where doc: "parse_document example_graphql ''q'' = Inr document"
      "operations_of document = [operation]" "od_name operation = Some name"
    and req: "\<exists>vs sent. operation_variables op (JObject []) = Inr vs \<and>
        outgoing_query example_graphql ''q'' (map fst document) sent \<and>
        out_body q = JObject [(''variables'', vs), (''query'', JString sent),
          (''extensions'', JObject [(''clientLibrary'', JNull)]), (''operationName'', JString name)]"
    using op sent by (fastforce simp: example_raw_def)
  have "name = ''Q''" using doc by (auto simp: example_graphql_def operations_of_def)
  with req vs have "\<exists>sent. out_body q = JObject [(''variables'', JObject []), (''query'', JString sent),
        (''extensions'', JObject [(''clientLibrary'', JNull)]), (''operationName'', JString ''Q'')] \<and>
      (sent = ''q'' \<or> (\<exists>ds. sent = serialize_document example_graphql ds))"
    by (auto simp: outgoing_query_def)
  with op sent show ?thesis
    by (auto simp: example_execution_simps example_log_def)
qed

section \<open>Variables and responses\<close>

lemma add_raw_variables_ok:
  "add_raw_variables raw vs = Inr vs' \<Longrightarrow> distinct (map fst raw) \<Longrightarrow>
     vs' = vs @ raw \<and> (\<forall>k \<in> fst ` set raw. k \<notin> fst ` set vs)"
  by (induction raw vs rule: add_raw_variables.induct) (auto simp: list_ex_iff split: if_splits)

lemma add_raw_variables_conflict:
  "add_raw_variables raw vs = Inl e \<Longrightarrow> distinct (map fst raw) \<Longrightarrow>
     \<exists>k \<in> fst ` set raw. k \<in> fst ` set vs \<and> e = conflict_message k"
proof (induction raw vs rule: add_raw_variables.induct)
  case (2 key val raw vs)
  show ?case
  proof (cases "list_ex (\<lambda>kv. fst kv = key) vs")
    case True
    then have "key \<in> fst ` set vs" by (force simp: list_ex_iff)
    with True "2.prems"(1) show ?thesis by auto
  next
    case False
    with 2 obtain k where "k \<in> fst ` set raw" "k \<in> fst ` set (vs @ [(key, val)])" "e = conflict_message k"
      by auto
    with "2.prems"(2) show ?thesis by auto
  qed
qed simp

text \<open>
  C23: variables fixed by an operation (a map, so their names are distinct) cannot be overridden. On an object input that names none of
  them, the request that a call sends carries exactly the input's variables and the operation's,
  and on a null input just the operation's. An object input that names one of them is answered with
  an error with that name, any other input with an error too, and then no request is sent.
\<close>

theorem fixed_variables:
  assumes "raw_variables (op_inner op) = Some raw" and "distinct (map fst raw)"
    and "execute_request (operation_details op) (operation_variables op) (operation_headers op)
      cm send endpoint hs input = (request, result)"
  shows "case input of
      JNull \<Rightarrow> \<exists>q d. request = Some q \<and> out_body q = request_body cm (JObject raw) d
    | JObject obj \<Rightarrow>
        (if fst ` set obj \<inter> fst ` set raw = {}
         then \<exists>q d. request = Some q \<and> out_body q = request_body cm (JObject (obj @ raw)) d
         else request = None \<and> (\<exists>k \<in> fst ` set obj \<inter> fst ` set raw. result = error_result (conflict_message k)))
    | _ \<Rightarrow> request = None \<and> result = error_result ''Variables must be a JSON object or null''"
proof -
  have added: "if fst ` set obj \<inter> fst ` set raw = {} then add_raw_variables raw obj = Inr (obj @ raw)
      else \<exists>k \<in> fst ` set obj \<inter> fst ` set raw. add_raw_variables raw obj = Inl (conflict_message k)" for obj
  proof (cases "add_raw_variables raw obj")
    case (Inl e)
    with add_raw_variables_conflict [OF Inl assms(2)] show ?thesis by auto
  next
    case (Inr vs)
    from add_raw_variables_ok [OF Inr assms(2)]
    have "vs = obj @ raw" "fst ` set obj \<inter> fst ` set raw = {}" by blast+
    with Inr show ?thesis by simp
  qed
  note run = assms(3) [unfolded execute_request_def Let_def operation_variables_def assms(1) option.case]
  show ?thesis
  proof (cases input)
    case JNull
    with run added [of "[]"] show ?thesis by (auto simp: operation_details_def)
  next
    case (JObject obj)
    show ?thesis
    proof (cases "fst ` set obj \<inter> fst ` set raw = {}")
      case True
      with added [of obj] have "add_raw_variables raw obj = Inr (obj @ raw)" by simp
      with run JObject have "request = Some \<lparr>out_endpoint = endpoint, out_headers = operation_headers op send_headers,
          out_body = request_body cm (JObject (obj @ raw)) \<lparr>det_query = (case op_stripped_source_text op of
              Some t \<Rightarrow> t | None \<Rightarrow> source_text (op_inner op)), det_operation_name = Some (op_operation_name op),
            det_private_fields = op_private_fields op\<rparr>\<rparr>" if "send_headers = hs" for send_headers
        using that by (simp add: operation_details_def)
      with True JObject show ?thesis by (auto intro!: exI)
    next
      case False
      with added [of obj] obtain k where "k \<in> fst ` set obj \<inter> fst ` set raw"
        "add_raw_variables raw obj = Inl (conflict_message k)" by auto
      with run False JObject show ?thesis by (auto intro!: bexI [of _ k])
    qed
  qed (use run in auto)
qed

definition example_fixed :: Operation where
  "example_fixed = \<lparr>op_tool = \<lparr>tool_name = ''Q'', tool_description = [], tool_input_schema = JNull,
       tool_output_schema = None, tool_annotations = operation_annotations
         \<lparr>od_operation_type = Query, od_name = Some ''Q'', od_variables = [], od_directives = [], od_selection_set = [],
          od_description = None, od_name_location = None\<rparr> ''Q'' Map.empty, tool_meta = None\<rparr>,
     op_inner = (example_raw ''q'')\<lparr>raw_variables := Some [(''id'', JNull)]\<rparr>,
     op_operation_name = ''Q'', op_stripped_source_text = None, op_private_fields = None\<rparr>"

definition example_call :: "json \<Rightarrow> outgoing_request option \<times> CallToolResult" where
  "example_call input = execute_request (operation_details example_fixed) (operation_variables example_fixed)
     (operation_headers example_fixed) JNull (\<lambda>_. JsonResponse JNull) ''u'' hm_empty input"

theorem fixed_variables_witness:
  "(\<exists>q d. fst (example_call (JObject [(''x'', JNull)])) = Some q \<and>
      out_body q = request_body JNull (JObject [(''x'', JNull), (''id'', JNull)]) d) \<and>
   example_call (JObject [(''id'', JString ''evil'')]) = (None, error_result (conflict_message ''id'')) \<and>
   fst (example_call (JArray [])) = None"
proof -
  have raw: "raw_variables (op_inner example_fixed) = Some [(''id'', JNull)]" "distinct (map fst [(''id'', JNull :: json)])"
    by (simp_all add: example_fixed_def)
  note fixed = fixed_variables [OF raw, of JNull "\<lambda>_. JsonResponse JNull" "''u''" hm_empty,
      folded example_call_def, OF prod.collapse [symmetric]]
  show ?thesis
    using fixed [of "JObject [(''x'', JNull)]"] fixed [of "JObject [(''id'', JString ''evil'')]"] fixed [of "JArray []"]
    by (auto simp: prod_eq_iff)
qed

text \<open>
  C19: what a call of a predefined tool returns for a JSON response. What the model sees, in the
  structured content and as text, is the response itself without its hidden paths: outside
  \<open>data\<close> nothing is changed, and at each place of \<open>data\<close> it shows the same scalar, array length
  or object keys, unless the path is hidden. Every field that the operation itself marks private is
  hidden, and nothing is hidden that is not marked by the operation or a named fragment it spreads
  (a field marked in a fragment is hidden where the fragment is first met only, see
  \<open>second_spread_leaks\<close>). When the operation has private fields the full response is in the
  meta, otherwise there is no meta; and the result is flagged as an error exactly when the full
  response has non-null errors.
\<close>

theorem private_tool_result:
  assumes "from_raw G L X S opts raw = Inr (Some op)"
    and "parse_document G (source_text raw) = Inr document"
    and "operation \<in> set (operations_of document)"
    and "execute_request (operation_details op) (operation_variables op) (operation_headers op) cm send endpoint hs input =
      (Some request, result)"
    and "send request = JsonResponse response"
  shows "\<exists>hid shown. ctr_structured_content result = Some shown \<and> ctr_content result = [JsonTextBlock shown] \<and>
    shows_all_but hid response shown \<and>
    (\<forall>p. private_direct (od_selection_set operation) p \<longrightarrow> hid p) \<and>
    (\<forall>p. hid p \<longrightarrow> op_private_fields op \<noteq> None \<and>
       (\<exists>q r. p = q @ r \<and>
          private_path (collect_named_fragments (map fst document)) (od_selection_set operation) q)) \<and>
    ctr_meta result = (if op_private_fields op = None then None else Some [(''structuredContent'', response)]) \<and>
    ctr_is_error result = Some (has_errors response)"
proof -
  obtain document' operation' comments tree where
    found: "operation_defs G L (source_text raw) (mutation_mode opts \<noteq> NoMutations) (source_path raw) =
      Inr (Some (document', operation', comments))"
    and op: "op_private_fields op = (if has_private_fields tree then Some tree else None)"
    and tree: "collect_private_fields (length document') (collect_named_fragments (map fst document'))
      (od_selection_set operation') = Some tree"
    using from_raw_found [OF assms(1)] by metis
  have same: "operation' = operation" "document' = document"
    using operation_defs_found(1,2) [OF found] assms(2,3) by simp_all
  let ?shown = "fst (split_response (op_private_fields op) response)"
  have "shows_all_but (hidden tree) response ?shown"
  proof (cases "has_private_fields tree")
    case True
    then show ?thesis by (simp add: op split_response_def filtered_shows)
  next
    case False
    then have none: "hidden tree = (\<lambda>_. False)" using hidden_has_private by blast
    show ?thesis unfolding none using False unfiltered_shows by (simp add: op split_response_def)
  qed
  moreover have "hidden tree p \<longrightarrow> op_private_fields op \<noteq> None" for p
    using op hidden_has_private by auto
  moreover from execute_request_sent [OF assms(4)] obtain d where
    "operation_details op input = Inr d" "result = response_result (det_private_fields d) (send request)"
    by metis
  then have "ctr_structured_content result = Some ?shown \<and> ctr_content result = [JsonTextBlock ?shown] \<and>
      ctr_meta result = (if op_private_fields op = None then None else Some [(''structuredContent'', response)]) \<and>
      ctr_is_error result = Some (has_errors response)"
    using assms(5)
    by (auto simp: operation_details_def response_result_def structured_result_def split_response_def
        split: option.split)
  ultimately show ?thesis
    using collected_exactly [OF tree] unfolding same below_private_def by blast
qed

theorem private_tool_result_witness:
  "\<exists>op. from_raw (example_graphql\<lparr>parse_document := (\<lambda>_. Inr [(OperationDefinition
        \<lparr>od_operation_type = Query, od_name = Some ''Q'', od_variables = [], od_directives = [],
         od_selection_set = [Field None ''ssn'' [] [\<lparr>dir_name = ''private'', dir_arguments = []\<rparr>] []], od_description = None, od_name_location = None\<rparr>, None)])\<rparr>)
      example_log example_texts () (example_options NoMutations) (example_raw ''q'') = Inr (Some op) \<and>
    (\<exists>request result shown hid.
      execute_request (operation_details op) (operation_variables op) (operation_headers op) JNull
        (\<lambda>_. JsonResponse (JObject [(''data'', JObject [(''ssn'', JString ''1'')])])) ''e'' hm_empty JNull = (Some request, result) \<and>
      ctr_structured_content result = Some shown \<and> hid [''ssn''] \<and>
      shows_all_but hid (JObject [(''data'', JObject [(''ssn'', JString ''1'')])]) shown)"
proof -
  let ?ss = "[Field None ''ssn'' [] [\<lparr>dir_name = ''private'', dir_arguments = []\<rparr>] []]"
  let ?op = "\<lparr>od_operation_type = Query, od_name = Some ''Q'', od_variables = [], od_directives = [], od_selection_set = ?ss, od_description = None, od_name_location = None\<rparr>"
  let ?G = "example_graphql\<lparr>parse_document := (\<lambda>_. Inr [(OperationDefinition ?op, None)])\<rparr>"
  let ?send = "\<lambda>_ :: outgoing_request. JsonResponse (JObject [(''data'', JObject [(''ssn'', JString ''1'')])])"
  obtain op where op: "from_raw ?G example_log example_texts ()
      (example_options NoMutations) (example_raw ''q'') = Inr (Some op)"
    by (simp add: example_execution_simps example_log_def)
  then have "op_inner op = example_raw ''q''" by (auto elim: from_raw_found)
  then obtain request result where run:
    "execute_request (operation_details op) (operation_variables op) (operation_headers op) JNull ?send ''e'' hm_empty JNull =
      (Some request, result)"
    by (simp add: execute_request_def operation_details_def operation_variables_def Let_def example_raw_def)
  have "private_direct ?ss [''ssn'']"
    using private_direct.here [of None "''ssn''" "[]" "[\<lparr>dir_name = ''private'', dir_arguments = []\<rparr>]" "[]" ?ss]
    by (simp add: response_key_def marked_private_def PRIVATE_DIRECTIVE_NAME_def)
  then have p: "private_direct (od_selection_set ?op) [''ssn'']" by simp
  have doc: "parse_document ?G (source_text (example_raw ''q'')) = Inr [(OperationDefinition ?op, None)]"
    "?op \<in> set (operations_of [(OperationDefinition ?op, None)])"
    by (simp_all add: operations_of_def)
  from private_tool_result [OF op doc run refl] p op run show ?thesis by blast
qed

end
