(* ===== verification/Tool_Results.thy ===== *)
theory Tool_Results
  imports Output_Tool Tool_Texts Execution
begin

text \<open>
  The compiler of tools, the execution of their operations and the filter of private fields
  together: what a tool returns as structured content is valid under the output schema that it
  declares.
\<close>

declare map_of_eq_Some_iff [simp del] Some_eq_map_of_iff [simp del]

section \<open>Filtered responses\<close>

text \<open>Custom scalars that have a schema are not serialised as objects or lists.\<close>

definition flat_scalars :: "output_env \<Rightarrow> (string \<Rightarrow> json \<Rightarrow> json \<Rightarrow> bool) \<Rightarrow> bool" where
  "flat_scalars E other \<longleftrightarrow>
     (\<forall>n s v. wk_custom_scalars (oe_walker E) n = Some s \<longrightarrow>
        accepts \<lparr>vd_definitions = [], vd_ref_limit = 0, vd_keyword = other\<rparr> 0 s v \<longrightarrow>
        \<not> has_type ''object'' v \<and> \<not> has_type ''array'' v)"

lemma filter_object_flat: "\<not> has_type ''object'' v \<Longrightarrow> \<not> has_type ''array'' v \<Longrightarrow> filter_object v p = v"
  by (cases v) simp_all

lemma filter_object_entries: "filter_object (JObject kvs) p = JObject (filter_map (filter_entry p) kvs)"
  by (simp, rule arg_cong[where f = "\<lambda>f. filter_map f kvs"]) (auto simp: filter_entry_def fun_eq_iff)

definition filtered_entry :: "PrivateFieldTree \<Rightarrow> string \<Rightarrow> json \<Rightarrow> json" where
  "filtered_entry p k v = (case map_of (children p) k of None \<Rightarrow> v | Some child \<Rightarrow> filter_object v child)"

lemma map_of_filtered:
  "\<not> key_hidden p k \<Longrightarrow> map_of (filter_map (filter_entry p) kvs) k = map_option (filtered_entry p k) (map_of kvs k)"
  by (induction kvs) (auto simp: filter_entry_def filtered_entry_def key_hidden_def split: option.splits if_splits)

lemma keys_filtered: "k \<in> obj_keys (filter_map (filter_entry p) kvs) \<Longrightarrow> k \<in> obj_keys kvs"
  by (induction kvs) (auto simp: filter_entry_def obj_keys_def split: option.splits if_splits)

text \<open>A response to which nothing is private, and the same with what \<open>p\<close> hides left out.\<close>

abbreviation filters_to :: "response_pred \<Rightarrow> response_pred \<Rightarrow> response_pred" where
  "filters_to R R' \<equiv> (\<lambda>n ss q v. R n ss q v \<and> (q = default_tree \<longrightarrow> (\<forall>p. R' n ss p (filter_object v p))))"

lemma filtered_type:
  "response_type (filters_to R R') t ss default_tree v \<Longrightarrow> response_type R' t ss p (filter_object v p)"
proof (induction t arbitrary: v)
  case (Named n)
  then show ?case by auto
next
  case (ListOf t)
  then show ?case by (cases v) auto
next
  case (NonNullList t)
  then show ?case by (cases v) auto
qed auto

lemma child_of_default [simp]: "child_or_default k default_tree = default_tree"
  by (simp add: child_or_default_def default_tree_def)

lemma filtered_field:
  assumes "field_response (filters_to R R) default_tree f d v"
  shows "field_response R p f d (filtered_entry p (field_key f) v)"
proof (cases "sel_name f = ''__typename''")
  case True
  then have "has_type ''string'' v" using assms by (simp add: field_response_def)
  then show ?thesis using True by (cases v) (auto simp: field_response_def filtered_entry_def split: option.split)
next
  case named: False
  show ?thesis
  proof (cases "get_field_definition d (sel_name f)")
    case None
    then show ?thesis using named by (simp add: field_response_def)
  next
    case (Some fd)
    then have given: "response_type (filters_to R R) (fd_ty fd) (sel_selection_set f) default_tree v"
      using assms named by (simp add: field_response_def)
    have "response_type R (fd_ty fd) (sel_selection_set f) default_tree v"
      by (rule mp[OF response_type_mono given]) (auto simp: le_fun_def)
    with filtered_type[OF given] show ?thesis
      using Some named
      by (auto simp: field_response_def filtered_entry_def child_or_default_def split: option.split)
  qed
qed

lemma filtered_object:
  assumes "object_response E (filters_to R R) parent ss default_tree kvs"
  shows "object_response E R parent ss p (filter_map (filter_entry p) kvs)"
proof -
  obtain T where T: "T \<in> set (member_names E parent)"
    and given: "\<And>f d. selects E T parent ss f d \<Longrightarrow>
      \<exists>x. map_of kvs (field_key f) = Some x \<and> field_response (filters_to R R) default_tree f d x"
    and only: "\<And>k. k \<in> obj_keys kvs \<Longrightarrow> \<exists>f d. selects E T parent ss f d \<and> field_key f = k"
    using assms by (auto simp: object_response_def key_hidden_def default_tree_def)
  have "\<exists>x. map_of (filter_map (filter_entry p) kvs) (field_key f) = Some x \<and> field_response R p f d x"
    if "selects E T parent ss f d" "\<not> key_hidden p (field_key f)" for f d
    using given[OF that(1)] map_of_filtered[OF that(2)] filtered_field by fastforce
  moreover have "\<exists>f d. selects E T parent ss f d \<and> field_key f = k"
    if "k \<in> obj_keys (filter_map (filter_entry p) kvs)" for k
    using keys_filtered[OF that] only by blast
  ultimately show ?thesis using T unfolding object_response_def by blast
qed

lemma filtered_named:
  assumes "flat_scalars E other"
  shows "response_named E other n ss q v \<Longrightarrow> q = default_tree \<Longrightarrow> response_named E other n ss p (filter_object v p)"
proof (induction arbitrary: p rule: response_named.induct)
  case (builtin n s v ss q)
  then have "filter_object v p = v" by (cases "(n, v)" rule: builtin_response.cases) auto
  then show ?case using builtin by (auto intro: response_named.builtin)
next
  case (enum n d n' ds vs ev ss q)
  then show ?case by (auto intro: response_named.enum)
next
  case (scalar n d n' ds v ss q)
  show ?case
  proof (rule response_named.scalar[OF scalar.hyps(1,2)])
    fix s assume s: "wk_custom_scalars (oe_walker E) n = Some s"
    with assms scalar.hyps(3)[OF s] have "filter_object v p = v"
      by (intro filter_object_flat) (auto simp: flat_scalars_def)
    then show "accepts \<lparr>vd_definitions = [], vd_ref_limit = 0, vd_keyword = other\<rparr> 0 s (filter_object v p)"
      using scalar.hyps(3)[OF s] by simp
  qed
next
  case (composite n parent ss q kvs)
  have eq: "(\<lambda>n ss q v. response_named E other n ss q v \<and>
      (q = default_tree \<longrightarrow> (\<forall>p. response_named E other n ss p (filter_object v p)))) =
    filters_to (response_named E other) (response_named E other)" ..
  have "object_response E (response_named E other) parent ss p (filter_map (filter_entry p) kvs)"
    by (rule filtered_object) (use composite in simp)
  then show ?case
    unfolding filter_object_entries by (rule response_named.composite[OF composite.hyps(1-4)])
qed

lemma filtered_response:
  assumes "flat_scalars E other" "response_value E other parent ss default_tree v"
  shows "response_value E other parent ss p (filter_private_fields v p)"
proof (cases v)
  case (JObject kvs)
  let ?f = "\<lambda>(key, val). (key, if key = ''data'' then filter_object val p else val)"
  have entry: "map_of (map ?f kvs) k = map_option (\<lambda>x. if k = ''data'' then filter_object x p else x) (map_of kvs k)" for k
    by (induction kvs) auto
  have other_entry: "map_of (map ?f kvs) k = map_of kvs k" if "k \<noteq> ''data''" for k
    using that by (simp add: entry option.map_ident)
  have data: "object_response E (response_named E other) parent ss p (filter_map (filter_entry p) dkvs)"
    if "object_response E (response_named E other) parent ss default_tree dkvs" for dkvs
  proof (rule filtered_object, rule mp[OF object_response_mono that])
    show "response_named E other \<le> filters_to (response_named E other) (response_named E other)"
      using filtered_named[OF assms(1)] by (auto simp: le_fun_def)
  qed
  have "entry_holds (map ?f kvs) ''data''
      (\<lambda>d. \<exists>kvs. d = JObject kvs \<and> object_response E (response_named E other) parent ss p kvs)"
    using assms(2) JObject data
    by (auto simp: response_value_def entry_holds_def entry filter_object_entries simp del: filter_object.simps
        split: option.splits)
  then show ?thesis
    using assms(2) JObject by (simp add: response_value_def entry_holds_def other_entry)
qed (use assms(2) in \<open>simp_all add: response_value_def\<close>)

section \<open>The tool and its results\<close>

lemma load_tool_output:
  assumes "load_tool G L C S opts raw = Some (Inr (Some op))" "enable_output_schema opts"
    and "operation_defs G L (source_text raw) (mutation_mode opts \<noteq> NoMutations) (source_path raw) =
      Inr (Some (document, operation, comments))"
  shows "operation_output_schema C S document operation (op_private_fields op) = Some (tool_output_schema (op_tool op))"
    "op_inner op = raw"
proof -
  obtain name where name: "od_name operation = Some name"
    using assms(1,3) by (cases "od_name operation") (auto simp: load_tool_def from_raw_def operation_name_def)
  obtain overrides and shaker :: SchemaTreeShaker and input out where
    loaded: "from_raw G L (server_texts C shaker overrides input) S opts raw = Inr (Some op)"
    and out: "operation_output_schema C S document operation (private_tree_of document operation) = Some out"
    using assms name by (auto simp: load_tool_def Let_def split: option.splits if_splits)
  show "op_inner op = raw"
    using from_raw_found[OF loaded] by metis
  have "op_private_fields op = private_tree_of document operation \<and> tool_output_schema (op_tool op) = out"
    using loaded assms(2,3) name out
    by (auto simp: from_raw_def operation_name_def server_texts_def private_tree_of_def Let_def)
  with out show "operation_output_schema C S document operation (op_private_fields op) =
      Some (tool_output_schema (op_tool op))" by simp
qed

text \<open>
  C6: What a call of a tool returns as structured content is valid under the output schema that
  the tool declares, under conditions on the endpoint's response: its data is an object (not
  \<open>null\<close>), no directive skips a selected field, no field's value needs the merging of two
  selections (\<open>response_value\<close>), and custom scalars are not serialised as objects or lists
  (\<open>flat_scalars\<close>). Then, for every operation on composite types, whatever fragments and
  concrete types its selections involve and whatever variables it fixes, each call that sends its
  request answers with content that the declared schema accepts, the private fields filtered from
  the response being those left out of the schema. Outside these conditions the declared schema can
  reject a legal response: \<open>split_selection_rejected\<close> shows it for two selections of one field.
\<close>

theorem tool_result_conforms:
  assumes "load_tool G L C S opts raw = Some (Inr (Some op))" "enable_output_schema opts"
    and "operation_defs G L (source_text raw) (mutation_mode opts \<noteq> NoMutations) (source_path raw) =
      Inr (Some (document, operation, comments))"
    and "root_operation S (od_operation_type operation) = Some n"
    and "map_of (schema_types S) n = Some parent" "is_composite parent"
    and "env_ok (output_env_for C S document)" "flat_scalars (output_env_for C S document) other"
    and "execute_request (operation_details op) (operation_variables op) (operation_headers op) cm send endpoint hs input =
      (Some request, result)"
    and "send request = JsonResponse response"
    and "response_value (output_env_for C S document) other parent (od_selection_set operation) default_tree response"
  shows "\<exists>root shown.
    tool_output_schema (op_tool op) = Some root \<and>
    shown = (case op_private_fields op of None \<Rightarrow> response | Some tree \<Rightarrow> filter_private_fields response tree) \<and>
    ctr_structured_content result = Some shown \<and> ctr_content result = [JsonTextBlock shown] \<and>
    valid_under other root shown"
proof -
  let ?E = "output_env_for C S document"
  note out = load_tool_output[OF assms(1-3)]
  obtain root where root: "tool_output_schema (op_tool op) = Some root"
    and sel: "selection_set_to_schema ?E (ts_stack C) (od_selection_set operation) parent (op_private_fields op) = Some root"
    using out(1) assms(4,5) by (cases "tool_output_schema (op_tool op)") (auto simp: operation_output_schema_def)
  have ty: "output_type ?E n = Some parent"
    using assms(5) by (simp add: output_env_for_def walker_for_def)
  let ?shown = "case op_private_fields op of None \<Rightarrow> response | Some tree \<Rightarrow> filter_private_fields response tree"
  have "response_value ?E other parent (od_selection_set operation)
      (case op_private_fields op of None \<Rightarrow> default_tree | Some t \<Rightarrow> t) ?shown"
    using filtered_response[OF assms(8,11)] assms(11) by (simp split: option.split)
  from declared_schema_accepts_responses[OF assms(7) ty assms(6) sel this]
  have valid: "valid_under other root ?shown" .
  from execute_request_sent[OF assms(9)] obtain d where
    "operation_details op input = Inr d" "result = response_result (det_private_fields d) (send request)"
    by metis
  then have "ctr_structured_content result = Some ?shown \<and> ctr_content result = [JsonTextBlock ?shown]"
    using assms(10)
    by (auto simp: operation_details_def response_result_def structured_result_def split_response_def
        split: option.split)
  with root valid show ?thesis by blast
qed

definition media_settings :: text_settings where
  "media_settings =
     \<lparr>ts_walker = media_walker, ts_disable_type_description = False, ts_disable_schema_description = False,
      ts_to_schema = (\<lambda>_. []), ts_is_built_in = (\<lambda>_. False), ts_serialize_type = (\<lambda>_. []), ts_stack = 12,
      ts_implementers = (\<lambda>_ _. None)\<rparr>"

text \<open>\<open>query Get { media { ... on Book { title pages @private } ... on Film { title } } }\<close>\<close>

definition media_operation :: operation_definition where
  "media_operation =
     \<lparr>od_operation_type = Query, od_name = Some ''Get'', od_variables = [], od_directives = [],
      od_selection_set = [Field None ''media'' [] []
        (book_selection [\<lparr>dir_name = ''private'', dir_arguments = []\<rparr>])],
      od_description = None, od_name_location = None\<rparr>"

definition media_document :: document where
  "media_document = [(OperationDefinition media_operation, None)]"

definition media_graphql :: graphql_api where
  "media_graphql =
     \<lparr>parse_document = (\<lambda>s. Inr media_document), serialize_document = (\<lambda>_. []), serialize_operation = (\<lambda>_. [])\<rparr>"

definition media_raw :: RawOperation where
  "media_raw = \<lparr>source_text = [], raw_headers = None, raw_variables = None, source_path = None\<rparr>"

definition output_options :: CompileOptions where
  "output_options = plain_options\<lparr>enable_output_schema := True\<rparr>"

lemma media_found:
  "operation_defs media_graphql quiet (source_text media_raw) (mutation_mode output_options \<noteq> NoMutations)
     (source_path media_raw) = Inr (Some (media_document, media_operation, None))"
  by (simp add: operation_defs_def media_graphql_def media_document_def media_operation_def)

lemma media_output_exists:
  "\<not> Option.is_none (operation_output_schema media_settings media_schema media_document media_operation
     (private_tree_of media_document media_operation))"
  by code_simp

lemma media_shaker_exists:
  "\<not> Option.is_none (operation_shaker media_settings media_schema media_document media_operation)"
  by code_simp

lemma media_output_env: "output_env_for media_settings media_schema media_document = media_env"
  by (simp add: output_env_for_def media_settings_def media_env_def walker_for_def media_walker_def
      media_document_def collect_named_fragments_def)

lemma media_tool: "\<exists>op. load_tool media_graphql quiet media_settings media_schema output_options media_raw = Some (Inr (Some op))"
proof (rule load_tool_returns[OF media_found])
  show "walker_ok (walker_for media_settings media_schema)"
    using env_walker[OF media_env_ok] by (simp add: media_env_def media_settings_def media_walker_def walker_for_def)
  show "variable_description_overrides (source_text media_raw) media_operation \<noteq> None"
    by (simp add: variable_description_overrides_def media_operation_def)
qed (use media_output_exists media_shaker_exists in \<open>auto simp: Option.is_none_def media_operation_def\<close>)

theorem tool_result_conforms_witness:
  "\<exists>op root request result shown.
    load_tool media_graphql quiet media_settings media_schema output_options media_raw = Some (Inr (Some op)) \<and>
    tool_output_schema (op_tool op) = Some root \<and>
    execute_request (operation_details op) (operation_variables op) (operation_headers op) JNull
      (\<lambda>_. JsonResponse (media_response [(''title'', JString ''Dune''), (''pages'', JNumber 412)])) ''e'' hm_empty JNull =
      (Some request, result) \<and>
    ctr_structured_content result = Some shown \<and> valid_under (\<lambda>_ _ _. True) root shown"
proof -
  obtain op where op: "load_tool media_graphql quiet media_settings media_schema output_options media_raw = Some (Inr (Some op))"
    using media_tool by blast
  let ?response = "media_response [(''title'', JString ''Dune''), (''pages'', JNumber 412)]"
  have "op_inner op = media_raw"
    using load_tool_output(2)[OF op _ media_found] by (simp add: output_options_def)
  then obtain request result where run: "execute_request (operation_details op) (operation_variables op) (operation_headers op) JNull
      (\<lambda>_. JsonResponse ?response) ''e'' hm_empty JNull = (Some request, result)"
    by (simp add: execute_request_def operation_variables_def operation_details_def media_raw_def Let_def)
  have "\<exists>root shown. tool_output_schema (op_tool op) = Some root \<and>
    shown = (case op_private_fields op of None \<Rightarrow> ?response | Some tree \<Rightarrow> filter_private_fields ?response tree) \<and>
    ctr_structured_content result = Some shown \<and> ctr_content result = [JsonTextBlock shown] \<and>
    valid_under (\<lambda>_ _ _. True) root shown"
  proof (rule tool_result_conforms[OF op _ media_found _ _ _ _ _ run, where n = "''Query''" and parent = media_query])
    show "response_value (output_env_for media_settings media_schema media_document) (\<lambda>_ _ _. True) media_query
        (od_selection_set media_operation) default_tree ?response"
      unfolding media_output_env by (simp add: media_operation_def media_answer)
    show "env_ok (output_env_for media_settings media_schema media_document)"
      by (simp add: media_output_env media_env_ok)
    show "flat_scalars (output_env_for media_settings media_schema media_document) (\<lambda>_ _ _. True)"
      by (simp add: flat_scalars_def media_output_env media_env_def media_walker_def)
  qed (simp_all add: output_options_def media_schema_def media_operation_def media_query_def)
  then show ?thesis using op run by blast
qed

end
