(* ===== verification/Apps.thy ===== *)
theory Apps
  imports Execution
begin

text \<open>
  MCP apps (\<open>apps/app.rs\<close>, \<open>apps/tool.rs\<close>, \<open>apps/resource.rs\<close>): which host an app is rendered for,
  the tools of an app with their metadata, executing one with its prefetches, nesting their
  results so that private fields reach the app and not the model, and serving the app's page.
\<close>

section \<open>Apps\<close>

text \<open>A URL is read here only through its text and its path.\<close>

record app_url =
  app_url_text :: string
  app_url_path :: string

datatype AppResourceSource = LocalSource string | RemoteSource string

record TargetedAppResource =
  for_openai :: "AppResourceSource option"
  for_mcp :: "AppResourceSource option"

datatype AppResource = Targeted TargetedAppResource | Single AppResourceSource

record CSPSettings =
  connect_domains :: "string list option"
  resource_domains :: "string list option"
  frame_domains :: "string list option"
  redirect_domains :: "string list option"
  base_uri_domains :: "string list option"

record WidgetSettings =
  widget_description :: "string option"
  widget_domain :: "string option"
  widget_prefers_border :: "bool option"

record AppLabels =
  label_invoking :: "string option"
  label_invoked :: "string option"

text \<open>An \<open>Arc\<close> is the value with the address it is compared by.\<close>

record 'a arc =
  arc_ptr :: nat
  arc_val :: 'a

record AppTool =
  at_operation :: "Operation arc"
  at_labels :: AppLabels
  at_tool :: Tool
  at_extra_outputs :: "json option"

record PrefetchOperation =
  pf_operation :: "Operation arc"
  pf_prefetch_id :: string

record App =
  app_name :: string
  app_description :: "string option"
  app_resource :: AppResource
  app_csp_settings :: "CSPSettings option"
  app_widget_settings :: "WidgetSettings option"
  app_uri :: app_url
  app_tools :: "AppTool list"
  app_prefetch_operations :: "PrefetchOperation list"

datatype ErrorCode = INVALID_REQUEST | INVALID_PARAMS | RESOURCE_NOT_FOUND | INTERNAL_ERROR

record McpError =
  err_code :: ErrorCode
  err_message :: string

section \<open>The target of an app\<close>

datatype AppTarget = AppsSDK | MCPApps

record ClientCapabilities =
  cap_extensions :: "(string \<times> (string \<times> json) list) list option"

definition has_mcp_app_support :: "ClientCapabilities \<Rightarrow> bool" where
  "has_mcp_app_support c =
     (case cap_extensions c of
        None \<Rightarrow> False
      | Some exts \<Rightarrow>
          (case map_of exts ''io.modelcontextprotocol/ui'' of
             None \<Rightarrow> False
           | Some extension \<Rightarrow>
               (case map_of extension ''mimeTypes'' of
                  Some (JArray mimetypes) \<Rightarrow> List.member mimetypes (JString ''text/html;profile=mcp-app'')
                | _ \<Rightarrow> False)))"

text \<open>\<open>form_urlencoded::parse\<close> is an argument.\<close>

definition app_target ::
    "(string \<Rightarrow> (string \<times> string) list) \<Rightarrow> string option \<Rightarrow> ClientCapabilities option \<Rightarrow> (McpError, AppTarget) result" where
  "app_target parse_query query capabilities =
     (case (case query of None \<Rightarrow> None
            | Some q \<Rightarrow> map_option snd (find (\<lambda>(key, _). key = ''appTarget'') (parse_query q))) of
        Some target \<Rightarrow>
          if ascii_lower target = ''openai'' then Inr AppsSDK
          else if ascii_lower target = ''mcp'' then Inr MCPApps
          else Inl \<lparr>err_code = INVALID_REQUEST,
            err_message = ''App target '' @ target @ '' not recognized. Valid values are '' @ [CHR 0x27] @ ''openai'' @ [CHR 0x27] @
              '' or '' @ [CHR 0x27] @ ''mcp'' @ [CHR 0x27] @ ''.''\<rparr>
      | None \<Rightarrow>
          (case capabilities of
             Some c \<Rightarrow> if has_mcp_app_support c then Inr MCPApps else Inr AppsSDK
           | None \<Rightarrow> Inr AppsSDK))"

section \<open>Tool metadata\<close>

definition meta_of :: "Tool \<Rightarrow> (string \<times> json) list" where
  "meta_of t = (case tool_meta t of None \<Rightarrow> [] | Some m \<Rightarrow> m)"

definition make_tool_private :: "Tool \<Rightarrow> Tool" where
  "make_tool_private t =
     t\<lparr>tool_meta := Some (obj_insert ''ui'' (JObject [(''visibility'', JArray [JString ''app''])]) (meta_of t))\<rparr>"

definition insert_label :: "AppTarget \<Rightarrow> string \<Rightarrow> string option \<Rightarrow> (string \<times> json) list \<Rightarrow> (string \<times> json) list" where
  "insert_label target k label meta =
     (if target = AppsSDK then (case label of None \<Rightarrow> meta | Some l \<Rightarrow> obj_insert k (JString l) meta) else meta)"

definition attach_tool_metadata :: "App \<Rightarrow> AppTool \<Rightarrow> AppTarget \<Rightarrow> Tool" where
  "attach_tool_metadata app t target =
     (let uri = JString (app_url_text (app_uri app));
          ui = JObject [(''resourceUri'', uri), (''visibility'', JArray [JString ''model'', JString ''app''])];
          meta = obj_insert ''ui/resourceUri'' uri (meta_of (at_tool t));
          meta = insert_label target ''openai/toolInvocation/invoking'' (label_invoking (at_labels t)) meta;
          meta = insert_label target ''openai/toolInvocation/invoked'' (label_invoked (at_labels t)) meta
      in (at_tool t)\<lparr>tool_meta := Some (obj_insert ''ui'' ui meta)\<rparr>)"

lemma app_tool_names [simp]:
  "tool_name (make_tool_private t) = tool_name t"
  "tool_name (attach_tool_metadata app at target) = tool_name (at_tool at)"
  by (simp_all add: make_tool_private_def attach_tool_metadata_def Let_def)

section \<open>Nesting results\<close>

text \<open>
  \<open>take_full_result\<close> answers the unfiltered result, and the call result without it. (The order of
  the keys left in the meta is not observable.)
\<close>

definition take_full_result :: "CallToolResult \<Rightarrow> json option \<times> CallToolResult" where
  "take_full_result r =
     (case ctr_meta r of
        None \<Rightarrow> (ctr_structured_content r, r)
      | Some meta \<Rightarrow>
          (case map_of meta ''structuredContent'' of
             None \<Rightarrow> (ctr_structured_content r, r)
           | Some v \<Rightarrow> (Some v, r\<lparr>ctr_meta := Some (filter (\<lambda>kv. fst kv \<noteq> ''structuredContent'') meta)\<rparr>)))"

record nest =
  restricted_prefetch :: "(string \<times> json) list"
  full_map :: "(string \<times> json) list option"
  full_prefetch :: "(string \<times> json) list"

definition nest_prefetch :: "nest \<Rightarrow> string \<times> CallToolResult \<Rightarrow> nest" where
  "nest_prefetch s p =
     (case p of (prefetch_id, prefetch_result) \<Rightarrow>
        (case take_full_result prefetch_result of (prefetch_full, prefetch_result) \<Rightarrow>
           let s = (case ctr_structured_content prefetch_result of
                 None \<Rightarrow> s
               | Some restricted \<Rightarrow>
                   s\<lparr>restricted_prefetch := obj_insert prefetch_id restricted (restricted_prefetch s)\<rparr>)
           in case prefetch_full of
                None \<Rightarrow> s
              | Some full \<Rightarrow>
                  if (case ctr_structured_content prefetch_result of None \<Rightarrow> False | Some r \<Rightarrow> r \<noteq> full)
                  then s\<lparr>full_map := Some (case full_map s of None \<Rightarrow> [] | Some m \<Rightarrow> m),
                         full_prefetch := obj_insert prefetch_id full (full_prefetch s)\<rparr>
                  else s))"

definition nest_app_tool_result ::
    "CallToolResult \<Rightarrow> string \<Rightarrow> (string \<times> CallToolResult) list \<Rightarrow> json option \<Rightarrow> CallToolResult" where
  "nest_app_tool_result result name prefetch_results extra_outputs =
     (case ctr_structured_content result of
        None \<Rightarrow> result
      | Some restricted_content \<Rightarrow>
          (case take_full_result (result\<lparr>ctr_structured_content := None\<rparr>) of (full_result, result) \<Rightarrow>
             let full = (case full_result of
                   None \<Rightarrow> None
                 | Some full \<Rightarrow> if full \<noteq> restricted_content then Some [(''result'', full)] else None);
                 s = foldl nest_prefetch \<lparr>restricted_prefetch = [], full_map = full, full_prefetch = []\<rparr> prefetch_results;
                 restricted = [(''result'', restricted_content)];
                 restricted = (if restricted_prefetch s \<noteq> []
                   then obj_insert ''prefetch'' (JObject (restricted_prefetch s)) restricted else restricted);
                 full = map_option (\<lambda>m. if full_prefetch s \<noteq> []
                   then obj_insert ''prefetch'' (JObject (full_prefetch s)) m else m) (full_map s);
                 restricted = obj_insert ''toolName'' (JString name) restricted;
                 full = map_option (obj_insert ''toolName'' (JString name)) full;
                 restricted = (case extra_outputs of None \<Rightarrow> restricted | Some e \<Rightarrow> obj_insert ''extra'' e restricted);
                 meta = obj_insert ''toolName'' (JString name) (case ctr_meta result of None \<Rightarrow> [] | Some m \<Rightarrow> m);
                 meta = (case full of None \<Rightarrow> meta | Some m \<Rightarrow> obj_insert ''structuredContent'' (JObject m) meta)
             in result\<lparr>ctr_content := [JsonTextBlock (JObject restricted)],
                  ctr_structured_content := Some (JObject restricted), ctr_meta := Some meta\<rparr>))"

section \<open>Executing an app tool\<close>

definition filter_inputs_for_operation ::
    "(string \<times> json) list option \<Rightarrow> Operation \<Rightarrow> (string \<times> json) list option" where
  "filter_inputs_for_operation inputs operation =
     (case inputs of
        None \<Rightarrow> None
      | Some kvs \<Rightarrow>
          (case tool_input_schema (op_tool operation) of
             JObject schema \<Rightarrow>
               (case map_of schema ''properties'' of
                  Some (JObject properties) \<Rightarrow> Some (filter (\<lambda>kv. map_of properties (fst kv) \<noteq> None) kvs)
                | _ \<Rightarrow> None)
           | _ \<Rightarrow> None))"

text \<open>The requests sent (the tool's own first) and the result.\<close>

definition execute_app_tool ::
    "(string \<Rightarrow> header_map \<Rightarrow> string \<Rightarrow> (McpError, string \<times> header_map) result) \<Rightarrow>
     (Operation \<Rightarrow> string \<Rightarrow> header_map \<Rightarrow> json \<Rightarrow> outgoing_request option \<times> CallToolResult) \<Rightarrow>
     App \<Rightarrow> AppTool \<Rightarrow> header_map \<Rightarrow> (string \<times> json) list option \<Rightarrow> string \<Rightarrow>
     (McpError, outgoing_request option list \<times> CallToolResult) result" where
  "execute_app_tool rhai_hook execute app t headers arguments endpoint =
     try_result (rhai_hook endpoint headers (tool_name (at_tool t))) (\<lambda>(endpoint, headers).
       let run = (\<lambda>op. execute op endpoint headers (arguments_json (filter_inputs_for_operation arguments op)));
           (request, result) = run (arc_val (at_operation t));
           prefetches = filter (\<lambda>p. arc_ptr (pf_operation p) \<noteq> arc_ptr (at_operation t)) (app_prefetch_operations app);
           runs = map (\<lambda>p. (pf_prefetch_id p, run (arc_val (pf_operation p)))) prefetches
       in Inr (request # map (\<lambda>r. fst (snd r)) runs,
            nest_app_tool_result result (tool_name (at_tool t)) (map (\<lambda>r. (fst r, snd (snd r))) runs)
              (at_extra_outputs t)))"

definition find_app_tool :: "App list \<Rightarrow> string \<Rightarrow> string \<Rightarrow> (App \<times> AppTool) option" where
  "find_app_tool apps name tool =
     (case find (\<lambda>app. app_name app = name) apps of
        None \<Rightarrow> None
      | Some app \<Rightarrow> map_option (Pair app) (find (\<lambda>t. tool_name (at_tool t) = tool) (app_tools app)))"

definition find_and_execute_app_tool ::
    "(string \<Rightarrow> header_map \<Rightarrow> string \<Rightarrow> (McpError, string \<times> header_map) result) \<Rightarrow>
     (Operation \<Rightarrow> string \<Rightarrow> header_map \<Rightarrow> json \<Rightarrow> outgoing_request option \<times> CallToolResult) \<Rightarrow>
     App list \<Rightarrow> string \<Rightarrow> string \<Rightarrow> header_map \<Rightarrow> (string \<times> json) list option \<Rightarrow> string \<Rightarrow>
     (McpError, outgoing_request option list \<times> CallToolResult) result option" where
  "find_and_execute_app_tool rhai_hook execute apps name tool headers arguments endpoint =
     (case find_app_tool apps name tool of
        None \<Rightarrow> None
      | Some (app, t) \<Rightarrow> Some (execute_app_tool rhai_hook execute app t headers arguments endpoint))"

section \<open>The page of an app\<close>

datatype ResourceOrigin = Local | Remote

text \<open>The configured lifetime of cache hints; remote content may change at any time.\<close>

definition origin_ttl :: "ResourceOrigin \<Rightarrow> nat \<Rightarrow> nat" where
  "origin_ttl origin configured = (case origin of Local \<Rightarrow> configured | Remote \<Rightarrow> 0)"

definition MCP_MIME_TYPE :: string where
  "MCP_MIME_TYPE = ''text/html;profile=mcp-app''"

record resource =
  res_uri :: string
  res_name :: string
  res_description :: "string option"
  res_mime_type :: "string option"

definition app_as_resource :: "App \<Rightarrow> resource" where
  "app_as_resource app =
     \<lparr>res_uri = app_url_text (app_uri app), res_name = app_name app, res_description = app_description app,
      res_mime_type = None\<rparr>"

definition attach_resource_mime_type :: "resource \<Rightarrow> resource" where
  "attach_resource_mime_type r = r\<lparr>res_mime_type := Some MCP_MIME_TYPE\<rparr>"

record resource_contents =
  rc_uri :: string
  rc_mime_type :: "string option"
  rc_text :: string
  rc_meta :: "(string \<times> json) list option"

text \<open>Fetching a remote page: the client's error, a status that is no success, or the body.\<close>

datatype fetch_result = FetchFailed string | FetchStatus string | FetchBodyFailed string | Fetched string

definition resource_not_found :: "string \<Rightarrow> McpError" where
  "resource_not_found msg = \<lparr>err_code = RESOURCE_NOT_FOUND, err_message = msg\<rparr>"

definition read_source ::
    "(string \<Rightarrow> fetch_result) \<Rightarrow> AppResourceSource \<Rightarrow> (McpError, string \<times> ResourceOrigin) result" where
  "read_source fetch source =
     (case source of
        LocalSource contents \<Rightarrow> Inr (contents, Local)
      | RemoteSource url \<Rightarrow>
          (case fetch url of
             FetchFailed e \<Rightarrow> Inl (resource_not_found (''Failed to fetch resource from '' @ url @ '': '' @ e))
           | FetchStatus s \<Rightarrow>
               Inl (resource_not_found (''Failed to fetch resource from '' @ url @ '': received status '' @ s))
           | FetchBodyFailed e \<Rightarrow>
               Inl (resource_not_found (''Failed to read resource body from '' @ url @ '': '' @ e))
           | Fetched contents \<Rightarrow> Inr (contents, Remote)))"

definition select_source :: "AppResource \<Rightarrow> AppTarget \<Rightarrow> (McpError, AppResourceSource) result" where
  "select_source r target =
     (case r of
        Targeted tr \<Rightarrow>
          (case target of
             AppsSDK \<Rightarrow> (case for_openai tr of Some s \<Rightarrow> Inr s
               | None \<Rightarrow> Inl (resource_not_found ''Invalid apps target: no resource found for openai''))
           | MCPApps \<Rightarrow> (case for_mcp tr of Some s \<Rightarrow> Inr s
               | None \<Rightarrow> Inl (resource_not_found ''Invalid apps target: no resource found for mcp'')))
      | Single s \<Rightarrow> Inr s)"

text \<open>The metadata of a page: under \<open>ui\<close>, and for the Apps SDK some of it at the root as well.\<close>

definition json_domains :: "string list option \<Rightarrow> json" where
  "json_domains ds = (case ds of None \<Rightarrow> JNull | Some xs \<Rightarrow> JArray (map JString xs))"

definition ui_csp :: "CSPSettings \<Rightarrow> json" where
  "ui_csp csp = JObject [(''connectDomains'', json_domains (connect_domains csp)),
     (''resourceDomains'', json_domains (resource_domains csp)), (''frameDomains'', json_domains (frame_domains csp)),
     (''baseUriDomains'', json_domains (base_uri_domains csp))]"

definition openai_csp :: "CSPSettings \<Rightarrow> json" where
  "openai_csp csp = JObject [(''connect_domains'', json_domains (connect_domains csp)),
     (''resource_domains'', json_domains (resource_domains csp)), (''frame_domains'', json_domains (frame_domains csp)),
     (''redirect_domains'', json_domains (redirect_domains csp))]"

definition ui_entries :: "App \<Rightarrow> (string \<times> json) list" where
  "ui_entries app =
     (case app_csp_settings app of None \<Rightarrow> [] | Some csp \<Rightarrow> [(''csp'', ui_csp csp)]) @
     (case app_widget_settings app of
        None \<Rightarrow> []
      | Some w \<Rightarrow>
          (case widget_domain w of None \<Rightarrow> [] | Some d \<Rightarrow> [(''domain'', JString d)]) @
          (case widget_prefers_border w of None \<Rightarrow> [] | Some b \<Rightarrow> [(''prefersBorder'', JBool b)]))"

definition openai_entries :: "App \<Rightarrow> (string \<times> json) list" where
  "openai_entries app =
     (case app_csp_settings app of None \<Rightarrow> [] | Some csp \<Rightarrow> [(''openai/widgetCSP'', openai_csp csp)]) @
     (case app_widget_settings app of
        None \<Rightarrow> []
      | Some w \<Rightarrow>
          (case widget_description w of None \<Rightarrow> [] | Some d \<Rightarrow> [(''openai/widgetDescription'', JString d)]) @
          (case widget_prefers_border w of None \<Rightarrow> [] | Some b \<Rightarrow> [(''openai/widgetPrefersBorder'', JBool b)]))"

definition resource_meta :: "App \<Rightarrow> AppTarget \<Rightarrow> (string \<times> json) list option" where
  "resource_meta app target =
     (let meta = (if target = AppsSDK then openai_entries app else []);
          meta = (if ui_entries app = [] then meta else meta @ [(''ui'', JObject (ui_entries app))])
      in if meta = [] then None else Some meta)"

definition get_app_resource ::
    "(string \<Rightarrow> fetch_result) \<Rightarrow> App list \<Rightarrow> string \<Rightarrow> app_url \<Rightarrow> AppTarget \<Rightarrow> string \<Rightarrow>
     (McpError, resource_contents \<times> ResourceOrigin) result" where
  "get_app_resource fetch apps uri request_uri target name =
     (case find (\<lambda>app. app_url_path (app_uri app) = app_url_path request_uri \<and> app_name app = name) apps of
        None \<Rightarrow> Inl (resource_not_found (''Resource not found for URI: '' @ uri))
      | Some app \<Rightarrow>
          try_result (select_source (app_resource app) target) (\<lambda>source.
          try_result (read_source fetch source) (\<lambda>(contents, origin).
            Inr (\<lparr>rc_uri = uri, rc_mime_type = Some MCP_MIME_TYPE, rc_text = contents,
                  rc_meta = resource_meta app target\<rparr>, origin))))"

section \<open>Private fields and the model\<close>

text \<open>What a model is shown of a call result: all of it but the meta.\<close>

definition shown :: "CallToolResult \<Rightarrow> content list \<times> json option \<times> bool option" where
  "shown r = (ctr_content r, ctr_structured_content r, ctr_is_error r)"

text \<open>Two upstream responses that differ at most in the fields a tree hides.\<close>

definition same_view :: "PrivateFieldTree option \<Rightarrow> upstream_response \<Rightarrow> upstream_response \<Rightarrow> bool" where
  "same_view tree r1 r2 \<longleftrightarrow> r1 = r2 \<or>
     (\<exists>v1 v2. r1 = JsonResponse v1 \<and> r2 = JsonResponse v2 \<and> fst (split_response tree v1) = fst (split_response tree v2))"

lemma map_of_filter_data [simp]:
  "k \<noteq> ''data'' \<Longrightarrow> map_of (map (\<lambda>(key, val). (key, if key = ''data'' then f val else val)) kvs) k = map_of kvs k"
  by (induction kvs) auto

lemma has_errors_filtered [simp]: "has_errors (filter_private_fields v tree) = has_errors v"
  by (cases v) (simp_all add: has_errors_def)

lemma has_errors_split: "has_errors (fst (split_response tree v)) = has_errors v"
  by (simp add: split_response_def split: option.splits)

lemma same_view_shown:
  assumes "same_view tree r1 r2"
  shows "shown (response_result tree r1) = shown (response_result tree r2)"
proof (cases "r1 = r2")
  case False
  then obtain v1 v2 where v: "r1 = JsonResponse v1" "r2 = JsonResponse v2"
      "fst (split_response tree v1) = fst (split_response tree v2)"
    using assms by (auto simp: same_view_def)
  then have "has_errors v1 = has_errors v2" by (metis has_errors_split)
  with v show ?thesis by (simp add: response_result_def shown_def structured_result_def case_prod_beta)
qed simp

lemma execute_request_shown:
  assumes "\<And>d vs request. operation input = Inr d \<Longrightarrow> out_body request = request_body cm vs d \<Longrightarrow>
      same_view (det_private_fields d) (send1 request) (send2 request)"
    and "execute_request operation variables headers cm send1 endpoint hs input = (req1, r1)"
    and "execute_request operation variables headers cm send2 endpoint hs input = (req2, r2)"
  shows "req1 = req2 \<and> shown r1 = shown r2"
  using assms by (auto simp: execute_request_def Let_def same_view_shown split: sum.splits)

lemma take_full_keeps:
  "take_full_result r = (full, r') \<Longrightarrow>
     ctr_structured_content r' = ctr_structured_content r \<and> ctr_is_error r' = ctr_is_error r \<and> ctr_content r' = ctr_content r"
  by (auto simp: take_full_result_def split: option.splits)

lemma nest_prefetch_restricted:
  "restricted_prefetch (nest_prefetch s p) =
     (case ctr_structured_content (snd p) of
        None \<Rightarrow> restricted_prefetch s
      | Some restricted \<Rightarrow> obj_insert (fst p) restricted (restricted_prefetch s))"
proof -
  obtain n r full r' where p: "p = (n, r)" and full: "take_full_result r = (full, r')"
    by (metis surj_pair)
  from take_full_keeps [OF full] have "ctr_structured_content r' = ctr_structured_content r" by simp
  then show ?thesis
    unfolding nest_prefetch_def p prod.case full Let_def by (simp split: option.split)
qed

lemma nest_restricted_cong:
  "list_all2 (\<lambda>p q. fst p = fst q \<and> shown (snd p) = shown (snd q)) ps qs \<Longrightarrow>
   restricted_prefetch s = restricted_prefetch t \<Longrightarrow>
   restricted_prefetch (foldl nest_prefetch s ps) = restricted_prefetch (foldl nest_prefetch t qs)"
proof (induction ps qs arbitrary: s t rule: list_all2_induct)
  case (Cons p ps q qs)
  have "restricted_prefetch (nest_prefetch s p) = restricted_prefetch (nest_prefetch t q)"
    using Cons.hyps Cons.prems by (simp add: nest_prefetch_restricted shown_def split: option.split)
  then show ?case using Cons.IH by simp
qed simp

text \<open>The object that the model is shown, as a function of what it may see.\<close>

definition restricted_object :: "json \<Rightarrow> string \<Rightarrow> (string \<times> json) list \<Rightarrow> json option \<Rightarrow> json" where
  "restricted_object restricted_content name prefetch extra_outputs =
     (let restricted = [(''result'', restricted_content)];
          restricted = (if prefetch \<noteq> [] then obj_insert ''prefetch'' (JObject prefetch) restricted else restricted);
          restricted = obj_insert ''toolName'' (JString name) restricted
      in JObject (case extra_outputs of None \<Rightarrow> restricted | Some e \<Rightarrow> obj_insert ''extra'' e restricted))"

lemma nest_shown_object:
  assumes "ctr_structured_content r = Some restricted"
  shows "\<exists>full. shown (nest_app_tool_result r name ps extra) =
    (let v = restricted_object restricted name
       (restricted_prefetch (foldl nest_prefetch \<lparr>restricted_prefetch = [], full_map = full, full_prefetch = []\<rparr> ps)) extra
     in ([JsonTextBlock v], Some v, ctr_is_error r))"
proof -
  obtain full r' where full: "take_full_result (r\<lparr>ctr_structured_content := None\<rparr>) = (full, r')" by (metis surj_pair)
  from take_full_keeps [OF full] have "ctr_is_error r' = ctr_is_error r" by simp
  then show ?thesis
    unfolding nest_app_tool_result_def assms option.case full prod.case Let_def shown_def restricted_object_def
    by (intro exI) simp
qed

lemma nest_shown:
  assumes "shown r1 = shown r2"
    and "list_all2 (\<lambda>p q. fst p = fst q \<and> shown (snd p) = shown (snd q)) ps qs"
  shows "shown (nest_app_tool_result r1 name ps extra) = shown (nest_app_tool_result r2 name qs extra)"
proof (cases "ctr_structured_content r1")
  case None
  with assms(1) show ?thesis by (auto simp: nest_app_tool_result_def shown_def)
next
  case (Some restricted)
  with assms(1) have r2: "ctr_structured_content r2 = Some restricted" "ctr_is_error r1 = ctr_is_error r2"
    by (simp_all add: shown_def)
  obtain m1 m2 where
    "shown (nest_app_tool_result r1 name ps extra) =
      (let v = restricted_object restricted name
         (restricted_prefetch (foldl nest_prefetch \<lparr>restricted_prefetch = [], full_map = m1, full_prefetch = []\<rparr> ps)) extra
       in ([JsonTextBlock v], Some v, ctr_is_error r1))"
    "shown (nest_app_tool_result r2 name qs extra) =
      (let v = restricted_object restricted name
         (restricted_prefetch (foldl nest_prefetch \<lparr>restricted_prefetch = [], full_map = m2, full_prefetch = []\<rparr> qs)) extra
       in ([JsonTextBlock v], Some v, ctr_is_error r2))"
    using nest_shown_object [OF Some] nest_shown_object [OF r2(1)] by blast
  moreover have "restricted_prefetch (foldl nest_prefetch \<lparr>restricted_prefetch = [], full_map = m1, full_prefetch = []\<rparr> ps) =
      restricted_prefetch (foldl nest_prefetch \<lparr>restricted_prefetch = [], full_map = m2, full_prefetch = []\<rparr> qs)"
    by (rule nest_restricted_cong [OF assms(2)]) simp
  ultimately show ?thesis using r2(2) by simp
qed

end
