(* ===== verification/Prompts.thy ===== *)
theory Prompts
  imports Apps
begin

text \<open>
  Prompt files (\<open>prompts/prompt_file.rs\<close>) and \<open>prompts/get\<close> (\<open>get_prompt_impl\<close> of
  \<open>server/states/running.rs\<close>): splitting a Markdown file into front matter and template, the
  check of required arguments, and filling the \<open>{{name}}\<close> placeholders.
\<close>

section \<open>Prompt files\<close>

record PromptArgument =
  pa_name :: string
  pa_description :: "string option"
  pa_required :: "bool option"

record Prompt =
  pr_name :: string
  pr_description :: "string option"
  pr_arguments :: "PromptArgument list option"

record PromptFile =
  prompt :: Prompt
  template :: string

record FrontmatterArgument =
  fa_name :: string
  fa_description :: "string option"
  fa_required :: bool

record PromptFrontmatter =
  fm_name :: string
  fm_description :: "string option"
  fm_arguments :: "FrontmatterArgument list"

definition str_trim_start :: "string \<Rightarrow> string" where
  "str_trim_start s = dropWhile is_white s"

text \<open>\<open>str::find\<close> of a string, split there: the text before and after its first occurrence.\<close>

fun split_at_sub :: "string \<Rightarrow> string \<Rightarrow> (string \<times> string) option" where
  "split_at_sub p [] = (if p = [] then Some ([], []) else None)"
| "split_at_sub p (c # cs) =
     (if starts_with p (c # cs) then Some ([], drop (length p) (c # cs))
      else map_option (\<lambda>(a, b). (c # a, b)) (split_at_sub p cs))"

definition delimiter :: string where
  "delimiter = ''---''"

definition quoted :: "string \<Rightarrow> string" where
  "quoted s = [CHR 0x27] @ s @ [CHR 0x27]"

text \<open>The YAML parser is an argument.\<close>

definition parse_frontmatter ::
    "(string \<Rightarrow> (string, PromptFrontmatter) result) \<Rightarrow> string \<Rightarrow> (string, PromptFrontmatter \<times> string) result" where
  "parse_frontmatter yaml content =
     (let trimmed = str_trim_start content in
      if \<not> starts_with delimiter trimmed then Inl (''Missing opening frontmatter delimiter '' @ quoted delimiter)
      else case split_at_sub (CHR 0x0A # delimiter) (drop 3 trimmed) of
        None \<Rightarrow> Inl (''Missing closing frontmatter delimiter '' @ quoted delimiter)
      | Some (yaml_str, body) \<Rightarrow>
          (case yaml yaml_str of
             Inl err \<Rightarrow> Inl (''Invalid frontmatter YAML: '' @ err)
           | Inr frontmatter \<Rightarrow> Inr (frontmatter, str_trim body)))"

definition load_single_file ::
    "(string \<Rightarrow> (string, PromptFrontmatter) result) \<Rightarrow> string \<Rightarrow> (string, string) result \<Rightarrow> (string, PromptFile) result" where
  "load_single_file yaml path contents =
     (case contents of
        Inl err \<Rightarrow> Inl (''Failed to read '' @ path @ '': '' @ err)
      | Inr content \<Rightarrow>
          (case parse_frontmatter yaml content of
             Inl err \<Rightarrow> Inl (''Failed to parse '' @ path @ '': '' @ err)
           | Inr (frontmatter, body) \<Rightarrow>
               (let arguments = map (\<lambda>arg. \<lparr>pa_name = fa_name arg, pa_description = fa_description arg,
                      pa_required = Some (fa_required arg)\<rparr>) (fm_arguments frontmatter)
                in Inr \<lparr>prompt = \<lparr>pr_name = fm_name frontmatter, pr_description = fm_description frontmatter,
                      pr_arguments = (if arguments = [] then None else Some arguments)\<rparr>,
                    template = body\<rparr>)))"

text \<open>
  The entries of the prompts directory: one that cannot be read is ignored, and so is what is no
  regular file with the extension \<open>md\<close>.
\<close>

record dir_entry =
  de_path :: string
  de_is_file :: bool
  de_extension :: "string option"
  de_contents :: "(string, string) result"

definition load_prompts_from ::
    "(string \<Rightarrow> (string, PromptFrontmatter) result) \<Rightarrow> (string, dir_entry) result list option \<Rightarrow>
     (string, PromptFile list) result" where
  "load_prompts_from yaml dir =
     (case dir of
        None \<Rightarrow> Inr []
      | Some entries \<Rightarrow>
          collect_results (\<lambda>e. load_single_file yaml (de_path e) (de_contents e))
            (filter_map (\<lambda>entry. case entry of
                 Inl err \<Rightarrow> None
               | Inr e \<Rightarrow> if de_is_file e \<and> de_extension e = Some ''md'' then Some e else None) entries))"

section \<open>Filling a template\<close>

definition placeholder :: "string \<Rightarrow> string" where
  "placeholder key = ''{{'' @ key @ ''}}''"

lemma placeholder_length [simp]: "length (placeholder key) = length key + 4"
  by (simp add: placeholder_def)

lemma placeholder_Cons: "placeholder key = CHR ''{'' # CHR ''{'' # key @ ''}}''"
  by (simp add: placeholder_def)

text \<open>\<open>str::replace\<close> of a placeholder: its occurrences from left to right, without overlap.\<close>

function replace_placeholder :: "string \<Rightarrow> string \<Rightarrow> string \<Rightarrow> string" where
  "replace_placeholder key by [] = []"
| "replace_placeholder key by (c # cs) =
     (if starts_with (placeholder key) (c # cs)
      then by @ replace_placeholder key by (drop (length (placeholder key)) (c # cs))
      else c # replace_placeholder key by cs)"
  by pat_completeness auto
termination by (relation "measure (\<lambda>(key, by, s). length s)") auto

text \<open>\<open>Value::to_string\<close> is an argument. The arguments come in the order of their map.\<close>

definition argument_text :: "(json \<Rightarrow> string) \<Rightarrow> json \<Rightarrow> string" where
  "argument_text show_json v = (case v of JString s \<Rightarrow> s | _ \<Rightarrow> show_json v)"

definition substitute_args :: "(json \<Rightarrow> string) \<Rightarrow> string \<Rightarrow> (string \<times> json) list \<Rightarrow> string" where
  "substitute_args show_json tmpl arguments =
     foldl (\<lambda>result kv. replace_placeholder (fst kv) (argument_text show_json (snd kv)) result) tmpl arguments"

section \<open>Getting a prompt\<close>

record GetPromptResult =
  gp_description :: "string option"
  gp_text :: string \<comment> \<open>the one user message\<close>

fun missing_argument :: "PromptArgument list \<Rightarrow> (string \<times> json) list option \<Rightarrow> string option" where
  "missing_argument [] provided = None"
| "missing_argument (arg # args) provided =
     (if pa_required arg = Some True \<and>
         \<not> (case provided of None \<Rightarrow> False | Some kvs \<Rightarrow> map_of kvs (pa_name arg) \<noteq> None)
      then Some (pa_name arg) else missing_argument args provided)"

definition get_prompt ::
    "(json \<Rightarrow> string) \<Rightarrow> PromptFile list \<Rightarrow> string \<Rightarrow> (string \<times> json) list option \<Rightarrow> (McpError, GetPromptResult) result" where
  "get_prompt show_json prompts name arguments =
     (case find (\<lambda>p. pr_name (prompt p) = name) prompts of
        None \<Rightarrow> Inl \<lparr>err_code = INVALID_PARAMS, err_message = ''Prompt '' @ quoted name @ '' not found''\<rparr>
      | Some file \<Rightarrow>
          (case (case pr_arguments (prompt file) of None \<Rightarrow> None | Some args \<Rightarrow> missing_argument args arguments) of
             Some arg \<Rightarrow> Inl \<lparr>err_code = INVALID_PARAMS, err_message = ''Missing required argument: '' @ quoted arg\<rparr>
           | None \<Rightarrow>
               Inr \<lparr>gp_description = pr_description (prompt file),
                 gp_text = (case arguments of
                    Some kvs \<Rightarrow> substitute_args show_json (template file) kvs
                  | None \<Rightarrow> template file)\<rparr>))"

section \<open>What a template means\<close>

text \<open>A template as its author reads it: text and holes, and its rendering with all holes filled at once.\<close>

datatype segment = Plain string | Hole string

definition segment_source :: "segment \<Rightarrow> string" where
  "segment_source seg = (case seg of Plain s \<Rightarrow> s | Hole k \<Rightarrow> placeholder k)"

definition fill :: "(string \<rightharpoonup> string) \<Rightarrow> segment \<Rightarrow> segment" where
  "fill m seg = (case seg of Plain s \<Rightarrow> Plain s
     | Hole k \<Rightarrow> (case m k of None \<Rightarrow> Hole k | Some by \<Rightarrow> Plain by))"

definition template_source :: "segment list \<Rightarrow> string" where
  "template_source segs = concat (map segment_source segs)"

definition open_free :: "string \<Rightarrow> bool" where
  "open_free s \<longleftrightarrow> CHR ''{'' \<notin> set s"

definition brace_free :: "string \<Rightarrow> bool" where
  "brace_free s \<longleftrightarrow> CHR ''{'' \<notin> set s \<and> CHR ''}'' \<notin> set s"

definition segment_ok :: "segment \<Rightarrow> bool" where
  "segment_ok seg = (case seg of Plain s \<Rightarrow> open_free s | Hole k \<Rightarrow> brace_free k)"

lemma template_source_simps [simp]:
  "template_source [] = []"
  "template_source (seg # segs) = segment_source seg @ template_source segs"
  by (simp_all add: template_source_def)

lemma starts_with_prefix: "starts_with p s \<longleftrightarrow> (\<exists>r. s = p @ r)"
  by (auto simp: starts_with_def) (metis append_take_drop_id)

lemma not_placeholder [simp]:
  "c \<noteq> CHR ''{'' \<Longrightarrow> \<not> starts_with (placeholder key) (c # s)"
  "c \<noteq> CHR ''{'' \<Longrightarrow> \<not> starts_with (placeholder key) (CHR ''{'' # c # s)"
  by (auto simp: starts_with_prefix placeholder_def)

lemma replace_plain:
  "open_free s \<Longrightarrow> replace_placeholder key by (s @ r) = s @ replace_placeholder key by r"
  by (induction s) (auto simp: open_free_def)

lemma brace_split:
  "brace_free k \<Longrightarrow> brace_free key \<Longrightarrow> k @ CHR ''}'' # s = key @ CHR ''}'' # r \<Longrightarrow> k = key"
proof (induction k arbitrary: key)
  case Nil
  then show ?case by (cases key) (auto simp: brace_free_def)
next
  case (Cons c k)
  then show ?case by (cases key) (auto simp: brace_free_def)
qed

lemma replace_hole:
  assumes "brace_free k" and "brace_free key"
  shows "replace_placeholder key by (placeholder k @ r) =
    (if k = key then by else placeholder k) @ replace_placeholder key by r"
proof (cases "k = key")
  case True
  have "starts_with (placeholder k) (placeholder k @ r)" by (simp add: starts_with_def)
  moreover have "drop (length (placeholder k)) (placeholder k @ r) = r" by simp
  ultimately show ?thesis using True by (simp add: placeholder_Cons)
next
  case False
  have "\<not> starts_with (placeholder key) (CHR ''{'' # CHR ''{'' # k @ ''}}'' @ r)"
    using False brace_split [OF assms] by (auto simp: starts_with_prefix placeholder_def)
  moreover have "\<not> starts_with (placeholder key) (CHR ''{'' # k @ ''}}'' @ r)"
    using assms(1) by (cases k) (auto simp: brace_free_def)
  moreover have "replace_placeholder key by (k @ ''}}'' @ r) = k @ ''}}'' @ replace_placeholder key by r"
    using replace_plain [of "k @ ''}}''" key "by" r] assms(1) by (simp add: open_free_def brace_free_def)
  ultimately show ?thesis using False by (simp add: placeholder_def)
qed

lemma replace_segments:
  assumes "list_all segment_ok segs" and "brace_free key"
  shows "replace_placeholder key by (template_source segs) = template_source (map (fill [key \<mapsto> by]) segs)"
  using assms(1)
proof (induction segs)
  case (Cons seg segs)
  with assms(2) show ?case
    by (cases seg) (auto simp: segment_source_def segment_ok_def fill_def replace_plain replace_hole)
qed simp

lemma fill_ok: "open_free by \<Longrightarrow> list_all segment_ok segs \<Longrightarrow> list_all segment_ok (map (fill [key \<mapsto> by]) segs)"
  by (auto simp: list_all_iff segment_ok_def fill_def split: segment.splits if_splits)

lemma fill_fill: "fill m (fill [key \<mapsto> by] seg) = fill (m(key \<mapsto> by)) seg"
  by (cases seg) (auto simp: fill_def)

lemma fill_empty [simp]: "fill (\<lambda>_. None) = (\<lambda>seg. seg)"
  by (auto simp: fun_eq_iff fill_def split: segment.split)

text \<open>
  C33: when neither the text between the placeholders nor an argument value contains an opening
  brace, filling the arguments one after the other is filling all placeholders at once: each
  placeholder of a given argument becomes its value, in whatever order the arguments come, and
  every other placeholder and all text stay.
\<close>

theorem prompt_rendering:
  assumes "list_all segment_ok segs"
    and "list_all (\<lambda>kv. brace_free (fst kv) \<and> open_free (argument_text show_json (snd kv))) arguments"
  shows "substitute_args show_json (template_source segs) arguments =
    template_source (map (fill (map_of (map (\<lambda>(k, v). (k, argument_text show_json v)) arguments))) segs)"
  using assms
proof (induction arguments arbitrary: segs)
  case (Cons kv arguments)
  obtain k v where kv: "kv = (k, v)" by (cases kv)
  let ?by = "argument_text show_json v"
  have "substitute_args show_json (template_source segs) (kv # arguments) =
      substitute_args show_json (template_source (map (fill [k \<mapsto> ?by]) segs)) arguments"
    using Cons.prems replace_segments by (simp add: substitute_args_def kv)
  also have "\<dots> = template_source (map (fill (map_of (map (\<lambda>(k, v). (k, argument_text show_json v)) arguments)))
      (map (fill [k \<mapsto> ?by]) segs))"
    using Cons fill_ok by (simp add: kv)
  finally show ?case by (simp add: kv fill_fill o_def del: fun_upd_apply)
qed (simp add: substitute_args_def)

theorem prompt_rendering_witness:
  "substitute_args (\<lambda>_. ''1'') (template_source [Plain ''hi '', Hole ''b'', Hole ''c'', Hole ''a''])
     [(''a'', JString ''x''), (''b'', JNumber 1)] = ''hi 1{{c}}x''"
  using prompt_rendering [of "[Plain ''hi '', Hole ''b'', Hole ''c'', Hole ''a'']"
      "\<lambda>_. ''1''" "[(''a'', JString ''x''), (''b'', JNumber 1)]"]
  by (simp add: segment_ok_def open_free_def brace_free_def argument_text_def fill_def segment_source_def placeholder_def)

text \<open>Without that restriction it is not: a value that spells a later placeholder is filled again.\<close>

theorem argument_in_argument:
  assumes "brace_free a" and "brace_free b" and "a \<noteq> b"
  shows "substitute_args show_json (placeholder a) [(a, JString (placeholder b)), (b, JString v)] = v"
  using replace_hole [of a a "placeholder b" "[]"] replace_hole [of b b v "[]"] assms
  by (simp add: substitute_args_def argument_text_def)

end
