(* ===== verification/Server_States.thy ===== *)
theory Server_States
  imports Prompts Health
begin

text \<open>
  The life of a server (\<open>server/states.rs\<close>, \<open>states/*.rs\<close>): from its first schema and operations
  to a running catalog of tools, the hot reloads of schema, operations, scripts and configuration,
  and the tool listing and dispatch of a running server (\<open>states/running.rs\<close>).
\<close>

section \<open>Configuration and events\<close>

text \<open>The payloads that errors of libraries carry are their texts.\<close>

datatype ServerError =
    GraphQLDocumentError string
  | GraphQLSchemaError string
  | ApiSchemaError string
  | GraphQLDocumentSchemaError string
  | FederationError string
  | JsonError string
  | OperationFailure OperationError
  | ReadFileError string
  | BindError string string
  | HeaderValueError string
  | HeaderNameError string
  | HeaderError string
  | CustomScalarConfigError string
  | CustomScalarJsonSchemaError string
  | EnvironmentVariableError string
  | NoOperationsError
  | NoSchema
  | StartupError string
  | McpInitializeError string
  | UrlParseError string
  | IndexingError string
  | CorsError string
  | AppsError string
  | PromptsError string
  | TlsError string
  | RhaiError

record ServerConfig =
  cfg_options :: CompileOptions
  cfg_execute_introspection :: bool
  cfg_introspect_introspection :: bool
  cfg_search_introspection :: bool
  cfg_validate_introspection :: bool
  cfg_explorer_graph_ref :: "string option"
  cfg_static_headers :: header_map
  cfg_forward_headers :: "string list"
  cfg_endpoint :: string
  cfg_disable_auth_token_passthrough :: bool
  cfg_http_transport :: bool
  cfg_health_check :: HealthCheckConfig
  cfg_ttl_ms :: nat

datatype SchemaEvent = UpdateSchema string | NoMoreSchema

datatype ServerEvent =
    SchemaUpdated SchemaEvent
  | OperationsUpdated "RawOperation list"
  | OperationErrorEvent string
  | CollectionErrorEvent string
  | ManifestErrorEvent string
  | RhaiScriptsChanged
  | ConfigChanged
  | Shutdown

text \<open>
  Clones of a running server share its catalog; the record is that shared state. The count of
  publications stands for the watch channel, whose receivers only learn that it changed.
\<close>

record ('schema, 'scripts) Running =
  run_schema :: 'schema
  run_operations :: "Operation list"
  run_options :: CompileOptions
  run_apps :: "App list"
  run_prompts :: "PromptFile list"
  run_execute_tool :: "Tool option"
  run_introspect_tool :: "Tool option"
  run_search_tool :: "Tool option"
  run_explorer_tool :: "Tool option"
  run_validate_tool :: "Tool option"
  run_config :: ServerConfig
  run_scripts :: 'scripts
  run_health_check :: "HealthCheck option"
  run_published :: nat

datatype ('schema, 'scripts) State =
    Configuring ServerConfig
  | SchemaConfigured ServerConfig 'schema
  | OperationsConfigured ServerConfig "RawOperation list"
  | Starting ServerConfig 'schema "RawOperation list"
  | RunningState "('schema, 'scripts) Running"
  | ErrorState ServerError
  | Stopping
  | Restarting

datatype ShutdownReason = Restart | ShutdownNormally

section \<open>The catalog\<close>

type_synonym 'schema compiler =
  "'schema \<Rightarrow> CompileOptions \<Rightarrow> RawOperation \<Rightarrow> (OperationError, Operation option) result"

text \<open>An operation that fails to compile is logged and left out.\<close>

definition load_operations :: "'schema compiler \<Rightarrow> 'schema \<Rightarrow> CompileOptions \<Rightarrow> RawOperation list \<Rightarrow> Operation list" where
  "load_operations compile schema opts raws =
     filter_map (\<lambda>raw. case compile schema opts raw of Inl e \<Rightarrow> None | Inr found \<Rightarrow> found) raws"

definition update_schema ::
    "'schema compiler \<Rightarrow> 'schema \<Rightarrow> ('schema, 'scripts) Running \<Rightarrow> ('schema, 'scripts) Running" where
  "update_schema compile schema r =
     r\<lparr>run_operations := load_operations compile schema (run_options r) (map op_inner (run_operations r)),
       run_schema := schema, run_published := run_published r + 1\<rparr>"

definition update_operations ::
    "'schema compiler \<Rightarrow> RawOperation list \<Rightarrow> ('schema, 'scripts) Running \<Rightarrow> ('schema, 'scripts) Running" where
  "update_operations compile raws r =
     r\<lparr>run_operations := load_operations compile (run_schema r) (run_options r) raws,
       run_published := run_published r + 1\<rparr>"

definition reload_rhai_scripts ::
    "(string, 'scripts) result \<Rightarrow> ('schema, 'scripts) Running \<Rightarrow> ('schema, 'scripts) Running" where
  "reload_rhai_scripts loaded r = (case loaded of Inl e \<Rightarrow> r | Inr scripts \<Rightarrow> r\<lparr>run_scripts := scripts\<rparr>)"

section \<open>Starting\<close>

definition EXECUTE_TOOL_NAME :: string where "EXECUTE_TOOL_NAME = ''execute''"

definition INTROSPECT_TOOL_NAME :: string where "INTROSPECT_TOOL_NAME = ''introspect''"

definition SEARCH_TOOL_NAME :: string where "SEARCH_TOOL_NAME = ''search''"

definition EXPLORER_TOOL_NAME :: string where "EXPLORER_TOOL_NAME = ''explorer''"

definition VALIDATE_TOOL_NAME :: string where "VALIDATE_TOOL_NAME = ''validate''"

lemmas builtin_names = EXECUTE_TOOL_NAME_def INTROSPECT_TOOL_NAME_def SEARCH_TOOL_NAME_def
  EXPLORER_TOOL_NAME_def VALIDATE_TOOL_NAME_def

text \<open>
  What starting consults outside the catalog: the apps and prompts directories, the search index,
  the scripts, the instant, and serving itself (listeners with their layers, or stdio).
\<close>

record ('schema, 'scripts) startup =
  load_apps :: "'schema \<Rightarrow> (string, App list) result"
  load_prompts :: "(string, PromptFile list) result"
  build_search :: "'schema \<Rightarrow> (string, Tool) result"
  builtin_tool :: "string \<Rightarrow> Tool"
  load_scripts :: "(string, 'scripts) result"
  on_startup_hook :: "'scripts \<Rightarrow> (string, unit) result"
  now :: nat
  serve :: "(ServerError, unit) result"

definition start ::
    "'schema compiler \<Rightarrow> ('schema, 'scripts) startup \<Rightarrow> ServerConfig \<Rightarrow> 'schema \<Rightarrow> RawOperation list \<Rightarrow>
     (ServerError, ('schema, 'scripts) Running) result" where
  "start compile E config schema raws =
     (let operations = load_operations compile schema (cfg_options config) raws in
      try_result (map_error AppsError (load_apps E schema)) (\<lambda>apps.
      try_result (map_error PromptsError (load_prompts E)) (\<lambda>prompts.
      try_result (if cfg_search_introspection config
                  then try_result (map_error IndexingError (build_search E schema)) (\<lambda>t. Inr (Some (t\<lparr>tool_name := SEARCH_TOOL_NAME\<rparr>)))
                  else Inr None) (\<lambda>search_tool.
      try_result (map_error (\<lambda>_. RhaiError) (load_scripts E)) (\<lambda>scripts.
      try_result (map_error (\<lambda>_. RhaiError) (on_startup_hook E scripts)) (\<lambda>_.
      let builtin = (\<lambda>enabled n. if enabled then Some ((builtin_tool E n)\<lparr>tool_name := n\<rparr>) else None);
          running =
            \<lparr>run_schema = schema, run_operations = operations, run_options = cfg_options config, run_apps = apps, run_prompts = prompts,
             run_execute_tool = builtin (cfg_execute_introspection config) EXECUTE_TOOL_NAME,
             run_introspect_tool = builtin (cfg_introspect_introspection config) INTROSPECT_TOOL_NAME,
             run_search_tool = search_tool,
             run_explorer_tool = builtin (cfg_explorer_graph_ref config \<noteq> None) EXPLORER_TOOL_NAME,
             run_validate_tool = builtin (cfg_validate_introspection config) VALIDATE_TOOL_NAME,
             run_config = config, run_scripts = scripts,
             run_health_check =
               (if cfg_http_transport config \<and> hc_enabled (cfg_health_check config)
                then Some (new_health (cfg_health_check config) (now E)) else None),
             run_published = 0\<rparr>
      in try_result (serve E) (\<lambda>_. Inr running)))))))"

section \<open>Events\<close>

text \<open>The federation and schema parsers of the crates.\<close>

record ('schema, 'supergraph) schema_api =
  new_supergraph :: "string \<Rightarrow> 'supergraph option"
  to_api_schema :: "'supergraph \<Rightarrow> (string, string) result"
  parse_schema :: "string \<Rightarrow> (string, 'schema) result"
  validate_schema :: "'schema \<Rightarrow> (string \<times> 'schema, 'schema) result"
  parse_and_validate :: "string \<Rightarrow> (string, 'schema) result"

definition sdl_to_api_schema :: "('schema, 'supergraph) schema_api \<Rightarrow> string \<Rightarrow> (ServerError, 'schema) result" where
  "sdl_to_api_schema A sdl =
     (case new_supergraph A sdl of
        Some supergraph \<Rightarrow>
          try_result (map_error FederationError (to_api_schema A supergraph)) (\<lambda>api_schema.
          try_result (map_error ApiSchemaError (parse_schema A api_schema)) (\<lambda>schema.
            Inr (case validate_schema A schema of Inr valid \<Rightarrow> valid | Inl (errors, partial) \<Rightarrow> partial)))
      | None \<Rightarrow> map_error GraphQLSchemaError (parse_and_validate A sdl))"

text \<open>
  One event. The outcome of the configuration validator, if one is set, and of reloading the
  scripts belong to the event's environment.
\<close>

record 'scripts event_env =
  config_validator :: "(string, unit) result option"
  reloaded_scripts :: "(string, 'scripts) result"

fun set_schema :: "'schema compiler \<Rightarrow> 'schema \<Rightarrow> ('schema, 'scripts) State \<Rightarrow> ('schema, 'scripts) State" where
  "set_schema compile schema (Configuring config) = SchemaConfigured config schema"
| "set_schema compile schema (SchemaConfigured config old) = SchemaConfigured config schema"
| "set_schema compile schema (OperationsConfigured config raws) = Starting config schema raws"
| "set_schema compile schema (RunningState r) = RunningState (update_schema compile schema r)"
| "set_schema compile schema other = other"

fun set_operations :: "'schema compiler \<Rightarrow> RawOperation list \<Rightarrow> ('schema, 'scripts) State \<Rightarrow> ('schema, 'scripts) State" where
  "set_operations compile raws (Configuring config) = OperationsConfigured config raws"
| "set_operations compile raws (SchemaConfigured config schema) = Starting config schema raws"
| "set_operations compile raws (OperationsConfigured config old) = OperationsConfigured config raws"
| "set_operations compile raws (RunningState r) = RunningState (update_operations compile raws r)"
| "set_operations compile raws other = other"

fun process_event ::
    "'schema compiler \<Rightarrow> ('schema, 'supergraph) schema_api \<Rightarrow> 'scripts event_env \<Rightarrow>
     ('schema, 'scripts) State \<Rightarrow> ServerEvent \<Rightarrow> (ServerError, ('schema, 'scripts) State) result" where
  "process_event compile A V state (SchemaUpdated (UpdateSchema sdl)) =
     try_result (sdl_to_api_schema A sdl) (\<lambda>schema. Inr (set_schema compile schema state))"
| "process_event compile A V state (SchemaUpdated NoMoreSchema) =
     Inr (case state of
        Configuring _ \<Rightarrow> ErrorState NoSchema
      | OperationsConfigured _ _ \<Rightarrow> ErrorState NoSchema
      | _ \<Rightarrow> state)"
| "process_event compile A V state (OperationsUpdated operations) = Inr (set_operations compile operations state)"
| "process_event compile A V state (OperationErrorEvent e) = Inr (ErrorState (OperationFailure (File e)))"
| "process_event compile A V state (CollectionErrorEvent e) =
     Inr (case state of RunningState r \<Rightarrow> RunningState r | _ \<Rightarrow> ErrorState (OperationFailure (Collection e)))"
| "process_event compile A V state (ManifestErrorEvent e) =
     Inr (case state of RunningState r \<Rightarrow> RunningState r | _ \<Rightarrow> ErrorState (OperationFailure (Manifest e)))"
| "process_event compile A V state RhaiScriptsChanged =
     Inr (case state of RunningState r \<Rightarrow> RunningState (reload_rhai_scripts (reloaded_scripts V) r) | _ \<Rightarrow> state)"
| "process_event compile A V state ConfigChanged =
     Inr (case config_validator V of Some (Inl e) \<Rightarrow> state | _ \<Rightarrow> Restarting)"
| "process_event compile A V state Shutdown = Inr Stopping"

text \<open>Whether processing the event cancelled the running server's connections.\<close>

fun cancels :: "'scripts event_env \<Rightarrow> ('schema, 'scripts) State \<Rightarrow> ServerEvent \<Rightarrow> bool" where
  "cancels V (RunningState r) ConfigChanged = (case config_validator V of Some (Inl e) \<Rightarrow> False | _ \<Rightarrow> True)"
| "cancels V (RunningState r) Shutdown = True"
| "cancels V _ _ = False"

section \<open>The loop\<close>

definition from_start :: "(ServerError, ('schema, 'scripts) Running) result \<Rightarrow> ('schema, 'scripts) State" where
  "from_start r = (case r of Inl e \<Rightarrow> ErrorState e | Inr running \<Rightarrow> RunningState running)"

fun settle ::
    "'schema compiler \<Rightarrow> ('schema, 'scripts) startup \<Rightarrow> ('schema, 'scripts) State \<Rightarrow> ('schema, 'scripts) State" where
  "settle compile E (Starting config schema raws) = from_start (start compile E config schema raws)"
| "settle compile E state = state"

text \<open>One turn of the loop: the event, and starting at once when everything is configured.\<close>

definition server_step ::
    "'schema compiler \<Rightarrow> ('schema, 'supergraph) schema_api \<Rightarrow> ('schema, 'scripts) startup \<Rightarrow> 'scripts event_env \<Rightarrow>
     ('schema, 'scripts) State \<Rightarrow> ServerEvent \<Rightarrow> (ServerError, ('schema, 'scripts) State) result" where
  "server_step compile A E V state event =
     try_result (process_event compile A V state event) (\<lambda>state. Inr (settle compile E state))"

fun terminal :: "('schema, 'scripts) State \<Rightarrow> bool" where
  "terminal (ErrorState e) = True"
| "terminal Stopping = True"
| "terminal Restarting = True"
| "terminal _ = False"

fun shutdown_reason :: "('schema, 'scripts) State \<Rightarrow> (ServerError, ShutdownReason) result" where
  "shutdown_reason (ErrorState e) = Inl e"
| "shutdown_reason Restarting = Inr Restart"
| "shutdown_reason _ = Inr ShutdownNormally"

fun run_server ::
    "'schema compiler \<Rightarrow> ('schema, 'supergraph) schema_api \<Rightarrow> ('schema, 'scripts) State \<Rightarrow>
     (ServerEvent \<times> ('schema, 'scripts) startup \<times> 'scripts event_env) list \<Rightarrow> (ServerError, ShutdownReason) result" where
  "run_server compile A state [] = shutdown_reason state"
| "run_server compile A state ((event, E, V) # events) =
     (case server_step compile A E V state event of
        Inl e \<Rightarrow> Inl e
      | Inr state' \<Rightarrow> if terminal state' then shutdown_reason state' else run_server compile A state' events)"

text \<open>The states the loop goes through, as a step relation.\<close>

inductive server_steps ::
    "'schema compiler \<Rightarrow> ('schema, 'supergraph) schema_api \<Rightarrow> ServerConfig \<Rightarrow> ServerEvent list \<Rightarrow> ('schema, 'scripts) State \<Rightarrow> bool"
  for compile A config where
  initial: "server_steps compile A config [] (Configuring config)"
| turn: "server_steps compile A config events s \<Longrightarrow> \<not> terminal s \<Longrightarrow>
    server_step compile A E V s event = Inr s' \<Longrightarrow> server_steps compile A config (events @ [event]) s'"

inductive_cases server_steps_cases: "server_steps compile A config events s"

section \<open>The interface of the operation compiler\<close>

text \<open>
  What the catalog relies on: a compiled operation keeps its source and is named by it, and
  whether an operation compiles does not depend on the schema.
\<close>

locale operation_compiler =
  fixes compile :: "'schema compiler"
  assumes keeps_source: "compile S opts raw = Inr (Some op) \<Longrightarrow> op_inner op = raw"
    and any_schema: "compile S opts raw = Inr (Some op) \<Longrightarrow>
      \<exists>op'. compile S' opts raw = Inr (Some op') \<and> tool_name (op_tool op') = tool_name (op_tool op)"
begin

lemma loaded_compiles:
  assumes "op \<in> set (load_operations compile S opts raws)"
  shows "compile S opts (op_inner op) = Inr (Some op)"
proof -
  obtain raw where "(case compile S opts raw of Inl e \<Rightarrow> None | Inr found \<Rightarrow> found) = Some op"
    using assms by (auto simp: load_operations_def set_filter_map)
  then have "compile S opts raw = Inr (Some op)" by (simp split: sum.splits)
  with keeps_source show ?thesis by fastforce
qed

lemma reload_names:
  "\<forall>op \<in> set ops. compile S opts (op_inner op) = Inr (Some op) \<Longrightarrow>
   map (\<lambda>op. (op_inner op, tool_name (op_tool op))) (load_operations compile S' opts (map op_inner ops)) =
   map (\<lambda>op. (op_inner op, tool_name (op_tool op))) ops"
proof (induction ops)
  case (Cons op ops)
  obtain op' where "compile S' opts (op_inner op) = Inr (Some op')" "tool_name (op_tool op') = tool_name (op_tool op)"
    using any_schema Cons.prems by fastforce
  with Cons keeps_source show ?case by (simp add: load_operations_def)
qed (simp add: load_operations_def)

end

lemma from_raw_any_schema:
  assumes "from_raw G L X S opts raw = Inr (Some op)"
  shows "\<exists>op'. from_raw G L X S' opts raw = Inr (Some op') \<and> tool_name (op_tool op') = tool_name (op_tool op)"
proof -
  obtain document operation comments where
    "operation_defs G L (source_text raw) (mutation_mode opts \<noteq> NoMutations) (source_path raw) =
      Inr (Some (document, operation, comments))"
    "od_name operation = Some (tool_name (op_tool op))"
    by (rule from_raw_found [OF assms])
  then show ?thesis by (simp add: from_raw_def operation_name_def Let_def)
qed

interpretation predefined_compiler: operation_compiler "from_raw G L X" for G L X
proof unfold_locales
  show "op_inner op = raw" if "from_raw G L X S opts raw = Inr (Some op)" for S opts raw op
    using from_raw_found [OF that] by metis
  show "\<exists>op'. from_raw G L X S' opts raw = Inr (Some op') \<and> tool_name (op_tool op') = tool_name (op_tool op)"
    if "from_raw G L X S opts raw = Inr (Some op)" for S opts raw op S'
    using that by (rule from_raw_any_schema)
qed

section \<open>Invariant of the loop\<close>

definition named :: "string \<Rightarrow> Tool option \<Rightarrow> bool" where
  "named n t \<longleftrightarrow> (case t of None \<Rightarrow> True | Some t \<Rightarrow> tool_name t = n)"

definition builtins_named :: "('schema, 'scripts) Running \<Rightarrow> bool" where
  "builtins_named r \<longleftrightarrow> named EXECUTE_TOOL_NAME (run_execute_tool r) \<and> named INTROSPECT_TOOL_NAME (run_introspect_tool r) \<and>
     named SEARCH_TOOL_NAME (run_search_tool r) \<and> named EXPLORER_TOOL_NAME (run_explorer_tool r) \<and>
     named VALIDATE_TOOL_NAME (run_validate_tool r)"

definition catalog_ok :: "'schema compiler \<Rightarrow> ServerConfig \<Rightarrow> ('schema, 'scripts) Running \<Rightarrow> bool" where
  "catalog_ok compile config r \<longleftrightarrow>
     run_options r = cfg_options config \<and> run_config r = config \<and> builtins_named r \<and>
     (\<forall>op \<in> set (run_operations r). compile (run_schema r) (run_options r) (op_inner op) = Inr (Some op))"

definition got_schema :: "ServerEvent list \<Rightarrow> bool" where
  "got_schema events \<longleftrightarrow> (\<exists>sdl. SchemaUpdated (UpdateSchema sdl) \<in> set events)"

definition got_operations :: "ServerEvent list \<Rightarrow> bool" where
  "got_operations events \<longleftrightarrow> (\<exists>raws. OperationsUpdated raws \<in> set events)"

fun state_ok :: "'schema compiler \<Rightarrow> ServerConfig \<Rightarrow> ServerEvent list \<Rightarrow> ('schema, 'scripts) State \<Rightarrow> bool" where
  "state_ok compile config events (Configuring c) \<longleftrightarrow> c = config"
| "state_ok compile config events (SchemaConfigured c S) \<longleftrightarrow> c = config \<and> got_schema events"
| "state_ok compile config events (OperationsConfigured c raws) \<longleftrightarrow> c = config \<and> got_operations events"
| "state_ok compile config events (Starting c S raws) \<longleftrightarrow> False"
| "state_ok compile config events (RunningState r) \<longleftrightarrow>
     catalog_ok compile config r \<and> got_schema events \<and> got_operations events"
| "state_ok compile config events s \<longleftrightarrow> True"

lemma got_snoc [simp]:
  "got_schema events \<Longrightarrow> got_schema (events @ [e])"
  "got_operations events \<Longrightarrow> got_operations (events @ [e])"
  "got_schema (events @ [SchemaUpdated (UpdateSchema sdl)])"
  "got_operations (events @ [OperationsUpdated raws])"
  by (auto simp: got_schema_def got_operations_def)

lemma state_ok_later: "state_ok compile config events s \<Longrightarrow> state_ok compile config (events @ [e]) s"
  by (cases s) auto

context operation_compiler
begin

lemma load_catalog_ok:
  "run_config r = config \<Longrightarrow> run_options r = cfg_options config \<Longrightarrow> builtins_named r \<Longrightarrow>
   run_operations r = load_operations compile (run_schema r) (run_options r) raws \<Longrightarrow> catalog_ok compile config r"
  by (auto simp: catalog_ok_def dest: loaded_compiles)

lemma update_schema_ok: "catalog_ok compile config r \<Longrightarrow> catalog_ok compile config (update_schema compile S r)"
  by (rule load_catalog_ok [where raws = "map op_inner (run_operations r)"])
     (simp_all add: catalog_ok_def update_schema_def builtins_named_def)

lemma update_operations_ok: "catalog_ok compile config r \<Longrightarrow> catalog_ok compile config (update_operations compile raws r)"
  by (rule load_catalog_ok [where raws = raws]) (simp_all add: catalog_ok_def update_operations_def builtins_named_def)

lemma start_ok: "start compile E config S raws = Inr r \<Longrightarrow> catalog_ok compile config r"
  by (rule load_catalog_ok [where raws = raws])
     (auto simp: start_def try_result_Inr_iff Let_def builtins_named_def named_def split: if_splits)

lemma start_state_ok:
  "got_schema events \<Longrightarrow> got_operations events \<Longrightarrow>
   state_ok compile config events (from_start (start compile E config S raws))"
  using start_ok by (auto simp: from_start_def split: sum.splits)

lemma set_schema_ok:
  assumes "state_ok compile config events s"
  shows "state_ok compile config (events @ [SchemaUpdated (UpdateSchema sdl)])
      (settle compile E (set_schema compile S s))"
  using assms update_schema_ok by (cases s) (auto intro!: start_state_ok)

lemma set_operations_ok:
  assumes "state_ok compile config events s"
  shows "state_ok compile config (events @ [OperationsUpdated raws])
      (settle compile E (set_operations compile raws s))"
  using assms update_operations_ok by (cases s) (auto intro!: start_state_ok)

lemma step_ok:
  assumes ok: "state_ok compile config events s" and step: "server_step compile A E V s event = Inr s'"
  shows "state_ok compile config (events @ [event]) s'"
proof -
  note later = state_ok_later [OF ok, of event]
  show ?thesis
  proof (cases event)
    case (SchemaUpdated se)
    show ?thesis
    proof (cases se)
      case (UpdateSchema sdl)
      with step SchemaUpdated obtain S where "sdl_to_api_schema A sdl = Inr S"
        by (cases "sdl_to_api_schema A sdl") (auto simp: server_step_def)
      with step SchemaUpdated UpdateSchema show ?thesis
        using set_schema_ok [OF ok, where sdl = sdl and S = S and E = E] by (simp add: server_step_def)
    next
      case NoMoreSchema
      then show ?thesis using step SchemaUpdated later by (cases s) (auto simp: server_step_def)
    qed
  next
    case (OperationsUpdated raws)
    with step show ?thesis using set_operations_ok [OF ok, where raws = raws and E = E] by (simp add: server_step_def)
  next
    case RhaiScriptsChanged
    then show ?thesis
      using step later
      by (cases s) (auto simp: server_step_def reload_rhai_scripts_def catalog_ok_def builtins_named_def split: sum.splits)
  next
    case ConfigChanged
    then show ?thesis
      using step later by (cases s) (auto simp: server_step_def split: option.splits sum.splits)
  qed (use step later in \<open>cases s; auto simp: server_step_def\<close>)+
qed

lemma reachable_ok: "server_steps compile A config events s \<Longrightarrow> state_ok compile config events s"
  by (induction rule: server_steps.induct) (auto intro: step_ok)

end

section \<open>Properties\<close>

text \<open>
  C10: a running server has received a schema and operations, and at every moment each tool of its
  catalog is what its source compiles to against the current schema under the server's options,
  whatever schemas, operation lists, errors and reloads came before.
\<close>

theorem catalog_consistent:
  assumes "server_steps (from_raw G L X) A config events (RunningState r)"
  shows "got_schema events \<and> got_operations events \<and>
    (\<forall>op \<in> set (run_operations r).
       from_raw G L X (run_schema r) (cfg_options config) (op_inner op) = Inr (Some op))"
  using predefined_compiler.reachable_ok [OF assms] by (auto simp: catalog_ok_def)

definition example_startup :: "(unit, unit) startup" where
  "example_startup =
     \<lparr>load_apps = (\<lambda>_. Inr []), load_prompts = Inr [], build_search = (\<lambda>_. Inl ''none''),
      builtin_tool = undefined, load_scripts = Inr (), on_startup_hook = (\<lambda>_. Inr ()), now = 0, serve = Inr ()\<rparr>"

definition example_schema_api :: "(unit, unit) schema_api" where
  "example_schema_api =
     \<lparr>new_supergraph = (\<lambda>_. None), to_api_schema = (\<lambda>_. Inr []), parse_schema = (\<lambda>_. Inr ()),
      validate_schema = Inr, parse_and_validate = (\<lambda>s. if s = ''bad'' then Inl ''bad'' else Inr ())\<rparr>"

definition example_server_config :: ServerConfig where
  "example_server_config =
     \<lparr>cfg_options = example_options Explicit, cfg_execute_introspection = False, cfg_introspect_introspection = False,
      cfg_search_introspection = False, cfg_validate_introspection = False, cfg_explorer_graph_ref = None,
      cfg_static_headers = hm_empty, cfg_forward_headers = [], cfg_endpoint = ''http://x'',
      cfg_disable_auth_token_passthrough = False, cfg_http_transport = False,
      cfg_health_check = health_config_default, cfg_ttl_ms = 300000\<rparr>"

lemma example_running:
  fixes E :: "(unit, unit) startup"
  assumes "start (from_raw G L X) E example_server_config () raws = Inr r"
  shows "server_steps (from_raw G L X) example_schema_api example_server_config
    [OperationsUpdated raws, SchemaUpdated (UpdateSchema ''s'')] (RunningState r)"
proof -
  let ?V = "\<lparr>config_validator = None, reloaded_scripts = Inr ()\<rparr>"
  have one: "server_steps (from_raw G L X) example_schema_api example_server_config ([] @ [OperationsUpdated raws])
      (OperationsConfigured example_server_config raws :: (unit, unit) State)"
    by (rule server_steps.turn [OF server_steps.initial, where E = E and V = ?V])
       (simp_all add: server_step_def)
  have "server_steps (from_raw G L X) example_schema_api example_server_config
      (([] @ [OperationsUpdated raws]) @ [SchemaUpdated (UpdateSchema ''s'')]) (RunningState r)"
    by (rule server_steps.turn [OF one, where E = E and V = ?V])
       (simp_all add: server_step_def sdl_to_api_schema_def example_schema_api_def map_error_def from_start_def assms)
  then show ?thesis by simp
qed

theorem catalog_consistent_witness:
  "\<exists>r op. start (from_raw example_graphql \<lparr>debug_enabled = False, warn_enabled = True\<rparr> example_texts) example_startup
      example_server_config () [example_raw ''q''] = Inr r \<and> run_operations r = [op] \<and>
    from_raw example_graphql \<lparr>debug_enabled = False, warn_enabled = True\<rparr> example_texts () (cfg_options example_server_config)
      (op_inner op) = Inr (Some op)"
proof -
  let ?c = "from_raw example_graphql \<lparr>debug_enabled = False, warn_enabled = True\<rparr> example_texts"
  obtain op where "?c () (example_options Explicit) (example_raw ''q'') = Inr (Some op)"
    by (simp add: example_execution_simps)
  then obtain r where r: "start ?c example_startup example_server_config () [example_raw ''q''] = Inr r" "run_operations r = [op]"
    by (auto simp: start_def example_startup_def example_server_config_def map_error_def load_operations_def Let_def)
  from catalog_consistent [OF example_running [OF r(1)]] r show ?thesis
    by (simp add: unit_eq)
qed

text \<open>
  C28: reloading the schema of a running server rebuilds the tools but never loses, adds, renames
  or reorders one, and announces the change once.
\<close>

theorem schema_reload_keeps_tools:
  assumes "server_steps (from_raw G L X) A config events (RunningState r)"
  shows "map (\<lambda>op. (op_inner op, tool_name (op_tool op))) (run_operations (update_schema (from_raw G L X) S r)) =
      map (\<lambda>op. (op_inner op, tool_name (op_tool op))) (run_operations r) \<and>
    run_published (update_schema (from_raw G L X) S r) = run_published r + 1"
proof -
  have "\<forall>op \<in> set (run_operations r). from_raw G L X (run_schema r) (run_options r) (op_inner op) = Inr (Some op)"
    using predefined_compiler.reachable_ok [OF assms] by (auto simp: catalog_ok_def)
  from predefined_compiler.reload_names [OF this] show ?thesis by (simp add: update_schema_def)
qed

theorem schema_reload_keeps_tools_witness:
  "\<exists>r. start (from_raw example_graphql \<lparr>debug_enabled = False, warn_enabled = True\<rparr> example_texts) example_startup
      example_server_config () [example_raw ''q''] = Inr r \<and>
    map (\<lambda>op. tool_name (op_tool op)) (run_operations (update_schema (from_raw example_graphql
      \<lparr>debug_enabled = False, warn_enabled = True\<rparr> example_texts) () r)) = [''Q'']"
proof -
  let ?c = "from_raw example_graphql \<lparr>debug_enabled = False, warn_enabled = True\<rparr> example_texts"
  obtain op where op: "?c () (example_options Explicit) (example_raw ''q'') = Inr (Some op)" "tool_name (op_tool op) = ''Q''"
    by (simp add: example_execution_simps)
  from op(1) obtain r where r: "start ?c example_startup example_server_config () [example_raw ''q''] = Inr r" "run_operations r = [op]"
    by (auto simp: start_def example_startup_def example_server_config_def map_error_def load_operations_def Let_def)
  have "map snd (map (\<lambda>op. (op_inner op, tool_name (op_tool op))) (run_operations (update_schema ?c () r))) = [''Q'']"
    using schema_reload_keeps_tools [OF example_running [OF r(1)], of "()"] r(2) op(2) by simp
  with r(1) show ?thesis by (auto simp: o_def)
qed

text \<open>
  What errors do to a running server: collection and manifest errors, the end of the schema
  stream and scripts that fail to load leave it exactly as it is and an invalid configuration
  file does not restart it, but a schema that fails to parse ends the server with that error, and
  so does an error reading an operation file.
\<close>

theorem errors_while_running:
  "process_event compile A V (RunningState r) (CollectionErrorEvent e) = Inr (RunningState r) \<and>
   process_event compile A V (RunningState r) (ManifestErrorEvent e) = Inr (RunningState r) \<and>
   process_event compile A V (RunningState r) (SchemaUpdated NoMoreSchema) = Inr (RunningState r) \<and>
   process_event compile A (V\<lparr>reloaded_scripts := Inl e\<rparr>) (RunningState r) RhaiScriptsChanged = Inr (RunningState r) \<and>
   process_event compile A (V\<lparr>config_validator := Some (Inl e)\<rparr>) (RunningState r) ConfigChanged = Inr (RunningState r) \<and>
   run_server compile (A\<lparr>new_supergraph := (\<lambda>_. None), parse_and_validate := (\<lambda>_. Inl e)\<rparr>) (RunningState r)
     ((SchemaUpdated (UpdateSchema sdl), E, V) # events) = Inl (GraphQLSchemaError e) \<and>
   run_server compile A (RunningState r) ((OperationErrorEvent e, E, V) # events) = Inl (OperationFailure (File e))"
  by (simp add: reload_rhai_scripts_def sdl_to_api_schema_def map_error_def server_step_def)

lemma start_not_restarting [simp]: "from_start x \<noteq> Restarting"
  by (simp add: from_start_def split: sum.splits)

lemma settle_restarting [simp]: "settle compile E s = Restarting \<longleftrightarrow> s = Restarting"
  by (cases s) simp_all

lemma set_not_restarting [simp]:
  "s \<noteq> Restarting \<Longrightarrow> set_schema compile S s \<noteq> Restarting"
  "s \<noteq> Restarting \<Longrightarrow> set_operations compile raws s \<noteq> Restarting"
  by (cases s; simp)+

lemma restart_step:
  assumes "server_step compile A E V s event = Inr Restarting" and s: "s \<noteq> Restarting"
  shows "event = ConfigChanged \<and> (\<forall>e. config_validator V \<noteq> Some (Inl e))"
proof -
  obtain s' where s': "process_event compile A V s event = Inr s'" "s' = Restarting"
    using assms(1) by (cases "process_event compile A V s event") (auto simp: server_step_def)
  show ?thesis
  proof (cases event)
    case (SchemaUpdated se)
    with s' s show ?thesis
      by (cases se; cases s) (auto simp: try_result_Inr_iff)
  next
    case (OperationsUpdated raws)
    with s' s show ?thesis by simp
  qed (use s' s in \<open>auto split: State.splits option.splits sum.splits\<close>)
qed

text \<open>
  The server asks to be restarted only after a configuration change that passes the validator
  (or without one).
\<close>

theorem restart_only_when_valid:
  assumes "run_server compile A state events = Inr Restart" and "\<not> terminal state"
  shows "\<exists>E V. (ConfigChanged, E, V) \<in> set events \<and> (\<forall>e. config_validator V \<noteq> Some (Inl e))"
  using assms
proof (induction compile A state events rule: run_server.induct)
  case (1 compile A state)
  then show ?case by (cases state) auto
next
  case (2 compile A state event E V events)
  then obtain s where s: "server_step compile A E V state event = Inr s" by (auto split: sum.splits)
  show ?case
  proof (cases "terminal s")
    case False
    then show ?thesis using 2 s by auto
  next
    case True
    with "2.prems"(1) s have "s = Restarting" by (cases s) auto
    with s "2.prems"(2) show ?thesis using restart_step [of compile A E V state event] by (cases state) auto
  qed
qed

theorem restart_only_when_valid_witness:
  "\<exists>E V. (ConfigChanged, E, V) \<in> set [(ConfigChanged, example_startup,
      \<lparr>config_validator = Some (Inr ()), reloaded_scripts = Inr ()\<rparr>)] \<and> (\<forall>e. config_validator V \<noteq> Some (Inl e))"
  by (rule restart_only_when_valid [of "\<lambda>_ _ _. Inr None" example_schema_api "Configuring example_server_config"])
     (simp_all add: server_step_def)

end
