(* ===== verification/Tool_Dispatch.thy ===== *)
theory Tool_Dispatch
  imports Server_States Auth_Middleware "HOL-Library.Multiset"
begin

text \<open>
  The requests a running server answers (\<open>server/states/running.rs\<close>, \<open>caching.rs\<close>): listing and
  calling tools, with and without the \<open>app\<close> parameter, listing and reading resources, prompts,
  and the cache hints of the newer protocol versions.
\<close>

section \<open>Requests\<close>

text \<open>The HTTP parts of a request; a request over stdio has none.\<close>

record request_parts =
  rp_query :: "string option"
  rp_headers :: header_map
  rp_token :: "ValidToken option"

definition extract_app_param :: "peek_api \<Rightarrow> request_parts option \<Rightarrow> string option" where
  "extract_app_param P parts = app_param_from_query P (case parts of None \<Rightarrow> None | Some p \<Rightarrow> rp_query p)"

definition request_app_target ::
    "peek_api \<Rightarrow> request_parts option \<Rightarrow> ClientCapabilities option \<Rightarrow> (McpError, AppTarget) result" where
  "request_app_target P parts capabilities =
     app_target (form_urlencoded_parse P) (case parts of None \<Rightarrow> None | Some p \<Rightarrow> rp_query p) capabilities"

record PeerContext =
  client_capabilities :: "ClientCapabilities option"
  protocol_version :: "string option"

section \<open>Protocol versions and cache hints\<close>

text \<open>Protocol versions are dates, which rmcp compares as strings.\<close>

definition V_2025_06_18 :: string where "V_2025_06_18 = ''2025-06-18''"

definition V_2026_07_28 :: string where "V_2026_07_28 = ''2026-07-28''"

definition MAX_SUPPORTED_PROTOCOL_VERSION :: string where
  "MAX_SUPPORTED_PROTOCOL_VERSION = V_2026_07_28"

datatype CacheScope = PrivateScope

record 'a listing =
  items :: "'a list"
  ttl_ms :: "nat option"
  cache_scope :: "CacheScope option"

definition with_all_items :: "'a list \<Rightarrow> 'a listing" where
  "with_all_items xs = \<lparr>items = xs, ttl_ms = None, cache_scope = None\<rparr>"

definition supports_cache_hints :: "string option \<Rightarrow> string \<Rightarrow> bool" where
  "supports_cache_hints peer server_max =
     (case peer of None \<Rightarrow> False | Some v \<Rightarrow> str_le V_2026_07_28 v \<and> str_le v server_max)"

definition apply_caching :: "nat \<Rightarrow> 'a listing \<Rightarrow> string option \<Rightarrow> string \<Rightarrow> 'a listing" where
  "apply_caching ttl result version server_max =
     (if supports_cache_hints version server_max
      then result\<lparr>ttl_ms := Some ttl, cache_scope := Some PrivateScope\<rparr> else result)"

definition client_supports_output_schema :: "('schema, 'scripts) Running \<Rightarrow> string option \<Rightarrow> bool" where
  "client_supports_output_schema r version \<longleftrightarrow>
     enable_output_schema (run_options r) \<and> (case version of None \<Rightarrow> False | Some v \<Rightarrow> str_le V_2025_06_18 v)"

section \<open>Listing tools\<close>

text \<open>\<open>sort_by\<close> with the comparison of names, which is stable.\<close>

fun insort_tool :: "Tool \<Rightarrow> Tool list \<Rightarrow> Tool list" where
  "insort_tool t [] = [t]"
| "insort_tool t (u # us) = (if str_le (tool_name t) (tool_name u) then t # u # us else u # insort_tool t us)"

definition sort_tools :: "Tool list \<Rightarrow> Tool list" where
  "sort_tools ts = foldr insort_tool ts []"

fun option_list :: "'a option \<Rightarrow> 'a list" where
  "option_list None = []"
| "option_list (Some x) = [x]"

definition builtin_tools :: "('schema, 'scripts) Running \<Rightarrow> Tool list" where
  "builtin_tools r = option_list (run_execute_tool r) @ option_list (run_introspect_tool r) @
     option_list (run_search_tool r) @ option_list (run_explorer_tool r) @ option_list (run_validate_tool r)"

text \<open>The tools before the output schemas are removed for clients that do not know them.\<close>

definition listed_tools ::
    "('schema, 'scripts) Running \<Rightarrow> string option \<Rightarrow> AppTarget \<Rightarrow> (McpError, Tool list) result" where
  "listed_tools r app_param target =
     (let operation_tools = sort_tools (map op_tool (run_operations r)) in
      case app_param of
        Some name \<Rightarrow>
          (case find (\<lambda>app. app_name app = name) (run_apps r) of
             Some app \<Rightarrow>
               Inr (operation_tools @ map make_tool_private (option_list (run_execute_tool r)) @
                    map (\<lambda>t. attach_tool_metadata app t target) (app_tools app))
           | None \<Rightarrow> Inl \<lparr>err_code = INVALID_REQUEST, err_message = ''App '' @ name @ '' not found''\<rparr>)
      | None \<Rightarrow> Inr (operation_tools @ builtin_tools r))"

definition list_tools ::
    "peek_api \<Rightarrow> ('schema, 'scripts) Running \<Rightarrow> request_parts option \<Rightarrow> PeerContext \<Rightarrow> string \<Rightarrow>
     (McpError, Tool listing) result" where
  "list_tools P r parts peer server_max =
     try_result (request_app_target P parts (client_capabilities peer)) (\<lambda>target.
     try_result (listed_tools r (extract_app_param P parts) target) (\<lambda>tools.
       let tools = (if client_supports_output_schema r (protocol_version peer) then tools
                    else map (\<lambda>t. t\<lparr>tool_output_schema := None\<rparr>) tools)
       in Inr (apply_caching (cfg_ttl_ms (run_config r)) (with_all_items tools) (protocol_version peer) server_max)))"

section \<open>Calling a tool\<close>

text \<open>
  What calling needs besides the server: the crates' parsers, the Rhai hook of the loaded scripts,
  and the four tools that do not send GraphQL requests (decoding their input, and running them).
\<close>

record 'scripts dispatch_api =
  da_peek :: peek_api
  da_header_name :: "string \<Rightarrow> string option"
  da_graphql :: graphql_api
  da_logs :: log_levels
  da_text :: text_api
  da_client_metadata :: json
  da_rhai_hook :: "'scripts \<Rightarrow> request_parts option \<Rightarrow> string \<Rightarrow> header_map \<Rightarrow> string \<Rightarrow> (McpError, string \<times> header_map) result"
  da_decode :: "string \<Rightarrow> json \<Rightarrow> (string, json) result"
  da_run :: "string \<Rightarrow> json \<Rightarrow> (McpError, CallToolResult) result"

definition tool_not_found :: "string \<Rightarrow> McpError" where
  "tool_not_found name = \<lparr>err_code = INVALID_PARAMS, err_message = ''Tool '' @ name @ '' not found''\<rparr>"

definition run_builtin ::
    "'scripts dispatch_api \<Rightarrow> string \<Rightarrow> (string \<times> json) list option \<Rightarrow>
     (McpError, outgoing_request option list \<times> CallToolResult) result" where
  "run_builtin D name arguments =
     (case da_decode D name (arguments_json arguments) of
        Inl e \<Rightarrow> Inr ([], error_result (''Invalid input: '' @ e))
      | Inr args \<Rightarrow> try_result (da_run D name args) (\<lambda>r. Inr ([], r)))"

definition request_headers ::
    "'scripts dispatch_api \<Rightarrow> ('schema, 'scripts) Running \<Rightarrow> request_parts option \<Rightarrow> header_map" where
  "request_headers D r parts =
     (let c = run_config r in
      case parts of
        Some p \<Rightarrow> build_request_headers (da_header_name D) (cfg_static_headers c) (cfg_forward_headers c) (rp_headers p)
          (rp_token p) (cfg_disable_auth_token_passthrough c)
      | None \<Rightarrow> cfg_static_headers c)"

definition execute_predefined ::
    "'scripts dispatch_api \<Rightarrow> (outgoing_request \<Rightarrow> upstream_response) \<Rightarrow> Operation \<Rightarrow> string \<Rightarrow> header_map \<Rightarrow> json \<Rightarrow>
     outgoing_request option \<times> CallToolResult" where
  "execute_predefined D send op endpoint =
     execute_request (operation_details op) (operation_variables op) (operation_headers op) (da_client_metadata D) send endpoint"

definition adhoc_details ::
    "'scripts dispatch_api \<Rightarrow> ('schema, 'scripts) Running \<Rightarrow> json \<Rightarrow> (string, OperationDetails) result" where
  "adhoc_details D r =
     execute_operation_details (da_graphql D) (da_logs D) (da_text D) \<lparr>ex_mutation_mode = mutation_mode (run_options r)\<rparr>"

definition execute_adhoc ::
    "'scripts dispatch_api \<Rightarrow> (outgoing_request \<Rightarrow> upstream_response) \<Rightarrow> ('schema, 'scripts) Running \<Rightarrow> string \<Rightarrow>
     header_map \<Rightarrow> json \<Rightarrow> outgoing_request option \<times> CallToolResult" where
  "execute_adhoc D send r endpoint =
     execute_request (adhoc_details D r) (execute_variables (da_text D)) (\<lambda>h. h) (da_client_metadata D) send endpoint"

definition one_request :: "('e, 'q \<times> 'r) result \<Rightarrow> ('e, 'q list \<times> 'r) result" where
  "one_request x = try_result x (\<lambda>(q, r). Inr ([q], r))"

definition dispatch_tool ::
    "'scripts dispatch_api \<Rightarrow> (outgoing_request \<Rightarrow> upstream_response) \<Rightarrow> ('schema, 'scripts) Running \<Rightarrow> string \<Rightarrow>
     (string \<times> json) list option \<Rightarrow> request_parts option \<Rightarrow>
     (McpError, outgoing_request option list \<times> CallToolResult) result" where
  "dispatch_tool D send r name arguments parts =
     (let headers = request_headers D r parts;
          hook = da_rhai_hook D (run_scripts r) parts;
          endpoint = cfg_endpoint (run_config r)
      in if name = INTROSPECT_TOOL_NAME \<and> run_introspect_tool r \<noteq> None then run_builtin D name arguments
         else if name = SEARCH_TOOL_NAME \<and> run_search_tool r \<noteq> None then run_builtin D name arguments
         else if name = EXPLORER_TOOL_NAME \<and> run_explorer_tool r \<noteq> None then run_builtin D name arguments
         else if name = EXECUTE_TOOL_NAME \<and> run_execute_tool r \<noteq> None
         then one_request (execute_operation hook (execute_adhoc D send r) headers arguments endpoint name)
         else if name = VALIDATE_TOOL_NAME \<and> run_validate_tool r \<noteq> None then run_builtin D name arguments
         else case extract_app_param (da_peek D) parts of
           Some app \<Rightarrow>
             (case find_and_execute_app_tool hook (execute_predefined D send) (run_apps r) app name headers arguments endpoint of
                Some res \<Rightarrow> res
              | None \<Rightarrow> Inl (tool_not_found name))
         | None \<Rightarrow>
             (case find_and_execute_operation hook (execute_predefined D send) (run_operations r) name headers arguments endpoint of
                Some res \<Rightarrow> one_request res
              | None \<Rightarrow> Inl (tool_not_found name)))"

text \<open>The requests sent, the answer, and the server: a rejected call is counted for the health check.\<close>

definition call_tool ::
    "'scripts dispatch_api \<Rightarrow> (outgoing_request \<Rightarrow> upstream_response) \<Rightarrow> ('schema, 'scripts) Running \<Rightarrow> string \<Rightarrow>
     (string \<times> json) list option \<Rightarrow> request_parts option \<Rightarrow> string option \<Rightarrow>
     outgoing_request option list \<times> (McpError, CallToolResult) result \<times> ('schema, 'scripts) Running" where
  "call_tool D send r name arguments parts version =
     (case dispatch_tool D send r name arguments parts of
        Inl e \<Rightarrow> ([], Inl e, r\<lparr>run_health_check := map_option record_rejection (run_health_check r)\<rparr>)
      | Inr (requests, result) \<Rightarrow>
          (requests,
           Inr (if extract_app_param (da_peek D) parts = None \<and> \<not> client_supports_output_schema r version
                then result\<lparr>ctr_structured_content := None\<rparr> else result),
           r))"

section \<open>Resources and prompts\<close>

definition list_resources ::
    "peek_api \<Rightarrow> ('schema, 'scripts) Running \<Rightarrow> request_parts option \<Rightarrow> string option \<Rightarrow> string \<Rightarrow>
     (McpError, resource listing) result" where
  "list_resources P r parts version server_max =
     try_result
       (case extract_app_param P parts of
          Some name \<Rightarrow>
            (case find (\<lambda>app. app_name app = name) (run_apps r) of
               Some app \<Rightarrow> Inr [attach_resource_mime_type (app_as_resource app)]
             | None \<Rightarrow> Inl \<lparr>err_code = INVALID_PARAMS, err_message = ''App '' @ name @ '' not found''\<rparr>)
        | None \<Rightarrow> Inr [])
       (\<lambda>resources. Inr (apply_caching (cfg_ttl_ms (run_config r)) (with_all_items resources) version server_max))"

definition list_resource_templates ::
    "('schema, 'scripts) Running \<Rightarrow> string option \<Rightarrow> string \<Rightarrow> unit listing" where
  "list_resource_templates r version server_max =
     apply_caching (cfg_ttl_ms (run_config r)) (with_all_items []) version server_max"

text \<open>\<open>Url::parse\<close> and the fetching of remote pages are arguments.\<close>

definition read_resource ::
    "peek_api \<Rightarrow> (string \<Rightarrow> (string, app_url) result) \<Rightarrow> (string \<Rightarrow> fetch_result) \<Rightarrow> ('schema, 'scripts) Running \<Rightarrow>
     string \<Rightarrow> request_parts option \<Rightarrow> PeerContext \<Rightarrow> string \<Rightarrow> (McpError, resource_contents listing) result" where
  "read_resource P parse fetch r uri parts peer server_max =
     (case parse uri of
        Inl err \<Rightarrow> Inl (resource_not_found (''Requested resource has an invalid URI: '' @ err))
      | Inr request_uri \<Rightarrow>
          try_result (request_app_target P parts (client_capabilities peer)) (\<lambda>target.
            case extract_app_param P parts of
              Some name \<Rightarrow>
                try_result (get_app_resource fetch (run_apps r) uri request_uri target name) (\<lambda>(contents, origin).
                  Inr (apply_caching (origin_ttl origin (cfg_ttl_ms (run_config r))) (with_all_items [contents])
                    (protocol_version peer) server_max))
            | None \<Rightarrow> Inl (resource_not_found (''Resource not found for URI: '' @ uri))))"

definition list_prompts :: "('schema, 'scripts) Running \<Rightarrow> string option \<Rightarrow> string \<Rightarrow> Prompt listing" where
  "list_prompts r version server_max =
     apply_caching (cfg_ttl_ms (run_config r)) (with_all_items (map prompt (run_prompts r))) version server_max"

section \<open>Sorting\<close>

lemma mset_insort_tool [simp]: "mset (insort_tool t ts) = add_mset t (mset ts)"
  by (induction ts) auto

lemma mset_sort_tools [simp]: "mset (sort_tools ts) = mset ts"
  by (induction ts) (auto simp: sort_tools_def)

lemma set_sort_tools [simp]: "set (sort_tools ts) = set ts"
  using mset_sort_tools mset_eq_setD by blast

lemma sorted_insort_tool:
  "sorted_wrt (\<lambda>t u. str_le (tool_name t) (tool_name u)) ts \<Longrightarrow>
   sorted_wrt (\<lambda>t u. str_le (tool_name t) (tool_name u)) (insort_tool t ts)"
proof (induction ts)
  case (Cons u us)
  have "set (insort_tool t us) = insert t (set us)"
    using mset_insort_tool [of t us] by (metis set_mset_mset set_mset_add_mset_insert)
  then show ?case using Cons str_le_total str_le_trans by fastforce
qed simp

lemma sorted_sort_tools: "sorted_wrt (\<lambda>t u. str_le (tool_name t) (tool_name u)) (sort_tools ts)"
  by (induction ts) (auto simp: sort_tools_def intro: sorted_insort_tool)

lemma insort_tool_commute:
  "tool_name t \<noteq> tool_name u \<Longrightarrow> insort_tool t (insort_tool u ts) = insort_tool u (insort_tool t ts)"
proof (induction ts)
  case Nil
  then show ?case using str_le_total str_le_antisym by fastforce
next
  case (Cons x ts)
  then show ?case
    using str_le_total [of "tool_name t" "tool_name u"] str_le_antisym [of "tool_name t" "tool_name u"]
      str_le_trans [of "tool_name t" "tool_name u" "tool_name x"] str_le_trans [of "tool_name u" "tool_name t" "tool_name x"]
    by auto
qed

lemma sort_tools_permuted:
  assumes "mset ts = mset us" and "distinct (map tool_name ts)"
  shows "sort_tools ts = sort_tools us"
proof -
  have names: "t = u" if "t \<in> set ts" "u \<in> set ts" "tool_name t = tool_name u" for t u
    using that assms(2) by (auto simp: distinct_map dest: inj_onD)
  have "insort_tool t \<circ> insort_tool u = insort_tool u \<circ> insort_tool t" if "t \<in> set (rev ts)" "u \<in> set (rev ts)" for t u
  proof (cases "tool_name t = tool_name u")
    case True
    with names [of t u] that have "t = u" by simp
    then show ?thesis by simp
  next
    case False
    then show ?thesis by (simp add: fun_eq_iff insort_tool_commute)
  qed
  then have "fold insort_tool (rev ts) = fold insort_tool (rev us)"
    by (rule fold_multiset_equiv) (simp_all add: assms(1))
  then show ?thesis by (simp add: sort_tools_def foldr_conv_fold)
qed

section \<open>Which tools answer\<close>

definition enabled_builtin :: "('schema, 'scripts) Running \<Rightarrow> string \<Rightarrow> bool" where
  "enabled_builtin r name \<longleftrightarrow> name \<in> tool_name ` set (builtin_tools r)"

lemma set_option_list [simp]: "set (option_list x) = set_option x"
  by (cases x) auto

lemma named_set_option: "named n t \<Longrightarrow> m \<in> tool_name ` set_option t \<longleftrightarrow> m = n \<and> t \<noteq> None"
  by (cases t) (auto simp: named_def)

lemma enabled_builtin_cases:
  assumes "builtins_named r"
  shows "enabled_builtin r n \<longleftrightarrow> n = EXECUTE_TOOL_NAME \<and> run_execute_tool r \<noteq> None \<or>
    n = INTROSPECT_TOOL_NAME \<and> run_introspect_tool r \<noteq> None \<or> n = SEARCH_TOOL_NAME \<and> run_search_tool r \<noteq> None \<or>
    n = EXPLORER_TOOL_NAME \<and> run_explorer_tool r \<noteq> None \<or> n = VALIDATE_TOOL_NAME \<and> run_validate_tool r \<noteq> None"
proof -
  note n = assms [unfolded builtins_named_def]
  note n [THEN conjunct1, THEN named_set_option, of n]
    n [THEN conjunct2, THEN conjunct1, THEN named_set_option, of n]
    n [THEN conjunct2, THEN conjunct2, THEN conjunct1, THEN named_set_option, of n]
    n [THEN conjunct2, THEN conjunct2, THEN conjunct2, THEN conjunct1, THEN named_set_option, of n]
    n [THEN conjunct2, THEN conjunct2, THEN conjunct2, THEN conjunct2, THEN named_set_option, of n]
  then show ?thesis by (simp add: enabled_builtin_def builtin_tools_def image_Un)
qed

text \<open>
  The errors that are a tool's own: the Rhai hook threw, or the built-in tool that the name stands
  for failed on its decoded input.
\<close>

definition tool_failure ::
    "'scripts dispatch_api \<Rightarrow> ('schema, 'scripts) Running \<Rightarrow> request_parts option \<Rightarrow> (string \<times> json) list option \<Rightarrow>
     string \<Rightarrow> McpError \<Rightarrow> bool" where
  "tool_failure D r parts args n e \<longleftrightarrow>
     da_rhai_hook D (run_scripts r) parts (cfg_endpoint (run_config r)) (request_headers D r parts) n = Inl e \<or>
     (\<exists>v. da_decode D n (arguments_json args) = Inr v \<and> da_run D n v = Inl e)"

lemma run_builtin_fails: "run_builtin D n args = Inl e \<Longrightarrow> tool_failure D r parts args n e"
  by (auto simp: run_builtin_def tool_failure_def try_result_def split: sum.splits)

lemma execute_operation_fails:
  "one_request (execute_operation (da_rhai_hook D (run_scripts r) parts) execute (request_headers D r parts) args
     (cfg_endpoint (run_config r)) n) = Inl e \<Longrightarrow> tool_failure D r parts args n e"
  by (auto simp: one_request_def execute_operation_def tool_failure_def try_result_def split: sum.splits prod.splits)

lemma execute_app_tool_fails:
  "execute_app_tool (da_rhai_hook D (run_scripts r) parts) execute app t (request_headers D r parts) args
     (cfg_endpoint (run_config r)) = Inl e \<Longrightarrow> tool_failure D r parts args (tool_name (at_tool t)) e"
  by (auto simp: execute_app_tool_def tool_failure_def try_result_def Let_def case_prod_beta split: sum.splits)

text \<open>The names a call is answered under, and what any other call gets.\<close>

definition answers :: "('schema, 'scripts) Running \<Rightarrow> string option \<Rightarrow> string \<Rightarrow> bool" where
  "answers r app n \<longleftrightarrow> enabled_builtin r n \<or>
     (case app of
        None \<Rightarrow> n \<in> (\<lambda>op. tool_name (op_tool op)) ` set (run_operations r)
      | Some a \<Rightarrow> find_app_tool (run_apps r) a n \<noteq> None)"

lemma dispatch_answers:
  assumes "builtins_named r"
  shows "if answers r (extract_app_param (da_peek D) parts) n
    then \<forall>e. dispatch_tool D send r n args parts = Inl e \<longrightarrow> tool_failure D r parts args n e
    else dispatch_tool D send r n args parts = Inl (tool_not_found n)"
proof (cases "enabled_builtin r n")
  case True
  then show ?thesis
    unfolding enabled_builtin_cases [OF assms(1)] answers_def dispatch_tool_def Let_def
    by (auto dest: run_builtin_fails execute_operation_fails)
next
  case False
  then have other: "dispatch_tool D send r n args parts =
      (case extract_app_param (da_peek D) parts of
           Some app \<Rightarrow>
             (case find_and_execute_app_tool (da_rhai_hook D (run_scripts r) parts) (execute_predefined D send) (run_apps r)
                app n (request_headers D r parts) args (cfg_endpoint (run_config r)) of
                Some res \<Rightarrow> res
              | None \<Rightarrow> Inl (tool_not_found n))
         | None \<Rightarrow>
             (case find_and_execute_operation (da_rhai_hook D (run_scripts r) parts) (execute_predefined D send)
                (run_operations r) n (request_headers D r parts) args (cfg_endpoint (run_config r)) of
                Some res \<Rightarrow> one_request res
              | None \<Rightarrow> Inl (tool_not_found n)))"
    unfolding enabled_builtin_cases [OF assms(1)] dispatch_tool_def Let_def by auto
  show ?thesis
  proof (cases "extract_app_param (da_peek D) parts")
    case None
    show ?thesis
    proof (cases "find (\<lambda>op. tool_name (op_tool op) = n) (run_operations r)")
      case (Some op)
      then have "n \<in> (\<lambda>op. tool_name (op_tool op)) ` set (run_operations r)" by (auto simp: find_Some_iff)
      with None Some show ?thesis
        unfolding other answers_def find_and_execute_operation_def by (simp add: execute_operation_fails)
    next
      case none: None
      then have "n \<notin> (\<lambda>op. tool_name (op_tool op)) ` set (run_operations r)" by (auto simp: find_None_iff)
      with None none False show ?thesis unfolding other answers_def find_and_execute_operation_def by simp
    qed
  next
    case (Some a)
    show ?thesis
    proof (cases "find_app_tool (run_apps r) a n")
      case none: None
      with Some False show ?thesis unfolding other answers_def find_and_execute_app_tool_def by simp
    next
      case found: (Some x)
      then have "tool_name (at_tool (snd x)) = n"
        by (auto simp: find_app_tool_def find_Some_iff split: option.splits)
      with Some found show ?thesis
        unfolding other answers_def find_and_execute_app_tool_def
        using execute_app_tool_fails by (fastforce simp: case_prod_beta)
    qed
  qed
qed

text \<open>What a call under a tool's name can come to, and what any other call does.\<close>

definition call_answered ::
    "'scripts dispatch_api \<Rightarrow> ('schema, 'scripts) Running \<Rightarrow> request_parts option \<Rightarrow> (string \<times> json) list option \<Rightarrow> string \<Rightarrow>
     outgoing_request option list \<times> (McpError, CallToolResult) result \<times> ('schema, 'scripts) Running \<Rightarrow> bool" where
  "call_answered D r parts args n outcome \<longleftrightarrow>
     (\<exists>requests result. outcome = (requests, Inr result, r)) \<or>
     (\<exists>e. tool_failure D r parts args n e \<and>
        outcome = ([], Inl e, r\<lparr>run_health_check := map_option record_rejection (run_health_check r)\<rparr>))"

lemma call_answers:
  assumes "builtins_named r"
  shows "if answers r (extract_app_param (da_peek D) parts) n
    then call_answered D r parts args n (call_tool D send r n args parts v)
    else call_tool D send r n args parts v =
      ([], Inl (tool_not_found n), r\<lparr>run_health_check := map_option record_rejection (run_health_check r)\<rparr>)"
  using dispatch_answers [OF assms, of D parts n send args]
  by (cases "dispatch_tool D send r n args parts") (auto simp: call_tool_def call_answered_def split: if_splits)

section \<open>Properties of the tool listing\<close>

lemma items_apply_caching [simp]: "items (apply_caching ttl l v latest) = items l"
  by (simp add: apply_caching_def)

lemma list_tools_Inr:
  assumes "list_tools P r parts peer latest = Inr l"
  obtains target tools where "listed_tools r (extract_app_param P parts) target = Inr tools"
    and "map tool_name (items l) = map tool_name tools"
  using assms by (auto simp: list_tools_def try_result_Inr_iff Let_def with_all_items_def o_def split: if_splits)

lemma names_of_listing:
  assumes "list_tools P r parts peer latest = Inr l" and "extract_app_param P parts = None"
  shows "tool_name ` set (items l) = (\<lambda>op. tool_name (op_tool op)) ` set (run_operations r) \<union> {n. enabled_builtin r n}"
proof -
  obtain target tools where tools: "listed_tools r None target = Inr tools" "map tool_name (items l) = map tool_name tools"
    using list_tools_Inr [OF assms(1)] assms(2) by metis
  from tools(1) have "tools = sort_tools (map op_tool (run_operations r)) @ builtin_tools r"
    by (simp add: listed_tools_def)
  then have "tool_name ` set tools = (\<lambda>op. tool_name (op_tool op)) ` set (run_operations r) \<union> {n. enabled_builtin r n}"
    by (simp add: enabled_builtin_def image_Un image_image)
  with tools(2) show ?thesis by (metis list.set_map)
qed

lemma names_of_app_listing:
  assumes "list_tools P r parts peer latest = Inr l" and "extract_app_param P parts = Some a" and "builtins_named r"
  obtains app where "find (\<lambda>app. app_name app = a) (run_apps r) = Some app"
    and "tool_name ` set (items l) = (\<lambda>op. tool_name (op_tool op)) ` set (run_operations r) \<union>
      (if run_execute_tool r = None then {} else {EXECUTE_TOOL_NAME}) \<union> (\<lambda>t. tool_name (at_tool t)) ` set (app_tools app)"
proof -
  obtain target tools where tools: "listed_tools r (Some a) target = Inr tools" "map tool_name (items l) = map tool_name tools"
    using list_tools_Inr [OF assms(1)] assms(2) by metis
  from tools(1) obtain app where app: "find (\<lambda>app. app_name app = a) (run_apps r) = Some app"
    and "tools = sort_tools (map op_tool (run_operations r)) @ map make_tool_private (option_list (run_execute_tool r)) @
      map (\<lambda>t. attach_tool_metadata app t target) (app_tools app)"
    by (auto simp: listed_tools_def split: option.splits)
  then have "tool_name ` set tools = (\<lambda>op. tool_name (op_tool op)) ` set (run_operations r) \<union>
      (if run_execute_tool r = None then {} else {EXECUTE_TOOL_NAME}) \<union> (\<lambda>t. tool_name (at_tool t)) ` set (app_tools app)"
    using assms(3) by (cases "run_execute_tool r") (simp_all add: builtins_named_def named_def image_image image_Un Un_assoc)
  with tools(2) have "tool_name ` set (items l) = (\<lambda>op. tool_name (op_tool op)) ` set (run_operations r) \<union>
      (if run_execute_tool r = None then {} else {EXECUTE_TOOL_NAME}) \<union> (\<lambda>t. tool_name (at_tool t)) ` set (app_tools app)"
    by (metis list.set_map)
  with app show thesis by (rule that)
qed

lemma running_builtins_named:
  "server_steps (from_raw G L X) A config events (RunningState r) \<Longrightarrow> builtins_named r"
  using predefined_compiler.reachable_ok by (fastforce simp: catalog_ok_def)

text \<open>
  C32: without the \<open>app\<close> parameter the listing tells exactly what can be called. A call under a
  listed name gets a result and leaves the server as it is, unless it is the tool itself that
  fails: the Rhai hook throws for this call, or the built-in tool returns an error for its decoded
  input; then that error is the answer and is counted as a rejection. A call under any other name
  sends nothing, is answered with an error that names it, and is counted as a rejection.
\<close>

theorem listed_tools_answer:
  assumes "server_steps (from_raw G L X) A config events (RunningState r)"
    and "extract_app_param (da_peek D) parts = None"
    and "list_tools (da_peek D) r parts peer latest = Inr l"
  shows "if n \<in> tool_name ` set (items l)
    then (\<exists>requests result. call_tool D send r n args parts v = (requests, Inr result, r)) \<or>
      (\<exists>e. (da_rhai_hook D (run_scripts r) parts (cfg_endpoint (run_config r)) (request_headers D r parts) n = Inl e \<or>
            (\<exists>input. da_decode D n (arguments_json args) = Inr input \<and> da_run D n input = Inl e)) \<and>
         call_tool D send r n args parts v =
           ([], Inl e, r\<lparr>run_health_check := map_option record_rejection (run_health_check r)\<rparr>))
    else call_tool D send r n args parts v =
      ([], Inl (tool_not_found n), r\<lparr>run_health_check := map_option record_rejection (run_health_check r)\<rparr>)"
proof -
  have "n \<in> tool_name ` set (items l) \<longleftrightarrow> answers r (extract_app_param (da_peek D) parts) n"
    using names_of_listing [OF assms(3,2)] assms(2) by (auto simp: answers_def)
  with call_answers [OF running_builtins_named [OF assms(1)], of D parts n args send v] show ?thesis
    unfolding call_answered_def tool_failure_def by presburger
qed

text \<open>
  With the \<open>app\<close> parameter the listing does not tell what can be called. The listing has every predefined operation, the execute
  tool and the app's tools; a call is answered for the app's tools and every enabled built-in tool.
  So a predefined operation that is no tool of the app is listed and never found, and the other
  built-in tools are not listed and run.
\<close>

theorem app_listing_gap:
  assumes "server_steps (from_raw G L X) A config events (RunningState r)"
    and "extract_app_param (da_peek D) parts = Some a"
    and "list_tools (da_peek D) r parts peer latest = Inr l"
  shows "\<exists>app. find (\<lambda>app. app_name app = a) (run_apps r) = Some app \<and>
    tool_name ` set (items l) = (\<lambda>op. tool_name (op_tool op)) ` set (run_operations r) \<union>
      (if run_execute_tool r = None then {} else {EXECUTE_TOOL_NAME}) \<union> (\<lambda>t. tool_name (at_tool t)) ` set (app_tools app) \<and>
    (if n \<in> (\<lambda>t. tool_name (at_tool t)) ` set (app_tools app) \<or> enabled_builtin r n
     then call_answered D r parts args n (call_tool D send r n args parts v)
     else call_tool D send r n args parts v =
       ([], Inl (tool_not_found n), r\<lparr>run_health_check := map_option record_rejection (run_health_check r)\<rparr>))"
proof -
  have named: "builtins_named r" by (rule running_builtins_named [OF assms(1)])
  obtain app where app: "find (\<lambda>app. app_name app = a) (run_apps r) = Some app"
    and names: "tool_name ` set (items l) = (\<lambda>op. tool_name (op_tool op)) ` set (run_operations r) \<union>
      (if run_execute_tool r = None then {} else {EXECUTE_TOOL_NAME}) \<union> (\<lambda>t. tool_name (at_tool t)) ` set (app_tools app)"
    by (rule names_of_app_listing [OF assms(3,2) named])
  have "find_app_tool (run_apps r) a n \<noteq> None \<longleftrightarrow> n \<in> (\<lambda>t. tool_name (at_tool t)) ` set (app_tools app)"
    by (auto simp: find_app_tool_def app find_None_iff)
  then have "answers r (extract_app_param (da_peek D) parts) n \<longleftrightarrow>
      n \<in> (\<lambda>t. tool_name (at_tool t)) ` set (app_tools app) \<or> enabled_builtin r n"
    using assms(2) by (auto simp: answers_def)
  with call_answers [OF named, of D parts n args send v] app names show ?thesis by simp
qed

text \<open>
  The listing does not depend on the order of the catalog when the tools have different names,
  and the operations come first in it, in the order of their names.
\<close>

theorem listing_order:
  assumes "mset ops = mset (run_operations r)" and "distinct (map (\<lambda>op. tool_name (op_tool op)) ops)"
  shows "list_tools P (r\<lparr>run_operations := ops\<rparr>) parts peer latest = list_tools P r parts peer latest \<and>
    (case list_tools P r parts peer latest of
       Inl e \<Rightarrow> True
     | Inr l \<Rightarrow> sorted_wrt str_le (map tool_name (take (length ops) (items l))) \<and>
         mset (map tool_name (take (length ops) (items l))) = mset (map (\<lambda>op. tool_name (op_tool op)) ops))"
proof -
  have sorted: "sort_tools (map op_tool ops) = sort_tools (map op_tool (run_operations r))"
    by (rule sort_tools_permuted) (use assms in \<open>simp_all add: o_def\<close>)
  have len: "length ops = length (sort_tools (map op_tool ops))"
    by (metis mset_sort_tools size_mset length_map)
  have taken: "map tool_name (take (length ops) (items l)) = map tool_name (sort_tools (map op_tool ops))"
    if l: "list_tools P r parts peer latest = Inr l" for l
  proof -
    obtain target tools where tools: "listed_tools r (extract_app_param P parts) target = Inr tools"
        "map tool_name (items l) = map tool_name tools"
      using list_tools_Inr [OF l] by metis
    from tools(1) obtain rest where "tools = sort_tools (map op_tool ops) @ rest"
      by (auto simp: listed_tools_def sorted Let_def split: option.splits)
    with tools(2) len show ?thesis by (metis append_eq_conv_conj take_map)
  qed
  have "sorted_wrt str_le (map tool_name (sort_tools (map op_tool ops)))"
    using sorted_sort_tools by (simp add: sorted_wrt_map)
  moreover have "mset (map tool_name (sort_tools (map op_tool ops))) = mset (map (\<lambda>op. tool_name (op_tool op)) ops)"
    by (simp add: image_mset.compositionality o_def)
  moreover have "list_tools P (r\<lparr>run_operations := ops\<rparr>) parts peer latest = list_tools P r parts peer latest"
  proof -
    have "listed_tools (r\<lparr>run_operations := ops\<rparr>) a target = listed_tools r a target" for a target
      by (simp add: listed_tools_def builtin_tools_def sorted Let_def split: option.split)
    then show ?thesis by (simp add: list_tools_def client_supports_output_schema_def)
  qed
  ultimately show ?thesis using taken by (auto split: sum.splits)
qed

section \<open>Private fields stay private\<close>

definition app_operations :: "App \<Rightarrow> Operation list" where
  "app_operations app = map (\<lambda>t. arc_val (at_operation t)) (app_tools app) @
     map (\<lambda>p. arc_val (pf_operation p)) (app_prefetch_operations app)"

text \<open>
  The operations that a call may send: of the catalog, of the apps with their prefetches, or the ad
  hoc one in the arguments. A request belongs to an operation when it carries the operation's
  document and name.
\<close>

definition callable_details ::
    "'scripts dispatch_api \<Rightarrow> ('schema, 'scripts) Running \<Rightarrow> (string \<times> json) list option \<Rightarrow> OperationDetails set" where
  "callable_details D r arguments =
     {d. \<exists>op \<in> set (run_operations r) \<union> (\<Union>app \<in> set (run_apps r). set (app_operations app)).
           \<exists>input. operation_details op input = Inr d} \<union>
     {d. adhoc_details D r (arguments_json arguments) = Inr d}"

definition carries_operation :: "json \<Rightarrow> OperationDetails \<Rightarrow> outgoing_request \<Rightarrow> bool" where
  "carries_operation cm d request \<longleftrightarrow> (\<exists>vs. out_body request = request_body cm vs d)"

lemma callable_predefined:
  "op \<in> set (run_operations r) \<Longrightarrow> operation_details op input = Inr d \<Longrightarrow> d \<in> callable_details D r arguments"
  unfolding callable_details_def by blast

lemma callable_app:
  "app \<in> set (run_apps r) \<Longrightarrow> op \<in> set (app_operations app) \<Longrightarrow> operation_details op input = Inr d \<Longrightarrow>
   d \<in> callable_details D r arguments"
  unfolding callable_details_def by blast

definition same_answer ::
    "(McpError, 'q \<times> CallToolResult) result \<Rightarrow> (McpError, 'q \<times> CallToolResult) result \<Rightarrow> bool" where
  "same_answer = rel_sum (=) (rel_prod (=) (\<lambda>x y. shown x = shown y))"

lemma same_answer_refl [simp]: "same_answer x x"
  by (cases x) (auto simp: same_answer_def rel_prod_sel)

lemma same_answer_Inr [simp]: "same_answer (Inr (q, x)) (Inr (q', y)) \<longleftrightarrow> q = q' \<and> shown x = shown y"
  by (simp add: same_answer_def)

lemma same_answer_if:
  "(c \<Longrightarrow> same_answer x x') \<Longrightarrow> (\<not> c \<Longrightarrow> same_answer y y') \<Longrightarrow> same_answer (if c then x else y) (if c then x' else y')"
  by simp

lemma same_answer_one_request: "same_answer x y \<Longrightarrow> same_answer (one_request x) (one_request y)"
  by (cases x; cases y) (auto simp: same_answer_def one_request_def)

lemma execute_predefined_same:
  assumes "\<And>d request. operation_details op v = Inr d \<Longrightarrow> carries_operation (da_client_metadata D) d request \<Longrightarrow>
      same_view (det_private_fields d) (send1 request) (send2 request)"
  shows "fst (execute_predefined D send1 op e h v) = fst (execute_predefined D send2 op e h v) \<and>
    shown (snd (execute_predefined D send1 op e h v)) = shown (snd (execute_predefined D send2 op e h v))"
  unfolding execute_predefined_def
  by (rule execute_request_shown [where operation = "operation_details op" and variables = "operation_variables op"
        and headers = "operation_headers op" and cm = "da_client_metadata D" and endpoint = e and hs = h and input = v
        and ?send1.0 = send1 and ?send2.0 = send2])
     (use assms in \<open>auto simp: carries_operation_def\<close>)

lemma execute_adhoc_same:
  assumes "\<And>d request. adhoc_details D r v = Inr d \<Longrightarrow> carries_operation (da_client_metadata D) d request \<Longrightarrow>
      same_view (det_private_fields d) (send1 request) (send2 request)"
  shows "fst (execute_adhoc D send1 r e h v) = fst (execute_adhoc D send2 r e h v) \<and>
    shown (snd (execute_adhoc D send1 r e h v)) = shown (snd (execute_adhoc D send2 r e h v))"
  unfolding execute_adhoc_def
  by (rule execute_request_shown [where operation = "adhoc_details D r" and variables = "execute_variables (da_text D)"
        and headers = "\<lambda>h. h" and cm = "da_client_metadata D" and endpoint = e and hs = h and input = v
        and ?send1.0 = send1 and ?send2.0 = send2])
     (use assms in \<open>auto simp: carries_operation_def\<close>)

lemma execute_operation_same:
  assumes "\<And>e h. fst (execute1 e h (arguments_json args)) = fst (execute2 e h (arguments_json args)) \<and>
      shown (snd (execute1 e h (arguments_json args))) = shown (snd (execute2 e h (arguments_json args)))"
  shows "same_answer (execute_operation hook execute1 h args e n) (execute_operation hook execute2 h args e n)"
proof (cases "hook e h n")
  case (Inr x)
  obtain e' h' where x: "x = (e', h')" by (cases x)
  show ?thesis
    using assms [of e' h']
    by (cases "execute1 e' h' (arguments_json args)"; cases "execute2 e' h' (arguments_json args)")
       (simp add: execute_operation_def Inr x)
qed (simp add: execute_operation_def)

lemma execute_app_tool_same:
  assumes "\<And>op e h v. op \<in> set (app_operations app) \<Longrightarrow> fst (execute1 op e h v) = fst (execute2 op e h v) \<and>
      shown (snd (execute1 op e h v)) = shown (snd (execute2 op e h v))"
    and "t \<in> set (app_tools app)"
  shows "same_answer (execute_app_tool hook execute1 app t h args e) (execute_app_tool hook execute2 app t h args e)"
proof (cases "hook e h (tool_name (at_tool t))")
  case (Inr x)
  obtain e' h' where x: "x = (e', h')" by (cases x)
  define input where "input op = arguments_json (filter_inputs_for_operation args op)" for op
  define ps where "ps = filter (\<lambda>p. arc_ptr (pf_operation p) \<noteq> arc_ptr (at_operation t)) (app_prefetch_operations app)"
  have same_tool: "fst (execute1 (arc_val (at_operation t)) e' h' v) = fst (execute2 (arc_val (at_operation t)) e' h' v) \<and>
      shown (snd (execute1 (arc_val (at_operation t)) e' h' v)) = shown (snd (execute2 (arc_val (at_operation t)) e' h' v))" for v
    by (rule assms(1)) (use assms(2) in \<open>simp add: app_operations_def\<close>)
  have same_prefetch: "fst (execute1 (arc_val (pf_operation p)) e' h' v) = fst (execute2 (arc_val (pf_operation p)) e' h' v) \<and>
      shown (snd (execute1 (arc_val (pf_operation p)) e' h' v)) = shown (snd (execute2 (arc_val (pf_operation p)) e' h' v))"
    if "p \<in> set ps" for p v
    by (rule assms(1)) (use that in \<open>simp add: app_operations_def ps_def\<close>)
  have "shown (nest_app_tool_result (snd (execute1 (arc_val (at_operation t)) e' h' v)) name
          (map (\<lambda>p. (pf_prefetch_id p, snd (execute1 (arc_val (pf_operation p)) e' h' (input (arc_val (pf_operation p)))))) ps) extra) =
      shown (nest_app_tool_result (snd (execute2 (arc_val (at_operation t)) e' h' v)) name
          (map (\<lambda>p. (pf_prefetch_id p, snd (execute2 (arc_val (pf_operation p)) e' h' (input (arc_val (pf_operation p)))))) ps) extra)"
    for v name extra
    by (rule nest_shown) (use same_tool same_prefetch in \<open>auto simp: list_all2_map1 list_all2_map2 list_all2_same\<close>)
  then show ?thesis
    using same_tool same_prefetch
    by (auto simp: execute_app_tool_def Inr x Let_def case_prod_beta o_def input_def [symmetric] ps_def [symmetric])
qed (simp add: execute_app_tool_def)

lemma dispatch_same:
  assumes "\<And>d request. d \<in> callable_details D r arguments \<Longrightarrow> carries_operation (da_client_metadata D) d request \<Longrightarrow>
      same_view (det_private_fields d) (send1 request) (send2 request)"
  shows "same_answer (dispatch_tool D send1 r n arguments parts) (dispatch_tool D send2 r n arguments parts)"
proof -
  have adhoc: "same_answer (one_request (execute_operation hook (execute_adhoc D send1 r) h arguments e n))
      (one_request (execute_operation hook (execute_adhoc D send2 r) h arguments e n))" for hook h e
    by (intro same_answer_one_request execute_operation_same execute_adhoc_same)
       (auto intro!: assms simp: callable_details_def)
  have operation: "same_answer (one_request (execute_operation hook (execute_predefined D send1 op) h arguments e n))
      (one_request (execute_operation hook (execute_predefined D send2 op) h arguments e n))"
    if "op \<in> set (run_operations r)" for hook h e op
    using that
    by (intro same_answer_one_request execute_operation_same execute_predefined_same)
       (auto intro: assms callable_predefined)
  have app: "same_answer (execute_app_tool hook (execute_predefined D send1) app t h arguments e)
      (execute_app_tool hook (execute_predefined D send2) app t h arguments e)"
    if "app \<in> set (run_apps r)" "t \<in> set (app_tools app)" for hook app t h e
    using that
    by (intro execute_app_tool_same execute_predefined_same) (auto intro: assms callable_app)
  have tool: "same_answer
      (case find_and_execute_app_tool hook (execute_predefined D send1) (run_apps r) a n h arguments e of
         Some res \<Rightarrow> res | None \<Rightarrow> Inl (tool_not_found n))
      (case find_and_execute_app_tool hook (execute_predefined D send2) (run_apps r) a n h arguments e of
         Some res \<Rightarrow> res | None \<Rightarrow> Inl (tool_not_found n))" for hook a h e
  proof (cases "find_app_tool (run_apps r) a n")
    case (Some x)
    then have "fst x \<in> set (run_apps r)" "snd x \<in> set (app_tools (fst x))"
      by (auto simp: find_app_tool_def find_Some_iff split: option.splits)
    with app Some show ?thesis by (simp add: find_and_execute_app_tool_def case_prod_beta)
  qed (simp add: find_and_execute_app_tool_def)
  have found: "same_answer
      (case find_and_execute_operation hook (execute_predefined D send1) (run_operations r) n h arguments e of
         Some res \<Rightarrow> one_request res | None \<Rightarrow> Inl (tool_not_found n))
      (case find_and_execute_operation hook (execute_predefined D send2) (run_operations r) n h arguments e of
         Some res \<Rightarrow> one_request res | None \<Rightarrow> Inl (tool_not_found n))" for hook h e
  proof (cases "find (\<lambda>op. tool_name (op_tool op) = n) (run_operations r)")
    case (Some op)
    then have "op \<in> set (run_operations r)" by (auto simp: find_Some_iff)
    with operation Some show ?thesis by (simp add: find_and_execute_operation_def)
  qed (simp add: find_and_execute_operation_def)
  show ?thesis
    unfolding dispatch_tool_def Let_def
    by (intro same_answer_if same_answer_refl adhoc)
       (cases "extract_app_param (da_peek D) parts"; simp only: option.case tool found)
qed

text \<open>
  C31: nothing a model is shown depends on what the filter of private fields hides. Run the same call
  against two upstreams that answer the requests of each operation alike, up to what that
  operation's own private tree (as collected when the tool was built) removes from the response: the
  same requests are sent, the call fails alike or shows the same content, structured content and
  error flag, and the server ends in the same state. This holds for predefined operations, an app's
  tools with their prefetches, and the ad hoc operation in the arguments. The tree hides every
  field that the operation itself marks private; a field marked in a fragment it hides where the
  fragment is first spread only (\<open>second_spread_leaks\<close>).
\<close>

theorem call_hides_private_fields:
  assumes "\<And>d request. d \<in> callable_details D r arguments \<Longrightarrow> carries_operation (da_client_metadata D) d request \<Longrightarrow>
      same_view (det_private_fields d) (send1 request) (send2 request)"
    and "call_tool D send1 r n arguments parts v = (requests1, answer1, r1)"
    and "call_tool D send2 r n arguments parts v = (requests2, answer2, r2)"
  shows "requests1 = requests2 \<and> r1 = r2 \<and> rel_sum (=) (\<lambda>x y. shown x = shown y) answer1 answer2"
proof -
  have "same_answer (dispatch_tool D send1 r n arguments parts) (dispatch_tool D send2 r n arguments parts)"
    by (rule dispatch_same) (rule assms(1))
  with assms(2,3) show ?thesis
    by (auto simp: call_tool_def same_answer_def shown_def split: sum.splits if_splits)
qed

section \<open>The headers of the requests a call sends\<close>













section \<open>Examples\<close>

definition example_dispatch :: "unit dispatch_api" where
  "example_dispatch =
     \<lparr>da_peek = example_peek_api\<lparr>form_urlencoded_parse := (\<lambda>q. [(''app'', q)])\<rparr>, da_header_name = Some,
      da_graphql = example_graphql, da_logs = \<lparr>debug_enabled = False, warn_enabled = True\<rparr>,
      da_text = \<lparr>show_operation_error = (\<lambda>_. []), invalid_input = (\<lambda>_. []), parse_json = (\<lambda>_. Inr JNull)\<rparr>,
      da_client_metadata = JNull, da_rhai_hook = (\<lambda>_ _ e h _. Inr (e, h)), da_decode = (\<lambda>_. Inr),
      da_run = (\<lambda>_ _. Inr (error_result []))\<rparr>"

definition example_app :: App where
  "example_app =
     \<lparr>app_name = ''a'', app_description = None, app_resource = Single (LocalSource ''page''), app_csp_settings = None,
      app_widget_settings = None, app_uri = \<lparr>app_url_text = ''ui://a'', app_url_path = ''/''\<rparr>, app_tools = [],
      app_prefetch_operations = []\<rparr>"

definition example_parts :: request_parts where
  "example_parts = \<lparr>rp_query = Some ''a'', rp_headers = hm_empty, rp_token = None\<rparr>"

definition no_peer :: PeerContext where
  "no_peer = \<lparr>client_capabilities = None, protocol_version = None\<rparr>"

lemma example_no_failure: "\<not> tool_failure example_dispatch r parts args n e"
  by (simp add: tool_failure_def example_dispatch_def)

lemma example_server_start:
  "\<exists>r op. start (from_raw example_graphql \<lparr>debug_enabled = False, warn_enabled = True\<rparr> example_texts)
      (example_startup\<lparr>load_apps := (\<lambda>_. Inr [example_app])\<rparr>) example_server_config () [example_raw ''q''] = Inr r \<and>
    run_operations r = [op] \<and> tool_name (op_tool op) = ''Q'' \<and> run_apps r = [example_app] \<and> \<not> enabled_builtin r ''Q''"
proof -
  let ?c = "from_raw example_graphql \<lparr>debug_enabled = False, warn_enabled = True\<rparr> example_texts"
  obtain op where "?c () (example_options Explicit) (example_raw ''q'') = Inr (Some op)" "tool_name (op_tool op) = ''Q''"
    by (simp add: example_execution_simps)
  then show ?thesis
    by (auto simp: start_def example_startup_def example_server_config_def map_error_def load_operations_def Let_def
        enabled_builtin_def builtin_tools_def)
qed

lemmas example_listing_simps = list_tools_def listed_tools_def request_app_target_def app_target_def no_peer_def
  extract_app_param_def app_param_from_query_def example_dispatch_def example_peek_api_def example_parts_def
  sort_tools_def builtin_tools_def with_all_items_def example_app_def

theorem listed_tools_answer_witness:
  "\<exists>r requests result. tool_name (op_tool (hd (run_operations r))) = ''Q'' \<and>
    call_tool example_dispatch (\<lambda>_. SendError []) (r :: (unit, unit) Running) ''Q'' None None None = (requests, Inr result, r)"
proof -
  obtain r op where r: "start (from_raw example_graphql \<lparr>debug_enabled = False, warn_enabled = True\<rparr> example_texts)
      (example_startup\<lparr>load_apps := (\<lambda>_. Inr [example_app])\<rparr>) example_server_config () [example_raw ''q''] = Inr r"
    "run_operations r = [op]" "tool_name (op_tool op) = ''Q''"
    using example_server_start by blast
  have no_app: "extract_app_param (da_peek example_dispatch) None = None"
    by (simp add: extract_app_param_def app_param_from_query_def)
  obtain l where l: "list_tools (da_peek example_dispatch) r None no_peer V_2026_07_28 = Inr l"
    by (simp add: example_listing_simps)
  then have "''Q'' \<in> tool_name ` set (items l)"
    using names_of_listing [OF l no_app] r(2,3) by simp
  with listed_tools_answer [OF example_running [OF r(1)] no_app l, of "''Q''" "\<lambda>_. SendError []" None None]
  have "\<exists>requests result. call_tool example_dispatch (\<lambda>_. SendError []) r ''Q'' None None None = (requests, Inr result, r)"
    using example_no_failure unfolding tool_failure_def by metis
  with r(2,3) show ?thesis by (metis list.sel(1))
qed

theorem app_listing_gap_witness:
  "\<exists>r l. list_tools (da_peek example_dispatch) (r :: (unit, unit) Running) (Some example_parts) no_peer V_2026_07_28 = Inr l \<and>
    ''Q'' \<in> tool_name ` set (items l) \<and>
    fst (snd (call_tool example_dispatch (\<lambda>_. SendError []) r ''Q'' None (Some example_parts) None)) =
      Inl (tool_not_found ''Q'')"
proof -
  obtain r op where r: "start (from_raw example_graphql \<lparr>debug_enabled = False, warn_enabled = True\<rparr> example_texts)
      (example_startup\<lparr>load_apps := (\<lambda>_. Inr [example_app])\<rparr>) example_server_config () [example_raw ''q''] = Inr r"
    "run_operations r = [op]" "tool_name (op_tool op) = ''Q''" "run_apps r = [example_app]" "\<not> enabled_builtin r ''Q''"
    using example_server_start by blast
  have a: "extract_app_param (da_peek example_dispatch) (Some example_parts) = Some ''a''"
    by (simp add: example_listing_simps)
  obtain l where l: "list_tools (da_peek example_dispatch) r (Some example_parts) no_peer V_2026_07_28 = Inr l"
    using r(4) by (simp add: example_listing_simps)
  show ?thesis
    using app_listing_gap [OF example_running [OF r(1)] a l, of "''Q''" None "\<lambda>_. SendError []" None] l r(2-5)
    by (intro exI [of _ r] exI [of _ l]) (auto simp: example_app_def)
qed

definition example_operation :: "string \<Rightarrow> PrivateFieldTree option \<Rightarrow> Operation" where
  "example_operation n tree =
     \<lparr>op_tool = \<lparr>tool_name = n, tool_description = [], tool_input_schema = JObject [], tool_output_schema = None,
        tool_annotations = \<lparr>ann_title = None, ann_read_only = None, ann_destructive = None, ann_idempotent = None,
          ann_open_world = None\<rparr>, tool_meta = None\<rparr>,
      op_inner = example_raw ''q'', op_operation_name = n, op_stripped_source_text = None, op_private_fields = tree\<rparr>"

definition example_server :: "Operation list \<Rightarrow> (unit, unit) Running" where
  "example_server ops =
     \<lparr>run_schema = (), run_operations = ops, run_options = (example_options Explicit)\<lparr>enable_output_schema := True\<rparr>,
      run_apps = [], run_prompts = [], run_execute_tool = None, run_introspect_tool = None, run_search_tool = None,
      run_explorer_tool = None, run_validate_tool = None, run_config = example_server_config, run_scripts = (),
      run_health_check = None, run_published = 0\<rparr>"

theorem listing_order_witness:
  "list_tools example_peek_api (example_server [example_operation ''b'' None, example_operation ''a'' None]) None no_peer V_2026_07_28 =
   list_tools example_peek_api (example_server [example_operation ''a'' None, example_operation ''b'' None]) None no_peer V_2026_07_28"
proof -
  let ?ops = "[example_operation ''b'' None, example_operation ''a'' None]"
  have "example_server ?ops = (example_server [example_operation ''a'' None, example_operation ''b'' None])\<lparr>run_operations := ?ops\<rparr>"
    by (simp add: example_server_def)
  then show ?thesis
    using listing_order [of ?ops "example_server [example_operation ''a'' None, example_operation ''b'' None]"
        example_peek_api None no_peer V_2026_07_28]
    by (simp add: example_server_def example_operation_def)
qed






text \<open>
  An upstream for a server with two operations: \<open>Q\<close> has a private field, which alone the argument
  \<open>ssn\<close> changes; \<open>P\<close> has none, and its answers are always the same.
\<close>

definition example_reply :: "string \<Rightarrow> outgoing_request \<Rightarrow> upstream_response" where
  "example_reply ssn request =
     (if out_body request = request_body JNull JNull
           \<lparr>det_query = ''q'', det_operation_name = Some ''Q'',
            det_private_fields = Some (PrivateFieldTree False [(''ssn'', PrivateFieldTree True [])])\<rparr>
      then JsonResponse (JObject [(''data'', JObject [(''ssn'', JString ssn), (''id'', JString ''7'')])])
      else JsonResponse JNull)"

definition example_private_server :: "(unit, unit) Running" where
  "example_private_server = example_server
     [example_operation ''Q'' (Some (PrivateFieldTree False [(''ssn'', PrivateFieldTree True [])])),
      example_operation ''P'' None]"

definition example_private_call ::
    "string \<Rightarrow> outgoing_request option list \<times> (McpError, CallToolResult) result \<times> (unit, unit) Running" where
  "example_private_call ssn =
     call_tool example_dispatch (example_reply ssn) example_private_server ''Q'' None None (Some V_2025_06_18)"

theorem call_hides_private_fields_witness:
  "example_private_call ''1'' \<noteq> example_private_call ''2'' \<and>
   rel_sum (=) (\<lambda>x y. shown x = shown y) (fst (snd (example_private_call ''1''))) (fst (snd (example_private_call ''2'')))"
proof -
  have adhoc: "adhoc_details example_dispatch r (arguments_json None) \<noteq> Inr d" for r :: "(unit, unit) Running" and d
    by (simp add: adhoc_details_def execute_operation_details_def arguments_json_def)
  have details: "operation_details (example_operation n tree) input =
      Inr \<lparr>det_query = ''q'', det_operation_name = Some n, det_private_fields = tree\<rparr>" for n tree input
    by (simp add: operation_details_def example_operation_def example_raw_def)
  let ?tree = "Some (PrivateFieldTree False [(''ssn'', PrivateFieldTree True [])])"
  have view: "same_view (det_private_fields d) (example_reply ''1'' request) (example_reply ''2'' request)"
    if "d \<in> callable_details example_dispatch example_private_server None"
      and "carries_operation (da_client_metadata example_dispatch) d request" for d request
  proof -
    have "d = \<lparr>det_query = ''q'', det_operation_name = Some ''Q'', det_private_fields = ?tree\<rparr> \<or>
        d = \<lparr>det_query = ''q'', det_operation_name = Some ''P'', det_private_fields = None\<rparr>"
      using that(1) by (auto simp: callable_details_def adhoc details example_private_server_def example_server_def)
    then show ?thesis
    proof
      assume "d = \<lparr>det_query = ''q'', det_operation_name = Some ''Q'', det_private_fields = ?tree\<rparr>"
      then show ?thesis by (simp add: same_view_def split_response_def example_reply_def)
    next
      assume "d = \<lparr>det_query = ''q'', det_operation_name = Some ''P'', det_private_fields = None\<rparr>"
      then show ?thesis
        using that(2) by (auto simp: same_view_def example_reply_def carries_operation_def request_body_def)
    qed
  qed
  obtain q1 a1 r1 q2 a2 r2 where
    runs: "example_private_call ''1'' = (q1, a1, r1)" "example_private_call ''2'' = (q2, a2, r2)"
    by (metis prod_cases3)
  from call_hides_private_fields [OF view runs [unfolded example_private_call_def]]
  have "rel_sum (=) (\<lambda>x y. shown x = shown y) (fst (snd (example_private_call ''1''))) (fst (snd (example_private_call ''2'')))"
    by (simp add: runs)
  moreover have "example_private_call ''1'' \<noteq> example_private_call ''2''"
    by (simp add: example_private_call_def call_tool_def dispatch_tool_def Let_def example_private_server_def example_server_def
        example_operation_def builtin_names find_and_execute_operation_def one_request_def execute_operation_def
        example_dispatch_def execute_predefined_def execute_request_def operation_details_def operation_variables_def
        example_raw_def extract_app_param_def app_param_from_query_def response_result_def split_response_def
        structured_result_def example_reply_def arguments_json_def request_body_def)
  ultimately show ?thesis by simp
qed

end
