(* ===== verification/Tool_List_Changes.thy ===== *)
theory Tool_List_Changes
  imports Tool_Dispatch
begin

text \<open>
  Telling clients that the catalog of tools changed (\<open>server/states/tool_list_changes.rs\<close> and
  \<open>listen\<close> of \<open>server/states/running.rs\<close>): the coalescing signal, the delivery loops of legacy and
  of subscribing clients, and the handshake after which a legacy delivery starts.

  \<open>tokio\<close>'s watch channel is a version, which every publication raises, and a receiver is the
  version it has seen. Its documented behaviour is used: \<open>changed\<close> is ready when the versions
  differ, and otherwise fails when all senders are gone.
\<close>

section \<open>The signal\<close>

record signals =
  sg_version :: nat
  sg_closed :: bool
  sg_cancelled :: bool

definition publish :: "signals \<Rightarrow> signals" where
  "publish g = (if sg_closed g then g else g\<lparr>sg_version := Suc (sg_version g)\<rparr>)"

text \<open>A receiver: the version it has seen, none if it was marked as changed.\<close>

type_synonym receiver = "nat option"

definition subscribe :: "signals \<Rightarrow> receiver" where
  "subscribe g = Some (sg_version g)"

text \<open>\<open>changed\<close>: pending, a change that is seen now, or the end of the channel.\<close>

datatype change = Pending | Changed receiver | Closed

definition changed :: "signals \<Rightarrow> receiver \<Rightarrow> change" where
  "changed g seen =
     (if seen \<noteq> Some (sg_version g) then Changed (Some (sg_version g))
      else if sg_closed g then Closed else Pending)"

section \<open>The delivery loops\<close>

text \<open>
  A loop waits for a change or for the answer of a send under way, which may have come in; or it
  has returned.
\<close>

datatype ('r, 'x) phase = Waiting | Sending "'r option" | Returned 'x

record ('r, 'x) delivery =
  dl_seen :: receiver
  dl_phase :: "('r, 'x) phase"
  dl_attempts :: nat

text \<open>
  One round of the loop up to the next await. \<open>verdict\<close> is the \<open>match\<close> on the result of a send:
  whether the loop goes on or returns; \<open>quiet\<close> is what it returns when it is cancelled or the
  source is gone. Both selections are biased towards the cancellation.
\<close>

definition delivery_step :: "('r \<Rightarrow> 'x option) \<Rightarrow> 'x \<Rightarrow> signals \<Rightarrow> ('r, 'x) delivery \<Rightarrow> ('r, 'x) delivery" where
  "delivery_step verdict quiet g d =
     (case dl_phase d of
        Waiting \<Rightarrow>
          if sg_cancelled g then d\<lparr>dl_phase := Returned quiet\<rparr>
          else (case changed g (dl_seen d) of
                  Pending \<Rightarrow> d
                | Closed \<Rightarrow> d\<lparr>dl_phase := Returned quiet\<rparr>
                | Changed seen \<Rightarrow> d\<lparr>dl_seen := seen, dl_phase := Sending None, dl_attempts := Suc (dl_attempts d)\<rparr>)
      | Sending answer \<Rightarrow>
          if sg_cancelled g then d\<lparr>dl_phase := Returned quiet\<rparr>
          else (case answer of
                  None \<Rightarrow> d
                | Some result \<Rightarrow>
                    (case verdict result of
                       None \<Rightarrow> d\<lparr>dl_phase := Waiting\<rparr>
                     | Some exit \<Rightarrow> d\<lparr>dl_phase := Returned exit\<rparr>))
      | Returned exit \<Rightarrow> d)"

text \<open>\<open>rmcp\<close>'s errors of a notification.\<close>

datatype ServiceError = TransportSend | TransportClosed | OtherServiceError

datatype SubscriptionSendError =
  SubscriptionClosed | Service ServiceError | NotificationNotAccepted | UnsupportedNotification | OtherSendError

fun forward_verdict :: "(ServiceError, unit) result \<Rightarrow> unit option" where
  "forward_verdict (Inr ok) = None"
| "forward_verdict (Inl TransportSend) = Some ()"
| "forward_verdict (Inl TransportClosed) = Some ()"
| "forward_verdict (Inl OtherServiceError) = None"

definition delivery_failed :: string where
  "delivery_failed = ''Failed to deliver tool list change notification''"

fun listen_verdict :: "(SubscriptionSendError, unit) result \<Rightarrow> (string, unit) result option" where
  "listen_verdict (Inr ok) = None"
| "listen_verdict (Inl SubscriptionClosed) = Some (Inr ())"
| "listen_verdict (Inl (Service TransportClosed)) = Some (Inr ())"
| "listen_verdict (Inl (Service TransportSend)) = Some (Inr ())"
| "listen_verdict (Inl NotificationNotAccepted) = Some (Inl delivery_failed)"
| "listen_verdict (Inl UnsupportedNotification) = Some (Inl delivery_failed)"
| "listen_verdict (Inl other) = None"

text \<open>\<open>forward_changes\<close> with the receiver of the handshake.\<close>

definition forward_changes :: "receiver \<Rightarrow> ((ServiceError, unit) result, unit) delivery" where
  "forward_changes seen = \<lparr>dl_seen = seen, dl_phase = Waiting, dl_attempts = 0\<rparr>"

text \<open>
  \<open>listen\<close>: clients that did not ask for changes of the tools are left at once; the others get a
  receiver that is marked as changed. A request may be cancelled like the whole server.
\<close>

definition listen :: "bool option \<Rightarrow> ((SubscriptionSendError, unit) result, (string, unit) result) delivery" where
  "listen tools_list_changed =
     \<lparr>dl_seen = None,
      dl_phase = (if tools_list_changed \<noteq> Some True then Returned (Inr ()) else Waiting),
      dl_attempts = 0\<rparr>"

section \<open>The handshake of legacy clients\<close>

datatype Lifecycle =
    AwaitingInitialize
  | AwaitingInitialized receiver
  | Started "((ServiceError, unit) result, unit) delivery"

fun initialize :: "signals \<Rightarrow> Lifecycle \<Rightarrow> Lifecycle" where
  "initialize g AwaitingInitialize = AwaitingInitialized (subscribe g)"
| "initialize g state = state"

fun on_initialized :: "Lifecycle \<Rightarrow> Lifecycle" where
  "on_initialized (AwaitingInitialized receiver) = Started (forward_changes receiver)"
| "on_initialized unchanged = unchanged"

section \<open>Runs\<close>

text \<open>What happens around a delivery, and the polling of its task.\<close>

datatype 'r action = Publish | Close | Cancel | Complete 'r | Poll

definition complete :: "'r \<Rightarrow> ('r, 'x) delivery \<Rightarrow> ('r, 'x) delivery" where
  "complete result d = (if dl_phase d = Sending None then d\<lparr>dl_phase := Sending (Some result)\<rparr> else d)"

fun act :: "('r \<Rightarrow> 'x option) \<Rightarrow> 'x \<Rightarrow> 'r action \<Rightarrow> signals \<times> ('r, 'x) delivery \<Rightarrow> signals \<times> ('r, 'x) delivery" where
  "act verdict quiet Publish (g, d) = (publish g, d)"
| "act verdict quiet Close (g, d) = (g\<lparr>sg_closed := True\<rparr>, d)"
| "act verdict quiet Cancel (g, d) = (g\<lparr>sg_cancelled := True\<rparr>, d)"
| "act verdict quiet (Complete result) (g, d) = (g, complete result d)"
| "act verdict quiet Poll (g, d) = (g, delivery_step verdict quiet g d)"

text \<open>
  The property test of the module drives a delivery action by action, polling it until it is
  suspended, and compares it with a model of one pending flag.
\<close>

definition suspended :: "('r \<Rightarrow> 'x option) \<Rightarrow> 'x \<Rightarrow> signals \<times> ('r, 'x) delivery \<Rightarrow> signals \<times> ('r, 'x) delivery" where
  "suspended verdict quiet s =
     act verdict quiet Poll (act verdict quiet Poll (act verdict quiet Poll s))"

definition drive ::
    "('r \<Rightarrow> 'x option) \<Rightarrow> 'x \<Rightarrow> 'r action list \<Rightarrow> signals \<times> ('r, 'x) delivery \<Rightarrow> signals \<times> ('r, 'x) delivery" where
  "drive verdict quiet = fold (\<lambda>a s. suspended verdict quiet (act verdict quiet a s))"

datatype Model = IdleModel | SendingModel bool | StoppedModel

fun model_step :: "('r \<Rightarrow> 'x option) \<Rightarrow> 'r action \<Rightarrow> Model \<times> nat \<Rightarrow> Model \<times> nat" where
  "model_step verdict a (StoppedModel, expected) = (StoppedModel, expected)"
| "model_step verdict Publish (IdleModel, expected) = (SendingModel False, Suc expected)"
| "model_step verdict Publish (SendingModel pending, expected) = (SendingModel True, expected)"
| "model_step verdict Cancel (m, expected) = (StoppedModel, expected)"
| "model_step verdict (Complete result) (SendingModel pending, expected) =
     (if verdict result \<noteq> None then (StoppedModel, expected)
      else if pending then (SendingModel False, Suc expected) else (IdleModel, expected))"
| "model_step verdict a m = m"

definition model_of :: "signals \<times> ('r, 'x) delivery \<Rightarrow> Model \<times> nat" where
  "model_of s =
     (case s of (g, d) \<Rightarrow>
        ((case dl_phase d of
            Waiting \<Rightarrow> IdleModel
          | Sending answer \<Rightarrow> SendingModel (dl_seen d \<noteq> Some (sg_version g))
          | Returned exit \<Rightarrow> StoppedModel), dl_attempts d))"

text \<open>Suspended: nothing is left to do without another action.\<close>

definition at_rest :: "signals \<times> ('r, 'x) delivery \<Rightarrow> bool" where
  "at_rest s \<longleftrightarrow>
     (case s of (g, d) \<Rightarrow> \<not> sg_closed g \<and> (\<forall>v. dl_seen d = Some v \<longrightarrow> v \<le> sg_version g) \<and>
        (case dl_phase d of
           Waiting \<Rightarrow> \<not> sg_cancelled g \<and> dl_seen d = Some (sg_version g)
         | Sending answer \<Rightarrow> \<not> sg_cancelled g \<and> answer = None
         | Returned exit \<Rightarrow> True))"

text \<open>
  A run: states and what happens between them, forever. The task is polled again and again, every
  send is answered at some time, and by a delivery; the server is not shut down.
\<close>

definition live_run ::
    "(('e, unit) result \<Rightarrow> 'x option) \<Rightarrow> 'x \<Rightarrow> (nat \<Rightarrow> signals \<times> (('e, unit) result, 'x) delivery) \<Rightarrow>
     (nat \<Rightarrow> ('e, unit) result action) \<Rightarrow> bool" where
  "live_run verdict quiet \<sigma> \<alpha> \<longleftrightarrow>
     (\<forall>i. \<sigma> (Suc i) = act verdict quiet (\<alpha> i) (\<sigma> i)) \<and>
     (\<forall>i. \<exists>j \<ge> i. \<alpha> j = Poll) \<and>
     (\<forall>i. dl_phase (snd (\<sigma> i)) = Sending None \<longrightarrow> (\<exists>j \<ge> i. \<exists>r. \<alpha> j = Complete r)) \<and>
     (\<forall>i r. \<alpha> i = Complete r \<longrightarrow> r = Inr ()) \<and>
     (\<forall>i. \<alpha> i \<noteq> Cancel \<and> \<alpha> i \<noteq> Close)"

text \<open>A send begins: the loop goes from waiting to sending, and has seen the latest change.\<close>

definition send_begins :: "(nat \<Rightarrow> signals \<times> ('r, 'x) delivery) \<Rightarrow> nat \<Rightarrow> bool" where
  "send_begins \<sigma> j \<longleftrightarrow>
     dl_phase (snd (\<sigma> j)) = Waiting \<and> dl_phase (snd (\<sigma> (Suc j))) = Sending None \<and>
     dl_seen (snd (\<sigma> (Suc j))) = Some (sg_version (fst (\<sigma> j)))"

definition undisturbed :: "signals \<times> (('e, unit) result, 'x) delivery \<Rightarrow> bool" where
  "undisturbed s \<longleftrightarrow>
     (case s of (g, d) \<Rightarrow> \<not> sg_closed g \<and> \<not> sg_cancelled g \<and> (\<forall>v. dl_seen d = Some v \<longrightarrow> v \<le> sg_version g) \<and>
        dl_phase d \<in> {Waiting, Sending None, Sending (Some (Inr ()))})"

definition unannounced :: "signals \<times> ('r, 'x) delivery \<Rightarrow> bool" where
  "unannounced s \<longleftrightarrow> dl_seen (snd s) \<noteq> Some (sg_version (fst s))"

lemma first_after:
  assumes "\<exists>j \<ge> i. P j"
  obtains j where "i \<le> j" "P j" "\<And>k. i \<le> k \<Longrightarrow> k < j \<Longrightarrow> \<not> P (k :: nat)"
proof -
  let ?j = "LEAST j. i \<le> j \<and> P j"
  have "i \<le> ?j \<and> P ?j" using assms by (rule exE) (rule LeastI, blast)
  moreover have "\<not> P k" if "i \<le> k" "k < ?j" for k using that not_less_Least by blast
  ultimately show thesis using that by blast
qed

section \<open>What every delivery guarantees\<close>

text \<open>The contract of a verdict: a notification that was delivered does not end the delivery.\<close>

locale delivery_loop =
  fixes verdict :: "('e, unit) result \<Rightarrow> 'x option" and quiet :: 'x
  assumes delivered_continues: "verdict (Inr ()) = None"

context delivery_loop
begin

lemma suspended_publish:
  "at_rest (g, d) \<Longrightarrow>
     at_rest (suspended verdict quiet (act verdict quiet Publish (g, d))) \<and>
     model_of (suspended verdict quiet (act verdict quiet Publish (g, d))) = model_step verdict Publish (model_of (g, d))"
  by (cases "dl_phase d")
     (auto simp: at_rest_def suspended_def model_of_def delivery_step_def publish_def changed_def)

lemma suspended_cancel:
  "at_rest (g, d) \<Longrightarrow>
     at_rest (suspended verdict quiet (act verdict quiet Cancel (g, d))) \<and>
     model_of (suspended verdict quiet (act verdict quiet Cancel (g, d))) = model_step verdict Cancel (model_of (g, d))"
  by (cases "dl_phase d")
     (auto simp: at_rest_def suspended_def model_of_def delivery_step_def)

lemma suspended_complete:
  "at_rest (g, d) \<Longrightarrow>
     at_rest (suspended verdict quiet (act verdict quiet (Complete r) (g, d))) \<and>
     model_of (suspended verdict quiet (act verdict quiet (Complete r) (g, d))) =
       model_step verdict (Complete r) (model_of (g, d))"
  by (cases "dl_phase d"; cases "verdict r")
     (auto simp: at_rest_def suspended_def model_of_def delivery_step_def complete_def changed_def)

lemma drive_refines:
  "at_rest s \<Longrightarrow> set acts \<subseteq> {Publish, Cancel} \<union> range Complete \<Longrightarrow>
     at_rest (drive verdict quiet acts s) \<and>
     model_of (drive verdict quiet acts s) = fold (model_step verdict) acts (model_of s)"
proof (induction acts arbitrary: s)
  case (Cons a acts)
  obtain g d where s: "s = (g, d)" by (cases s)
  have "at_rest (suspended verdict quiet (act verdict quiet a s)) \<and>
      model_of (suspended verdict quiet (act verdict quiet a s)) = model_step verdict a (model_of s)"
    using Cons.prems suspended_publish suspended_cancel suspended_complete unfolding s by auto
  with Cons show ?case by (simp add: drive_def)
qed (simp add: drive_def)

lemma undisturbed_act:
  "undisturbed s \<Longrightarrow> a \<noteq> Cancel \<Longrightarrow> a \<noteq> Close \<Longrightarrow> (\<And>r. a = Complete r \<Longrightarrow> r = Inr ()) \<Longrightarrow>
     undisturbed (act verdict quiet a s)"
  using delivered_continues
  by (cases s; cases a)
     (auto simp: undisturbed_def publish_def complete_def delivery_step_def changed_def le_SucI split: if_splits)

lemma live_undisturbed:
  assumes "live_run verdict quiet \<sigma> \<alpha>" "undisturbed (\<sigma> 0)"
  shows "undisturbed (\<sigma> i)"
proof (induction i)
  case (Suc i)
  then show ?case using undisturbed_act[OF Suc] assms(1) unfolding live_run_def by metis
qed (rule assms(2))

text \<open>What does not begin a send leaves a change unannounced.\<close>

lemma unannounced_act:
  assumes "undisturbed s" "unannounced s" "a \<noteq> Cancel" "a \<noteq> Close" "a = Poll \<Longrightarrow> dl_phase (snd s) \<noteq> Waiting"
  shows "unannounced (act verdict quiet a s)"
  using assms delivered_continues
  by (cases s; cases a)
     (auto simp: undisturbed_def unannounced_def publish_def complete_def delivery_step_def split: option.split)

lemma versions_grow:
  assumes "live_run verdict quiet \<sigma> \<alpha>" "i \<le> j"
  shows "sg_version (fst (\<sigma> i)) \<le> sg_version (fst (\<sigma> j))"
  using assms(2)
proof (induction j rule: dec_induct)
  case (step j)
  have "sg_version (fst s) \<le> sg_version (fst (act verdict quiet a s))" for a s
    by (cases s; cases a) (auto simp: publish_def)
  then show ?case using step assms(1) order_trans unfolding live_run_def by metis
qed simp

lemma waiting_sends:
  assumes run: "live_run verdict quiet \<sigma> \<alpha>" "undisturbed (\<sigma> 0)"
    and i: "unannounced (\<sigma> i)" "dl_phase (snd (\<sigma> i)) = Waiting"
  obtains j where "i \<le> j" "send_begins \<sigma> j"
proof -
  note ok = live_undisturbed[OF run]
  obtain j where j: "i \<le> j" "\<alpha> j = Poll" "\<And>k. i \<le> k \<Longrightarrow> k < j \<Longrightarrow> \<alpha> k \<noteq> Poll"
    by (rule first_after[of i "\<lambda>j. \<alpha> j = Poll"]) (use run(1) in \<open>auto simp: live_run_def\<close>)
  have "unannounced (\<sigma> k) \<and> dl_phase (snd (\<sigma> k)) = Waiting" if "i \<le> k" "k \<le> j" for k
    using that
  proof (induction k rule: dec_induct)
    case (step k)
    have a: "\<alpha> k \<noteq> Poll" "\<alpha> k \<noteq> Cancel" "\<alpha> k \<noteq> Close" "\<sigma> (Suc k) = act verdict quiet (\<alpha> k) (\<sigma> k)"
      using step j(3)[of k] run(1) by (auto simp: live_run_def)
    have "dl_phase (snd (act verdict quiet (\<alpha> k) (\<sigma> k))) = Waiting"
      using step a by (cases "\<sigma> k"; cases "\<alpha> k") (auto simp: complete_def)
    then show ?case using step a by (auto intro!: unannounced_act[OF ok])
  qed (use i in simp)
  from this[OF j(1)] have "unannounced (\<sigma> j)" "dl_phase (snd (\<sigma> j)) = Waiting" by auto
  moreover have "\<sigma> (Suc j) = act verdict quiet Poll (\<sigma> j)" using run(1) j(2) by (auto simp: live_run_def)
  ultimately have "send_begins \<sigma> j"
    using ok[of j] by (cases "\<sigma> j") (auto simp: send_begins_def unannounced_def undisturbed_def delivery_step_def changed_def)
  with j(1) show thesis by (rule that)
qed

lemma answered_sends:
  assumes run: "live_run verdict quiet \<sigma> \<alpha>" "undisturbed (\<sigma> 0)"
    and i: "unannounced (\<sigma> i)" "dl_phase (snd (\<sigma> i)) = Sending (Some (Inr ()))"
  obtains j where "i \<le> j" "send_begins \<sigma> j"
proof -
  note ok = live_undisturbed[OF run]
  obtain j where j: "i \<le> j" "\<alpha> j = Poll" "\<And>k. i \<le> k \<Longrightarrow> k < j \<Longrightarrow> \<alpha> k \<noteq> Poll"
    by (rule first_after[of i "\<lambda>j. \<alpha> j = Poll"]) (use run(1) in \<open>auto simp: live_run_def\<close>)
  have at: "unannounced (\<sigma> k) \<and> dl_phase (snd (\<sigma> k)) = Sending (Some (Inr ()))" if "i \<le> k" "k \<le> j" for k
    using that
  proof (induction k rule: dec_induct)
    case (step k)
    have a: "\<alpha> k \<noteq> Poll" "\<alpha> k \<noteq> Cancel" "\<alpha> k \<noteq> Close" "\<sigma> (Suc k) = act verdict quiet (\<alpha> k) (\<sigma> k)"
      using step j(3)[of k] run(1) by (auto simp: live_run_def)
    have "dl_phase (snd (act verdict quiet (\<alpha> k) (\<sigma> k))) = Sending (Some (Inr ()))"
      using step a by (cases "\<sigma> k"; cases "\<alpha> k") (auto simp: complete_def)
    then show ?case using step a by (auto intro!: unannounced_act[OF ok])
  qed (use i in simp)
  have next_state: "\<sigma> (Suc j) = act verdict quiet Poll (\<sigma> j)" using run(1) j(2) by (auto simp: live_run_def)
  have "unannounced (\<sigma> (Suc j))"
    using unannounced_act[OF ok[of j], of Poll] at[OF j(1)] next_state by simp
  moreover have "dl_phase (snd (\<sigma> (Suc j))) = Waiting"
    using at[OF j(1)] ok[of j] next_state delivered_continues
    by (cases "\<sigma> j") (auto simp: delivery_step_def undisturbed_def)
  ultimately obtain k where "Suc j \<le> k" "send_begins \<sigma> k" by (rule waiting_sends[OF run])
  with j(1) that show thesis by (meson Suc_leD order_trans)
qed

lemma unanswered_sends:
  assumes run: "live_run verdict quiet \<sigma> \<alpha>" "undisturbed (\<sigma> 0)"
    and i: "unannounced (\<sigma> i)" "dl_phase (snd (\<sigma> i)) = Sending None"
  obtains j where "i \<le> j" "send_begins \<sigma> j"
proof -
  note ok = live_undisturbed[OF run]
  obtain j where j: "i \<le> j" "\<exists>r. \<alpha> j = Complete r" "\<And>k. i \<le> k \<Longrightarrow> k < j \<Longrightarrow> \<not> (\<exists>r. \<alpha> k = Complete r)"
    by (rule first_after[of i "\<lambda>j. \<exists>r. \<alpha> j = Complete r"]) (use run(1) i(2) in \<open>auto simp: live_run_def\<close>)
  have at: "unannounced (\<sigma> k) \<and> dl_phase (snd (\<sigma> k)) = Sending None" if "i \<le> k" "k \<le> j" for k
    using that
  proof (induction k rule: dec_induct)
    case (step k)
    have a: "\<alpha> k \<noteq> Cancel" "\<alpha> k \<noteq> Close" "\<sigma> (Suc k) = act verdict quiet (\<alpha> k) (\<sigma> k)"
      "\<not> (\<exists>r. \<alpha> k = Complete r)"
      using step j(3)[of k] run(1) by (auto simp: live_run_def)
    have "dl_phase (snd (act verdict quiet (\<alpha> k) (\<sigma> k))) = Sending None"
      using step a ok[of k] by (cases "\<sigma> k"; cases "\<alpha> k") (auto simp: delivery_step_def undisturbed_def)
    then show ?case using step a by (auto intro!: unannounced_act[OF ok])
  qed (use i in simp)
  have a: "\<alpha> j = Complete (Inr ())" "\<sigma> (Suc j) = act verdict quiet (\<alpha> j) (\<sigma> j)"
    using run(1) j(2) by (auto simp: live_run_def)
  have "unannounced (\<sigma> (Suc j))" using unannounced_act[OF ok[of j], of "\<alpha> j"] at[OF j(1)] a by simp
  moreover have "dl_phase (snd (\<sigma> (Suc j))) = Sending (Some (Inr ()))"
    using at[OF j(1)] a by (cases "\<sigma> j") (simp add: complete_def)
  ultimately obtain k where "Suc j \<le> k" "send_begins \<sigma> k" by (rule answered_sends[OF run])
  with j(1) that show thesis by (meson Suc_leD order_trans)
qed

lemma publication_announced:
  assumes run: "live_run verdict quiet \<sigma> \<alpha>" "undisturbed (\<sigma> 0)" and "\<alpha> i = Publish"
  shows "\<exists>j > i. send_begins \<sigma> j \<and> sg_version (fst (\<sigma> i)) < sg_version (fst (\<sigma> j))"
proof -
  note ok = live_undisturbed[OF run]
  have s: "\<sigma> (Suc i) = act verdict quiet Publish (\<sigma> i)" using run(1) assms(3) by (auto simp: live_run_def)
  then have grown: "sg_version (fst (\<sigma> (Suc i))) = Suc (sg_version (fst (\<sigma> i)))" and "unannounced (\<sigma> (Suc i))"
    using ok[of i] by (cases "\<sigma> i"; auto simp: publish_def undisturbed_def unannounced_def)+
  moreover have "dl_phase (snd (\<sigma> (Suc i))) \<in> {Waiting, Sending None, Sending (Some (Inr ()))}"
    using ok[of "Suc i"] by (auto simp: undisturbed_def)
  ultimately obtain j where j: "Suc i \<le> j" "send_begins \<sigma> j"
    using waiting_sends[OF run] answered_sends[OF run] unanswered_sends[OF run] by blast
  have "sg_version (fst (\<sigma> (Suc i))) \<le> sg_version (fst (\<sigma> j))" by (rule versions_grow[OF run(1) j(1)])
  then show ?thesis using j grown by (intro exI[of _ j]) auto
qed

end

interpretation forwarding: delivery_loop forward_verdict "()"
  by unfold_locales simp

interpretation listening: delivery_loop listen_verdict "Inr ()"
  by unfold_locales simp

section \<open>The deliveries of the server\<close>

text \<open>
  C7: The delivery loops are what the property test of the module states: a flag that is pending
  while a send is under way. Whatever is published, answered and cancelled, in any order, the loop
  of a legacy client is idle, sending with or without a pending change, or stopped exactly when the
  model is, and has begun as many sends; changes during a send become one send after it. The loop
  of a subscribing client does the same, from a first send on.
\<close>

theorem delivery_refines_model:
  assumes "\<not> sg_closed g" "\<not> sg_cancelled g"
    and "set acts \<subseteq> {Publish, Cancel} \<union> range Complete" "set acts' \<subseteq> {Publish, Cancel} \<union> range Complete"
  shows "model_of (drive forward_verdict () acts (g, forward_changes (subscribe g))) =
      fold (model_step forward_verdict) acts (IdleModel, 0) \<and>
    model_of (drive listen_verdict (Inr ()) acts' (suspended listen_verdict (Inr ()) (g, listen (Some True)))) =
      fold (model_step listen_verdict) acts' (SendingModel False, 1)"
proof
  have "at_rest (g, forward_changes (subscribe g))"
    using assms(1,2) by (simp add: at_rest_def forward_changes_def subscribe_def)
  from forwarding.drive_refines[OF this assms(3)]
  show "model_of (drive forward_verdict () acts (g, forward_changes (subscribe g))) =
      fold (model_step forward_verdict) acts (IdleModel, 0)"
    by (simp add: model_of_def forward_changes_def)
  let ?s = "suspended listen_verdict (Inr ()) (g, listen (Some True))"
  have s: "at_rest ?s" "model_of ?s = (SendingModel False, 1)"
    using assms(1,2) by (auto simp: suspended_def listen_def delivery_step_def changed_def at_rest_def model_of_def)
  from listening.drive_refines[OF s(1) assms(4)] s(2)
  show "model_of (drive listen_verdict (Inr ()) acts' ?s) = fold (model_step listen_verdict) acts' (SendingModel False, 1)"
    by simp
qed

definition open_signals :: signals where
  "open_signals = \<lparr>sg_version = 0, sg_closed = False, sg_cancelled = False\<rparr>"

theorem delivery_refines_model_witness:
  "model_of (drive forward_verdict ()
      [Publish, Publish, Publish, Complete (Inr ()), Complete (Inl TransportClosed), Publish]
      (open_signals, forward_changes (subscribe open_signals))) = (StoppedModel, 2) \<and>
   model_of (drive listen_verdict (Inr ()) [Publish, Complete (Inl OtherSendError)]
      (suspended listen_verdict (Inr ()) (open_signals, listen (Some True)))) = (SendingModel False, 2)"
  using delivery_refines_model[of open_signals
      "[Publish, Publish, Publish, Complete (Inr ()), Complete (Inl TransportClosed), Publish]"
      "[Publish, Complete (Inl OtherSendError)]"]
  by (simp add: open_signals_def)

text \<open>
  C8: No change of the catalog stays unannounced: on every infinite run in which the task of a
  legacy client is polled again and again and every send is at some time answered by a delivery, a
  publication is followed by a send that begins after it, whatever else is published meanwhile.
\<close>

theorem catalog_change_announced:
  assumes "live_run forward_verdict () \<sigma> \<alpha>"
    and "\<sigma> 0 = (g, forward_changes (subscribe g))" "\<not> sg_closed g" "\<not> sg_cancelled g"
    and "\<alpha> i = Publish"
  shows "\<exists>j > i. send_begins \<sigma> j \<and> sg_version (fst (\<sigma> i)) < sg_version (fst (\<sigma> j))"
  by (rule forwarding.publication_announced[OF assms(1) _ assms(5)])
     (simp add: assms undisturbed_def forward_changes_def subscribe_def)

definition round_robin :: "nat \<Rightarrow> (ServiceError, unit) result action" where
  "round_robin i = [Publish, Poll, Complete (Inr ()), Poll] ! (i mod 4)"

primrec round_states :: "nat \<Rightarrow> signals \<times> ((ServiceError, unit) result, unit) delivery" where
  "round_states 0 = (open_signals, forward_changes (subscribe open_signals))"
| "round_states (Suc i) = act forward_verdict () (round_robin i) (round_states i)"

lemma round_robin_cases: "round_robin i \<in> {Publish, Poll, Complete (Inr ())}"
proof -
  have "i mod 4 < 4" by simp
  then have "i mod 4 \<in> {0, 1, 2, 3}" by auto
  then show ?thesis by (auto simp: round_robin_def)
qed

lemma round_robin_live: "live_run forward_verdict () round_states round_robin"
  unfolding live_run_def
proof (intro conjI allI impI)
  show "\<exists>j \<ge> i. round_robin j = Poll" for i
    by (rule exI[of _ "4 * i + 1"]) (simp add: round_robin_def)
  show "\<exists>j \<ge> i. \<exists>r. round_robin j = Complete r" for i
  proof (intro exI conjI)
    have "(4 * i + 2) mod 4 = 2" by presburger
    then show "round_robin (4 * i + 2) = Complete (Inr ())" by (simp add: round_robin_def del: add_2_eq_Suc')
  qed simp
  show "round_robin i = Complete r \<Longrightarrow> r = Inr ()" for i r using round_robin_cases[of i] by auto
  show "round_robin i \<noteq> Cancel" "round_robin i \<noteq> Close" for i using round_robin_cases[of i] by auto
qed simp

theorem catalog_change_announced_witness:
  "\<exists>j > 40. send_begins round_states j \<and> sg_version (fst (round_states 40)) < sg_version (fst (round_states j))"
  by (rule catalog_change_announced[OF round_robin_live, of open_signals])
     (simp_all add: open_signals_def round_robin_def)

section \<open>Before a delivery starts\<close>

datatype handshake = Initialize | Initialized | Published

fun shake_hands :: "handshake \<Rightarrow> signals \<times> Lifecycle \<Rightarrow> signals \<times> Lifecycle" where
  "shake_hands Initialize (g, state) = (g, initialize g state)"
| "shake_hands Initialized (g, state) = (g, on_initialized state)"
| "shake_hands Published (g, state) = (publish g, state)"

lemma awaiting_kept:
  "Initialized \<notin> set evs \<Longrightarrow> \<not> sg_closed g \<Longrightarrow>
     fold shake_hands evs (g, AwaitingInitialized seen) =
       (g\<lparr>sg_version := sg_version g + length (filter ((=) Published) evs)\<rparr>, AwaitingInitialized seen)"
proof (induction evs arbitrary: g)
  case (Cons e evs)
  then show ?case by (cases e) (auto simp: publish_def)
qed simp

lemma started_kept: "\<exists>g'. fold shake_hands evs (g, Started d) = (g', Started d)"
proof (induction evs arbitrary: g)
  case (Cons e evs)
  then show ?case by (cases e) simp_all
qed simp

text \<open>
  C35: The handshake of a legacy client loses no change: it starts one delivery, which later
  handshakes leave alone, and a change published between the initialization and its confirmation,
  initializations repeated or not, is unannounced when the delivery starts.
\<close>

theorem handshake_keeps_changes:
  assumes "Initialized \<notin> set evs" "\<not> sg_closed g"
  shows "\<exists>g' g'' d. fold shake_hands (Initialize # evs @ [Initialized]) (g, AwaitingInitialize) = (g', Started d) \<and>
    fold shake_hands later (g', Started d) = (g'', Started d) \<and>
    dl_phase d = Waiting \<and> (unannounced (g', d) \<longleftrightarrow> Published \<in> set evs)"
proof -
  let ?g = "g\<lparr>sg_version := sg_version g + length (filter ((=) Published) evs)\<rparr>"
  let ?d = "forward_changes (subscribe g)"
  have "fold shake_hands (Initialize # evs @ [Initialized]) (g, AwaitingInitialize) = (?g, Started ?d)"
    by (simp add: awaiting_kept[OF assms])
  moreover obtain g'' where "fold shake_hands later (?g, Started ?d) = (g'', Started ?d)"
    using started_kept by blast
  moreover have "unannounced (?g, ?d) \<longleftrightarrow> Published \<in> set evs"
    by (auto simp: unannounced_def forward_changes_def subscribe_def filter_empty_conv)
  ultimately show ?thesis by (intro exI conjI) (auto simp: forward_changes_def)
qed

theorem handshake_keeps_changes_witness:
  "\<exists>g' g'' d. fold shake_hands [Initialize, Published, Initialize, Initialized] (open_signals, AwaitingInitialize) = (g', Started d) \<and>
    fold shake_hands [Initialized, Published] (g', Started d) = (g'', Started d) \<and>
    dl_phase d = Waiting \<and> unannounced (g', d)"
  using handshake_keeps_changes[of "[Published, Initialize]" open_signals "[Initialized, Published]"]
  by (auto simp: open_signals_def)

end
