(* ===== verification/Schema_Paths.thy ===== *)
theory Schema_Paths
  imports Graphql_Types "HOL-Library.Sublist"
begin

text \<open>
  Paths through a schema (crate \<open>apollo-schema-index\<close>, \<open>path.rs\<close> and \<open>traverse.rs\<close>): the linked
  list of types and fields, and the depth-first traversal from the root types, which visits every
  type by every path that is not below a type visited before.
\<close>

section \<open>Paths\<close>

datatype PathNode =
  PathNode (node_type: string) (field_name: "string option") (field_args: "string list") (child: "PathNode option")

definition path_new :: "string \<Rightarrow> PathNode" where
  "path_new n = PathNode n None [] None"

fun add_child :: "PathNode \<Rightarrow> string option \<Rightarrow> string list \<Rightarrow> string \<Rightarrow> PathNode" where
  "add_child (PathNode t f a (Some c)) name args ty = PathNode t f a (Some (add_child c name args ty))"
| "add_child (PathNode t f a None) name args ty = PathNode t name args (Some (path_new ty))"

definition add_parent :: "PathNode \<Rightarrow> string option \<Rightarrow> string list \<Rightarrow> string \<Rightarrow> PathNode" where
  "add_parent p name args ty = PathNode ty name args (Some p)"

text \<open>The penultimate node: its type, and the field that refers to the last type.\<close>

fun referencing_type_inner :: "PathNode \<Rightarrow> PathNode \<Rightarrow> string \<times> string option \<times> string list" where
  "referencing_type_inner (PathNode t f a (Some c)) r = referencing_type_inner c (PathNode t f a (Some c))"
| "referencing_type_inner (PathNode t f a None) r = (node_type r, field_name r, field_args r)"

definition referencing_type :: "PathNode \<Rightarrow> (string \<times> string option \<times> string list) option" where
  "referencing_type p = (case child p of None \<Rightarrow> None | Some c \<Rightarrow> Some (referencing_type_inner c p))"

fun has_cycle_inner :: "PathNode \<Rightarrow> string list \<Rightarrow> bool" where
  "has_cycle_inner (PathNode t f a c) visited =
     (t \<in> set visited \<or> (case c of None \<Rightarrow> False | Some c' \<Rightarrow> has_cycle_inner c' (t # visited)))"

definition has_cycle :: "PathNode \<Rightarrow> bool" where
  "has_cycle p = has_cycle_inner p []"

fun path_len :: "PathNode \<Rightarrow> nat" where
  "path_len (PathNode t f a (Some c)) = path_len c + 1"
| "path_len (PathNode t f a None) = 1"

text \<open>The nodes in order, as the three iterators give them.\<close>

fun path_nodes :: "PathNode \<Rightarrow> PathNode list" where
  "path_nodes (PathNode t f a c) =
     PathNode t f a c # (case c of None \<Rightarrow> [] | Some c' \<Rightarrow> path_nodes c')"

fun path_display :: "PathNode \<Rightarrow> string" where
  "path_display (PathNode t f a (Some c)) =
     (case f of
        None \<Rightarrow> t @ '' -> '' @ path_display c
      | Some name \<Rightarrow>
          if a \<noteq> [] then t @ '' -> '' @ name @ ''('' @ join_with '','' a @ '') -> '' @ path_display c
          else t @ '' -> '' @ name @ '' -> '' @ path_display c)"
| "path_display (PathNode t f a None) = t"

section \<open>Traversal\<close>

text \<open>The types a type refers to, in the order in which they are pushed.\<close>

definition field_edges :: "(string \<times> field_definition) list \<Rightarrow> (string option \<times> string list \<times> string) list" where
  "field_edges fs =
     map (\<lambda>(n, fd). (Some (fd_name fd), map (\<lambda>arg. inner_named_type (iv_ty arg)) (fd_arguments fd),
       inner_named_type (fd_ty fd))) fs"

definition implementing_objects :: "schema \<Rightarrow> string \<Rightarrow> string list" where
  "implementing_objects S interface =
     filter_map (\<lambda>(k, t). case t of
         ObjectType d n ds is fs \<Rightarrow> if interface \<in> set is then Some n else None
       | _ \<Rightarrow> None) (schema_types S)"

fun type_edges :: "schema \<Rightarrow> extended_type \<Rightarrow> (string option \<times> string list \<times> string) list" where
  "type_edges S (ObjectType d n ds is fs) = field_edges fs"
| "type_edges S (InterfaceType d n ds is fs) =
     field_edges fs @ map (\<lambda>obj. (None, [], obj)) (implementing_objects S n)"
| "type_edges S (UnionType d n ds ms) = map (\<lambda>m. (None, [], m)) ms"
| "type_edges S _ = []"

definition children :: "schema \<Rightarrow> PathNode \<Rightarrow> extended_type \<Rightarrow> (string \<times> PathNode) list" where
  "children S path t = map (\<lambda>(f, a, ty). (ty, add_child path f a ty)) (type_edges S t)"

lemma unvisited_less:
  assumes "map_of (schema_types S) n = Some t" "n \<notin> set visited"
  shows "card (fst ` set (schema_types S) - set (n # visited)) < card (fst ` set (schema_types S) - set visited)"
proof (rule psubset_card_mono)
  have "n \<in> fst ` set (schema_types S)" using assms(1) by (force dest: map_of_SomeD)
  then show "fst ` set (schema_types S) - set (n # visited) \<subset> fst ` set (schema_types S) - set visited"
    using assms(2) by auto
qed simp

lemma unvisited_le:
  "card (fst ` set (schema_types S) - insert n V) \<le> card (fst ` set (schema_types S) - V)"
  by (rule card_mono) auto

text \<open>
  The loop of the iterator: the stack has its top at the head, \<open>visited\<close> are the keys of its map of
  references, whose values nobody reads.
\<close>

function traverse_from ::
    "schema \<Rightarrow> (string \<times> PathNode) list \<Rightarrow> string list \<Rightarrow> (extended_type \<times> PathNode) list" where
  "traverse_from S [] visited = []"
| "traverse_from S ((n, path) # stack) visited =
     (if has_cycle path then traverse_from S stack visited
      else
        let visited' = (if n \<in> set visited then visited else n # visited)
        in case map_of (schema_types S) n of
             None \<Rightarrow> traverse_from S stack visited'
           | Some t \<Rightarrow>
               if built_in_type S (et_name t) then traverse_from S stack visited'
               else (t, path) # traverse_from S
                      (if n \<in> set visited then stack else rev (children S path t) @ stack) visited')"
  by pat_completeness auto

termination
  by (relation "measures [\<lambda>(S, stack, visited). card (fst ` set (schema_types S) - set visited),
    \<lambda>(S, stack, visited). length stack]")
    (auto simp: less_Suc_eq le_less[symmetric] unvisited_le
      dest: unvisited_less split: if_splits)

text \<open>The roots in the order of the enumeration, the first on top of the stack.\<close>

definition traverse :: "schema \<Rightarrow> operation_type list \<Rightarrow> (extended_type \<times> PathNode) list" where
  "traverse S roots =
     traverse_from S (map (\<lambda>n. (n, path_new n)) (filter_map (root_operation S) roots)) []"

section \<open>Paths as lists\<close>

definition path_types :: "PathNode \<Rightarrow> string list" where
  "path_types p = map node_type (path_nodes p)"

lemma path_nodes_not_Nil [simp]: "path_nodes p \<noteq> []"
  by (cases p) simp

lemma path_types_simps [simp]:
  "path_types (PathNode t f a None) = [t]"
  "path_types (PathNode t f a (Some c)) = t # path_types c"
  "path_types (path_new n) = [n]"
  "path_types p \<noteq> []"
  by (simp_all add: path_types_def path_new_def)

lemma path_types_child [simp]: "path_types (add_child p f a ty) = path_types p @ [ty]"
  by (induction p f a ty rule: add_child.induct) simp_all

lemma path_types_parent [simp]: "path_types (add_parent p f a ty) = ty # path_types p"
  by (simp add: add_parent_def)

lemma path_types_split: "path_types p = butlast (path_types p) @ [last (path_types p)]"
  by simp

lemma set_path_types: "set (path_types p) = insert (last (path_types p)) (set (butlast (path_types p)))"
  by (subst path_types_split, unfold set_append) auto

lemma has_cycle_inner_iff:
  "has_cycle_inner p visited \<longleftrightarrow> \<not> (distinct (path_types p) \<and> set (path_types p) \<inter> set visited = {})"
proof (induction p visited rule: has_cycle_inner.induct)
  case (1 t f a c visited)
  then show ?case by (cases c) auto
qed

lemma has_cycle_iff: "has_cycle p \<longleftrightarrow> \<not> distinct (path_types p)"
  by (simp add: has_cycle_def has_cycle_inner_iff)

lemma path_len_types: "path_len p = length (path_types p)"
  by (induction p rule: path_len.induct) simp_all

lemma referencing_child: "referencing_type (add_child p f a ty) = Some (last (path_types p), f, a)"
proof -
  have "referencing_type_inner (the (child (add_child p f a ty))) (add_child p f a ty) = (last (path_types p), f, a)"
  proof (induction p f a ty rule: add_child.induct)
    case (1 t f a c name args ty)
    obtain t' f' a' c' where c: "add_child c name args ty = PathNode t' f' a' (Some c')"
      by (cases c rule: PathNode.exhaust; cases "child c") auto
    with 1 show ?case by simp
  next
    case (2 t f a name args ty)
    then show ?case by (simp add: path_new_def)
  qed
  moreover have "child (add_child p f a ty) \<noteq> None" by (cases p; cases "child p") auto
  ultimately show ?thesis by (auto simp: referencing_type_def)
qed

lemma referencing_new [simp]: "referencing_type (path_new n) = None"
  by (simp add: referencing_type_def path_new_def)

section \<open>The traversal follows the schema\<close>

definition schema_edge :: "schema \<Rightarrow> string \<Rightarrow> string option \<times> string list \<times> string \<Rightarrow> bool" where
  "schema_edge S n e \<longleftrightarrow>
     (\<exists>t. map_of (schema_types S) n = Some t \<and> \<not> built_in_type S (et_name t) \<and> e \<in> set (type_edges S t))"

inductive root_path :: "schema \<Rightarrow> operation_type list \<Rightarrow> PathNode \<Rightarrow> bool" for S roots where
  root: "ot \<in> set roots \<Longrightarrow> root_operation S ot = Some n \<Longrightarrow> root_path S roots (path_new n)"
| step: "root_path S roots p \<Longrightarrow> distinct (path_types p) \<Longrightarrow> schema_edge S (last (path_types p)) (f, a, ty) \<Longrightarrow>
    root_path S roots (add_child p f a ty)"

definition stack_ok :: "schema \<Rightarrow> operation_type list \<Rightarrow> (string \<times> PathNode) list \<Rightarrow> bool" where
  "stack_ok S roots stack \<longleftrightarrow> (\<forall>(n, p) \<in> set stack. n = last (path_types p) \<and> root_path S roots p)"

lemma children_ok:
  assumes "stack_ok S roots ((n, p) # stack)" "\<not> has_cycle p"
    and "map_of (schema_types S) n = Some t" "\<not> built_in_type S (et_name t)"
  shows "stack_ok S roots (rev (children S p t) @ stack)"
proof -
  have p: "root_path S roots p" "distinct (path_types p)" "last (path_types p) = n"
    using assms(1,2) by (auto simp: stack_ok_def has_cycle_iff)
  have "root_path S roots (add_child p f a ty)" if "(f, a, ty) \<in> set (type_edges S t)" for f a ty
    by (rule root_path.step[OF p(1,2)]) (use that assms(3,4) p(3) in \<open>auto simp: schema_edge_def\<close>)
  then show ?thesis using assms(1) by (auto simp: stack_ok_def children_def)
qed

lemma traverse_from_sound:
  "stack_ok S roots stack \<Longrightarrow> (t, p) \<in> set (traverse_from S stack visited) \<Longrightarrow>
     root_path S roots p \<and> distinct (path_types p) \<and>
     map_of (schema_types S) (last (path_types p)) = Some t \<and> \<not> built_in_type S (et_name t)"
proof (induction S stack visited rule: traverse_from.induct)
  case (2 S n path stack visited)
  have rest: "stack_ok S roots stack" and top: "root_path S roots path" "n = last (path_types path)"
    using "2.prems"(1) by (auto simp: stack_ok_def)
  show ?case
  proof (cases "has_cycle path")
    case True
    with "2.IH"(1)[OF True rest] "2.prems"(2) show ?thesis by simp
  next
    case False
    show ?thesis
    proof (cases "map_of (schema_types S) n")
      case None
      with "2.IH"(2)[OF False refl None rest] "2.prems"(2) False show ?thesis by simp
    next
      case (Some t')
      show ?thesis
      proof (cases "built_in_type S (et_name t')")
        case True
        with "2.IH"(3)[OF False refl Some True rest] "2.prems"(2) False Some show ?thesis by simp
      next
        case own: False
        have "stack_ok S roots (if n \<in> set visited then stack else rev (children S path t') @ stack)"
          using rest children_ok[OF "2.prems"(1) False Some own] by simp
        note IH = "2.IH"(4)[OF False refl Some own this]
        from "2.prems"(2) False Some own consider "(t, p) = (t', path)"
          | "(t, p) \<in> set (traverse_from S (if n \<in> set visited then stack else rev (children S path t') @ stack)
              (if n \<in> set visited then visited else n # visited))"
          by (auto simp: Let_def simp del: traverse_from.simps(1))
        then show ?thesis
          by cases (use top False Some own IH in \<open>auto simp: has_cycle_iff\<close>)
      qed
    qed
  qed
qed simp

section \<open>Every reachable type is visited\<close>

definition indexable :: "schema \<Rightarrow> string \<Rightarrow> bool" where
  "indexable S n \<longleftrightarrow> (\<exists>t. map_of (schema_types S) n = Some t \<and> \<not> built_in_type S (et_name t))"

lemma schema_edge_indexable: "schema_edge S n e \<Longrightarrow> indexable S n"
  by (auto simp: schema_edge_def indexable_def)

definition edge_to :: "schema \<Rightarrow> string \<Rightarrow> string \<Rightarrow> bool" where
  "edge_to S n ty \<longleftrightarrow> (\<exists>f a. schema_edge S n (f, a, ty))"

definition emitted :: "(extended_type \<times> PathNode) list \<Rightarrow> string set" where
  "emitted out = (\<lambda>(t, p). last (path_types p)) ` set out"

lemma emitted_simps [simp]:
  "emitted [] = {}" "emitted ((t, p) # out) = insert (last (path_types p)) (emitted out)"
  by (simp_all add: emitted_def)

text \<open>The types on the way to a type on the stack have been visited.\<close>

definition parents_visited :: "(string \<times> PathNode) list \<Rightarrow> string list \<Rightarrow> bool" where
  "parents_visited stack visited \<longleftrightarrow>
     (\<forall>(n, p) \<in> set stack. n = last (path_types p) \<and> distinct (butlast (path_types p)) \<and>
        set (butlast (path_types p)) \<subseteq> set visited)"

lemma parents_visited_children:
  assumes "parents_visited ((n, p) # stack) visited" "\<not> has_cycle p"
  shows "parents_visited (rev (children S p t) @ stack) (n # visited)"
proof -
  have "set (path_types p) \<subseteq> set (n # visited)"
    using assms(1) set_path_types[of p] by (auto simp: parents_visited_def)
  then show ?thesis
    using assms by (auto simp: parents_visited_def children_def has_cycle_iff)
qed

lemma parents_visited_mono:
  "parents_visited (e # stack) visited \<Longrightarrow> parents_visited stack visited"
  "parents_visited stack visited \<Longrightarrow> parents_visited stack (n # visited)"
  by (auto simp: parents_visited_def)

lemma cycle_visited:
  assumes "parents_visited ((n, p) # stack) visited" "has_cycle p"
  shows "n \<in> set visited"
proof -
  have "distinct (butlast (path_types p))" "set (butlast (path_types p)) \<subseteq> set visited" "n = last (path_types p)"
    using assms(1) by (auto simp: parents_visited_def)
  then show ?thesis
    using assms(2) distinct_append[of "butlast (path_types p)" "[n]"] append_butlast_last_id[of "path_types p"]
    by (auto simp: has_cycle_iff)
qed

definition settled :: "schema \<Rightarrow> string list \<Rightarrow> (extended_type \<times> PathNode) list \<Rightarrow> string set" where
  "settled S visited out = set visited \<union> emitted out \<union> {n. \<not> indexable S n}"

definition closes :: "schema \<Rightarrow> (string \<times> PathNode) list \<Rightarrow> string list \<Rightarrow> (extended_type \<times> PathNode) list \<Rightarrow> bool" where
  "closes S stack visited out \<longleftrightarrow>
     fst ` set stack \<subseteq> settled S visited out \<and>
     (\<forall>n \<in> emitted out - set visited. \<forall>ty. edge_to S n ty \<longrightarrow> ty \<in> settled S visited out)"

lemma closes_skip:
  "n \<in> settled S visited out \<Longrightarrow> closes S stack visited out \<Longrightarrow> closes S ((n, p) # stack) visited out"
  by (auto simp: closes_def)

lemma closes_dead:
  assumes "\<not> indexable S n" "closes S stack (n # visited) out"
  shows "closes S stack visited out"
proof -
  have "settled S (n # visited) out = settled S visited out" using assms(1) by (auto simp: settled_def)
  then have stack: "fst ` set stack \<subseteq> settled S visited out"
    and edges: "\<And>m ty. m \<in> emitted out \<Longrightarrow> m \<notin> set (n # visited) \<Longrightarrow> edge_to S m ty \<Longrightarrow> ty \<in> settled S visited out"
    using assms(2) by (simp_all add: closes_def)
  have "ty \<in> settled S visited out"
    if "m \<in> emitted out" "m \<notin> set visited" "edge_to S m ty" for m ty
    using edges[OF that(1) _ that(3)] that(2,3) assms(1) schema_edge_indexable[of S m]
    by (cases "m = n") (auto simp: edge_to_def)
  with stack show ?thesis by (auto simp: closes_def)
qed

lemma closes_emit:
  assumes "last (path_types p) = n" "closes S (rev (children S p t) @ stack) (n # visited) out"
    and "map_of (schema_types S) n = Some t"
  shows "closes S ((n, p) # stack) visited ((t, p) # out)"
proof -
  have same: "settled S (n # visited) out = settled S visited ((t, p) # out)"
    using assms(1) by (auto simp: settled_def)
  have own: "ty \<in> settled S visited ((t, p) # out)" if "edge_to S n ty" for ty
  proof -
    have "ty \<in> fst ` set (rev (children S p t) @ stack)"
      using that assms(3) by (force simp: edge_to_def schema_edge_def children_def)
    then show ?thesis using assms(2) same by (auto simp: closes_def)
  qed
  have "ty \<in> settled S visited ((t, p) # out)"
    if "m \<in> emitted out" "m \<notin> set visited" "edge_to S m ty" for m ty
    using that own assms(2) same by (cases "m = n") (auto simp: closes_def)
  moreover have "fst ` set stack \<subseteq> settled S visited ((t, p) # out)"
    using assms(2) same by (auto simp: closes_def)
  moreover have "n \<in> settled S visited ((t, p) # out)" using assms(1) by (simp add: settled_def)
  ultimately show ?thesis using own assms(1) by (auto simp: closes_def)
qed

lemma traverse_from_complete:
  "parents_visited stack visited \<Longrightarrow> closes S stack visited (traverse_from S stack visited)"
proof (induction S stack visited rule: traverse_from.induct)
  case (1 S visited)
  then show ?case by (simp add: closes_def)
next
  case (2 S n path stack visited)
  note rest = parents_visited_mono(1)[OF "2.prems"]
  have top: "last (path_types path) = n" using "2.prems" by (simp add: parents_visited_def)
  let ?visited = "if n \<in> set visited then visited else n # visited"
  have restv: "parents_visited stack ?visited" using rest parents_visited_mono(2) by simp
  have dead: "closes S ((n, path) # stack) visited out" if "\<not> indexable S n" "closes S stack ?visited out" for out
    using that closes_dead closes_skip[of n S visited out] by (auto simp: settled_def split: if_splits)
  show ?case
  proof (cases "has_cycle path")
    case True
    with "2.IH"(1)[OF True rest] cycle_visited[OF "2.prems" True] show ?thesis
      by (auto intro!: closes_skip simp: settled_def)
  next
    case False
    show ?thesis
    proof (cases "map_of (schema_types S) n")
      case None
      with "2.IH"(2)[OF False refl None restv] dead False show ?thesis by (auto simp: indexable_def)
    next
      case (Some t)
      show ?thesis
      proof (cases "built_in_type S (et_name t)")
        case True
        with "2.IH"(3)[OF False refl Some True restv] dead False Some show ?thesis by (auto simp: indexable_def)
      next
        case own: False
        show ?thesis
        proof (cases "n \<in> set visited")
          case True
          have "closes S stack visited (traverse_from S stack visited)"
            using "2.IH"(4)[OF False refl Some own] rest True by simp
          then have "closes S ((n, path) # stack) visited ((t, path) # traverse_from S stack visited)"
            using True top by (auto simp: closes_def settled_def)
          then show ?thesis using True False Some own by simp
        next
          case new: False
          have "closes S (rev (children S path t) @ stack) (n # visited)
              (traverse_from S (rev (children S path t) @ stack) (n # visited))"
            using "2.IH"(4)[OF False refl Some own] parents_visited_children[OF "2.prems" False] new by simp
          from closes_emit[OF top this Some] show ?thesis using new False Some own by simp
        qed
      qed
    qed
  qed
qed

inductive reachable_type :: "schema \<Rightarrow> operation_type list \<Rightarrow> string \<Rightarrow> bool" for S roots where
  root: "ot \<in> set roots \<Longrightarrow> root_operation S ot = Some n \<Longrightarrow> indexable S n \<Longrightarrow> reachable_type S roots n"
| step: "reachable_type S roots n \<Longrightarrow> schema_edge S n (f, a, ty) \<Longrightarrow> indexable S ty \<Longrightarrow> reachable_type S roots ty"

lemma root_stack:
  "stack_ok S roots (map (\<lambda>n. (n, path_new n)) (filter_map (root_operation S) roots))"
  "parents_visited (map (\<lambda>n. (n, path_new n)) (filter_map (root_operation S) roots)) []"
  by (auto simp: stack_ok_def parents_visited_def set_filter_map intro: root_path.root)

lemma traverse_sound:
  "(t, p) \<in> set (traverse S roots) \<Longrightarrow>
     root_path S roots p \<and> distinct (path_types p) \<and>
     map_of (schema_types S) (last (path_types p)) = Some t \<and> \<not> built_in_type S (et_name t)"
  unfolding traverse_def by (rule traverse_from_sound[OF root_stack(1)])

lemma root_path_reachable:
  "root_path S roots p \<Longrightarrow> indexable S (last (path_types p)) \<Longrightarrow> reachable_type S roots (last (path_types p))"
proof (induction rule: root_path.induct)
  case (step p f a ty)
  then have "indexable S (last (path_types p))" by (auto simp: schema_edge_def indexable_def)
  with step reachable_type.step show ?case by simp
qed (simp add: reachable_type.root)

lemma traverse_visits: "emitted (traverse S roots) = {n. reachable_type S roots n}"
proof (intro set_eqI iffI)
  fix n assume "n \<in> emitted (traverse S roots)"
  then obtain t p where p: "(t, p) \<in> set (traverse S roots)" "n = last (path_types p)"
    by (auto simp: emitted_def)
  with traverse_sound[OF p(1)] root_path_reachable show "n \<in> {n. reachable_type S roots n}"
    by (auto simp: indexable_def)
next
  fix n assume "n \<in> {n. reachable_type S roots n}"
  then have "reachable_type S roots n" by simp
  moreover have closed: "closes S (map (\<lambda>n. (n, path_new n)) (filter_map (root_operation S) roots)) [] (traverse S roots)"
    unfolding traverse_def by (rule traverse_from_complete[OF root_stack(2)])
  ultimately show "n \<in> emitted (traverse S roots)"
  proof induction
    case (root ot n)
    then have "n \<in> fst ` set (map (\<lambda>n. (n, path_new n)) (filter_map (root_operation S) roots))"
      by (force simp: set_filter_map)
    with closed root(3) show ?case by (auto simp: closes_def settled_def)
  next
    case (step n f a ty)
    then have "edge_to S n ty" by (auto simp: edge_to_def)
    with closed step(3,4) show ?case by (auto simp: closes_def settled_def)
  qed
qed

section \<open>The references are acyclic\<close>

text \<open>Who refers to whom, as the paths of a traversal show it.\<close>

definition path_references :: "(extended_type \<times> PathNode) list \<Rightarrow> (string \<times> string) set" where
  "path_references out =
     {(P, T). \<exists>(t, p) \<in> set out. \<exists>f a. referencing_type p = Some (P, f, a) \<and> T = last (path_types p)}"

lemma references_simps [simp]:
  "path_references [] = {}"
  "path_references ((t, p) # out) =
     (case referencing_type p of None \<Rightarrow> {} | Some (P, f, a) \<Rightarrow> {(P, last (path_types p))}) \<union> path_references out"
  by (auto simp: path_references_def split: option.splits)

lemma referencing_parent:
  "root_path S roots p \<Longrightarrow>
     map_option fst (referencing_type p) = (if butlast (path_types p) = [] then None else Some (last (butlast (path_types p))))"
  by (cases rule: root_path.cases) (auto simp: referencing_child)

text \<open>
  The invariant of the search: the parents of the entries of the stack are on one path of the
  tree, of which deeper entries have a prefix; types that are not on the path refer to no type on
  it; and a type on it refers to none before itself.
\<close>

abbreviation parents :: "PathNode \<Rightarrow> string list" where
  "parents p \<equiv> butlast (path_types p)"

definition active :: "(string \<times> PathNode) list \<Rightarrow> string set" where
  "active stack = (case stack of [] \<Rightarrow> {} | (n, p) # rest \<Rightarrow> set (parents p))"

definition dfs_inv :: "(string \<times> string) set \<Rightarrow> (string \<times> PathNode) list \<Rightarrow> string list \<Rightarrow> bool" where
  "dfs_inv E stack visited \<longleftrightarrow>
     acyclic E \<and> (\<forall>(F, X) \<in> E. F \<in> set visited \<and> X \<in> set visited) \<and>
     sorted_wrt (\<lambda>e e'. prefix (parents (snd e')) (parents (snd e))) stack \<and>
     (\<forall>(n, p) \<in> set stack. set (parents p) \<subseteq> set visited \<and> distinct (parents p)) \<and>
     (\<forall>(F, X) \<in> E. F \<notin> active stack \<longrightarrow> X \<notin> active stack) \<and>
     (\<forall>(F, X) \<in> E. \<forall>(n, p) \<in> set stack. F \<in> set (parents p) \<longrightarrow> X \<notin> set (takeWhile ((\<noteq>) F) (parents p)))"

lemma prefix_before:
  "prefix q c \<Longrightarrow> F \<in> set c \<Longrightarrow> F \<notin> set q \<Longrightarrow> set q \<subseteq> set (takeWhile ((\<noteq>) F) c)"
  by (auto simp: prefix_def) (subst takeWhile_append2, auto)

lemma dfs_inv_pop:
  assumes "dfs_inv E ((n, p) # stack) visited"
  shows "dfs_inv E stack visited"
proof -
  have pre: "prefix (parents q) (parents p)" if "(m, q) \<in> set stack" for m q
    using assms that by (auto simp: dfs_inv_def)
  have "X \<notin> active stack" if "(F, X) \<in> E" "F \<notin> active stack" for F X
  proof (cases stack)
    case Nil
    then show ?thesis by (simp add: active_def)
  next
    case (Cons e rest)
    obtain m q where e: "e = (m, q)" by (cases e)
    have q: "prefix (parents q) (parents p)" using pre[of m q] Cons e by simp
    have act: "active stack = set (parents q)" by (simp add: active_def Cons e)
    show ?thesis
    proof (cases "F \<in> set (parents p)")
      case True
      then have "X \<notin> set (takeWhile ((\<noteq>) F) (parents p))"
        using assms that(1) by (auto simp: dfs_inv_def)
      with prefix_before[OF q True] that(2) show ?thesis by (auto simp: act)
    next
      case False
      then have "X \<notin> set (parents p)" using assms that(1) by (auto simp: dfs_inv_def active_def)
      then show ?thesis using set_mono_prefix[OF q] by (auto simp: act)
    qed
  qed
  then show ?thesis using assms by (auto simp: dfs_inv_def)
qed

lemma dfs_inv_visit: "dfs_inv E stack visited \<Longrightarrow> dfs_inv E stack (n # visited)"
  by (fastforce simp: dfs_inv_def)

lemma dfs_inv_finished:
  assumes "dfs_inv E stack visited" "(x, y) \<in> E\<^sup>*" "x \<notin> active stack"
  shows "y \<notin> active stack"
  using assms(2,3)
proof (induction rule: rtrancl_induct)
  case (step y z)
  then show ?case using assms(1) by (auto simp: dfs_inv_def)
qed simp

lemma dfs_inv_edge:
  assumes inv: "dfs_inv E ((n, p) # stack) visited" and n: "n \<notin> set (parents p)" "n \<in> set visited"
    and P: "parents p \<noteq> []" "P = last (parents p)"
  shows "dfs_inv (insert (P, n) E) ((n, p) # stack) visited"
proof -
  have act: "active ((n, p) # stack) = set (parents p)" by (simp add: active_def)
  have Pin: "P \<in> set (parents p)" using P by simp
  have "(n, P) \<notin> E\<^sup>*" using dfs_inv_finished[OF inv, of n P] n(1) Pin act by auto
  then have "acyclic (insert (P, n) E)" using inv by (simp add: dfs_inv_def acyclic_insert)
  moreover have "P \<in> set visited" using inv Pin by (auto simp: dfs_inv_def)
  moreover have "n \<notin> set (takeWhile ((\<noteq>) F) (parents q))" if "(m, q) \<in> set ((n, p) # stack)" for F m q
  proof -
    have "prefix (parents q) (parents p)" using inv that by (auto simp: dfs_inv_def)
    then show ?thesis using n(1) set_mono_prefix set_takeWhileD by fastforce
  qed
  ultimately show ?thesis using inv n Pin act by (auto simp: dfs_inv_def)
qed

lemma dfs_inv_push:
  assumes inv: "dfs_inv E ((n, p) # stack) visited" and n: "n = last (path_types p)" "n \<notin> set (parents p)" "n \<in> set visited"
    and fresh: "\<And>X. (n, X) \<notin> E" "\<And>F. (F, n) \<in> E \<Longrightarrow> F \<in> set (parents p)"
  shows "dfs_inv E (rev (children S p t) @ stack) visited"
proof (cases "children S p t = []")
  case True
  then show ?thesis using dfs_inv_pop[OF inv] by simp
next
  case False
  have split: "path_types p = parents p @ [n]" using path_types_split[of p] n(1) by simp
  have kids: "parents q = parents p @ [n]" if "(m, q) \<in> set (children S p t)" for m q
    using that split by (auto simp: children_def)
  obtain m q rest where top: "rev (children S p t) = (m, q) # rest"
    using False by (cases "rev (children S p t)") auto
  have "(m, q) \<in> set (children S p t)" using top by (metis list.set_intros(1) set_rev)
  then have act: "active (rev (children S p t) @ stack) = insert n (set (parents p))"
    using kids[of m q] top by (auto simp: active_def)
  have old: "active ((n, p) # stack) = set (parents p)" by (simp add: active_def)
  have sorted: "sorted_wrt (\<lambda>e e'. prefix (parents (snd e')) (parents (snd e))) (rev (children S p t) @ stack)"
  proof -
    have "sorted_wrt (\<lambda>e e'. prefix (parents (snd e')) (parents (snd e))) (rev (children S p t))"
      by (rule sorted_wrt_mono_rel[of _ "\<lambda>_ _. True"]) (use kids in auto)
    moreover have "prefix (parents (snd e')) (parents (snd e))"
      if "e \<in> set (children S p t)" "e' \<in> set stack" for e e'
    proof -
      have "prefix (parents (snd e')) (parents p)" using inv that(2) by (cases e') (auto simp: dfs_inv_def)
      then show ?thesis using kids[of "fst e" "snd e"] that(1) by simp
    qed
    ultimately show ?thesis using inv by (auto simp: sorted_wrt_append dfs_inv_def)
  qed
  have "X \<notin> set (takeWhile ((\<noteq>) F) (parents p @ [n]))" if "(F, X) \<in> E" "F \<in> insert n (set (parents p))" for F X
  proof -
    have "F \<in> set (parents p)" using that fresh(1) by auto
    then show ?thesis using inv that(1) by (auto simp: dfs_inv_def takeWhile_append1)
  qed
  with kids have before: "X \<notin> set (takeWhile ((\<noteq>) F) (parents q'))"
    if "(F, X) \<in> E" "(m', q') \<in> set (children S p t)" "F \<in> set (parents q')" for F X m' q'
    using that by auto
  have finished: "X \<notin> active (rev (children S p t) @ stack)"
    if "(F, X) \<in> E" "F \<notin> active (rev (children S p t) @ stack)" for F X
    using inv that fresh(2) old unfolding act by (auto simp: dfs_inv_def)
  have entries: "set (parents q') \<subseteq> set visited \<and> distinct (parents q')"
    if "(m', q') \<in> set (rev (children S p t) @ stack)" for m' q'
  proof (cases "(m', q') \<in> set (children S p t)")
    case True
    then have "parents q' = parents p @ [n]" by (rule kids)
    moreover have "set (parents p) \<subseteq> set visited" "distinct (parents p)"
      using inv by (auto simp: dfs_inv_def)
    ultimately show ?thesis using n(2,3) by simp
  next
    case False
    with that have "(m', q') \<in> set stack" by simp
    then show ?thesis using inv by (auto simp: dfs_inv_def)
  qed
  have backward: "X \<notin> set (takeWhile ((\<noteq>) F) (parents q'))"
    if "(F, X) \<in> E" "(m', q') \<in> set (rev (children S p t) @ stack)" "F \<in> set (parents q')" for F X m' q'
  proof (cases "(m', q') \<in> set (children S p t)")
    case True
    then show ?thesis using before that by blast
  next
    case False
    with that have "(m', q') \<in> set stack" by simp
    then show ?thesis using inv that by (auto simp: dfs_inv_def)
  qed
  have E: "acyclic E" "\<forall>(F, X) \<in> E. F \<in> set visited \<and> X \<in> set visited"
    using inv by (simp_all add: dfs_inv_def)
  show ?thesis
    unfolding dfs_inv_def
  proof (intro conjI)
    show "\<forall>(m', q') \<in> set (rev (children S p t) @ stack). set (parents q') \<subseteq> set visited \<and> distinct (parents q')"
      using entries by blast
    show "\<forall>(F, X) \<in> E. F \<notin> active (rev (children S p t) @ stack) \<longrightarrow> X \<notin> active (rev (children S p t) @ stack)"
      using finished by blast
    show "\<forall>(F, X) \<in> E. \<forall>(m', q') \<in> set (rev (children S p t) @ stack).
        F \<in> set (parents q') \<longrightarrow> X \<notin> set (takeWhile ((\<noteq>) F) (parents q'))"
      using backward by blast
  qed (fact E sorted)+
qed

text \<open>The invariant is kept to the end, where only the absence of cycles is left of it.\<close>

lemma traverse_from_acyclic:
  "dfs_inv E stack visited \<Longrightarrow> parents_visited stack visited \<Longrightarrow> stack_ok S roots stack \<Longrightarrow>
     acyclic (E \<union> path_references (traverse_from S stack visited))"
proof (induction S stack visited arbitrary: E rule: traverse_from.induct)
  case (1 S visited)
  then show ?case by (simp add: dfs_inv_def)
next
  case (2 S n path stack visited)
  note pv = parents_visited_mono(1)[OF "2.prems"(2)]
  let ?visited = "if n \<in> set visited then visited else n # visited"
  have pvv: "parents_visited stack ?visited" using pv parents_visited_mono(2) by simp
  have so: "stack_ok S roots stack" and p: "root_path S roots path" "n = last (path_types path)"
    using "2.prems"(3) by (auto simp: stack_ok_def)
  have pop: "dfs_inv E stack visited" "dfs_inv E stack ?visited"
    using dfs_inv_pop[OF "2.prems"(1)] dfs_inv_visit by simp_all
  show ?case
  proof (cases "has_cycle path")
    case True
    with "2.IH"(1)[OF True pop(1) pv so] show ?thesis by simp
  next
    case False
    show ?thesis
    proof (cases "map_of (schema_types S) n")
      case None
      with "2.IH"(2)[OF False refl None pop(2) pvv so] False show ?thesis by simp
    next
      case (Some t)
      show ?thesis
      proof (cases "built_in_type S (et_name t)")
        case True
        with "2.IH"(3)[OF False refl Some True pop(2) pvv so] False Some show ?thesis by simp
      next
        case own: False
        define E' where "E' = path_references [(t, path)] \<union> E"
        have n: "n \<notin> set (parents path)"
          using False p(2) path_types_split[of path] distinct_append[of "parents path" "[n]"]
          by (simp add: has_cycle_iff)
        have E': "E' = (if parents path = [] then E else insert (last (parents path), n) E)"
          using referencing_parent[OF p(1)] p(2)
          by (cases "parents path = []") (auto simp: E'_def split: option.splits)
        have inv: "dfs_inv E' ((n, path) # stack) ?visited"
        proof (cases "parents path = []")
          case True
          then show ?thesis using "2.prems"(1) dfs_inv_visit by (simp add: E')
        next
          case below: False
          have "dfs_inv E ((n, path) # stack) ?visited" using "2.prems"(1) dfs_inv_visit by simp
          from dfs_inv_edge[OF this n _ below refl] below show ?thesis by (simp add: E')
        qed
        have step: "dfs_inv E' (if n \<in> set visited then stack else rev (children S path t) @ stack) ?visited"
        proof (cases "n \<in> set visited")
          case True
          then show ?thesis using dfs_inv_pop[OF inv] by simp
        next
          case new: False
          have old: "F \<noteq> n \<and> X \<noteq> n" if "(F, X) \<in> E" for F X
            using "2.prems"(1) that new by (auto simp: dfs_inv_def)
          have "(n, X) \<notin> E'" for X using old n by (auto simp: E')
          moreover have "F \<in> set (parents path)" if "(F, n) \<in> E'" for F
            using that old by (auto simp: E' split: if_splits)
          ultimately have "dfs_inv E' (rev (children S path t) @ stack) ?visited"
            using dfs_inv_push[OF inv p(2) n] by simp
          then show ?thesis using new by simp
        qed
        have "parents_visited (if n \<in> set visited then stack else rev (children S path t) @ stack) ?visited"
          using pv parents_visited_children[OF "2.prems"(2) False] by simp
        moreover have "stack_ok S roots (if n \<in> set visited then stack else rev (children S path t) @ stack)"
          using so children_ok[OF "2.prems"(3) False Some own] by simp
        ultimately have "acyclic (E' \<union> path_references (traverse_from S
            (if n \<in> set visited then stack else rev (children S path t) @ stack) ?visited))"
          using "2.IH"(4)[OF False refl Some own step] by simp
        then show ?thesis using False Some own by (simp add: E'_def Un_ac Let_def)
      qed
    qed
  qed
qed

lemma references_acyclic: "acyclic (path_references (traverse S roots))"
proof -
  have "dfs_inv {} (map (\<lambda>n. (n, path_new n)) (filter_map (root_operation S) roots)) []"
    by (auto simp: dfs_inv_def sorted_wrt_map acyclic_def sorted_wrt_iff_nth_less)
  from traverse_from_acyclic[OF this root_stack(2,1)] show ?thesis
    by (simp add: traverse_def)
qed

end
