(* ===== verification/Schema_Index.thy ===== *)
theory Schema_Index
  imports Schema_Paths
begin

text \<open>
  The index of a schema (crate \<open>apollo-schema-index\<close>, \<open>SchemaIndex::new\<close> of \<open>lib.rs\<close>): the types
  of the traversal with the references to them, written as strings, and one document per type with
  its identifiers split into words. The search engine that stores the documents and the conversion
  of a word to snake case are third-party code and parameters.
\<close>

section \<open>Words of identifiers\<close>

text \<open>\<open>char::is_alphanumeric\<close> on U+0000 to U+00FF.\<close>

definition is_alphanumeric :: "char \<Rightarrow> bool" where
  "is_alphanumeric c \<longleftrightarrow> (let n = of_char c :: nat in
     (48 \<le> n \<and> n \<le> 57) \<or> (65 \<le> n \<and> n \<le> 90) \<or> (97 \<le> n \<and> n \<le> 122) \<or>
     n \<in> {170, 178, 179, 181, 185, 186, 188, 189, 190} \<or> (192 \<le> n \<and> n \<noteq> 215 \<and> n \<noteq> 247))"

fun push_expanded_word :: "bool \<Rightarrow> string \<Rightarrow> string" where
  "push_expanded_word prev_underscore [] = []"
| "push_expanded_word prev_underscore (c # cs) =
     (if c = CHR ''_'' then (if prev_underscore then [] else '' '') @ push_expanded_word True cs
      else c # push_expanded_word False cs)"

text \<open>The loop of \<open>expand_identifiers\<close>: \<open>w\<close> is the word read so far, reversed.\<close>

fun expand_from :: "(string \<Rightarrow> string) \<Rightarrow> string \<Rightarrow> string \<Rightarrow> string" where
  "expand_from snake w [] = (if w = [] then [] else push_expanded_word False (snake (rev w)))"
| "expand_from snake w (c # cs) =
     (if is_alphanumeric c \<or> c = CHR ''_'' then expand_from snake (c # w) cs
      else (if w = [] then [] else push_expanded_word False (snake (rev w))) @ c # expand_from snake [] cs)"

definition expand_identifiers :: "(string \<Rightarrow> string) \<Rightarrow> string \<Rightarrow> string" where
  "expand_identifiers snake s = expand_from snake [] s"

section \<open>References\<close>

definition reference_string :: "string \<times> string option \<times> string list \<Rightarrow> string" where
  "reference_string r = (case r of (ref_type, f, args) \<Rightarrow>
     (case f of
        Some name \<Rightarrow> ref_type @ ''#'' @ name @ (if args = [] then [] else ''#'' @ join_with '','' args)
      | None \<Rightarrow> ref_type))"

definition parse_reference :: "string \<Rightarrow> string \<times> string option \<times> string list" where
  "parse_reference s =
     (case split_first CHR ''#'' s of
        (ref_type, Some rest) \<Rightarrow>
          (case split_first CHR ''#'' rest of
             (name, Some args) \<Rightarrow> (ref_type, Some name, map str_trim (split_on CHR '','' args))
           | (name, None) \<Rightarrow> (ref_type, Some rest, []))
      | (_, None) \<Rightarrow> (s, None, []))"

text \<open>
  \<open>entry(type).or_default()\<close>, then a push where the path refers to the type. The iteration order
  of the hash map is unspecified in the code; here it is the order of the first visits.
\<close>

fun push_references :: "string \<Rightarrow> string list \<Rightarrow> (string \<times> string list) list \<Rightarrow> (string \<times> string list) list" where
  "push_references n rs [] = [(n, rs)]"
| "push_references n rs ((k, old) # m) =
     (if k = n then (k, old @ rs) # m else (k, old) # push_references n rs m)"

definition add_reference ::
    "(string \<times> string list) list \<Rightarrow> extended_type \<times> PathNode \<Rightarrow> (string \<times> string list) list" where
  "add_reference m e = (case e of (t, path) \<Rightarrow>
     push_references (et_name t)
       (case referencing_type path of None \<Rightarrow> [] | Some r \<Rightarrow> [reference_string r]) m)"

definition type_references :: "schema \<Rightarrow> operation_type list \<Rightarrow> (string \<times> string list) list" where
  "type_references S roots = foldl add_reference [] (traverse S roots)"

section \<open>Documents\<close>

record type_document =
  doc_type_name :: string
  doc_raw_type_name :: string
  doc_descriptions :: "string list"
  doc_references :: "string list"
  doc_fields :: string

definition name_and_type :: "string \<Rightarrow> gtype \<Rightarrow> string" where
  "name_and_type n ty = n @ '': '' @ inner_named_type ty"

fun field_text :: "extended_type \<Rightarrow> string" where
  "field_text (ObjectType d n ds is fs) = join_with '', '' (map (\<lambda>(k, f). name_and_type k (fd_ty f)) fs)"
| "field_text (InterfaceType d n ds is fs) = join_with '', '' (map (\<lambda>(k, f). name_and_type k (fd_ty f)) fs)"
| "field_text (InputObjectType d n ds fs) = join_with '', '' (map (\<lambda>(k, f). name_and_type k (iv_ty f)) fs)"
| "field_text (EnumType d n ds vs) = n @ '': '' @ join_with '' | '' (map fst vs)"
| "field_text _ = []"

fun field_descriptions :: "extended_type \<Rightarrow> string" where
  "field_descriptions (EnumType d n ds vs) = join_with ''\<newline>'' (filter_map (\<lambda>(k, v). ev_description v) vs)"
| "field_descriptions (ObjectType d n ds is fs) = join_with ''\<newline>'' (filter_map (\<lambda>(k, f). fd_description f) fs)"
| "field_descriptions (InterfaceType d n ds is fs) = join_with ''\<newline>'' (filter_map (\<lambda>(k, f). fd_description f) fs)"
| "field_descriptions (InputObjectType d n ds fs) = join_with ''\<newline>'' (filter_map (\<lambda>(k, f). iv_description f) fs)"
| "field_descriptions _ = []"

definition type_document :: "(string \<Rightarrow> string) \<Rightarrow> extended_type \<Rightarrow> string list \<Rightarrow> type_document" where
  "type_document snake t rs =
     \<lparr>doc_type_name = expand_identifiers snake (et_name t),
      doc_raw_type_name = et_name t,
      doc_descriptions =
        [case et_description t of Some d \<Rightarrow> expand_identifiers snake d | None \<Rightarrow> [],
         expand_identifiers snake (field_descriptions t)],
      doc_references = rs,
      doc_fields = expand_identifiers snake (field_text t)\<rparr>"

definition index_documents :: "(string \<Rightarrow> string) \<Rightarrow> schema \<Rightarrow> operation_type list \<Rightarrow> type_document list" where
  "index_documents snake S roots =
     filter_map (\<lambda>(n, rs).
       case map_of (schema_types S) n of
         None \<Rightarrow> None
       | Some t \<Rightarrow> if built_in_type S (et_name t) then None else Some (type_document snake t rs))
     (type_references S roots)"

section \<open>References round trip\<close>

text \<open>Names of GraphQL: letters, digits and underscores.\<close>

definition name_char :: "char \<Rightarrow> bool" where
  "name_char c \<longleftrightarrow> (let n = of_char c :: nat in
     (48 \<le> n \<and> n \<le> 57) \<or> (65 \<le> n \<and> n \<le> 90) \<or> (97 \<le> n \<and> n \<le> 122) \<or> n = 95)"

definition graphql_name :: "string \<Rightarrow> bool" where
  "graphql_name s \<longleftrightarrow> s \<noteq> [] \<and> list_all name_char s"

lemma graphql_name_no_marks [simp]:
  assumes "graphql_name s"
  shows "CHR ''#'' \<notin> set s" "CHR '','' \<notin> set s" "\<forall>c \<in> set s. \<not> is_white c"
proof -
  have chars: "name_char c" if "c \<in> set s" for c
    using assms that by (simp add: graphql_name_def list_all_iff)
  show "CHR ''#'' \<notin> set s" "CHR '','' \<notin> set s"
    using chars[of "CHR ''#''"] chars[of "CHR '',''"] by (auto simp: name_char_def)
  show "\<forall>c \<in> set s. \<not> is_white c"
    using chars by (force simp: name_char_def is_white_def Let_def)
qed

fun named_reference :: "string \<times> string option \<times> string list \<Rightarrow> bool" where
  "named_reference (t, f, args) \<longleftrightarrow>
     graphql_name t \<and> (case f of None \<Rightarrow> args = [] | Some name \<Rightarrow> graphql_name name) \<and>
     list_all graphql_name args"

lemma join_names_no_mark:
  "list_all graphql_name args \<Longrightarrow> CHR ''#'' \<notin> set (join_with '','' args)"
  by (induction args rule: induct_list012) auto

lemma parse_reference_inverse: "named_reference r \<Longrightarrow> parse_reference (reference_string r) = r"
proof (induction r)
  case (fields t f args)
  show ?case
  proof (cases f)
    case None
    then show ?thesis using fields by (simp add: parse_reference_def reference_string_def)
  next
    case (Some name)
    have "map str_trim args = args" "split_on CHR '','' (join_with '','' args) = args" if "args \<noteq> []"
      using fields that by (auto simp: list_all_iff intro!: map_idI split_on_join)
    then show ?thesis
      using fields Some
      by (cases "args = []") (simp_all add: parse_reference_def reference_string_def)
  qed
qed

section \<open>What the index records\<close>

lemma map_of_push_references:
  "map_of (push_references n rs m) =
     (map_of m)(n \<mapsto> (case map_of m n of None \<Rightarrow> [] | Some old \<Rightarrow> old) @ rs)"
  by (induction m) (auto split: option.splits)

definition reference_of :: "PathNode \<Rightarrow> string list" where
  "reference_of p = (case referencing_type p of None \<Rightarrow> [] | Some r \<Rightarrow> [reference_string r])"

lemma map_of_add_references:
  "map_of (foldl add_reference m out) n =
     (if n \<in> dom (map_of m) \<union> et_name ` fst ` set out
      then Some ((case map_of m n of None \<Rightarrow> [] | Some old \<Rightarrow> old) @
        concat (map (\<lambda>(t, p). if et_name t = n then reference_of p else []) out))
      else None)"
proof (induction out arbitrary: m)
  case Nil
  then show ?case by (auto split: option.splits)
next
  case (Cons e out)
  obtain t p where e: "e = (t, p)" by (cases e)
  have "map_of (add_reference m e) =
      (map_of m)(et_name t \<mapsto> (case map_of m (et_name t) of None \<Rightarrow> [] | Some old \<Rightarrow> old) @ reference_of p)"
    by (simp add: e add_reference_def map_of_push_references reference_of_def)
  then show ?case using Cons[of "add_reference m e"] e by (auto split: option.splits)
qed

lemma map_of_type_references:
  "map_of (type_references S roots) n =
     (if n \<in> et_name ` fst ` set (traverse S roots)
      then Some (concat (map (\<lambda>(t, p). if et_name t = n then reference_of p else []) (traverse S roots)))
      else None)"
  by (simp add: type_references_def map_of_add_references)

text \<open>The document the index has for a type: it has the references of the traversal.\<close>

lemma find_documents:
  assumes "\<And>k rs. (k, rs) \<in> set m \<Longrightarrow> \<exists>t. map_of (schema_types S) k = Some t \<and> et_name t = k \<and> \<not> built_in_type S k"
  shows "map_option doc_references (List.find (\<lambda>d. doc_raw_type_name d = n)
      (filter_map (\<lambda>(n, rs). case map_of (schema_types S) n of
           None \<Rightarrow> None
         | Some t \<Rightarrow> if built_in_type S (et_name t) then None else Some (type_document snake t rs)) m)) = map_of m n"
  using assms
proof (induction m)
  case (Cons e m)
  obtain k rs where e: "e = (k, rs)" by (cases e)
  with Cons.prems[of k rs] obtain t where t: "map_of (schema_types S) k = Some t" "et_name t = k" "\<not> built_in_type S k"
    by auto
  have "map_option doc_references (List.find (\<lambda>d. doc_raw_type_name d = n)
      (filter_map (\<lambda>(n, rs). case map_of (schema_types S) n of
           None \<Rightarrow> None
         | Some t \<Rightarrow> if built_in_type S (et_name t) then None else Some (type_document snake t rs)) m)) = map_of m n"
    by (rule Cons.IH, rule Cons.prems[OF list.set_intros(2)])
  then show ?case by (simp add: e t type_document_def)
qed simp

lemma traverse_names:
  assumes "well_keyed S" "(t, p) \<in> set (traverse S roots)"
  shows "et_name t = last (path_types p)" "map_of (schema_types S) (et_name t) = Some t"
    "\<not> built_in_type S (et_name t)"
  using traverse_sound[OF assms(2)] well_keyed_type[OF assms(1)] by auto

definition traversed_references :: "schema \<Rightarrow> operation_type list \<Rightarrow> string \<Rightarrow> string list" where
  "traversed_references S roots n =
     concat (map (\<lambda>(t, p). if et_name t = n then reference_of p else []) (traverse S roots))"

lemma type_references_keys: "fst ` set (type_references S roots) = et_name ` fst ` set (traverse S roots)"
  unfolding dom_map_of_conv_image_fst[symmetric] dom_def map_of_type_references by simp

lemma index_document_references:
  assumes "well_keyed S"
  shows "map_option doc_references (List.find (\<lambda>d. doc_raw_type_name d = n) (index_documents snake S roots)) =
    (if n \<in> emitted (traverse S roots) then Some (traversed_references S roots n) else None)"
proof -
  have names: "et_name ` fst ` set (traverse S roots) = emitted (traverse S roots)"
    using traverse_names(1)[OF assms] by (force simp: emitted_def image_iff)
  have "\<exists>t. map_of (schema_types S) k = Some t \<and> et_name t = k \<and> \<not> built_in_type S k"
    if "(k, rs) \<in> set (type_references S roots)" for k rs
  proof -
    have "k \<in> et_name ` fst ` set (traverse S roots)"
      unfolding type_references_keys[symmetric] using that by force
    then obtain t p where "(t, p) \<in> set (traverse S roots)" "k = et_name t" by auto
    with traverse_names[OF assms this(1)] show ?thesis by auto
  qed
  from find_documents[OF this] show ?thesis
    unfolding index_documents_def by (simp add: map_of_type_references names traversed_references_def)
qed

lemma traversed_references_none: "n \<notin> emitted (traverse S roots) \<Longrightarrow> well_keyed S \<Longrightarrow> traversed_references S roots n = []"
  using traverse_names(1) by (force simp: traversed_references_def emitted_def)

section \<open>References are fields of the schema\<close>

definition graphql_names :: "schema \<Rightarrow> bool" where
  "graphql_names S \<longleftrightarrow>
     list_all (\<lambda>(k, t). graphql_name k \<and> list_all (\<lambda>(f, args, ty). named_reference (k, f, args)) (type_edges S t)) (schema_types S)"

lemma graphql_names_edge: "graphql_names S \<Longrightarrow> schema_edge S n (f, args, ty) \<Longrightarrow> named_reference (n, f, args)"
  by (fastforce simp: graphql_names_def schema_edge_def list_all_iff dest: map_of_SomeD)

lemma emitted_reference:
  assumes "(t, p) \<in> set (traverse S roots)" "referencing_type p = Some (P, f, args)"
  shows "schema_edge S P (f, args, last (path_types p))" "P \<in> emitted (traverse S roots)"
proof -
  have p: "root_path S roots p" using traverse_sound[OF assms(1)] by simp
  from p assms(2) obtain p' ty where p': "p = add_child p' f args ty" "root_path S roots p'"
      "schema_edge S (last (path_types p')) (f, args, ty)" "P = last (path_types p')"
    by (cases rule: root_path.cases) (auto simp: referencing_child)
  then show "schema_edge S P (f, args, last (path_types p))" by simp
  from root_path_reachable[OF p'(2)] p'(3,4) show "P \<in> emitted (traverse S roots)"
    by (simp add: traverse_visits schema_edge_indexable)
qed

lemma traversed_reference_cases:
  assumes "well_keyed S" "graphql_names S" "r \<in> set (traversed_references S roots n)"
  obtains P f args where "parse_reference r = (P, f, args)" "schema_edge S P (f, args, n)"
    "P \<in> emitted (traverse S roots)" "(P, n) \<in> path_references (traverse S roots)"
proof -
  from assms(3) obtain t p where tp: "(t, p) \<in> set (traverse S roots)" "et_name t = n" "r \<in> set (reference_of p)"
    by (auto simp: traversed_references_def split: if_splits)
  then obtain P f args where ref: "referencing_type p = Some (P, f, args)" "r = reference_string (P, f, args)"
    by (cases "referencing_type p") (auto simp: reference_of_def)
  have n: "n = last (path_types p)" using traverse_names(1)[OF assms(1) tp(1)] tp(2) by simp
  note edge = emitted_reference[OF tp(1) ref(1)]
  have "parse_reference r = (P, f, args)"
    using parse_reference_inverse[OF graphql_names_edge[OF assms(2) edge(1)]] ref(2) by simp
  moreover have "(P, n) \<in> path_references (traverse S roots)"
    using tp(1) ref(1) n by (force simp: path_references_def)
  ultimately show ?thesis using that edge n by simp
qed

text \<open>A type that the traversal reached and nothing refers to is a root type.\<close>

lemma unreferenced_root:
  assumes "well_keyed S" "n \<in> emitted (traverse S roots)" "traversed_references S roots n = []"
  shows "\<exists>ot \<in> set roots. root_operation S ot = Some n"
proof -
  obtain t p where tp: "(t, p) \<in> set (traverse S roots)" "n = last (path_types p)"
    using assms(2) by (auto simp: emitted_def)
  then have "reference_of p = []"
    using assms(3) traverse_names(1)[OF assms(1) tp(1)] by (auto simp: traversed_references_def)
  then have "referencing_type p = None" by (simp add: reference_of_def split: option.splits)
  moreover have "root_path S roots p" using traverse_sound[OF tp(1)] by simp
  then show ?thesis
    by cases (use calculation tp(2) in \<open>auto simp: referencing_child\<close>)
qed

lemma index_document_names:
  assumes "well_keyed S" "d \<in> set (index_documents snake S roots)"
  shows "doc_raw_type_name d \<in> emitted (traverse S roots)"
proof -
  have "doc_raw_type_name d \<in> doc_raw_type_name ` set (index_documents snake S roots)" using assms(2) by simp
  then have "List.find (\<lambda>d'. doc_raw_type_name d' = doc_raw_type_name d) (index_documents snake S roots) \<noteq> None"
    by (auto simp: find_None_iff)
  with index_document_references[OF assms(1), of "doc_raw_type_name d" snake roots] show ?thesis
    by (auto split: if_splits)
qed

lemma emitted_name:
  assumes "graphql_names S" "n \<in> emitted (traverse S roots)"
  shows "graphql_name n"
proof -
  obtain t p where "(t, p) \<in> set (traverse S roots)" "n = last (path_types p)"
    using assms(2) by (auto simp: emitted_def)
  with traverse_sound[OF this(1)] have "(n, t) \<in> set (schema_types S)" by (auto dest: map_of_SomeD)
  then show ?thesis using assms(1) by (auto simp: graphql_names_def list_all_iff)
qed

end
