(* ===== verification/Schema_Search.thy ===== *)
theory Schema_Search
  imports Schema_Index "HOL-Library.AList" "HOL-Library.Multiset"
begin

text \<open>
  Searching the index (crate \<open>apollo-schema-index\<close>, \<open>SchemaIndex::search\<close> of \<open>lib.rs\<close>): the types
  that match the terms, for each the paths up to the root types, found breadth first along the
  recorded references, then the boost of short paths and the order by score. The arithmetic of
  \<open>f32\<close>, the text analyzer and the engine that ranks documents are parameters.
\<close>

section \<open>Parameters\<close>

record 'f floats =
  f_add :: "'f \<Rightarrow> 'f \<Rightarrow> 'f"
  f_sub :: "'f \<Rightarrow> 'f \<Rightarrow> 'f"
  f_mul :: "'f \<Rightarrow> 'f \<Rightarrow> 'f"
  f_div :: "'f \<Rightarrow> 'f \<Rightarrow> 'f"
  f_eq :: "'f \<Rightarrow> 'f \<Rightarrow> bool"
  f_less :: "'f \<Rightarrow> 'f \<Rightarrow> bool"
  f_of_nat :: "nat \<Rightarrow> 'f"
  f_literal :: "string \<Rightarrow> 'f"

record 'f search_options =
  max_type_matches :: nat
  max_paths_per_type :: nat
  short_path_boost_factor :: 'f
  parent_match_boost_factor :: 'f

definition default_search_options :: "'f floats \<Rightarrow> 'f search_options" where
  "default_search_options F =
     \<lparr>max_type_matches = 10, max_paths_per_type = 3,
      short_path_boost_factor = f_literal F ''0.5'', parent_match_boost_factor = f_literal F ''0.2''\<rparr>"

datatype index_field = TypeNameField | DescriptionField | FieldsField

type_synonym search_error = string

text \<open>
  The engine after the documents were committed: opening a reader, the ranked documents for the
  terms of which one must match, and the first document whose raw type name is the given one.
\<close>

record 'f engine =
  reader :: "(search_error, unit) result"
  top_docs :: "nat \<Rightarrow> (index_field \<times> string) list \<Rightarrow> (search_error, ('f \<times> type_document) list) result"
  exact_type :: "string \<Rightarrow> (search_error, type_document option) result"

section \<open>The query\<close>

definition query_terms ::
    "(string \<Rightarrow> string) \<Rightarrow> (string \<Rightarrow> string list) \<Rightarrow> string list \<Rightarrow> (index_field \<times> string) list" where
  "query_terms snake analyze terms =
     concat (map (\<lambda>term.
       concat (map (\<lambda>token. [(TypeNameField, token), (DescriptionField, token), (FieldsField, token)])
         (analyze (expand_identifiers snake term)))) terms)"

section \<open>Paths to the roots\<close>

text \<open>
  The queue of one matching type: the score is one variable of the loop, to which every visited
  type adds its own. \<open>None\<close> is a loop that does not end.
\<close>

definition parent_paths :: "string list \<Rightarrow> string list \<Rightarrow> PathNode \<Rightarrow> PathNode list" where
  "parent_paths refs visited current =
     filter_map (\<lambda>ref_type. case parse_reference ref_type of (t, f, args) \<Rightarrow>
       if ref_type \<notin> set visited then Some (add_parent current f args t) else None) refs"

partial_function (option) root_paths_of ::
    "'f floats \<Rightarrow> 'f engine \<Rightarrow> 'f search_options \<Rightarrow> (string \<times> 'f) list \<Rightarrow> PathNode list \<Rightarrow> string list \<Rightarrow>
     nat \<Rightarrow> 'f \<Rightarrow> (PathNode \<times> 'f) list \<Rightarrow> (search_error, (PathNode \<times> 'f) list) result option" where
  "root_paths_of F E opts scores queue visited found_count score found =
     (case queue of
        [] \<Rightarrow> Some (Inr found)
      | current # rest \<Rightarrow>
          if max_paths_per_type opts \<le> found_count then Some (Inr found)
          else
            (case exact_type E (node_type current) of
               Inl e \<Rightarrow> Some (Inl e)
             | Inr d \<Rightarrow>
                 let visited' = node_type current # visited;
                     refs = (case d of Some doc \<Rightarrow> doc_references doc | None \<Rightarrow> []);
                     score' = (case map_of scores (node_type current) of
                         Some s \<Rightarrow> f_add F score (f_mul F (parent_match_boost_factor opts) s)
                       | None \<Rightarrow> score)
                 in if refs = []
                    then root_paths_of F E opts scores rest visited' (found_count + 1) score' (found @ [(current, score')])
                    else root_paths_of F E opts scores (rest @ parent_paths refs visited' current) visited'
                           found_count score' found))"

lemma root_paths_of_code [code]:
  "root_paths_of F E opts scores [] visited n score found = Some (Inr found)"
  "root_paths_of F E opts scores (current # rest) visited n score found =
     (if max_paths_per_type opts \<le> n then Some (Inr found)
      else
        (case exact_type E (node_type current) of
           Inl e \<Rightarrow> Some (Inl e)
         | Inr d \<Rightarrow>
             let visited' = node_type current # visited;
                 refs = (case d of Some doc \<Rightarrow> doc_references doc | None \<Rightarrow> []);
                 score' = (case map_of scores (node_type current) of
                     Some s \<Rightarrow> f_add F score (f_mul F (parent_match_boost_factor opts) s)
                   | None \<Rightarrow> score)
             in if refs = []
                then root_paths_of F E opts scores rest visited' (n + 1) score' (found @ [(current, score')])
                else root_paths_of F E opts scores (rest @ parent_paths refs visited' current) visited'
                       n score' found))"
  by (subst root_paths_of.simps, simp)+

fun paths_of_types ::
    "'f floats \<Rightarrow> 'f engine \<Rightarrow> 'f search_options \<Rightarrow> (string \<times> 'f) list \<Rightarrow> (string \<times> 'f) list \<Rightarrow>
     (PathNode \<times> 'f) list \<Rightarrow> (search_error, (PathNode \<times> 'f) list) result option" where
  "paths_of_types F E opts scores [] found = Some (Inr found)"
| "paths_of_types F E opts scores ((n, s) # types) found =
     (case root_paths_of F E opts scores [path_new n] [] 0 s found of
        None \<Rightarrow> None
      | Some (Inl e) \<Rightarrow> Some (Inl e)
      | Some (Inr found') \<Rightarrow> paths_of_types F E opts scores types found')"

section \<open>Ranking\<close>

definition boost_shorter_paths :: "'f floats \<Rightarrow> (PathNode \<times> 'f) list \<Rightarrow> 'f \<Rightarrow> (PathNode \<times> 'f) list" where
  "boost_shorter_paths F paths boost =
     (if paths = [] \<or> f_eq F boost (f_literal F ''0'') then paths
      else
        let lengths = map (\<lambda>(p, s). path_len p) paths;
            min_length = Min (set lengths);
            max_length = Max (set lengths)
        in if max_length \<le> min_length then paths
           else map (\<lambda>(p, s).
             let normalized = f_div F (f_of_nat F (path_len p - min_length)) (f_of_nat F (max_length - min_length));
                 length_boost = f_sub F (f_literal F ''1.0'') normalized
             in (p, f_mul F s (f_add F (f_literal F ''1.0'') (f_mul F boost length_boost)))) paths)"

text \<open>The stable sort by descending score, scores that do not compare counting as equal.\<close>

fun insert_by_score :: "'f floats \<Rightarrow> PathNode \<times> 'f \<Rightarrow> (PathNode \<times> 'f) list \<Rightarrow> (PathNode \<times> 'f) list" where
  "insert_by_score F x [] = [x]"
| "insert_by_score F x (y # ys) = (if f_less F (snd x) (snd y) then y # insert_by_score F x ys else x # y # ys)"

definition sort_by_score :: "'f floats \<Rightarrow> (PathNode \<times> 'f) list \<Rightarrow> (PathNode \<times> 'f) list" where
  "sort_by_score F paths = foldr (insert_by_score F) paths []"

section \<open>The search\<close>

definition score_types :: "('f \<times> type_document) list \<Rightarrow> (string \<times> 'f) list" where
  "score_types docs = foldl (\<lambda>m (score, doc). AList.update (doc_raw_type_name doc) score m) [] docs"

definition schema_search ::
    "(string \<Rightarrow> string) \<Rightarrow> (string \<Rightarrow> string list) \<Rightarrow> 'f floats \<Rightarrow> 'f engine \<Rightarrow> 'f search_options \<Rightarrow> string list \<Rightarrow>
     (search_error, (PathNode \<times> 'f) list) result option" where
  "schema_search snake analyze F E opts terms =
     (case reader E of
        Inl e \<Rightarrow> Some (Inl e)
      | Inr _ \<Rightarrow>
          (case top_docs E 100 (query_terms snake analyze terms) of
             Inl e \<Rightarrow> Some (Inl e)
           | Inr docs \<Rightarrow>
               let scores = score_types docs
               in (case paths_of_types F E opts scores (take (max_type_matches opts) scores) [] of
                     None \<Rightarrow> None
                   | Some (Inl e) \<Rightarrow> Some (Inl e)
                   | Some (Inr paths) \<Rightarrow>
                       Some (Inr (sort_by_score F
                         (boost_shorter_paths F paths (short_path_boost_factor opts)))))))"

section \<open>The loop along the references\<close>

definition refs_of :: "'f engine \<Rightarrow> string \<Rightarrow> string list" where
  "refs_of E n = (case exact_type E n of Inr (Some d) \<Rightarrow> doc_references d | _ \<Rightarrow> [])"

definition refers_to :: "'f engine \<Rightarrow> (string \<times> string) set" where
  "refers_to E = {(P, n). \<exists>r \<in> set (refs_of E n). P = fst (parse_reference r)}"

inductive climbs :: "'f engine \<Rightarrow> PathNode \<Rightarrow> PathNode \<Rightarrow> bool" for E q where
  here: "climbs E q q"
| up: "climbs E q p \<Longrightarrow> r \<in> set (refs_of E (node_type p)) \<Longrightarrow> parse_reference r = (t, f, args) \<Longrightarrow>
    climbs E q (add_parent p f args t)"

lemma climbs_trans: "climbs E p p' \<Longrightarrow> climbs E q p \<Longrightarrow> climbs E q p'"
  by (induction rule: climbs.induct) (auto intro: climbs.up)

lemma node_type_parent [simp]: "node_type (add_parent p f args t) = t"
  by (simp add: add_parent_def)

lemma set_parent_paths:
  "set (parent_paths refs visited current) =
     {add_parent current f args t | r f args t. r \<in> set refs \<and> r \<notin> set visited \<and> parse_reference r = (t, f, args)}"
proof -
  have "(case parse_reference r of (t, f, args) \<Rightarrow>
        if r \<notin> set visited then Some (add_parent current f args t) else None) = Some p \<longleftrightarrow>
      (\<exists>f args t. r \<notin> set visited \<and> parse_reference r = (t, f, args) \<and> p = add_parent current f args t)" for r p
    by (cases "parse_reference r") auto
  then show ?thesis by (auto simp: parent_paths_def set_filter_map)
qed

lemma parent_paths_climb:
  assumes "p \<in> set (parent_paths (refs_of E (node_type current)) visited current)"
  shows "climbs E current p" "(node_type p, node_type current) \<in> refers_to E"
proof -
  obtain r t f args where r: "r \<in> set (refs_of E (node_type current))" "parse_reference r = (t, f, args)"
      "p = add_parent current f args t"
    using assms by (auto simp: set_parent_paths)
  from climbs.up[OF climbs.here r(1,2)] show "climbs E current p" by (simp add: r(3))
  show "(node_type p, node_type current) \<in> refers_to E"
    using r by (auto simp: refers_to_def intro!: bexI[of _ r])
qed

lemma parent_paths_all:
  assumes "P = fst (parse_reference r)" "r \<in> set refs" "\<forall>v \<in> set visited. CHR ''#'' \<notin> set v"
  shows "P \<in> set visited \<union> node_type ` set (parent_paths refs visited current)"
proof (cases "r \<in> set visited")
  case True
  then have "parse_reference r = (r, None, [])" using assms(3) by (simp add: parse_reference_def)
  with True assms(1) show ?thesis by simp
next
  case False
  obtain t f args where r: "parse_reference r = (t, f, args)" by (cases "parse_reference r")
  then have "add_parent current f args t \<in> set (parent_paths refs visited current)"
    using False assms(2) by (auto simp: set_parent_paths)
  then have "t \<in> node_type ` set (parent_paths refs visited current)" by (metis image_eqI node_type_parent)
  then show ?thesis using assms(1) r by simp
qed

lemma parse_reference_no_mark: "CHR ''#'' \<notin> set (fst (parse_reference r))"
  by (auto simp: parse_reference_def split: prod.splits option.splits dest: split_first_parts)

lemma parent_paths_no_mark:
  assumes "p \<in> set (parent_paths refs visited current)"
  shows "CHR ''#'' \<notin> set (node_type p)"
proof -
  obtain r t f args where "parse_reference r = (t, f, args)" "p = add_parent current f args t"
    using assms by (auto simp: set_parent_paths)
  then show ?thesis using parse_reference_no_mark[of r] by simp
qed

text \<open>
  Every type that was visited without finding a path has its referencing types visited or waiting.
\<close>

definition pending :: "'f engine \<Rightarrow> PathNode list \<Rightarrow> string list \<Rightarrow> bool" where
  "pending E queue visited \<longleftrightarrow>
     (\<forall>v \<in> set visited. refs_of E v \<noteq> [] \<and>
        (\<forall>r \<in> set (refs_of E v). fst (parse_reference r) \<in> set visited \<union> node_type ` set queue)) \<and>
     (\<forall>v \<in> set visited \<union> node_type ` set queue. CHR ''#'' \<notin> set v)"

lemma pending_step:
  assumes "pending E (current # rest) visited" "refs_of E (node_type current) \<noteq> []"
  shows "pending E (rest @ parent_paths (refs_of E (node_type current)) (node_type current # visited) current)
    (node_type current # visited)"
proof -
  have marks: "\<forall>v \<in> set (node_type current # visited). CHR ''#'' \<notin> set v"
    using assms(1) by (auto simp: pending_def)
  have own: "fst (parse_reference r) \<in> set (node_type current # visited) \<union>
      node_type ` set (parent_paths (refs_of E (node_type current)) (node_type current # visited) current)"
    if "r \<in> set (refs_of E (node_type current))" for r
    by (rule parent_paths_all[OF refl that marks])
  show ?thesis
    using assms marks own parent_paths_no_mark by (fastforce simp: pending_def)
qed

lemma pending_stuck:
  assumes "wf (refers_to E)" "pending E [] visited"
  shows "visited = []"
proof (rule ccontr)
  assume "visited \<noteq> []"
  then obtain v where v: "v \<in> set visited" "\<And>P. (P, v) \<in> refers_to E \<Longrightarrow> P \<notin> set visited"
    using wfE_min[OF assms(1), of _ "set visited"] by (metis list.set_intros(1) neq_Nil_conv)
  then obtain r where "r \<in> set (refs_of E v)" "fst (parse_reference r) \<in> set visited"
    using assms(2) by (fastforce simp: pending_def neq_Nil_conv)
  with v(2) show False by (auto simp: refers_to_def)
qed

text \<open>The multiset of the types in the queue gets smaller when one is replaced by types that refer to it.\<close>

lemma queue_shrinks:
  assumes "\<And>p. p \<in> set new \<Longrightarrow> (node_type p, node_type current) \<in> R"
  shows "(image_mset node_type (mset (rest @ new)), image_mset node_type (mset (current # rest))) \<in> mult R"
proof -
  have "(image_mset node_type (mset rest) + image_mset node_type (mset new),
      image_mset node_type (mset rest) + {#node_type current#}) \<in> mult R"
    by (rule one_step_implies_mult) (use assms in auto)
  then show ?thesis by simp
qed

definition engine_answers :: "'f engine \<Rightarrow> bool" where
  "engine_answers E \<longleftrightarrow> (\<forall>n. \<exists>d. exact_type E n = Inr d)"

definition found_ok :: "'f engine \<Rightarrow> PathNode list \<Rightarrow> (PathNode \<times> 'f) list \<Rightarrow> bool" where
  "found_ok E queue new \<longleftrightarrow>
     (\<forall>(p, s) \<in> set new. refs_of E (node_type p) = [] \<and> (\<exists>q \<in> set queue. climbs E q p))"

lemma root_paths_of_returns:
  assumes wf: "wf (refers_to E)" and answers: "engine_answers E"
  shows "\<exists>new. root_paths_of F E opts scores queue visited n score found = Some (Inr (found @ new)) \<and>
    length new \<le> max_paths_per_type opts - n \<and> found_ok E queue new \<and>
    (pending E queue visited \<longrightarrow> queue \<noteq> [] \<or> visited \<noteq> [] \<longrightarrow> n < max_paths_per_type opts \<longrightarrow> new \<noteq> [])"
  using wf_mult[OF wf]
proof (induction "image_mset node_type (mset queue)" arbitrary: queue visited n score found rule: wf_induct_rule)
  case less
  show ?case
  proof (cases queue)
    case Nil
    then show ?thesis
      using pending_stuck[OF wf, of visited] by (simp add: root_paths_of.simps found_ok_def)
  next
    case (Cons current rest)
    show ?thesis
    proof (cases "max_paths_per_type opts \<le> n")
      case True
      then show ?thesis using Cons by (simp add: root_paths_of.simps found_ok_def)
    next
      case more: False
      obtain d where d: "exact_type E (node_type current) = Inr d"
        using answers by (auto simp: engine_answers_def)
      let ?refs = "refs_of E (node_type current)"
      let ?visited = "node_type current # visited"
      let ?new = "parent_paths ?refs ?visited current"
      define score' where "score' = (case map_of scores (node_type current) of
          Some s \<Rightarrow> f_add F score (f_mul F (parent_match_boost_factor opts) s) | None \<Rightarrow> score)"
      have refs: "(case d of Some doc \<Rightarrow> doc_references doc | None \<Rightarrow> []) = ?refs"
        by (simp add: refs_of_def d split: option.splits)
      have step: "root_paths_of F E opts scores queue visited n score found =
          (if ?refs = [] then root_paths_of F E opts scores rest ?visited (n + 1) score' (found @ [(current, score')])
           else root_paths_of F E opts scores (rest @ ?new) ?visited n score' found)"
        using more by (subst root_paths_of.simps) (simp add: Cons d refs score'_def[symmetric] Let_def)
      show ?thesis
      proof (cases "?refs = []")
        case True
        have "(image_mset node_type (mset rest), image_mset node_type (mset queue)) \<in> mult (refers_to E)"
          using queue_shrinks[of "[]" current "refers_to E" rest] Cons by simp
        from less[OF this, of ?visited "n + 1" score' "found @ [(current, score')]"] obtain new where
          new: "root_paths_of F E opts scores rest ?visited (n + 1) score' (found @ [(current, score')]) =
              Some (Inr ((found @ [(current, score')]) @ new))"
            "length new \<le> max_paths_per_type opts - (n + 1)" "found_ok E rest new"
          by blast
        have "root_paths_of F E opts scores queue visited n score found =
            Some (Inr (found @ (current, score') # new))"
          using step new(1) True by simp
        moreover have "found_ok E queue ((current, score') # new)"
          using new(3) True climbs.here[of E current] by (auto simp: found_ok_def Cons)
        moreover have "length ((current, score') # new) \<le> max_paths_per_type opts - n"
          using new(2) more by simp
        ultimately show ?thesis by blast
      next
        case False
        have "(image_mset node_type (mset (rest @ ?new)), image_mset node_type (mset queue)) \<in> mult (refers_to E)"
          unfolding Cons by (rule queue_shrinks) (rule parent_paths_climb(2))
        from less[OF this, of ?visited n score' found] obtain new where
          new: "root_paths_of F E opts scores (rest @ ?new) ?visited n score' found = Some (Inr (found @ new))"
            "length new \<le> max_paths_per_type opts - n" "found_ok E (rest @ ?new) new"
            "pending E (rest @ ?new) ?visited \<longrightarrow> n < max_paths_per_type opts \<longrightarrow> new \<noteq> []"
          by blast
        have "found_ok E queue new"
          using new(3) climbs_trans parent_paths_climb(1)
          by (fastforce simp: found_ok_def Cons)
        moreover have "root_paths_of F E opts scores queue visited n score found = Some (Inr (found @ new))"
          using step new(1) False by simp
        moreover have "pending E queue visited \<longrightarrow> n < max_paths_per_type opts \<longrightarrow> new \<noteq> []"
          using new(4) pending_step[OF _ False] Cons by blast
        ultimately show ?thesis using new(2) by blast
      qed
    qed
  qed
qed

section \<open>All matching types\<close>

definition types_ok :: "'f engine \<Rightarrow> 'f search_options \<Rightarrow> (string \<times> 'f) list \<Rightarrow> (PathNode \<times> 'f) list list \<Rightarrow> bool" where
  "types_ok E opts types news \<longleftrightarrow> list_all2 (\<lambda>(n, s) new.
     length new \<le> max_paths_per_type opts \<and> found_ok E [path_new n] new \<and>
     (CHR ''#'' \<notin> set n \<longrightarrow> 0 < max_paths_per_type opts \<longrightarrow> new \<noteq> [])) types news"

lemma paths_of_types_returns:
  assumes "wf (refers_to E)" "engine_answers E"
  shows "\<exists>news. paths_of_types F E opts scores types found = Some (Inr (found @ concat news)) \<and> types_ok E opts types news"
proof (induction types arbitrary: found)
  case Nil
  then show ?case by (simp add: types_ok_def)
next
  case (Cons e types)
  obtain n s where e: "e = (n, s)" by (cases e)
  obtain new where new: "root_paths_of F E opts scores [path_new n] [] 0 s found = Some (Inr (found @ new))"
      "length new \<le> max_paths_per_type opts" "found_ok E [path_new n] new"
      "pending E [path_new n] [] \<longrightarrow> 0 < max_paths_per_type opts \<longrightarrow> new \<noteq> []"
    using root_paths_of_returns[OF assms, of F opts scores "[path_new n]" "[]" 0 s found] by auto
  obtain news where news: "paths_of_types F E opts scores types (found @ new) = Some (Inr ((found @ new) @ concat news))"
      "types_ok E opts types news"
    using Cons[of "found @ new"] by blast
  have "types_ok E opts (e # types) (new # news)"
    using new news(2) by (simp add: e types_ok_def pending_def path_new_def)
  then show ?case using new(1) news(1) e by (intro exI[of _ "new # news"]) simp
qed

lemma boost_keeps_paths [simp]: "map fst (boost_shorter_paths F paths boost) = map fst paths"
  by (simp add: boost_shorter_paths_def Let_def comp_def case_prod_beta)

lemma insert_by_score_mset [simp]: "mset (insert_by_score F x ys) = add_mset x (mset ys)"
  by (induction ys) auto

lemma sort_by_score_mset [simp]: "mset (sort_by_score F paths) = mset paths"
proof -
  have "mset (foldr (insert_by_score F) paths acc) = mset paths + mset acc" for acc
    by (induction paths) auto
  then show ?thesis by (simp add: sort_by_score_def)
qed

lemma ranked_paths:
  "image_mset fst (mset (sort_by_score F (boost_shorter_paths F paths boost))) = image_mset fst (mset paths)"
  by (metis boost_keeps_paths mset_map sort_by_score_mset)

text \<open>The order of the result, for scores on which the comparison is a weak order (no NaN).\<close>

definition weak_order :: "'f floats \<Rightarrow> bool" where
  "weak_order F \<longleftrightarrow> (\<forall>a b. f_less F a b \<longrightarrow> \<not> f_less F b a) \<and>
     (\<forall>a b c. \<not> f_less F a b \<longrightarrow> \<not> f_less F b c \<longrightarrow> \<not> f_less F a c)"

lemma insert_by_score_sorted:
  assumes "weak_order F" "sorted_wrt (\<lambda>x y. \<not> f_less F (snd x) (snd y)) ys"
  shows "sorted_wrt (\<lambda>x y. \<not> f_less F (snd x) (snd y)) (insert_by_score F x ys)"
  using assms(2)
proof (induction ys)
  case (Cons y ys)
  have set: "set (insert_by_score F x ys) = insert x (set ys)"
    by (metis insert_by_score_mset set_mset_add_mset_insert set_mset_mset)
  show ?case
  proof (cases "f_less F (snd x) (snd y)")
    case True
    with assms(1) have "\<not> f_less F (snd y) (snd x)" unfolding weak_order_def by blast
    then show ?thesis using Cons True set by simp
  next
    case False
    have "\<not> f_less F (snd x) (snd z)" if "z \<in> set ys" for z
    proof -
      have "\<not> f_less F (snd y) (snd z)" using Cons.prems that by simp
      with False assms(1) show ?thesis unfolding weak_order_def by blast
    qed
    then show ?thesis using Cons.prems False by simp
  qed
qed simp

lemma sort_by_score_sorted:
  "weak_order F \<Longrightarrow> sorted_wrt (\<lambda>x y. \<not> f_less F (snd x) (snd y)) (sort_by_score F paths)"
proof -
  assume F: "weak_order F"
  have "sorted_wrt (\<lambda>x y. \<not> f_less F (snd x) (snd y)) (foldr (insert_by_score F) paths [])"
    by (induction paths) (simp_all add: insert_by_score_sorted[OF F])
  then show ?thesis by (simp add: sort_by_score_def)
qed

section \<open>The search on an index\<close>

text \<open>
  What the search relies on the engine for: it answers, exactly with the first document of a name,
  and ranks only documents it was given, no more of them than asked for.
\<close>

definition engine_of_index :: "'f engine \<Rightarrow> type_document list \<Rightarrow> bool" where
  "engine_of_index E docs \<longleftrightarrow>
     reader E = Inr () \<and>
     (\<forall>n. exact_type E n = Inr (List.find (\<lambda>d. doc_raw_type_name d = n) docs)) \<and>
     (\<forall>k q. \<exists>ds. top_docs E k q = Inr ds \<and> length ds \<le> k \<and> snd ` set ds \<subseteq> set docs)"

fun schema_chain :: "schema \<Rightarrow> PathNode \<Rightarrow> bool" where
  "schema_chain S (PathNode t f a (Some c)) \<longleftrightarrow> schema_edge S t (f, a, node_type c) \<and> schema_chain S c"
| "schema_chain S (PathNode t f a None) \<longleftrightarrow> f = None \<and> a = []"

text \<open>A schema whose names are names, with an engine that holds its index.\<close>

definition indexed :: "(string \<Rightarrow> string) \<Rightarrow> schema \<Rightarrow> operation_type list \<Rightarrow> 'f engine \<Rightarrow> bool" where
  "indexed snake S roots E \<longleftrightarrow>
     well_keyed S \<and> graphql_names S \<and> engine_of_index E (index_documents snake S roots)"

lemma refs_of_index:
  assumes "indexed snake S roots E"
  shows "refs_of E n = traversed_references S roots n"
proof -
  define d where "d = List.find (\<lambda>d. doc_raw_type_name d = n) (index_documents snake S roots)"
  have keyed: "well_keyed S" using assms by (simp add: indexed_def)
  have refs: "refs_of E n = (case d of Some d \<Rightarrow> doc_references d | None \<Rightarrow> [])"
    using assms by (simp add: indexed_def engine_of_index_def refs_of_def d_def)
  have "map_option doc_references d =
      (if n \<in> emitted (traverse S roots) then Some (traversed_references S roots n) else None)"
    unfolding d_def by (rule index_document_references[OF keyed])
  with refs show ?thesis
    using traversed_references_none[OF _ keyed, of n roots] by (cases d) (auto split: if_splits)
qed

lemma index_answers: "indexed snake S roots E \<Longrightarrow> engine_answers E"
  by (simp add: indexed_def engine_of_index_def engine_answers_def)

lemma index_reference:
  assumes "indexed snake S roots E" "r \<in> set (refs_of E n)" "parse_reference r = (P, f, args)"
  shows "schema_edge S P (f, args, n)" "P \<in> emitted (traverse S roots)" "(P, n) \<in> path_references (traverse S roots)"
proof -
  have "r \<in> set (traversed_references S roots n)" using assms(2) by (simp add: refs_of_index[OF assms(1)])
  then have "schema_edge S P (f, args, n) \<and> P \<in> emitted (traverse S roots) \<and> (P, n) \<in> path_references (traverse S roots)"
    by (rule traversed_reference_cases[rotated 2]) (use assms(1,3) in \<open>auto simp: indexed_def\<close>)
  then show "schema_edge S P (f, args, n)" "P \<in> emitted (traverse S roots)" "(P, n) \<in> path_references (traverse S roots)"
    by simp_all
qed

lemma refers_to_index:
  assumes "indexed snake S roots E"
  shows "refers_to E \<subseteq> path_references (traverse S roots)"
proof
  fix e assume "e \<in> refers_to E"
  then obtain P n r where "e = (P, n)" "r \<in> set (refs_of E n)" "P = fst (parse_reference r)"
    by (auto simp: refers_to_def)
  with index_reference(3)[OF assms this(2)] show "e \<in> path_references (traverse S roots)"
    by (cases "parse_reference r") simp
qed

lemma acyclic_index: "indexed snake S roots E \<Longrightarrow> acyclic (refers_to E)"
  by (rule acyclic_subset[OF references_acyclic refers_to_index])

lemma wf_index:
  assumes "indexed snake S roots E"
  shows "wf (refers_to E)"
proof (rule finite_acyclic_wf[OF _ acyclic_index[OF assms]])
  have "path_references out \<subseteq> (\<lambda>(t, p). (fst (the (referencing_type p)), last (path_types p))) ` set out" for out
    by (force simp: path_references_def)
  then show "finite (refers_to E)"
    using refers_to_index[OF assms] by (meson finite_imageI List.finite_set finite_subset)
qed

text \<open>A path found on the way up is a path down the schema, without a repeated type.\<close>

definition found_path :: "schema \<Rightarrow> operation_type list \<Rightarrow> 'f engine \<Rightarrow> string \<Rightarrow> PathNode \<Rightarrow> bool" where
  "found_path S roots E n p \<longleftrightarrow>
     schema_chain S p \<and> last (path_types p) = n \<and> node_type p \<in> emitted (traverse S roots) \<and>
     \<not> has_cycle p \<and> (\<forall>x \<in> set (path_types p). (node_type p, x) \<in> (refers_to E)\<^sup>*)"

lemma climbs_found:
  assumes ix: "indexed snake S roots E"
  shows "climbs E (path_new n) p \<Longrightarrow> n \<in> emitted (traverse S roots) \<Longrightarrow> found_path S roots E n p"
proof (induction rule: climbs.induct)
  case here
  then show ?case by (simp add: found_path_def path_new_def has_cycle_iff)
next
  case (up p r t f args)
  from up have p: "found_path S roots E n p" by simp
  note t = index_reference[OF ix up(2,3)]
  have step: "(t, node_type p) \<in> refers_to E" using up(2,3) by (force simp: refers_to_def)
  have "t \<notin> set (path_types p)"
  proof
    assume "t \<in> set (path_types p)"
    then have "(node_type p, t) \<in> (refers_to E)\<^sup>*" using p by (simp add: found_path_def)
    with step have "(t, t) \<in> (refers_to E)\<^sup>+" by (rule rtrancl_into_trancl2)
    with acyclic_index[OF ix] show False by (simp add: acyclic_def)
  qed
  then show ?case
    using p t step by (auto simp: found_path_def has_cycle_iff add_parent_def intro: converse_rtrancl_into_rtrancl)
qed

lemma schema_chain_root:
  assumes "indexed snake S roots E" "found_path S roots E n p" "refs_of E (node_type p) = []"
  shows "\<exists>ot \<in> set roots. root_operation S ot = Some (node_type p)"
  using assms unreferenced_root[of S "node_type p" roots]
  by (simp add: refs_of_index[OF assms(1)] indexed_def found_path_def)

lemma score_types_keys: "fst ` set (score_types docs) \<subseteq> (\<lambda>(s, d). doc_raw_type_name d) ` set docs"
proof -
  have "fst ` set (AList.update k v m) = insert k (fst ` set m)" for k :: string and v :: 'a and m
    by (simp only: dom_map_of_conv_image_fst[symmetric] update_conv' dom_fun_upd) simp
  then have "fst ` set (foldl (\<lambda>m (score, doc). AList.update (doc_raw_type_name doc) score m) m docs) =
      fst ` set m \<union> (\<lambda>(s, d). doc_raw_type_name d) ` set docs" for m :: "(string \<times> 'a) list"
    by (induction docs arbitrary: m) (simp_all add: case_prod_beta)
  from this[of "[]"] show ?thesis by (simp add: score_types_def)
qed

lemma matched_indexed:
  assumes ix: "indexed snake S roots E" and docs: "top_docs E k q = Inr docs" and n: "n \<in> fst ` set (take m (score_types docs))"
  shows "n \<in> emitted (traverse S roots)" "CHR ''#'' \<notin> set n"
proof -
  have "n \<in> fst ` set (score_types docs)" using n by (auto dest: in_set_takeD)
  then have "n \<in> (\<lambda>(s, d). doc_raw_type_name d) ` set docs" using score_types_keys by blast
  then obtain s d where d: "(s, d) \<in> set docs" "n = doc_raw_type_name d" by auto
  have "\<exists>ds. top_docs E k q = Inr ds \<and> length ds \<le> k \<and> snd ` set ds \<subseteq> set (index_documents snake S roots)"
    using ix unfolding indexed_def engine_of_index_def by blast
  then have "d \<in> set (index_documents snake S roots)" using d(1) docs by force
  then show emitted: "n \<in> emitted (traverse S roots)"
    using index_document_names ix d(2) by (simp add: indexed_def)
  show "CHR ''#'' \<notin> set n" using emitted_name[OF _ emitted] ix by (simp add: indexed_def)
qed

text \<open>The parts of the result: one list per matching type, in the order of the matches.\<close>

lemma types_ok_parts:
  assumes "types_ok E opts types news" "(p, s) \<in> set (concat news)"
  obtains n where "n \<in> fst ` set types" "climbs E (path_new n) p" "refs_of E (node_type p) = []"
proof -
  obtain new where "new \<in> set news" "(p, s) \<in> set new" using assms(2) by auto
  then obtain i where i: "i < length news" "new = news ! i" by (auto simp: in_set_conv_nth)
  then have "i < length types" using assms(1) by (simp add: types_ok_def list_all2_lengthD[symmetric])
  moreover obtain n s' where "types ! i = (n, s')" by (cases "types ! i")
  moreover have "found_ok E [path_new n] new"
    using assms(1) i calculation(2) by (auto simp: types_ok_def list_all2_conv_all_nth)
  moreover have "n \<in> fst ` set types" using calculation by (metis fst_conv image_eqI nth_mem)
  moreover have "climbs E (path_new n) p \<and> refs_of E (node_type p) = []"
    using calculation(3) \<open>(p, s) \<in> set new\<close> by (auto simp: found_ok_def)
  ultimately show ?thesis using that by blast
qed

lemma types_ok_length: "types_ok E opts types news \<Longrightarrow> length (concat news) \<le> length types * max_paths_per_type opts"
  unfolding types_ok_def by (induction rule: list_all2_induct) auto

lemma types_ok_each:
  assumes "types_ok E opts types news" "n \<in> fst ` set types" "CHR ''#'' \<notin> set n" "0 < max_paths_per_type opts"
  shows "\<exists>p s. (p, s) \<in> set (concat news) \<and> climbs E (path_new n) p"
  using assms(1,2) unfolding types_ok_def
proof (induction rule: list_all2_induct)
  case (Cons e types new news)
  show ?case
  proof (cases "n = fst e")
    case True
    obtain s' where "e = (n, s')" using True by (cases e) simp
    with Cons assms(3,4) have "new \<noteq> []" "found_ok E [path_new n] new" by auto
    then obtain p s where "(p, s) \<in> set new" "climbs E (path_new n) p"
      by (cases new; cases "hd new") (auto simp: found_ok_def)
    then show ?thesis by auto
  next
    case False
    with Cons show ?thesis by auto
  qed
qed simp

lemma emitted_indexable: "n \<in> emitted (traverse S roots) \<Longrightarrow> indexable S n"
  by (auto simp: emitted_def indexable_def dest: traverse_sound)

lemma search_root_paths:
  assumes ix: "indexed snake S roots E" and limit: "0 < max_paths_per_type opts"
  shows "\<exists>docs paths.
    top_docs E 100 (query_terms snake analyze terms) = Inr docs \<and>
    schema_search snake analyze F E opts terms = Some (Inr paths) \<and>
    length paths \<le> max_type_matches opts * max_paths_per_type opts \<and>
    (let matches = fst ` set (take (max_type_matches opts) (score_types docs)) in
      matches \<subseteq> (\<lambda>(p, s). last (path_types p)) ` set paths \<and>
      (\<forall>(p, s) \<in> set paths. last (path_types p) \<in> matches \<and> indexable S (last (path_types p)) \<and> schema_chain S p \<and> \<not> has_cycle p \<and>
         (\<exists>ot \<in> set roots. root_operation S ot = Some (node_type p))))"
proof -
  obtain docs where docs: "top_docs E 100 (query_terms snake analyze terms) = Inr docs" and reader: "reader E = Inr ()"
    using ix unfolding indexed_def engine_of_index_def by blast
  define types where "types = take (max_type_matches opts) (score_types docs)"
  obtain news where news: "paths_of_types F E opts (score_types docs) types [] = Some (Inr (concat news))"
      "types_ok E opts types news"
    using paths_of_types_returns[OF wf_index[OF ix] index_answers[OF ix], of F opts "score_types docs" types "[]"] by auto
  define paths where "paths = sort_by_score F (boost_shorter_paths F (concat news) (short_path_boost_factor opts))"
  have same: "image_mset fst (mset paths) = image_mset fst (mset (concat news))"
    unfolding paths_def by (rule ranked_paths)
  have firsts: "fst ` set paths = fst ` set (concat news)"
    using arg_cong[OF same, of set_mset] by simp
  then have earlier: "\<exists>s'. (p, s') \<in> set (concat news)" if "(p, s) \<in> set paths" for p s
  proof -
    have "p \<in> fst ` set (concat news)" unfolding firsts[symmetric] using that by force
    then show ?thesis by force
  qed
  have forth: "\<exists>s'. (p, s') \<in> set paths" if "(p, s) \<in> set (concat news)" for p s
  proof -
    have "p \<in> fst ` set paths" unfolding firsts using that by force
    then show ?thesis by force
  qed
  have good: "last (path_types p) \<in> fst ` set types \<and> indexable S (last (path_types p)) \<and> schema_chain S p \<and> \<not> has_cycle p \<and>
      (\<exists>ot \<in> set roots. root_operation S ot = Some (node_type p))" if found: "(p, s) \<in> set paths" for p s
  proof -
    obtain s' where "(p, s') \<in> set (concat news)" using earlier[OF found] by blast
    then obtain n where n: "n \<in> fst ` set types" "climbs E (path_new n) p" "refs_of E (node_type p) = []"
      by (rule types_ok_parts[OF news(2)])
    from climbs_found[OF ix n(2) matched_indexed(1)[OF ix docs n(1)[unfolded types_def]]]
    have p: "found_path S roots E n p" .
    have "indexable S n"
      using emitted_indexable[OF matched_indexed(1)[OF ix docs n(1)[unfolded types_def]]] .
    with schema_chain_root[OF ix p n(3)] p n(1) show ?thesis by (simp add: found_path_def)
  qed
  have each: "n \<in> (\<lambda>(p, s). last (path_types p)) ` set paths" if n: "n \<in> fst ` set types" for n
  proof -
    note match = matched_indexed[OF ix docs n[unfolded types_def]]
    obtain p s where p: "(p, s) \<in> set (concat news)" "climbs E (path_new n) p"
      using types_ok_each[OF news(2) n match(2) limit] by blast
    then have "last (path_types p) = n" using climbs_found[OF ix p(2) match(1)] by (simp add: found_path_def)
    with forth[OF p(1)] show ?thesis by force
  qed
  have "length paths = length (concat news)" using arg_cong[OF same, of size] by simp
  also have "\<dots> \<le> length types * max_paths_per_type opts" by (rule types_ok_length[OF news(2)])
  also have "\<dots> \<le> max_type_matches opts * max_paths_per_type opts" by (simp add: types_def)
  finally have "length paths \<le> max_type_matches opts * max_paths_per_type opts" .
  moreover have "schema_search snake analyze F E opts terms = Some (Inr paths)"
    using docs reader news(1) by (simp add: schema_search_def types_def paths_def Let_def)
  moreover have "fst ` set types \<subseteq> (\<lambda>(p, s). last (path_types p)) ` set paths" using each by blast
  moreover have "\<forall>(p, s) \<in> set paths. last (path_types p) \<in> fst ` set types \<and> indexable S (last (path_types p)) \<and> schema_chain S p \<and> \<not> has_cycle p \<and>
      (\<exists>ot \<in> set roots. root_operation S ot = Some (node_type p))"
    using good by blast
  ultimately show ?thesis
    using docs unfolding types_def Let_def by blast
qed

text \<open>
  C12: The search for types always returns. Each of the best matches, up to the limit, appears in
  the result at the end of a path, with no more paths in all than the limits allow. Every path
  returned starts at a root type of the index, follows fields, members and implementations of the
  schema, repeats no type and ends at a match.
\<close>

theorem search_returns_root_paths:
  assumes ix: "indexed snake S roots E" and limit: "0 < max_paths_per_type opts"
  shows "\<exists>docs paths.
    top_docs E 100 (query_terms snake analyze terms) = Inr docs \<and>
    schema_search snake analyze F E opts terms = Some (Inr paths) \<and>
    length paths \<le> max_type_matches opts * max_paths_per_type opts \<and>
    (let matches = fst ` set (take (max_type_matches opts) (score_types docs)) in
      matches \<subseteq> (\<lambda>(p, s). last (path_types p)) ` set paths \<and>
      (\<forall>(p, s) \<in> set paths. last (path_types p) \<in> matches \<and> indexable S (last (path_types p)) \<and> schema_chain S p \<and> \<not> has_cycle p \<and>
         (\<exists>ot \<in> set roots. root_operation S ot = Some (node_type p))))"
  by (rule search_root_paths[OF assms])

section \<open>An example\<close>

text \<open>An engine that scans the documents for type names, with integer scores.\<close>

definition int_floats :: "int floats" where
  "int_floats = \<lparr>f_add = (+), f_sub = (-), f_mul = (*), f_div = (div), f_eq = (=), f_less = (<),
     f_of_nat = int, f_literal = (\<lambda>s. if s = ''1.0'' then 1 else 0)\<rparr>"

definition scan_engine :: "type_document list \<Rightarrow> int engine" where
  "scan_engine docs =
     \<lparr>reader = Inr (),
      top_docs = (\<lambda>k q. Inr (take k (filter_map (\<lambda>d.
        if (TypeNameField, doc_type_name d) \<in> set q then Some (1, d) else None) docs))),
      exact_type = (\<lambda>n. Inr (List.find (\<lambda>d. doc_raw_type_name d = n) docs))\<rparr>"

lemma scan_engine_indexes: "engine_of_index (scan_engine docs) docs"
  by (auto simp: engine_of_index_def scan_engine_def set_filter_map split: if_splits dest!: in_set_takeD)

definition simple_field :: "string \<Rightarrow> string \<Rightarrow> string \<times> field_definition" where
  "simple_field n ty = (n, \<lparr>fd_description = None, fd_name = n, fd_arguments = [], fd_ty = Named ty, fd_directives = []\<rparr>)"

definition simple_object :: "string \<Rightarrow> (string \<times> field_definition) list \<Rightarrow> string \<times> extended_type" where
  "simple_object n fs = (n, ObjectType None n [] [] fs)"

definition payload_schema :: schema where
  "payload_schema =
     \<lparr>schema_description = None, schema_directives = [],
      root_operation = (\<lambda>ot. case ot of Query \<Rightarrow> Some ''Query'' | Mutation \<Rightarrow> Some ''Mutation'' | Subscription \<Rightarrow> None),
      schema_types =
        [simple_object ''Query'' [simple_field ''user'' ''User''],
         simple_object ''Mutation'' [simple_field ''update'' ''Payload''],
         simple_object ''Payload'' [simple_field ''query'' ''Query''],
         simple_object ''User'' [simple_field ''id'' ''ID'']],
      directive_definitions = [], built_in_type = (\<lambda>n. n = ''ID''), built_in_directive = (\<lambda>_. False)\<rparr>"

lemmas payload_schema_defs = payload_schema_def simple_object_def simple_field_def

definition payload_engine :: "operation_type list \<Rightarrow> int engine" where
  "payload_engine roots = scan_engine (index_documents id payload_schema roots)"

lemma payload_indexed: "indexed id payload_schema roots (payload_engine roots)"
proof -
  have "well_keyed payload_schema \<and> graphql_names payload_schema" by code_simp
  then show ?thesis using scan_engine_indexes by (simp add: indexed_def payload_engine_def)
qed

lemma payload_references:
  "type_references payload_schema [Query, Mutation] =
     [(''Query'', [''Payload#query'']), (''User'', [''Query#user'']), (''Mutation'', []), (''Payload'', [''Mutation#update''])]"
  by code_simp

text \<open>
  A root type that a field of another root leads to is no longer a root for the search: the paths
  that start at it are replaced by longer ones through the field.
\<close>

lemma shadowed_root_query:
  "schema_search id (\<lambda>s. [s]) int_floats (payload_engine [Query]) (default_search_options int_floats) [''User''] =
     Some (Inr [(PathNode ''Query'' (Some ''user'') [] (Some (PathNode ''User'' None [] None)), 1)])"
  by code_simp

lemma shadowed_root:
  "schema_search id (\<lambda>s. [s]) int_floats (payload_engine [Query, Mutation]) (default_search_options int_floats) [''User''] =
     Some (Inr [(PathNode ''Mutation'' (Some ''update'') [] (Some (PathNode ''Payload'' (Some ''query'') []
       (Some (PathNode ''Query'' (Some ''user'') [] (Some (PathNode ''User'' None [] None)))))), 1)])"
  by code_simp

text \<open>
  The score of a path counts matching types of other paths: \<open>User\<close> is reached from \<open>Query\<close> directly and
  through \<open>Team\<close>; the direct path is ranked with the score of \<open>Team\<close> when the search visits \<open>Team\<close> first.
\<close>

definition team_schema :: schema where
  "team_schema = payload_schema
     \<lparr>schema_types :=
        [simple_object ''Query'' [simple_field ''user'' ''User'', simple_field ''team'' ''Team''],
         simple_object ''Team'' [simple_field ''lead'' ''User''],
         simple_object ''User'' [simple_field ''id'' ''ID'']]\<rparr>"

lemma score_of_other_paths:
  "schema_search id (\<lambda>s. [s]) int_floats (scan_engine (index_documents id team_schema [Query]))
     \<lparr>max_type_matches = 2, max_paths_per_type = 2, short_path_boost_factor = 0, parent_match_boost_factor = 1\<rparr>
     [''User'', ''Team''] =
   Some (Inr
     [(PathNode ''Query'' (Some ''user'') [] (Some (PathNode ''User'' None [] None)), 3),
      (PathNode ''Query'' (Some ''team'') [] (Some (PathNode ''Team'' (Some ''lead'') [] (Some (PathNode ''User'' None [] None)))), 3),
      (PathNode ''Query'' (Some ''team'') [] (Some (PathNode ''Team'' None [] None)), 2)])"
  by code_simp

theorem search_returns_root_paths_witness:
  "\<exists>docs paths.
    top_docs (payload_engine [Query]) 100 (query_terms id (\<lambda>s. [s]) [''User'']) = Inr docs \<and>
    schema_search id (\<lambda>s. [s]) int_floats (payload_engine [Query]) (default_search_options int_floats) [''User''] = Some (Inr paths) \<and>
    length paths \<le> 10 * 3 \<and>
    (let matches = fst ` set (take 10 (score_types docs)) in
      matches \<subseteq> (\<lambda>(p, s). last (path_types p)) ` set paths \<and>
      (\<forall>(p, s) \<in> set paths. last (path_types p) \<in> matches \<and> indexable payload_schema (last (path_types p)) \<and> schema_chain payload_schema p \<and> \<not> has_cycle p \<and>
         (\<exists>ot \<in> set [Query]. root_operation payload_schema ot = Some (node_type p))))"
  using search_returns_root_paths[OF payload_indexed[of "[Query]"], of "default_search_options int_floats"
      "\<lambda>s. [s]" "[''User'']" int_floats]
  by (simp add: default_search_options_def)

end
