(* ===== verification/Introspection_Tools.thy ===== *)
theory Introspection_Tools
  imports Schema_Search Tree_Shake_Stack Minify Server_States
begin

text \<open>
  The built-in tools that look up the schema (\<open>introspection/tools\<close>): \<open>introspect\<close> shows a type with
  what is near it, \<open>search\<close> shows the paths to the types that match, \<open>validate\<close> checks an operation.
  The first two shake the schema down to what they show; running out of stack there is \<open>None\<close>. The
  tools share the schema of the server, an argument here, which may have changed since they were
  built; the index of \<open>search\<close> was built with the tool.
\<close>

section \<open>Parameters\<close>

text \<open>
  \<open>apollo_compiler\<close>: the SDL of one type, building a schema from definitions (with errors, its part
  that could be built), and parsing and validating an executable document.
\<close>

record lookup_api =
  serialize_type :: "extended_type \<Rightarrow> string"
  to_schema :: "schema_definition list \<Rightarrow> (schema, schema) result"
  validate_executable :: "schema \<Rightarrow> string \<Rightarrow> (string, unit) result"

section \<open>Descriptions\<close>

definition append_description_hint :: "string \<Rightarrow> string option \<Rightarrow> string" where
  "append_description_hint default_description hint =
     (case hint of
        None \<Rightarrow> default_description
      | Some v \<Rightarrow>
          let trimmed = str_trim v
          in if trimmed = [] then default_description else default_description @ ''\<newline>Hint: '' @ trimmed)"

definition schema_lookup_annotations :: ToolAnnotations where
  "schema_lookup_annotations =
     \<lparr>ann_title = None, ann_read_only = Some True, ann_destructive = Some False, ann_idempotent = Some True,
      ann_open_world = Some False\<rparr>"

definition lookup_tool :: "string \<Rightarrow> string \<Rightarrow> string option \<Rightarrow> json \<Rightarrow> Tool" where
  "lookup_tool name default_description hint input_schema =
     \<lparr>tool_name = name, tool_description = append_description_hint default_description hint,
      tool_input_schema = input_schema, tool_output_schema = None,
      tool_annotations = schema_lookup_annotations, tool_meta = None\<rparr>"

definition success_result :: "string list \<Rightarrow> CallToolResult" where
  "success_result texts =
     \<lparr>ctr_content = map TextBlock texts, ctr_structured_content = None, ctr_is_error = Some False, ctr_meta = None\<rparr>"

section \<open>Introspect\<close>

record Introspect =
  in_allow_mutations :: bool
  in_minify :: bool
  in_tool :: Tool

definition introspect_description :: "string option \<Rightarrow> string option \<Rightarrow> bool \<Rightarrow> string" where
  "introspect_description root_query_type root_mutation_type minified =
     (if minified
      then ''Get GraphQL type information - T=type,I=input,E=enum,U=union,F=interface;s=String,i=Int,f=Float,b=Boolean,d=ID;@D=deprecated;!=required,[]=list,<>=implements;''
      else ''Get information about a given GraphQL type defined in the schema. Instructions: Use this tool to explore the schema by providing specific type names. Start with the root query (''
        @ (case root_query_type of Some q \<Rightarrow> q | None \<Rightarrow> ''Query'') @ '') or mutation (''
        @ (case root_mutation_type of Some m \<Rightarrow> m | None \<Rightarrow> ''Mutation'')
        @ '') types to discover available fields. If the search tool is also available, use this tool first to get the fields, then use the search tool with relevant field return types and argument input types (ignore default GraphQL scalars) as search terms.'')"

definition introspect_new :: "string option \<Rightarrow> string option \<Rightarrow> bool \<Rightarrow> string option \<Rightarrow> json \<Rightarrow> Introspect" where
  "introspect_new root_query_type root_mutation_type minified hint input_schema =
     \<lparr>in_allow_mutations = (root_mutation_type \<noteq> None), in_minify = minified,
      in_tool = lookup_tool ''introspect'' (introspect_description root_query_type root_mutation_type minified) hint input_schema\<rparr>"

text \<open>\<open>shaken().unwrap_or_else(|schema| schema.partial)\<close>\<close>

definition shaken_or_partial :: "lookup_api \<Rightarrow> schema \<Rightarrow> SchemaTreeShaker \<Rightarrow> schema" where
  "shaken_or_partial A S s = (case shaken (to_schema A) S s of Inl partial \<Rightarrow> partial | Inr s' \<Rightarrow> s')"

definition serialize_or_minify :: "lookup_api \<Rightarrow> bool \<Rightarrow> extended_type \<Rightarrow> string" where
  "serialize_or_minify A minified t = (if minified then minify t else serialize_type A t)"

definition introspect_shows :: "schema \<Rightarrow> schema \<Rightarrow> Introspect \<Rightarrow> string \<Rightarrow> extended_type \<Rightarrow> bool" where
  "introspect_shows S shaken_schema tool requested t \<longleftrightarrow>
     \<not> built_in_type shaken_schema (et_name t) \<and>
     (case root_operation S Mutation of None \<Rightarrow> True
      | Some root_name \<Rightarrow> et_name t \<noteq> root_name \<or> requested = root_name \<or> in_allow_mutations tool) \<and>
     (case root_operation S Subscription of None \<Rightarrow> True | Some root_name \<Rightarrow> et_name t \<noteq> root_name)"

definition introspect_types ::
    "lookup_api \<Rightarrow> nat \<Rightarrow> schema \<Rightarrow> Introspect \<Rightarrow> string \<Rightarrow> 64 word \<Rightarrow> extended_type list option" where
  "introspect_types A fuel S tool requested depth =
     (case map_of (schema_types S) requested of
        None \<Rightarrow> Some []
      | Some t \<Rightarrow>
          map_option (\<lambda>s.
              let shaken_schema = shaken_or_partial A S s
              in filter (introspect_shows S shaken_schema tool requested) (map snd (schema_types shaken_schema)))
            (retain_type S fuel t None (if depth > 0 then Limited depth else Unlimited) (new_shaker S)))"

definition introspect_execute ::
    "lookup_api \<Rightarrow> nat \<Rightarrow> schema \<Rightarrow> Introspect \<Rightarrow> string \<Rightarrow> 64 word \<Rightarrow> (McpError, CallToolResult) result option" where
  "introspect_execute A fuel S tool requested depth =
     map_option (\<lambda>ts. Inr (success_result (map (serialize_or_minify A (in_minify tool)) ts)))
       (introspect_types A fuel S tool requested depth)"

section \<open>Search\<close>

record 'f Search =
  se_index :: "'f engine"
  se_allow_mutations :: bool
  se_leaf_depth :: "64 word"
  se_minify :: bool
  se_tool :: Tool

definition MAX_SEARCH_RESULTS :: nat where
  "MAX_SEARCH_RESULTS = 5"

text \<open>Building the engine writes the documents within the memory it is given.\<close>

definition schema_index_new ::
    "(nat \<Rightarrow> type_document list \<Rightarrow> (string, 'f engine) result) \<Rightarrow> (string \<Rightarrow> string) \<Rightarrow>
     schema \<Rightarrow> operation_type list \<Rightarrow> nat \<Rightarrow> (string, 'f engine) result" where
  "schema_index_new build snake S root_types index_memory_bytes =
     build index_memory_bytes (index_documents snake S root_types)"

definition search_description :: "bool \<Rightarrow> string" where
  "search_description minified =
     ''Search a GraphQL schema for types matching the provided search terms. Returns complete type definitions including all related types needed to construct GraphQL operations. Instructions: If the introspect tool is also available, you can discover type names by using the introspect tool starting from the root Query or Mutation types. Avoid reusing previously searched terms for more efficient exploration.''
     @ (if minified then '' - T=type,I=input,E=enum,U=union,F=interface;s=String,i=Int,f=Float,b=Boolean,d=ID;@D=deprecated;!=required,[]=list,<>=implements'' else [])"

definition search_new ::
    "(nat \<Rightarrow> type_document list \<Rightarrow> (string, 'f engine) result) \<Rightarrow> (string \<Rightarrow> string) \<Rightarrow> schema \<Rightarrow> bool \<Rightarrow> 64 word \<Rightarrow>
     nat \<Rightarrow> bool \<Rightarrow> string option \<Rightarrow> json \<Rightarrow> (string, 'f Search) result" where
  "search_new build snake S allow_mutations leaf_depth index_memory_bytes minified hint input_schema =
     try_result
       (schema_index_new build snake S (if allow_mutations then [Query, Mutation] else [Query]) index_memory_bytes)
       (\<lambda>index. Inr
         \<lparr>se_index = index, se_allow_mutations = allow_mutations, se_leaf_depth = leaf_depth, se_minify = minified,
          se_tool = lookup_tool ''search'' (search_description minified) hint input_schema\<rparr>)"

definition path_selection :: "string \<Rightarrow> selection list" where
  "path_selection field = [Field None field [] [] []]"

definition retain_path_node ::
    "schema \<Rightarrow> nat \<Rightarrow> 64 word \<Rightarrow> bool \<Rightarrow> PathNode \<Rightarrow> SchemaTreeShaker \<Rightarrow> SchemaTreeShaker option" where
  "retain_path_node S fuel leaf_depth is_leaf path_node s =
     Option.bind
       (if is_leaf then retain_named (retain_type S fuel) S (node_type path_node) None (Limited leaf_depth) s
        else retain_named (retain_type S fuel) S (node_type path_node)
          (map_option path_selection (field_name path_node)) (Limited 1) s)
       (for_each (\<lambda>arg. retain_named (retain_type S fuel) S arg None Unlimited) (field_args path_node))"

definition retain_path ::
    "schema \<Rightarrow> nat \<Rightarrow> 64 word \<Rightarrow> PathNode \<Rightarrow> SchemaTreeShaker \<Rightarrow> SchemaTreeShaker option" where
  "retain_path S fuel leaf_depth path =
     for_each (\<lambda>(i, path_node). retain_path_node S fuel leaf_depth (Suc i = path_len path) path_node)
       (enumerate 0 (path_nodes path))"

definition search_shows :: "schema \<Rightarrow> schema \<Rightarrow> 'f Search \<Rightarrow> extended_type \<Rightarrow> bool" where
  "search_shows S shaken_schema tool t \<longleftrightarrow>
     \<not> built_in_type shaken_schema (et_name t) \<and>
     (case root_operation S Mutation of None \<Rightarrow> True
      | Some root_name \<Rightarrow> et_name t \<noteq> root_name \<or> se_allow_mutations tool)"

definition search_types ::
    "lookup_api \<Rightarrow> nat \<Rightarrow> schema \<Rightarrow> 'f Search \<Rightarrow> (PathNode \<times> 'f) list \<Rightarrow> extended_type list option" where
  "search_types A fuel S tool root_paths =
     map_option (\<lambda>s.
         let shaken_schema = shaken_or_partial A S s
         in filter (search_shows S shaken_schema tool) (map snd (schema_types shaken_schema)))
       (for_each (\<lambda>(path, score). retain_path S fuel (se_leaf_depth tool) path) root_paths (new_shaker S))"

definition search_execute ::
    "lookup_api \<Rightarrow> nat \<Rightarrow> (string \<Rightarrow> string) \<Rightarrow> (string \<Rightarrow> string list) \<Rightarrow> 'f floats \<Rightarrow> schema \<Rightarrow> 'f Search \<Rightarrow> string list \<Rightarrow>
     (McpError, CallToolResult) result option" where
  "search_execute A fuel snake analyze F S tool terms =
     (case schema_search snake analyze F (se_index tool) (default_search_options F) terms of
        None \<Rightarrow> None
      | Some (Inl e) \<Rightarrow> Some (Inl \<lparr>err_code = INTERNAL_ERROR, err_message = ''Failed to search index: '' @ e\<rparr>)
      | Some (Inr root_paths) \<Rightarrow>
          map_option (\<lambda>ts. Inr (success_result (map (serialize_or_minify A (se_minify tool)) ts)))
            (search_types A fuel S tool (take MAX_SEARCH_RESULTS root_paths)))"

section \<open>Validate\<close>

definition validate_new :: "string option \<Rightarrow> json \<Rightarrow> Tool" where
  "validate_new hint input_schema =
     lookup_tool ''validate''
       ''Validates a GraphQL operation against the schema. Use the `introspect` tool first to get information about the GraphQL schema. Operations should be validated prior to calling the `execute` tool.''
       hint input_schema"

text \<open>
  The input is an object with a string under \<open>operation\<close>, or the array of that one field; the message
  for any other is a parameter.
\<close>

definition validate_input :: "json \<Rightarrow> string option" where
  "validate_input v =
     (case v of
        JObject kvs \<Rightarrow> Option.bind (map_of kvs ''operation'') json_string
      | JArray [JString operation] \<Rightarrow> Some operation
      | _ \<Rightarrow> None)"

definition validate_execute ::
    "graphql_api \<Rightarrow> log_levels \<Rightarrow> text_api \<Rightarrow> lookup_api \<Rightarrow> schema \<Rightarrow> json \<Rightarrow> CallToolResult" where
  "validate_execute G L T A S input =
     (case validate_input input of
        None \<Rightarrow> error_result (''Invalid input: '' @ invalid_input T input)
      | Some operation \<Rightarrow>
          (case operation_defs G L operation True None of
             Inl e \<Rightarrow> error_result (show_operation_error T e)
           | Inr _ \<Rightarrow>
               (case operation_defs G L operation True None of
                  Inr (Some _) \<Rightarrow>
                    (case validate_executable A S operation of
                       Inr _ \<Rightarrow> success_result [''Operation is valid'']
                     | Inl e \<Rightarrow> error_result e)
                | _ \<Rightarrow> error_result ''Invalid operation type'')))"

section \<open>The tools a server starts with\<close>

text \<open>The part of the configuration that only these tools read.\<close>

record lookup_config =
  lc_introspect_minify :: bool
  lc_search_minify :: bool
  lc_search_leaf_depth :: "64 word"
  lc_index_memory_bytes :: nat
  lc_introspect_hint :: "string option"
  lc_search_hint :: "string option"
  lc_validate_hint :: "string option"

definition start_introspect :: "ServerConfig \<Rightarrow> lookup_config \<Rightarrow> schema \<Rightarrow> json \<Rightarrow> Introspect option" where
  "start_introspect config lc S input_schema =
     (let root_query_type = (if cfg_introspect_introspection config then root_operation S Query else None);
          root_mutation_type =
            (if cfg_introspect_introspection config
             then (if mutation_mode (cfg_options config) = AllMutations then root_operation S Mutation else None)
             else None)
      in if cfg_introspect_introspection config
         then Some (introspect_new root_query_type root_mutation_type (lc_introspect_minify lc) (lc_introspect_hint lc) input_schema)
         else None)"

definition start_search ::
    "(nat \<Rightarrow> type_document list \<Rightarrow> (string, 'f engine) result) \<Rightarrow> (string \<Rightarrow> string) \<Rightarrow> ServerConfig \<Rightarrow> lookup_config \<Rightarrow>
     schema \<Rightarrow> json \<Rightarrow> (ServerError, 'f Search option) result" where
  "start_search build snake config lc S input_schema =
     (if cfg_search_introspection config
      then try_result
        (map_error IndexingError
          (search_new build snake S (mutation_mode (cfg_options config) = AllMutations) (lc_search_leaf_depth lc)
            (lc_index_memory_bytes lc) (lc_search_minify lc) (lc_search_hint lc) input_schema))
        (\<lambda>tool. Inr (Some tool))
      else Inr None)"

definition start_validate :: "ServerConfig \<Rightarrow> lookup_config \<Rightarrow> json \<Rightarrow> Tool option" where
  "start_validate config lc input_schema =
     (if cfg_validate_introspection config then Some (validate_new (lc_validate_hint lc) input_schema) else None)"

text \<open>A tool may show mutations only when all mutations are allowed, and its index has them only then.\<close>

lemma started_introspect_mutations:
  "start_introspect config lc S input_schema = Some tool \<Longrightarrow>
     in_allow_mutations tool \<longleftrightarrow> mutation_mode (cfg_options config) = AllMutations \<and> root_operation S Mutation \<noteq> None"
  by (auto simp: start_introspect_def introspect_new_def Let_def split: if_splits)

lemma started_search_mutations:
  "start_search build snake config lc S input_schema = Inr (Some tool) \<Longrightarrow>
     (se_allow_mutations tool \<longleftrightarrow> mutation_mode (cfg_options config) = AllMutations) \<and>
     build (lc_index_memory_bytes lc)
       (index_documents snake S (if se_allow_mutations tool then [Query, Mutation] else [Query])) = Inr (se_index tool)"
  by (auto simp: start_search_def search_new_def schema_index_new_def map_error_def try_result_Inr_iff
      split: if_splits sum.splits)

section \<open>What introspection shows\<close>

text \<open>
  What the tools rely on \<open>to_schema\<close> for: the types of the schema it builds from a shaken document,
  its built-in types aside, are the type definitions of the document.
\<close>

definition built_types :: "schema \<Rightarrow> extended_type set" where
  "built_types S' = {t \<in> snd ` set (schema_types S'). \<not> built_in_type S' (et_name t)}"

definition keeps_definitions :: "lookup_api \<Rightarrow> schema \<Rightarrow> bool" where
  "keeps_definitions A S \<longleftrightarrow>
     (\<forall>s. built_types (shaken_or_partial A S s) = {t. TypeDefinition t \<in> set (shaken_document S s)})"

lemma shake_type_name [simp]: "et_name (shake_type node s t) = et_name t"
  by (cases t) simp_all

lemma shaken_document_types:
  assumes "well_keyed S"
  shows "TypeDefinition t' \<in> set (shaken_document S s) \<longleftrightarrow>
    (\<exists>t node. map_of (schema_types S) (et_name t) = Some t \<and> \<not> built_in_type S (et_name t) \<and>
       named_type_nodes s (et_name t) = Some node \<and> retain node \<and> t' = shake_type node s t)"
proof -
  have keyed: "(k, t) \<in> set (schema_types S) \<longleftrightarrow> map_of (schema_types S) k = Some t" for k t
    using assms by (simp add: well_keyed_def)
  have "TypeDefinition t' \<in> set (shaken_document S s) \<longleftrightarrow>
      TypeDefinition t' \<in> set (filter_map (\<lambda>(k, t). shaken_type S s t) (schema_types S))"
    by (auto simp: shaken_document_def set_filter_map split: option.splits if_splits)
  also have "\<dots> \<longleftrightarrow> (\<exists>k t. (k, t) \<in> set (schema_types S) \<and> shaken_type S s t = Some (TypeDefinition t'))"
    by (auto simp: set_filter_map intro: rev_bexI)
  also have "\<dots> \<longleftrightarrow> (\<exists>k t. map_of (schema_types S) k = Some t \<and> shaken_type S s t = Some (TypeDefinition t'))"
    by (simp only: keyed)
  also have "\<dots> \<longleftrightarrow> (\<exists>t. map_of (schema_types S) (et_name t) = Some t \<and> shaken_type S s t = Some (TypeDefinition t'))"
    using well_keyed_type[OF assms] by auto
  also have "\<dots> \<longleftrightarrow> (\<exists>t node. map_of (schema_types S) (et_name t) = Some t \<and> \<not> built_in_type S (et_name t) \<and>
       named_type_nodes s (et_name t) = Some node \<and> retain node \<and> t' = shake_type node s t)"
    by (auto simp: shaken_type_def split: option.splits if_splits)
  finally show ?thesis .
qed

lemma built_names:
  assumes "well_keyed S" "keeps_definitions A S" "shaker_of S s"
  shows "et_name ` built_types (shaken_or_partial A S s) = {n \<in> retained s. \<not> built_in_type S n}"
proof -
  note defs = shaken_document_types[OF assms(1), of _ s]
  have "n \<in> et_name ` {t. TypeDefinition t \<in> set (shaken_document S s)} \<longleftrightarrow> n \<in> retained s \<and> \<not> built_in_type S n" for n
  proof
    assume "n \<in> et_name ` {t. TypeDefinition t \<in> set (shaken_document S s)}"
    then obtain t' where "TypeDefinition t' \<in> set (shaken_document S s)" "n = et_name t'" by auto
    then show "n \<in> retained s \<and> \<not> built_in_type S n" by (auto simp: defs retained_def)
  next
    assume n: "n \<in> retained s \<and> \<not> built_in_type S n"
    then obtain node where node: "named_type_nodes s n = Some node" "retain node" by (auto simp: retained_def)
    then obtain t where t: "map_of (schema_types S) n = Some t" using assms(3) by (auto simp: shaker_of_def)
    have "et_name t = n" using assms(1) t by (rule well_keyed_type)
    then have "TypeDefinition (shake_type node s t) \<in> set (shaken_document S s)" "n = et_name (shake_type node s t)"
      using node t n defs[of "shake_type node s t"] by auto
    then show "n \<in> et_name ` {t. TypeDefinition t \<in> set (shaken_document S s)}" by blast
  qed
  with assms(2) show ?thesis by (auto simp: keeps_definitions_def)
qed

text \<open>Whether a root type is hidden from a caller of \<open>introspect\<close>.\<close>

definition hidden_root :: "schema \<Rightarrow> Introspect \<Rightarrow> string \<Rightarrow> string \<Rightarrow> bool" where
  "hidden_root S tool requested n \<longleftrightarrow>
     (root_operation S Mutation = Some n \<and> requested \<noteq> n \<and> \<not> in_allow_mutations tool) \<or>
     root_operation S Subscription = Some n"

lemma introspect_shows_iff:
  "introspect_shows S S' tool requested t \<longleftrightarrow> \<not> built_in_type S' (et_name t) \<and> \<not> hidden_root S tool requested (et_name t)"
  by (auto simp: introspect_shows_def hidden_root_def split: option.splits)

text \<open>
  C9: Introspection returns, given a stack of about twice the number of types or twice the depth,
  and shows exactly the types within d - 1 references of the type asked for (all the types it
  leads to when the depth is 0), without the built-in types, the subscription root, and the
  mutation root when mutations are off and it was not what was asked for.
\<close>

theorem introspect_shows_reachable:
  assumes "well_keyed S" and "flat_unions S" and "keeps_definitions A S"
    and "map_of (schema_types S) requested = Some t"
    and "2 * card (dom (map_of (schema_types S))) + 1 \<le> fuel" and "2 * unat depth + 1 \<le> fuel"
  shows "\<exists>ts. introspect_types A fuel S tool requested depth = Some ts \<and>
    et_name ` set ts =
      {n. (if depth = 0 then (requested, n) \<in> (references S)\<^sup>* else \<exists>j < unat depth. (requested, n) \<in> references S ^^ j) \<and>
          \<not> built_in_type S n \<and> \<not> hidden_root S tool requested n}"
proof -
  have name: "et_name t = requested" using assms(1,4) by (rule well_keyed_type)
  define limit where "limit = (if depth > 0 then Limited depth else Unlimited)"
  have d0: "depth > 0 \<longleftrightarrow> depth \<noteq> 0" by (simp add: word_neq_0_conv)
  obtain s where s: "retain_type S fuel t None limit (new_shaker S) = Some s"
    "retained s = {n. if depth = 0 then (requested, n) \<in> (references S)\<^sup>*
       else \<exists>j < unat depth. (requested, n) \<in> references S ^^ j}"
    using retained_types_reachable[OF assms(1) _ assms(2,5,6), of t] assms(4) d0
    by (auto simp: name limit_def Image_def)
  have "exec S fuel (CType t None limit) (new_shaker S) = Some s" using s(1) by simp
  then have shaker: "shaker_of S s" using exec_le shaker_of_le new_shaker_of(1)[OF assms(1)] by blast
  define S' where "S' = shaken_or_partial A S s"
  have "introspect_types A fuel S tool requested depth =
      Some (filter (introspect_shows S S' tool requested) (map snd (schema_types S')))"
    using assms(4) s(1) by (simp add: introspect_types_def limit_def S'_def Let_def)
  moreover have "et_name ` set (filter (introspect_shows S S' tool requested) (map snd (schema_types S'))) =
      {n \<in> et_name ` built_types S'. \<not> hidden_root S tool requested n}"
    by (auto simp: introspect_shows_iff built_types_def)
  ultimately show ?thesis
    using built_names[OF assms(1,3) shaker] s(2) by (auto simp: S'_def)
qed

section \<open>What a search shows\<close>

declare retain_type.simps(2) [simp del] retain_fragments.simps(2) [simp del] retain_directive.simps(2) [simp del]

text \<open>Calls made by a type that is retained with a depth limit of one: their types are too deep.\<close>

fun shallow :: "call \<Rightarrow> bool" where
  "shallow (CType t sel d) \<longleftrightarrow> d = Limited 0"
| "shallow (CMember m sel d) \<longleftrightarrow> d = Limited 1"
| "shallow (CDirective name d) \<longleftrightarrow> d = Limited 1"
| "shallow (CDescribe arg args) \<longleftrightarrow> True"
| "shallow _ \<longleftrightarrow> False"

lemma named_calls_shallow: "c \<in> set (named_calls S name sel (Limited 0)) \<Longrightarrow> shallow c"
  by (auto simp: named_calls_def split: option.splits)

lemma directive_calls_shallow:
  "c \<in> set (directive_calls (Limited 1) ds) \<Longrightarrow> shallow c"
  "c \<in> set (described_calls S (Limited 1) dir) \<Longrightarrow> shallow c"
  by (auto simp: directive_calls_def described_calls_def split: option.splits)

lemma field_calls_shallow: "c \<in> set (field_calls b S (Limited 1) (k, fdef, sdirs, ssel, m)) \<Longrightarrow> shallow c"
  using named_calls_shallow directive_calls_shallow by (fastforce split: option.splits if_splits)

lemma body_calls_shallow: "c \<in> set (body_calls S t sel (Limited 1)) \<Longrightarrow> shallow c"
proof -
  have row: "shallow c" if "c \<in> set (field_calls b S (Limited 1) row)" for b row
    using that field_calls_shallow by (cases row) auto
  assume "c \<in> set (body_calls S t sel (Limited 1))"
  then show ?thesis
    using named_calls_shallow directive_calls_shallow row
    by (cases t) (auto simp: body_calls_def simp del: field_calls.simps)
qed

lemma too_deep: "0 < n \<Longrightarrow> retain_type S n t sel (Limited 0) s = Some s"
  by (cases n) (simp_all add: retain_calls)

lemma for_each_returns: "(\<And>c s. c \<in> set cs \<Longrightarrow> \<exists>s'. f c s = Some s') \<Longrightarrow> \<exists>s'. for_each f cs s = Some s'"
proof (induction cs arbitrary: s)
  case (Cons c cs)
  obtain s1 where "f c s = Some s1" using Cons.prems[of c s] by auto
  with Cons.IH[of s1] Cons.prems show ?case by auto
qed simp

lemma shallow_returns:
  assumes "shallow c" "2 \<le> n"
  shows "\<exists>s'. exec S n c s = Some s'"
proof (cases c)
  case (CMember m sel d)
  with assms show ?thesis by (auto simp: retain_union_member_def too_deep Let_def split: option.splits)
next
  case (CDirective name d)
  obtain n' where n': "n = Suc n'" "0 < n'" using assms(2) by (cases n) auto
  have "\<exists>s'. exec_all S n' (argument_calls S (Limited 1) dd) s = Some s'" for dd s
  proof (rule for_each_returns)
    fix c s assume "c \<in> set (argument_calls S (Limited 1) dd)"
    then show "\<exists>s'. exec S n' c s = Some s'"
      using too_deep[OF n'(2)] by (auto simp: argument_calls_def named_calls_def split: option.splits)
  qed
  with CDirective assms(1) n' show ?thesis by (auto simp: retain_calls split: option.splits)
qed (use assms too_deep[of n] in auto)

text \<open>An inner type of a path is retained with the field the path goes through.\<close>

lemma path_field_retained:
  assumes "3 \<le> n" "et_name t \<in> dom (named_type_nodes s)"
  shows "\<exists>s'. retain_type S n t (Some (path_selection f)) (Limited 1) s = Some s' \<and> et_name t \<in> retained s' \<and>
    (f \<noteq> ''__typename'' \<longrightarrow> (et_name t, f) \<in> wanted s')"
proof -
  obtain n' m where n': "n = Suc n'" "n' = Suc m" "2 \<le> n'" using assms(1) by (cases n; cases "n - 1") auto
  have spread: "exec_all S n' (spread_calls (Limited 1) (Some (path_selection f))) s = Some s"
    by (simp add: spread_calls_def n'(2) retain_calls path_selection_def)
  let ?m = "mark_type t (Some (path_selection f)) s"
  obtain s' where s': "exec_all S n' (body_calls S t (Some (path_selection f)) (Limited 1)) ?m = Some s'"
    using for_each_returns[of "body_calls S t (Some (path_selection f)) (Limited 1)" "exec S n'" ?m]
      body_calls_shallow shallow_returns[OF _ n'(3)] by blast
  have "f \<noteq> ''__typename'' \<longrightarrow> (et_name t, f) \<in> wanted ?m"
    using wanted_mark[OF assms(2), of "path_selection f" _ "Field None f [] [] []"]
    by (simp add: selected_fields_def path_selection_def)
  then have "f \<noteq> ''__typename'' \<longrightarrow> (et_name t, f) \<in> wanted s'" using shaker_leD(4)[OF run_le[OF s']] by blast
  moreover have "et_name t \<in> retained s'"
    using shaker_leD(3)[OF run_le[OF s']] assms(2) by (auto simp: retained_mark)
  moreover have "retain_type S n t (Some (path_selection f)) (Limited 1) s = Some s'"
    using spread s' by (simp add: n'(1) retain_calls already_retained_def split: option.splits)
  ultimately show ?thesis by blast
qed

text \<open>One node of a path, the state it leaves, and what is shown of it there.\<close>

definition plain_shaker :: "schema \<Rightarrow> SchemaTreeShaker \<Rightarrow> bool" where
  "plain_shaker S s \<longleftrightarrow> shaker_of S s \<and> named_fragments s = Map.empty"

lemma plain_shaker_le: "plain_shaker S s \<Longrightarrow> shaker_le s s' \<Longrightarrow> plain_shaker S s'"
  using shaker_of_le shaker_leD(1) by (auto simp: plain_shaker_def)

definition node_retained :: "schema \<Rightarrow> PathNode \<Rightarrow> SchemaTreeShaker \<Rightarrow> bool" where
  "node_retained S path_node s \<longleftrightarrow>
     (node_type path_node \<in> dom (map_of (schema_types S)) \<longrightarrow>
        node_type path_node \<in> retained s \<and>
        (\<forall>f. child path_node \<noteq> None \<longrightarrow> field_name path_node = Some f \<longrightarrow> f \<noteq> ''__typename'' \<longrightarrow>
           (node_type path_node, f) \<in> wanted s))"

lemma node_retained_le: "node_retained S path_node s \<Longrightarrow> shaker_le s s' \<Longrightarrow> node_retained S path_node s'"
  using shaker_leD(3,4) by (fastforce simp: node_retained_def)

lemma wanted_retained: "(n, f) \<in> wanted s \<Longrightarrow> n \<in> retained s"
  by (auto simp: wanted_def retained_def)

text \<open>A loop of steps that only add to the shaker, each of which shows something.\<close>

lemma for_each_shows:
  assumes "\<And>x s. x \<in> set xs \<Longrightarrow> plain_shaker S s \<Longrightarrow> \<exists>s'. f x s = Some s' \<and> shaker_le s s' \<and> P x s'"
    and "\<And>x s s'. P x s \<Longrightarrow> shaker_le s s' \<Longrightarrow> P x s'"
    and "plain_shaker S s"
  shows "\<exists>s'. for_each f xs s = Some s' \<and> shaker_le s s' \<and> (\<forall>x \<in> set xs. P x s')"
  using assms(1,3)
proof (induction xs arbitrary: s)
  case (Cons x xs)
  obtain s1 where s1: "f x s = Some s1" "shaker_le s s1" "P x s1"
    using Cons.prems(1)[of x s] Cons.prems(2) by auto
  obtain s' where s': "for_each f xs s1 = Some s'" "shaker_le s1 s'" "\<forall>x \<in> set xs. P x s'"
    using Cons.IH[of s1] Cons.prems plain_shaker_le[OF _ s1(2)] by auto
  have "shaker_le s s'" using s1(2) s'(2) by (rule shaker_le_trans)
  with s1 s' assms(2) show ?case by auto
qed simp

definition stack_for_search :: "schema \<Rightarrow> 64 word \<Rightarrow> nat \<Rightarrow> bool" where
  "stack_for_search S leaf_depth fuel \<longleftrightarrow>
     3 \<le> fuel \<and> 2 * card (dom (map_of (schema_types S))) + 1 \<le> fuel \<and> 2 * unat leaf_depth + 1 \<le> fuel"

lemma retain_unlimited:
  assumes "well_keyed S" "flat_unions S" "stack_for_search S leaf_depth fuel" "plain_shaker S s"
  shows "\<exists>s'. retain_named (retain_type S fuel) S n None Unlimited s = Some s' \<and> shaker_le s s'"
proof (cases "map_of (schema_types S) n")
  case None
  then show ?thesis by (simp add: retain_named_def)
next
  case (Some t)
  have "left_over S s \<le> card (dom (map_of (schema_types S)))"
    unfolding left_over_def by (rule card_mono) (auto simp: finite_dom_map_of)
  then have "exec S fuel (CType t None Unlimited) s \<noteq> None"
    using assms Some well_keyed_type[OF assms(1) Some]
    by (intro enough_stack[OF assms(1,2), of _ "\<lambda>_. 0"])
      (auto simp: plain_shaker_def stack_for_search_def ranked_fragments_def)
  then obtain s' where s': "exec S fuel (CType t None Unlimited) s = Some s'" by auto
  with exec_le[OF s'] Some show ?thesis by (simp add: retain_named_def)
qed

lemma retain_limited:
  assumes "well_keyed S" "2 * unat d + 1 \<le> fuel" "plain_shaker S s"
  shows "\<exists>s'. retain_named (retain_type S fuel) S n None (Limited d) s = Some s' \<and> shaker_le s s' \<and>
    (d \<noteq> 0 \<longrightarrow> n \<in> dom (map_of (schema_types S)) \<longrightarrow> n \<in> retained s')"
proof (cases "map_of (schema_types S) n")
  case None
  then show ?thesis by (auto simp: retain_named_def domIff)
next
  case (Some t)
  have n: "et_name t = n" using assms(1) Some by (rule well_keyed_type)
  obtain s' where s': "retain_type S fuel t None (Limited d) s = Some s'"
      "retained s' = retained s \<union> near S (unat d) {n}"
    using retain_type_near[OF assms(1,2), of t s] assms(3) Some n by (auto simp: plain_shaker_def)
  have "exec S fuel (CType t None (Limited d)) s = Some s'" using s'(1) by simp
  from exec_le[OF this] have "shaker_le s s'" .
  moreover have "n \<in> near S (unat d) {n}" if "d \<noteq> 0"
    using that by (auto simp: near_def unat_gt_0 intro!: exI[of _ 0])
  ultimately show ?thesis using s' Some by (auto simp: retain_named_def)
qed

lemma retain_path_node_shows:
  assumes wk: "well_keyed S" and flat: "flat_unions S" and stack: "stack_for_search S leaf_depth fuel"
    and leaf: "leaf_depth \<noteq> 0" "is_leaf \<longleftrightarrow> child path_node = None" and s: "plain_shaker S s"
  shows "\<exists>s'. retain_path_node S fuel leaf_depth is_leaf path_node s = Some s' \<and> shaker_le s s' \<and>
    node_retained S path_node s'"
proof -
  let ?n = "node_type path_node"
  have "\<exists>s1. (if is_leaf then retain_named (retain_type S fuel) S ?n None (Limited leaf_depth) s
        else retain_named (retain_type S fuel) S ?n (map_option path_selection (field_name path_node)) (Limited 1) s) =
      Some s1 \<and> shaker_le s s1 \<and> node_retained S path_node s1"
  proof (cases "is_leaf \<or> field_name path_node = None")
    case True
    define d where "d = (if is_leaf then leaf_depth else (1 :: 64 word))"
    have d: "d \<noteq> 0" "2 * unat d + 1 \<le> fuel"
      using stack leaf(1) by (auto simp: d_def stack_for_search_def)
    from retain_limited[OF wk d(2) s, of ?n] obtain s1 where
      "retain_named (retain_type S fuel) S ?n None (Limited d) s = Some s1" "shaker_le s s1"
      "?n \<in> dom (map_of (schema_types S)) \<longrightarrow> ?n \<in> retained s1"
      using d(1) by blast
    with True leaf(2) show ?thesis by (auto simp: d_def node_retained_def split: if_splits)
  next
    case False
    then obtain f where f: "field_name path_node = Some f" by auto
    show ?thesis
    proof (cases "map_of (schema_types S) ?n")
      case None
      with False show ?thesis by (auto simp: retain_named_def node_retained_def domIff)
    next
      case (Some t)
      have n: "et_name t = ?n" using wk Some by (rule well_keyed_type)
      have dom: "et_name t \<in> dom (named_type_nodes s)" using s Some n by (auto simp: plain_shaker_def shaker_of_def)
      obtain s1 where s1: "retain_type S fuel t (Some (path_selection f)) (Limited 1) s = Some s1" "?n \<in> retained s1"
          "f \<noteq> ''__typename'' \<longrightarrow> (?n, f) \<in> wanted s1"
        using path_field_retained[OF _ dom, of fuel S f] stack n by (auto simp: stack_for_search_def)
      have "exec S fuel (CType t (Some (path_selection f)) (Limited 1)) s = Some s1" using s1(1) by simp
      from exec_le[OF this] have "shaker_le s s1" .
      with False f s1 Some show ?thesis by (auto simp: retain_named_def node_retained_def)
    qed
  qed
  then obtain s1 where s1: "(if is_leaf then retain_named (retain_type S fuel) S ?n None (Limited leaf_depth) s
        else retain_named (retain_type S fuel) S ?n (map_option path_selection (field_name path_node)) (Limited 1) s) = Some s1"
      "shaker_le s s1" "node_retained S path_node s1" by blast
  obtain s' where s': "for_each (\<lambda>arg. retain_named (retain_type S fuel) S arg None Unlimited) (field_args path_node) s1 = Some s'"
      "shaker_le s1 s'"
    using for_each_shows[of "field_args path_node" S "\<lambda>arg. retain_named (retain_type S fuel) S arg None Unlimited" "\<lambda>_ _. True" s1]
      retain_unlimited[OF wk flat stack] plain_shaker_le[OF s s1(2)] by auto
  have "retain_path_node S fuel leaf_depth is_leaf path_node s = Some s'"
    using s1(1) s'(1) unfolding retain_path_node_def by simp
  then show ?thesis
    using shaker_le_trans[OF s1(2) s'(2)] node_retained_le[OF s1(3) s'(2)] by blast
qed

lemma length_path_nodes: "length (path_nodes p) = path_len p"
  by (simp add: path_len_types path_types_def)

lemma enumerate_leaf:
  "(i, path_node) \<in> set (enumerate k (path_nodes p)) \<Longrightarrow> Suc i = k + path_len p \<longleftrightarrow> child path_node = None"
proof (induction p arbitrary: k rule: path_len.induct)
  case (1 t f a c)
  have "0 < path_len c" by (simp add: path_len_types)
  with "1.prems" "1.IH"[of "Suc k"] show ?case by auto
qed auto

lemma path_nodes_enumerate:
  assumes "path_node \<in> set (path_nodes p)"
  shows "\<exists>i. (i, path_node) \<in> set (enumerate 0 (path_nodes p))"
proof -
  have "path_node \<in> snd ` set (enumerate 0 (path_nodes p))" using assms by (simp flip: set_map)
  then show ?thesis by auto
qed

lemma retain_path_shows:
  assumes "well_keyed S" "flat_unions S" "stack_for_search S leaf_depth fuel" "leaf_depth \<noteq> 0" "plain_shaker S s"
  shows "\<exists>s'. retain_path S fuel leaf_depth path s = Some s' \<and> shaker_le s s' \<and>
    (\<forall>path_node \<in> set (path_nodes path). node_retained S path_node s')"
proof -
  have "\<exists>s'. for_each (\<lambda>(i, path_node). retain_path_node S fuel leaf_depth (Suc i = path_len path) path_node)
      (enumerate 0 (path_nodes path)) s = Some s' \<and> shaker_le s s' \<and>
      (\<forall>x \<in> set (enumerate 0 (path_nodes path)). node_retained S (snd x) s')"
  proof (rule for_each_shows[OF _ _ assms(5)])
    fix x s assume x: "x \<in> set (enumerate 0 (path_nodes path))" and s: "plain_shaker S s"
    obtain i path_node where e: "x = (i, path_node)" by (cases x)
    have "Suc i = path_len path \<longleftrightarrow> child path_node = None" using enumerate_leaf[of i path_node 0 path] x e by simp
    from retain_path_node_shows[OF assms(1-4) this s] e
    show "\<exists>s'. (case x of (i, path_node) \<Rightarrow> retain_path_node S fuel leaf_depth (Suc i = path_len path) path_node) s = Some s' \<and>
        shaker_le s s' \<and> node_retained S (snd x) s'" by simp
  qed (rule node_retained_le)
  then show ?thesis using path_nodes_enumerate by (fastforce simp: retain_path_def)
qed

lemma retain_paths_show:
  assumes "well_keyed S" "flat_unions S" "stack_for_search S leaf_depth fuel" "leaf_depth \<noteq> 0"
  shows "\<exists>s'. for_each (\<lambda>(path, score). retain_path S fuel leaf_depth path) paths (new_shaker S) = Some s' \<and>
    plain_shaker S s' \<and> (\<forall>(path, score) \<in> set paths. \<forall>path_node \<in> set (path_nodes path). node_retained S path_node s')"
proof -
  have start: "plain_shaker S (new_shaker S)"
    using new_shaker_of(1)[OF assms(1)] by (simp add: plain_shaker_def new_shaker_def)
  have "\<exists>s'. for_each (\<lambda>(path, score). retain_path S fuel leaf_depth path) paths (new_shaker S) = Some s' \<and>
      shaker_le (new_shaker S) s' \<and> (\<forall>x \<in> set paths. \<forall>path_node \<in> set (path_nodes (fst x)). node_retained S path_node s')"
    by (rule for_each_shows[OF _ _ start])
      (use retain_path_shows[OF assms] node_retained_le in \<open>auto split: prod.splits\<close>)
  then show ?thesis using plain_shaker_le[OF start] by fastforce
qed

text \<open>The fields of the shaken types.\<close>

definition fields_keyed :: "schema \<Rightarrow> bool" where
  "fields_keyed S \<longleftrightarrow>
     list_all (\<lambda>(k, t). list_all (\<lambda>(n, fd). fd_name fd = n \<and> n \<noteq> ''__typename'') (fields_of t)) (schema_types S)"

lemma filter_fields_names:
  "n \<in> fst ` set (filter_fields node fs) \<longleftrightarrow>
     n \<in> fst ` set fs \<and> (case filtered_field node of None \<Rightarrow> True | Some names \<Rightarrow> n \<in> set names)"
  by (force simp: filter_fields_def set_filter_map split: option.splits if_splits)

lemma shaken_fields:
  "n \<in> fst ` set (fields_of (shake_type node s t)) \<longleftrightarrow>
     n \<in> fst ` set (fields_of t) \<and> (case filtered_field node of None \<Rightarrow> True | Some names \<Rightarrow> n \<in> set names)"
  by (cases t) (simp_all add: filter_fields_names split: option.splits)

lemma type_edges_field:
  "(Some f, args, ty) \<in> set (type_edges S t) \<Longrightarrow> \<exists>n fd. (n, fd) \<in> set (fields_of t) \<and> f = fd_name fd"
  by (cases t) (auto simp: field_edges_def)

lemma chain_node:
  "schema_chain S p \<Longrightarrow> path_node \<in> set (path_nodes p) \<Longrightarrow>
     (case child path_node of
        None \<Rightarrow> field_name path_node = None
      | Some c \<Rightarrow> schema_edge S (node_type path_node) (field_name path_node, field_args path_node, node_type c))"
  by (induction S p rule: schema_chain.induct) auto

definition hidden_mutation :: "schema \<Rightarrow> 'f Search \<Rightarrow> string \<Rightarrow> bool" where
  "hidden_mutation S tool n \<longleftrightarrow> root_operation S Mutation = Some n \<and> \<not> se_allow_mutations tool"

definition node_shown :: "extended_type list \<Rightarrow> PathNode \<Rightarrow> bool" where
  "node_shown ts path_node \<longleftrightarrow>
     (\<exists>t \<in> set ts. et_name t = node_type path_node \<and>
        (case field_name path_node of None \<Rightarrow> True | Some f \<Rightarrow> f \<in> fst ` set (fields_of t)))"

lemma retained_node_shown:
  assumes wk: "well_keyed S" and keyed: "fields_keyed S" and keeps: "keeps_definitions A S"
    and s: "plain_shaker S s" "node_retained S path_node s"
    and chain: "schema_chain S p" "path_node \<in> set (path_nodes p)"
    and own: "indexable S (node_type path_node)" and visible: "\<not> hidden_mutation S tool (node_type path_node)"
  shows "node_shown (filter (search_shows S (shaken_or_partial A S s) tool) (map snd (schema_types (shaken_or_partial A S s)))) path_node"
proof -
  let ?n = "node_type path_node" and ?S = "shaken_or_partial A S s"
  obtain t where t: "map_of (schema_types S) ?n = Some t" "\<not> built_in_type S (et_name t)"
    using own by (auto simp: indexable_def)
  have name: "et_name t = ?n" using wk t(1) by (rule well_keyed_type)
  obtain node where node: "named_type_nodes s ?n = Some node" "retain node"
    using s(2) t(1) by (auto simp: node_retained_def retained_def)
  have "TypeDefinition (shake_type node s t) \<in> set (shaken_document S s)"
    unfolding shaken_document_types[OF wk] by (intro exI[of _ t] exI[of _ node]) (use t node name in simp)
  then have "shake_type node s t \<in> built_types ?S"
    using keeps by (auto simp: keeps_definitions_def)
  then have shown: "shake_type node s t \<in> set (filter (search_shows S ?S tool) (map snd (schema_types ?S)))"
    using visible name
    by (auto simp: built_types_def search_shows_def hidden_mutation_def split: option.splits)
  have "f \<in> fst ` set (fields_of (shake_type node s t))" if f: "field_name path_node = Some f" for f
  proof -
    obtain c where c: "child path_node = Some c" "schema_edge S ?n (Some f, field_args path_node, node_type c)"
      using chain_node[OF chain] f by (auto split: option.splits)
    then have "(Some f, field_args path_node, node_type c) \<in> set (type_edges S t)"
      using t(1) by (auto simp: schema_edge_def)
    from type_edges_field[OF this] obtain k fd where field: "(k, fd) \<in> set (fields_of t)" "f = fd_name fd"
      by blast
    have "(?n, t) \<in> set (schema_types S)" using t(1) by (rule map_of_SomeD)
    with keyed field have k: "f = k" "f \<noteq> ''__typename''" by (auto simp: fields_keyed_def list_all_iff)
    then have "(?n, f) \<in> wanted s" using s(2) t(1) c(1) f by (auto simp: node_retained_def)
    then have "\<exists>names. filtered_field node = Some names \<and> f \<in> set names" using node(1) by (auto simp: wanted_def)
    with field k show ?thesis by (force simp: shaken_fields)
  qed
  then have "case field_name path_node of None \<Rightarrow> True | Some f \<Rightarrow> f \<in> fst ` set (fields_of (shake_type node s t))"
    by (cases "field_name path_node") simp_all
  with name show ?thesis unfolding node_shown_def by (intro bexI[OF _ shown]) simp
qed

lemma chain_indexable:
  assumes "schema_chain S p" "path_node \<in> set (path_nodes p)" "indexable S (last (path_types p))"
  shows "indexable S (node_type path_node)"
proof (cases "child path_node")
  case (Some c)
  with chain_node[OF assms(1,2)] show ?thesis by (auto dest: schema_edge_indexable)
next
  case None
  have "node_type path_node = last (path_types p)"
    using assms(2) None
  proof (induction p rule: path_len.induct)
    case (1 t f a c)
    have "path_types c \<noteq> []" by simp
    with 1 show ?case by auto
  qed auto
  with assms(3) show ?thesis by simp
qed

text \<open>
  C11: A search over an index of the schema that the tool shows: that is the tool as it starts and
  until the first schema reload, after which the index is the old schema's (\<open>update_not_searched\<close>).
  With a leaf depth of at least one (the default; with zero the match itself is not described) the
  search returns a successful result, given a stack of about twice the number of types or twice the
  leaf depth. For each of the five best paths it shows every type from the root to the match, each
  with the field that leads to the next type, so that the answer holds a way to query the match;
  only the mutation root is left out, when mutations are not allowed. The schema's types, fields
  and unions are keyed by their names and not nested, and rebuilding the shaken document loses no
  definition (\<open>keeps_definitions\<close>, of the compiler library).
\<close>

theorem search_shows_paths:
  assumes "indexed snake S roots (se_index tool)" and "fields_keyed S" and "flat_unions S" and "keeps_definitions A S"
    and "se_leaf_depth tool \<noteq> 0" and "stack_for_search S (se_leaf_depth tool) fuel"
  shows "\<exists>root_paths ts.
    schema_search snake analyze F (se_index tool) (default_search_options F) terms = Some (Inr root_paths) \<and>
    search_execute A fuel snake analyze F S tool terms =
      Some (Inr (success_result (map (serialize_or_minify A (se_minify tool)) ts))) \<and>
    (\<forall>(path, score) \<in> set (take MAX_SEARCH_RESULTS root_paths). \<forall>path_node \<in> set (path_nodes path).
       \<not> hidden_mutation S tool (node_type path_node) \<longrightarrow> node_shown ts path_node)"
proof -
  have wk: "well_keyed S" using assms(1) by (simp add: indexed_def)
  have limit: "0 < max_paths_per_type (default_search_options F)" by (simp add: default_search_options_def)
  obtain root_paths matches where search: "schema_search snake analyze F (se_index tool) (default_search_options F) terms = Some (Inr root_paths)"
      "\<forall>(p, s) \<in> set root_paths. last (path_types p) \<in> matches \<and> indexable S (last (path_types p)) \<and> schema_chain S p \<and>
         \<not> has_cycle p \<and> (\<exists>ot \<in> set roots. root_operation S ot = Some (node_type p))"
    using search_root_paths[OF assms(1) limit, of analyze terms F] unfolding Let_def by blast
  then have found: "schema_search snake analyze F (se_index tool) (default_search_options F) terms = Some (Inr root_paths)"
      "\<forall>(p, s) \<in> set root_paths. indexable S (last (path_types p)) \<and> schema_chain S p"
    by auto
  define paths where "paths = take MAX_SEARCH_RESULTS root_paths"
  obtain s where s: "for_each (\<lambda>(path, score). retain_path S fuel (se_leaf_depth tool) path) paths (new_shaker S) = Some s"
      "plain_shaker S s" "\<forall>(path, score) \<in> set paths. \<forall>path_node \<in> set (path_nodes path). node_retained S path_node s"
    using retain_paths_show[OF wk assms(3,6,5), of paths] by blast
  define ts where "ts = filter (search_shows S (shaken_or_partial A S s) tool) (map snd (schema_types (shaken_or_partial A S s)))"
  have "search_types A fuel S tool paths = Some ts"
    using s(1) by (simp add: search_types_def ts_def Let_def)
  then have "search_execute A fuel snake analyze F S tool terms =
      Some (Inr (success_result (map (serialize_or_minify A (se_minify tool)) ts)))"
    using found(1) by (simp add: search_execute_def paths_def)
  moreover have "node_shown ts path_node"
    if path: "(path, score) \<in> set paths" "path_node \<in> set (path_nodes path)"
      and visible: "\<not> hidden_mutation S tool (node_type path_node)" for path score path_node
  proof -
    have chain: "schema_chain S path" "indexable S (last (path_types path))"
      using found(2) path(1) by (auto simp: paths_def dest: in_set_takeD)
    have kept: "node_retained S path_node s" using s(3) path by blast
    show ?thesis
      unfolding ts_def
      by (rule retained_node_shown[OF wk assms(2,4) s(2) kept chain(1) path(2) chain_indexable[OF chain(1) path(2) chain(2)] visible])
  qed
  ultimately show ?thesis using found(1) unfolding paths_def by blast
qed

section \<open>Validation agrees with execution\<close>

text \<open>How the execute tool refuses a mutation.\<close>

definition refusal :: "graphql_api \<Rightarrow> log_levels \<Rightarrow> text_api \<Rightarrow> operation_definition \<Rightarrow> string" where
  "refusal G L T opdef =
     (if warn_enabled L \<and> od_name opdef = None
      then show_operation_error T (MissingName None (serialize_operation G opdef))
      else ''Invalid operation type'')"

text \<open>
  C36: An operation that the validate tool accepts is valid for the schema and is one that the execute
  tool takes up when all mutations are allowed; when they are not, it refuses exactly those accepted
  operations that are mutations. The refusal is the message \<open>Invalid operation type\<close>, except that
  with warnings logged, as by default, naming the operation for the log comes first: a mutation
  without a name is then refused for its missing name.
\<close>

theorem validated_operations_execute:
  assumes "ctr_is_error (validate_execute G L T A S input) = Some False"
  shows "\<exists>operation document opdef comments.
    validate_input input = Some operation \<and> validate_executable A S operation = Inr () \<and>
    operation_defs G L operation True None = Inr (Some (document, opdef, comments)) \<and>
    od_operation_type opdef \<noteq> Subscription \<and>
    (\<forall>ex variables.
       (case execute_operation_details G L T ex (JObject [(''query'', JString operation), (''variables'', variables)]) of
          Inl e \<Rightarrow> e = refusal G L T opdef \<and> od_operation_type opdef = Mutation \<and> ex_mutation_mode ex \<noteq> AllMutations
        | Inr details \<Rightarrow> ex_mutation_mode ex = AllMutations \<or> od_operation_type opdef = Query))"
proof -
  obtain operation where op: "validate_input input = Some operation"
    using assms(1) by (cases "validate_input input") (auto simp: validate_execute_def error_result_def)
  obtain found where found: "operation_defs G L operation True None = Inr (Some found)"
    using assms(1) op
    by (cases "operation_defs G L operation True None"; cases "projr (operation_defs G L operation True None)")
      (auto simp: validate_execute_def error_result_def)
  obtain document opdef comments where parts: "found = (document, opdef, comments)" by (cases found)
  have valid: "validate_executable A S operation = Inr ()"
    using assms(1) op found
    by (cases "validate_executable A S operation") (auto simp: validate_execute_def error_result_def)
  have any: "operation_defs G L operation b None =
      (if od_operation_type opdef = Query \<or> b then Inr (Some (document, opdef, comments))
       else if warn_enabled L then try_result (operation_name G opdef None) (\<lambda>_. Inr None) else Inr None) \<and>
      od_operation_type opdef \<noteq> Subscription" for b
    using found unfolding parts operation_defs_def
    by (auto simp: try_result_Inr_iff split: sum.splits list.splits prod.splits operation_type.splits if_splits)
  have executes: "case execute_operation_details G L T ex (JObject [(''query'', JString operation), (''variables'', variables)]) of
      Inl e \<Rightarrow> e = refusal G L T opdef \<and> od_operation_type opdef = Mutation \<and> ex_mutation_mode ex \<noteq> AllMutations
    | Inr details \<Rightarrow> ex_mutation_mode ex = AllMutations \<or> od_operation_type opdef = Query" for ex variables
  proof (cases "od_operation_type opdef = Query \<or> ex_mutation_mode ex = AllMutations")
    case True
    then have defs: "operation_defs G L operation (ex_mutation_mode ex = AllMutations) None = Inr (Some (document, opdef, comments))"
      using any by simp
    show ?thesis
      using True
      by (cases "process_private_directives (length document)
            (\<lambda>q. case parse_document G q of Inl _ \<Rightarrow> None | Inr d \<Rightarrow> Some (map fst d)) (serialize_document G) operation")
        (auto simp: execute_operation_details_def defs Let_def split: prod.splits)
  next
    case False
    moreover from this have "od_operation_type opdef = Mutation"
      using any by (cases "od_operation_type opdef") auto
    ultimately show ?thesis using any
      by (cases "od_name opdef") (simp_all add: execute_operation_details_def refusal_def operation_name_def)
  qed
  have accepted: "operation_defs G L operation True None = Inr (Some (document, opdef, comments))"
    and query: "od_operation_type opdef \<noteq> Subscription"
    using any[of True] by simp_all
  show ?thesis
    by (intro exI conjI allI, rule op, rule valid, rule accepted, rule query, rule executes)
qed

section \<open>Examples\<close>

definition example_lookup :: lookup_api where
  "example_lookup =
     \<lparr>serialize_type = et_name,
      to_schema = (\<lambda>defs. Inr
        \<lparr>schema_description = None, schema_directives = [], root_operation = (\<lambda>_. None),
         schema_types = filter_map (\<lambda>d. case d of TypeDefinition t \<Rightarrow> Some (et_name t, t) | _ \<Rightarrow> None) defs,
         directive_definitions = [], built_in_type = (\<lambda>_. False), built_in_directive = (\<lambda>_. False)\<rparr>),
      validate_executable = (\<lambda>_ _. Inr ())\<rparr>"

lemma example_keeps_definitions: "keeps_definitions example_lookup S"
proof -
  have "t \<in> snd ` set (filter_map (\<lambda>d. case d of TypeDefinition t \<Rightarrow> Some (et_name t, t) | _ \<Rightarrow> None) defs) \<longleftrightarrow>
      TypeDefinition t \<in> set defs" for t defs
    by (induction defs) (auto split: schema_definition.splits)
  then show ?thesis
    by (auto simp: keeps_definitions_def built_types_def shaken_or_partial_def shaken_def example_lookup_def)
qed

definition example_introspect :: Introspect where
  "example_introspect = introspect_new (Some ''Query'') None False None JNull"

lemma payload_stack: "card (dom (map_of (schema_types payload_schema))) = 4"
  by (simp add: payload_schema_defs card_insert_if)

theorem introspect_shows_reachable_witness:
  "\<exists>ts. introspect_types example_lookup 11 payload_schema example_introspect ''Query'' 2 = Some ts \<and>
     et_name ` set ts =
       {n. (if (2 :: 64 word) = 0 then (''Query'', n) \<in> (references payload_schema)\<^sup>*
            else \<exists>j < unat (2 :: 64 word). (''Query'', n) \<in> references payload_schema ^^ j) \<and>
           \<not> built_in_type payload_schema n \<and> \<not> hidden_root payload_schema example_introspect ''Query'' n}"
proof (rule introspect_shows_reachable)
  show "well_keyed payload_schema" "flat_unions payload_schema" by code_simp+
  show "map_of (schema_types payload_schema) ''Query'' = Some (snd (simple_object ''Query'' [simple_field ''user'' ''User'']))"
    by (simp add: payload_schema_defs)
qed (simp_all add: payload_stack example_keeps_definitions)

definition example_search :: "operation_type list \<Rightarrow> int Search" where
  "example_search roots =
     \<lparr>se_index = payload_engine roots, se_allow_mutations = False, se_leaf_depth = 1, se_minify = False,
      se_tool = lookup_tool ''search'' (search_description False) None JNull\<rparr>"

theorem search_shows_paths_witness:
  "\<exists>root_paths ts.
    schema_search id (\<lambda>s. [s]) int_floats (payload_engine [Query]) (default_search_options int_floats) [''User''] = Some (Inr root_paths) \<and>
    search_execute example_lookup 11 id (\<lambda>s. [s]) int_floats payload_schema (example_search [Query]) [''User''] =
      Some (Inr (success_result (map (serialize_or_minify example_lookup False) ts))) \<and>
    (\<forall>(path, score) \<in> set (take MAX_SEARCH_RESULTS root_paths). \<forall>path_node \<in> set (path_nodes path).
       \<not> hidden_mutation payload_schema (example_search [Query]) (node_type path_node) \<longrightarrow> node_shown ts path_node)"
proof -
  have keyed: "fields_keyed payload_schema" "flat_unions payload_schema" by code_simp+
  show ?thesis
    using search_shows_paths[OF _ keyed example_keeps_definitions, of id "[Query]" "example_search [Query]" 11
        "\<lambda>s. [s]" int_floats "[''User'']"] payload_indexed[of "[Query]"]
    by (simp add: example_search_def stack_for_search_def payload_stack)
qed

text \<open>
  A match that another path goes through is shown with the fields of that path only: the definition
  of \<open>Team\<close>, which was searched for, lacks its field \<open>name\<close>.
\<close>

definition club_schema :: schema where
  "club_schema = payload_schema
     \<lparr>schema_types :=
        [simple_object ''Query'' [simple_field ''team'' ''Team''],
         simple_object ''Team'' [simple_field ''lead'' ''User'', simple_field ''name'' ''ID''],
         simple_object ''User'' [simple_field ''id'' ''ID'']]\<rparr>"

lemma match_truncated:
  "map_option (map (\<lambda>t. (et_name t, map fst (fields_of t))))
     (case schema_search id (\<lambda>s. [s]) int_floats (scan_engine (index_documents id club_schema [Query]))
         (default_search_options int_floats) [''Team'', ''User''] of
        Some (Inr root_paths) \<Rightarrow> search_types example_lookup 11 club_schema (example_search [Query]) (take MAX_SEARCH_RESULTS root_paths)
      | _ \<Rightarrow> None) =
   Some [(''Query'', [''team'']), (''Team'', [''lead'']), (''User'', [''id''])]"
  by code_simp

text \<open>
  The index is the one of the schema the tool was built with: a type that a schema update brought
  is not found, although the tool shows the schema after the update.
\<close>

definition updated_schema :: schema where
  "updated_schema = payload_schema
     \<lparr>schema_types :=
        [simple_object ''Query'' [simple_field ''user'' ''User'', simple_field ''invoice'' ''Invoice''],
         simple_object ''User'' [simple_field ''id'' ''ID''],
         simple_object ''Invoice'' [simple_field ''id'' ''ID'']]\<rparr>"

lemma update_not_searched:
  "search_execute example_lookup 11 id (\<lambda>s. [s]) int_floats updated_schema (example_search [Query]) [''Invoice''] =
     Some (Inr (success_result []))"
  "search_execute example_lookup 11 id (\<lambda>s. [s]) int_floats updated_schema
     ((example_search [Query])\<lparr>se_index := scan_engine (index_documents id updated_schema [Query])\<rparr>) [''Invoice''] =
     Some (Inr (success_result [''Query'', ''Invoice'']))"
  by code_simp+

lemma validate_example_simps:
  "ctr_is_error (validate_execute example_graphql example_log T example_lookup payload_schema
     (JObject [(''operation'', JString ''m'')])) = Some False"
  by (simp add: validate_execute_def validate_input_def example_graphql_def operation_defs_def example_lookup_def
    success_result_def Let_def str_slice_def example_log_def)

theorem validated_operations_execute_witness:
  "\<exists>operation document opdef comments.
    validate_input (JObject [(''operation'', JString ''m'')]) = Some operation \<and>
    validate_executable example_lookup payload_schema operation = Inr () \<and>
    operation_defs example_graphql example_log operation True None = Inr (Some (document, opdef, comments)) \<and>
    od_operation_type opdef \<noteq> Subscription \<and>
    (\<forall>ex variables.
       (case execute_operation_details example_graphql example_log example_text_api ex
           (JObject [(''query'', JString operation), (''variables'', variables)]) of
          Inl e \<Rightarrow> e = refusal example_graphql example_log example_text_api opdef \<and>
            od_operation_type opdef = Mutation \<and> ex_mutation_mode ex \<noteq> AllMutations
        | Inr details \<Rightarrow> ex_mutation_mode ex = AllMutations \<or> od_operation_type opdef = Query))"
  by (rule validated_operations_execute[OF validate_example_simps])

end
