(* ===== verification/App_Manifests.thy ===== *)
theory App_Manifests
  imports Apps Json_Schema
begin

text \<open>
  Loading MCP apps from their manifests (\<open>apps/manifest.rs\<close>): the directories, the operations and tools
  of each app with their labels and extra inputs, and the resources. The file system, the JSON decoder
  of a manifest and URL parsing are parameters. Objects are association lists; the position that a
  replaced key takes is of no meaning in a JSON schema.
\<close>

section \<open>The manifest\<close>

datatype JsonSchemaType = TString | TNumber | TBoolean | TInteger | TArray | TObject

fun json_schema_type :: "JsonSchemaType \<Rightarrow> string" where
  "json_schema_type TString = ''string''"
| "json_schema_type TNumber = ''number''"
| "json_schema_type TBoolean = ''boolean''"
| "json_schema_type TInteger = ''integer''"
| "json_schema_type TArray = ''array''"
| "json_schema_type TObject = ''object''"

record ExtraInputDefinition =
  ei_name :: string
  ei_description :: string
  ei_value_type :: JsonSchemaType
  ei_required :: bool

record ToolDefinition =
  td_name :: string
  td_description :: string
  td_extra_inputs :: "ExtraInputDefinition list option"
  td_extra_outputs :: "json option"
  td_labels :: "AppLabels option"

record OperationDefinition =
  opd_body :: string
  opd_prefetch_id :: "string option"
  opd_tools :: "ToolDefinition list"

datatype ManifestResource =
    TargetedResource "string option" "string option" \<comment> \<open>openai, mcp\<close>
  | SingleResource string

record AppManifest =
  mf_hash :: string
  mf_operations :: "OperationDefinition list"
  mf_resource :: ManifestResource
  mf_name :: "string option"
  mf_description :: "string option"
  mf_csp :: "CSPSettings option"
  mf_labels :: "AppLabels option"
  mf_widget_settings :: "WidgetSettings option"

section \<open>Extra inputs\<close>

definition remove_key :: "string \<Rightarrow> (string \<times> 'v) list \<Rightarrow> (string \<times> 'v) list" where
  "remove_key k kvs = filter (\<lambda>kv. fst kv \<noteq> k) kvs"

definition extra_input_message :: "string \<Rightarrow> string" where
  "extra_input_message name =
     ''Extra input with name '' @ [CHR 0x27] @ name @ [CHR 0x27] @
     '' failed to process because another input with this name was already processed. Make sure your extra_input names are unique, both from each other and any graphql variables you may have.''"

fun add_extra_inputs ::
    "ExtraInputDefinition list \<Rightarrow> (string \<times> json) list \<Rightarrow> json list \<Rightarrow>
     (string, (string \<times> json) list \<times> json list) result" where
  "add_extra_inputs [] properties required = Inr (properties, required)"
| "add_extra_inputs (extra_input # extra) properties required =
     (if map_of properties (ei_name extra_input) \<noteq> None then Inl (extra_input_message (ei_name extra_input))
      else add_extra_inputs extra
        (obj_insert (ei_name extra_input)
           (JObject [(''description'', JString (ei_description extra_input)),
                     (''type'', JString (json_schema_type (ei_value_type extra_input)))]) properties)
        (if ei_required extra_input \<and> JString (ei_name extra_input) \<notin> set required
         then required @ [JString (ei_name extra_input)] else required))"

definition merge_inputs ::
    "(string \<times> json) list \<Rightarrow> ExtraInputDefinition list \<Rightarrow> (string, (string \<times> json) list) result" where
  "merge_inputs orig extra =
     (let properties = (case map_of orig ''properties'' of Some (JObject props) \<Rightarrow> props | _ \<Rightarrow> []);
          required = (case map_of orig ''required'' of Some (JArray req) \<Rightarrow> req | _ \<Rightarrow> []);
          rest = remove_key ''required'' (remove_key ''properties'' orig)
      in try_result (add_extra_inputs extra properties required) (\<lambda>(properties, required).
           Inr (obj_insert ''required'' (JArray required) (obj_insert ''properties'' (JObject properties) rest))))"

section \<open>Tools\<close>

definition override_labels :: "AppLabels option \<Rightarrow> AppLabels option \<Rightarrow> AppLabels" where
  "override_labels manifest_labels tool_labels =
     (let labels = (case manifest_labels of None \<Rightarrow> \<lparr>label_invoking = None, label_invoked = None\<rparr> | Some l \<Rightarrow> l)
      in case tool_labels of
           None \<Rightarrow> labels
         | Some t \<Rightarrow>
             \<lparr>label_invoking = (case label_invoking t of None \<Rightarrow> label_invoking labels | Some l \<Rightarrow> Some l),
              label_invoked = (case label_invoked t of None \<Rightarrow> label_invoked labels | Some l \<Rightarrow> Some l)\<rparr>)"

definition app_tool :: "AppManifest \<Rightarrow> Operation arc \<Rightarrow> ToolDefinition \<Rightarrow> (string, AppTool) result" where
  "app_tool manifest operation t =
     (let op_tool = op_tool (arc_val operation)
      in try_result
           (case td_extra_inputs t of
              Some extra_inputs \<Rightarrow>
                try_result (merge_inputs (json_entries (tool_input_schema op_tool)) extra_inputs) (\<lambda>m. Inr (JObject m))
            | None \<Rightarrow> Inr (tool_input_schema op_tool))
           (\<lambda>input_schema. Inr
             \<lparr>at_operation = operation, at_labels = override_labels (mf_labels manifest) (td_labels t),
              at_tool = \<lparr>tool_name = td_name t,
                tool_description = (case mf_description manifest of
                  Some prefix \<Rightarrow> prefix @ '' '' @ td_description t
                | None \<Rightarrow> td_description t),
                tool_input_schema = input_schema, tool_output_schema = tool_output_schema op_tool,
                tool_annotations = tool_annotations op_tool, tool_meta = None\<rparr>,
              at_extra_outputs = td_extra_outputs t\<rparr>))"

text \<open>
  The operations of a manifest, in order: \<open>load\<close> is \<open>Operation::from_raw\<close> with the options of the server and
  no overrides, \<open>path\<close> the directory, \<open>ptr\<close> the address of the next shared operation.
\<close>

fun app_operations ::
    "(RawOperation \<Rightarrow> (string, Operation option) result) \<Rightarrow> string \<Rightarrow> AppManifest \<Rightarrow> nat \<Rightarrow> OperationDefinition list \<Rightarrow>
     (string, AppTool list \<times> PrefetchOperation list \<times> nat) result" where
  "app_operations load path manifest ptr [] = Inr ([], [], ptr)"
| "app_operations load path manifest ptr (operation_def # defs) =
     try_result
       (case load \<lparr>source_text = opd_body operation_def, raw_headers = None, raw_variables = None, source_path = Some path\<rparr> of
          Inl err \<Rightarrow> Inl (''Failed to parse operation from '' @ path @ '': '' @ err)
        | Inr None \<Rightarrow> Inl (''Failed parsing tools: No operation in '' @ path)
        | Inr (Some op) \<Rightarrow> Inr \<lparr>arc_ptr = ptr, arc_val = op\<rparr>)
       (\<lambda>operation.
         try_result (collect_results (app_tool manifest operation) (opd_tools operation_def)) (\<lambda>tools.
         try_result (app_operations load path manifest (Suc ptr) defs) (\<lambda>(rest_tools, rest_prefetch, next_ptr).
           Inr (tools @ rest_tools,
                (case opd_prefetch_id operation_def of
                   None \<Rightarrow> []
                 | Some prefetch_id \<Rightarrow> [\<lparr>pf_operation = operation, pf_prefetch_id = prefetch_id\<rparr>]) @ rest_prefetch, next_ptr))))"

section \<open>Resources and directories\<close>

text \<open>The file system below the directory of the apps, the JSON decoder of manifests and the URL parser.\<close>

record apps_env =
  ae_entries :: "(string option) list option"
  ae_is_dir :: "string \<Rightarrow> bool"
  ae_file_name :: "string \<Rightarrow> string"
  ae_read :: "string \<Rightarrow> (string, string) result"
  ae_join :: "string \<Rightarrow> string \<Rightarrow> string"
  ae_parse :: "string \<Rightarrow> (string, AppManifest) result"
  ae_url :: "string \<Rightarrow> (string, app_url) result"

definition MANIFEST_FILE_NAME :: string where "MANIFEST_FILE_NAME = ''.application-manifest.json''"

definition resource_source_from_string :: "apps_env \<Rightarrow> string \<Rightarrow> string \<Rightarrow> (string, AppResourceSource) result" where
  "resource_source_from_string E path resource =
     (if starts_with ''http://'' resource \<or> starts_with ''https://'' resource
      then try_result (map_error (\<lambda>err. ''Failed to parse resource URL '' @ resource @ '': '' @ err) (ae_url E resource))
             (\<lambda>url. Inr (RemoteSource (app_url_text url)))
      else try_result (map_error (\<lambda>err. ''Failed to read resource from '' @ ae_join E path resource @ '': '' @ err)
                        (ae_read E (ae_join E path resource)))
             (\<lambda>contents. Inr (LocalSource contents)))"

definition transposed :: "('a \<Rightarrow> ('e, 'b) result) \<Rightarrow> 'a option \<Rightarrow> ('e, 'b option) result" where
  "transposed f x = (case x of None \<Rightarrow> Inr None | Some a \<Rightarrow> try_result (f a) (\<lambda>b. Inr (Some b)))"

fun app_resource_of :: "apps_env \<Rightarrow> string \<Rightarrow> ManifestResource \<Rightarrow> (string, AppResource) result" where
  "app_resource_of E path (TargetedResource openai mcp) =
     try_result (transposed (resource_source_from_string E path) mcp) (\<lambda>m.
     try_result (transposed (resource_source_from_string E path) openai) (\<lambda>o'.
       Inr (Targeted \<lparr>for_openai = o', for_mcp = m\<rparr>)))"
| "app_resource_of E path (SingleResource resource) =
     try_result (resource_source_from_string E path resource) (\<lambda>r. Inr (Single r))"

definition load_app ::
    "apps_env \<Rightarrow> (RawOperation \<Rightarrow> (string, Operation option) result) \<Rightarrow> nat \<Rightarrow> string \<Rightarrow> string \<Rightarrow> (string, App \<times> nat) result" where
  "load_app E load ptr path contents =
     try_result (map_error (\<lambda>err. ''Failed to parse manifest from '' @ path @ '': '' @ err) (ae_parse E contents))
       (\<lambda>manifest.
         let name = (case mf_name manifest of None \<Rightarrow> ae_file_name E path | Some n \<Rightarrow> n);
             uri_string = ''ui://widget/'' @ name @ ''#'' @ mf_hash manifest
         in try_result (map_error (\<lambda>err. ''Failed to create a URI for resource '' @ uri_string @ '': '' @ err) (ae_url E uri_string))
              (\<lambda>uri.
            try_result (app_operations load path manifest ptr (mf_operations manifest)) (\<lambda>(tools, prefetch_operations, next_ptr).
            try_result (app_resource_of E path (mf_resource manifest)) (\<lambda>resource.
              Inr (\<lparr>app_name = name, app_description = mf_description manifest, app_resource = resource,
                   app_csp_settings = mf_csp manifest, app_widget_settings = mf_widget_settings manifest,
                   app_uri = uri, app_tools = tools, app_prefetch_operations = prefetch_operations\<rparr>, next_ptr)))))"

text \<open>Entries that cannot be read, are no directories or have no manifest are ignored.\<close>

fun load_apps_from ::
    "apps_env \<Rightarrow> (RawOperation \<Rightarrow> (string, Operation option) result) \<Rightarrow> nat \<Rightarrow> string option list \<Rightarrow> (string, App list) result" where
  "load_apps_from E load ptr [] = Inr []"
| "load_apps_from E load ptr (None # entries) = load_apps_from E load ptr entries"
| "load_apps_from E load ptr (Some path # entries) =
     (if \<not> ae_is_dir E path then load_apps_from E load ptr entries
      else (case ae_read E (ae_join E path MANIFEST_FILE_NAME) of
              Inl _ \<Rightarrow> load_apps_from E load ptr entries
            | Inr contents \<Rightarrow>
                try_result (load_app E load ptr path contents) (\<lambda>(app, next_ptr).
                try_result (load_apps_from E load next_ptr entries) (\<lambda>apps. Inr (app # apps)))))"

definition load_from_path ::
    "apps_env \<Rightarrow> (RawOperation \<Rightarrow> (string, Operation option) result) \<Rightarrow> (string, App list) result" where
  "load_from_path E load = (case ae_entries E of None \<Rightarrow> Inr [] | Some entries \<Rightarrow> load_apps_from E load 0 entries)"

section \<open>What the merged schema accepts\<close>

definition extra_schema :: "ExtraInputDefinition \<Rightarrow> json" where
  "extra_schema x =
     JObject [(''description'', JString (ei_description x)), (''type'', JString (json_schema_type (ei_value_type x)))]"

lemma accepts_extra: "accepts V r (extra_schema x) v \<longleftrightarrow> has_type (json_schema_type (ei_value_type x)) v"
  by (simp add: extra_schema_def schema_simps)

lemma add_extra_inputs_sets:
  "add_extra_inputs extra properties required = Inr (properties', required') \<Longrightarrow>
     set properties' = set properties \<union> (\<lambda>x. (ei_name x, extra_schema x)) ` set extra \<and>
     set required' = set required \<union> (\<lambda>x. JString (ei_name x)) ` {x \<in> set extra. ei_required x}"
proof (induction extra properties required rule: add_extra_inputs.induct)
  case (2 x extra properties required)
  then have new: "ei_name x \<notin> obj_keys properties" by (auto simp: map_of_None_keys split: if_splits)
  with 2 show ?case
    by (auto simp: obj_insert_new extra_schema_def map_of_None_keys split: if_splits)
qed simp

text \<open>The names are new and differ from each other; otherwise the app is refused.\<close>

lemma add_extra_inputs_names:
  "(\<exists>r. add_extra_inputs extra properties required = Inr r) \<longleftrightarrow>
     distinct (map ei_name extra) \<and> ei_name ` set extra \<inter> obj_keys properties = {}"
  by (induction extra properties required rule: add_extra_inputs.induct) (auto simp: map_of_None_keys)

definition extras_value :: "ExtraInputDefinition list \<Rightarrow> json \<Rightarrow> bool" where
  "extras_value extra v \<longleftrightarrow>
     (\<forall>x \<in> set extra. case v of
        JObject kvs \<Rightarrow> (case map_of kvs (ei_name x) of
            None \<Rightarrow> \<not> ei_required x
          | Some w \<Rightarrow> has_type (json_schema_type (ei_value_type x)) w)
      | _ \<Rightarrow> True)"

text \<open>Validity under an object schema, with its properties and required names apart.\<close>

definition schema_properties :: "(string \<times> json) list \<Rightarrow> (string \<times> json) list" where
  "schema_properties kws = (case map_of kws ''properties'' of Some (JObject props) \<Rightarrow> props | _ \<Rightarrow> [])"

definition schema_required :: "(string \<times> json) list \<Rightarrow> json list" where
  "schema_required kws = (case map_of kws ''required'' of Some (JArray req) \<Rightarrow> req | _ \<Rightarrow> [])"

definition other_keywords :: "(string \<times> json) list \<Rightarrow> (string \<times> json) set" where
  "other_keywords kws = {kw \<in> set kws. fst kw \<noteq> ''properties'' \<and> fst kw \<noteq> ''required''}"

lemma keyword_split:
  assumes "distinct (map fst kws)"
  shows "(\<forall>kw \<in> set kws. P (fst kw) (snd kw)) \<longleftrightarrow>
    (\<forall>kw \<in> other_keywords kws. P (fst kw) (snd kw)) \<and>
    (case map_of kws ''properties'' of None \<Rightarrow> True | Some a \<Rightarrow> P ''properties'' a) \<and>
    (case map_of kws ''required'' of None \<Rightarrow> True | Some a \<Rightarrow> P ''required'' a)"
proof -
  have at: "(case map_of kws k of None \<Rightarrow> True | Some a \<Rightarrow> P k a) \<longleftrightarrow> (\<forall>kw \<in> set kws. fst kw = k \<longrightarrow> P (fst kw) (snd kw))" for k
  proof (cases "map_of kws k")
    case None
    then have "k \<notin> fst ` set kws" by (simp add: map_of_eq_None_iff)
    with None show ?thesis by (metis (no_types, lifting) image_eqI option.simps(4))
  next
    case (Some a)
    then have "kw \<in> set kws \<Longrightarrow> fst kw = k \<Longrightarrow> snd kw = a" for kw
      using map_of_is_SomeI[OF assms, of k "snd kw"] by (cases kw) auto
    moreover have "P k a" if all: "\<forall>kw \<in> set kws. fst kw = k \<longrightarrow> P (fst kw) (snd kw)"
      using bspec[OF all map_of_SomeD[OF Some]] by simp
    ultimately show ?thesis unfolding Some option.case by blast
  qed
  show ?thesis unfolding at other_keywords_def mem_Collect_eq by blast
qed

lemma accepts_parts:
  assumes "distinct (map fst kws)"
  shows "accepts V r (JObject kws) v \<longleftrightarrow>
    (\<forall>kw \<in> other_keywords kws. keyword_holds V r (fst kw) (snd kw) v) \<and>
    (\<forall>ps \<in> set (schema_properties kws). case map_of (json_entries v) (fst ps) of
        None \<Rightarrow> True | Some x \<Rightarrow> accepts V (vd_ref_limit V) (snd ps) x) \<and>
    required_keyword (JArray (schema_required kws)) v"
proof -
  have "(case map_of kws ''properties'' of None \<Rightarrow> True | Some a \<Rightarrow> keyword_holds V r ''properties'' a v) \<longleftrightarrow>
      (\<forall>ps \<in> set (schema_properties kws). case map_of (json_entries v) (fst ps) of
        None \<Rightarrow> True | Some x \<Rightarrow> accepts V (vd_ref_limit V) (snd ps) x)"
  proof (cases "map_of kws ''properties''")
    case (Some a)
    then show ?thesis by (cases a) (simp_all add: schema_properties_def schema_simps)
  qed (simp add: schema_properties_def)
  moreover have "(case map_of kws ''required'' of None \<Rightarrow> True | Some a \<Rightarrow> keyword_holds V r ''required'' a v) \<longleftrightarrow>
      required_keyword (JArray (schema_required kws)) v"
  proof (cases "map_of kws ''required''")
    case (Some a)
    then show ?thesis by (cases a; cases v) (simp_all add: schema_required_def schema_simps required_keyword_def)
  next
    case None
    then show ?thesis by (cases v) (simp_all add: schema_required_def required_keyword_def)
  qed
  ultimately show ?thesis
    unfolding accepts_object keyword_split[OF assms, of "\<lambda>k a. keyword_holds V r k a v"] by blast
qed

lemma remove_key_facts:
  "map_of (remove_key k kvs) k' = (if k' = k then None else map_of kvs k')"
  "distinct (map fst kvs) \<Longrightarrow> distinct (map fst (remove_key k kvs))"
  "set (remove_key k kvs) = {kv \<in> set kvs. fst kv \<noteq> k}"
  unfolding remove_key_def by (induction kvs) auto

lemma set_obj_insert_new: "map_of kvs k = None \<Longrightarrow> set (obj_insert k v kvs) = insert (k, v) (set kvs)"
  by (simp add: map_of_None_keys obj_insert_new)

lemma merged_parts:
  assumes "merge_inputs orig extra = Inr merged" "distinct (map fst orig)"
  obtains properties required where
    "add_extra_inputs extra (schema_properties orig) (schema_required orig) = Inr (properties, required)"
    "schema_properties merged = properties" "schema_required merged = required"
    "other_keywords merged = other_keywords orig" "distinct (map fst merged)"
    "map_of merged ''definitions'' = map_of orig ''definitions''"
proof -
  obtain properties required where added:
      "add_extra_inputs extra (schema_properties orig) (schema_required orig) = Inr (properties, required)"
      "merged = obj_insert ''required'' (JArray required) (obj_insert ''properties'' (JObject properties)
         (remove_key ''required'' (remove_key ''properties'' orig)))"
    using assms(1) by (auto simp: merge_inputs_def Let_def try_result_Inr_iff schema_properties_def schema_required_def)
  have "other_keywords merged = other_keywords orig"
    by (auto simp: other_keywords_def added(2) set_obj_insert_new remove_key_facts)
  with assms(2) added show ?thesis
    by (intro that[of properties required])
       (simp_all add: schema_properties_def schema_required_def remove_key_facts)
qed

text \<open>
  C16: The schema of an app tool with extra inputs accepts a value exactly when the schema of the operation accepts
  it and every extra input that is given has its type and every required one is given.
\<close>

theorem merged_inputs_exact:
  assumes "merge_inputs orig extra = Inr merged" "distinct (map fst orig)"
  shows "valid_under other (JObject merged) v \<longleftrightarrow> valid_under other (JObject orig) v \<and> extras_value extra v"
proof -
  obtain properties required where parts:
    "add_extra_inputs extra (schema_properties orig) (schema_required orig) = Inr (properties, required)"
    "schema_properties merged = properties" "schema_required merged = required"
    "other_keywords merged = other_keywords orig" "distinct (map fst merged)"
    "map_of merged ''definitions'' = map_of orig ''definitions''"
    using merged_parts[OF assms] by blast
  note sets = add_extra_inputs_sets[OF parts(1)]
  have props: "(\<forall>ps \<in> set properties. case map_of (json_entries v) (fst ps) of
        None \<Rightarrow> True | Some x \<Rightarrow> accepts V (vd_ref_limit V) (snd ps) x) \<longleftrightarrow>
      (\<forall>ps \<in> set (schema_properties orig). case map_of (json_entries v) (fst ps) of
        None \<Rightarrow> True | Some x \<Rightarrow> accepts V (vd_ref_limit V) (snd ps) x) \<and>
      (\<forall>x \<in> set extra. case map_of (json_entries v) (ei_name x) of
        None \<Rightarrow> True | Some w \<Rightarrow> has_type (json_schema_type (ei_value_type x)) w)" for V
    using sets by (simp add: ball_Un accepts_extra cong: option.case_cong)
  have req: "required_keyword (JArray required) v \<longleftrightarrow> required_keyword (JArray (schema_required orig)) v \<and>
      (\<forall>x \<in> set extra. ei_required x \<longrightarrow> (case v of JObject kvs \<Rightarrow> map_of kvs (ei_name x) \<noteq> None | _ \<Rightarrow> True))"
  proof (cases v)
    case (JObject kvs)
    have "(\<forall>k \<in> set required. case k of JString s \<Rightarrow> s \<in> fst ` set kvs | _ \<Rightarrow> True) \<longleftrightarrow>
        (\<forall>k \<in> set (schema_required orig). case k of JString s \<Rightarrow> s \<in> fst ` set kvs | _ \<Rightarrow> True) \<and>
        (\<forall>x \<in> set extra. ei_required x \<longrightarrow> ei_name x \<in> fst ` set kvs)"
      unfolding conjunct2[OF sets] by (simp add: ball_Un) blast
    with JObject show ?thesis by (simp add: required_keyword_def map_of_eq_None_iff)
  qed (simp_all add: required_keyword_def)
  have extras: "extras_value extra v \<longleftrightarrow>
      (\<forall>x \<in> set extra. case map_of (json_entries v) (ei_name x) of
        None \<Rightarrow> True | Some w \<Rightarrow> has_type (json_schema_type (ei_value_type x)) w) \<and>
      (\<forall>x \<in> set extra. ei_required x \<longrightarrow> (case v of JObject kvs \<Rightarrow> map_of kvs (ei_name x) \<noteq> None | _ \<Rightarrow> True))"
    by (cases v) (auto simp: extras_value_def split: option.splits)
  have "root_definitions (JObject merged) = root_definitions (JObject orig)"
    by (simp add: root_definitions_def parts(6))
  then show ?thesis
    unfolding valid_under_def Let_def accepts_parts[OF assms(2)] accepts_parts[OF parts(5)] parts(2-4) extras
    by (simp only: props req) blast
qed

definition example_base :: "(string \<times> json) list" where
  "example_base =
     [(''type'', JString ''object''), (''properties'', JObject [(''id'', JObject [(''type'', JString ''string'')])]),
      (''required'', JArray [JString ''id''])]"

definition example_extra :: "ExtraInputDefinition list" where
  "example_extra =
     [\<lparr>ei_name = ''page'', ei_description = ''the page'', ei_value_type = TInteger, ei_required = True\<rparr>,
      \<lparr>ei_name = ''note'', ei_description = ''a note'', ei_value_type = TString, ei_required = False\<rparr>]"

lemma example_merged: "\<exists>merged. merge_inputs example_base example_extra = Inr merged"
  by (simp add: merge_inputs_def example_base_def example_extra_def)

theorem merged_inputs_exact_witness:
  "\<exists>merged. merge_inputs example_base example_extra = Inr merged \<and>
     valid_under (\<lambda>_ _ _. True) (JObject merged) (JObject [(''id'', JString ''x''), (''page'', JNumber 2)]) \<and>
     \<not> valid_under (\<lambda>_ _ _. True) (JObject merged) (JObject [(''id'', JString ''x'')]) \<and>
     \<not> valid_under (\<lambda>_ _ _. True) (JObject merged) (JObject [(''page'', JNumber 2)])"
proof -
  obtain merged where merged: "merge_inputs example_base example_extra = Inr merged" using example_merged by blast
  have exact: "valid_under (\<lambda>_ _ _. True) (JObject merged) v \<longleftrightarrow>
      valid_under (\<lambda>_ _ _. True) (JObject example_base) v \<and> extras_value example_extra v" for v
    by (rule merged_inputs_exact[OF merged]) (simp add: example_base_def)
  show ?thesis
    by (intro exI[of _ merged] conjI merged)
       (simp_all only: exact, simp_all add: valid_under_def Let_def example_base_def extras_value_def example_extra_def schema_simps required_keyword_def)
qed

end
