(* ===== verification/Collection_Poller.thy ===== *)
theory Collection_Poller
  imports Web_Types
begin

text \<open>
  Operation collections (\<open>platform_api.rs\<close>, \<open>platform_api/operation_collections/*.rs\<close> of the crate
  \<open>apollo-mcp-registry\<close>): a request to the platform API, the cache of the operations of a collection,
  one round of polling, and the task that feeds the stream of collection events. Sending a request is
  a parameter; what \<open>graphql_request\<close> answers in a round is an input of the round. The hash map of
  the cache is an association list: its order stands for the order in which the map is iterated.
\<close>

section \<open>Requests to the platform API\<close>

record reqwest_error =
  is_connect :: bool
  is_timeout :: bool
  is_request :: bool
  err_status :: "nat option"

datatype RequestError =
    RE_HeaderValue string
  | RE_Request reqwest_error
  | RE_Response string

fun is_transient :: "RequestError \<Rightarrow> bool" where
  "is_transient (RE_Request req_err) =
     (is_connect req_err \<or> is_timeout req_err \<or> is_request req_err \<or>
      (case err_status req_err of
         None \<Rightarrow> False
       | Some status \<Rightarrow> (500 \<le> status \<and> status < 600) \<or> status = 429))"
| "is_transient _ = False"

record PlatformApiConfig =
  apollo_key :: string
  poll_interval :: nat
  poll_timeout :: nat
  registry_url :: string

definition DEFAULT_PLATFORM_API :: string where
  "DEFAULT_PLATFORM_API = ''https://graphql.api.apollographql.com/api/graphql''"

definition new_platform_api_config :: "string \<Rightarrow> nat \<Rightarrow> nat \<Rightarrow> string option \<Rightarrow> PlatformApiConfig" where
  "new_platform_api_config key interval timeout url =
     \<lparr>apollo_key = key, poll_interval = interval, poll_timeout = timeout,
      registry_url = (case url of None \<Rightarrow> DEFAULT_PLATFORM_API | Some u \<Rightarrow> u)\<rparr>"

record 'b platform_request =
  pr_url :: string
  pr_headers :: "(string \<times> string) list"
  pr_timeout :: nat
  pr_body :: 'b

record 'd graphql_reply =
  gr_data :: "'d option"
  gr_errors :: "string list option"

text \<open>What comes back: the status, and the body read as JSON, which may fail.\<close>

record 'd http_reply =
  hr_status :: nat
  hr_json :: "(reqwest_error, 'd graphql_reply) result"

definition error_for_status :: "'d http_reply \<Rightarrow> (reqwest_error, 'd http_reply) result" where
  "error_for_status res =
     (if 400 \<le> hr_status res \<and> hr_status res < 600
      then Inl \<lparr>is_connect = False, is_timeout = False, is_request = False, err_status = Some (hr_status res)\<rparr>
      else Inr res)"

definition join_errors :: "string list \<Rightarrow> string" where
  "join_errors errors = join_with '', '' errors"

definition graphql_errors_message :: "string list option \<Rightarrow> string" where
  "graphql_errors_message errors =
     (case errors of
        Some (e # es) \<Rightarrow> join_errors (e # es)
      | _ \<Rightarrow> ''missing data'')"

text \<open>
  \<open>header_value\<close> is \<open>HeaderValue::from_str\<close>, \<open>send\<close> the HTTP client, \<open>version\<close> the version of the crate.
\<close>

definition graphql_request ::
    "(string \<Rightarrow> (string, string) result) \<Rightarrow> string \<Rightarrow> ('b platform_request \<Rightarrow> (reqwest_error, 'd http_reply) result) \<Rightarrow>
     'b \<Rightarrow> PlatformApiConfig \<Rightarrow> (RequestError, 'd) result" where
  "graphql_request header_value version send request_body config =
     try_result (map_error RE_HeaderValue (header_value (apollo_key config))) (\<lambda>key.
     try_result (map_error RE_Request (try_result
         (send \<lparr>pr_url = registry_url config,
                pr_headers = [(''apollographql-client-name'', ''apollo-mcp-server''),
                              (''apollographql-client-version'', version), (''x-api-key'', key)],
                pr_timeout = poll_timeout config, pr_body = request_body\<rparr>) error_for_status)) (\<lambda>res.
     try_result (map_error RE_Request (hr_json res)) (\<lambda>response_body.
       case gr_data response_body of
         Some d \<Rightarrow> Inr d
       | None \<Rightarrow> Inl (RE_Response (graphql_errors_message (gr_errors response_body))))))"

section \<open>Operations of a collection\<close>

datatype CollectionError =
    CE_HeaderName string
  | CE_HeaderValue string
  | CE_Request reqwest_error
  | CE_Response string
  | CE_InvalidVariables string

fun collection_error_from :: "RequestError \<Rightarrow> CollectionError" where
  "collection_error_from (RE_HeaderValue e) = CE_HeaderValue e"
| "collection_error_from (RE_Request e) = CE_Request e"
| "collection_error_from (RE_Response message) = CE_Response message"

record OperationData =
  data_id :: string
  data_last_updated_at :: string
  data_source_text :: string
  data_headers :: "(string \<times> string) list option"
  data_variables :: "string option"

datatype CollectionEvent =
    UpdateOperationCollection "OperationData list"
  | CollectionErrored CollectionError

text \<open>An entry as the queries return it (the three generated types have these same members).\<close>

record CollectionEntry =
  entry_id :: string
  entry_last_updated_at :: string
  entry_body :: string
  entry_headers :: "(string \<times> string) list option"
  entry_variables :: "string option"

definition operation_data_from :: "CollectionEntry \<Rightarrow> OperationData" where
  "operation_data_from operation =
     \<lparr>data_id = entry_id operation, data_last_updated_at = entry_last_updated_at operation,
      data_source_text = entry_body operation, data_headers = entry_headers operation,
      data_variables = entry_variables operation\<rparr>"

lemma data_from_simps [simp]:
  "data_id (operation_data_from e) = entry_id e"
  "data_last_updated_at (operation_data_from e) = entry_last_updated_at e"
  by (simp_all add: operation_data_from_def)

text \<open>The answers of the queries by id and of the default collection, over what a collection holds.\<close>

datatype 'a OperationCollectionResult =
    OperationCollection 'a
  | NotFoundError string
  | PermissionError string
  | ValidationError string

datatype 'a DefaultCollectionResult = DefaultCollection 'a | DefaultPermissionError string

datatype 'a GraphVariantResult =
    GraphVariant "'a DefaultCollectionResult"
  | InvalidRefFormat string

section \<open>One round of polling\<close>

type_synonym collection_cache = "(string \<times> OperationData) list"

definition removed_ids :: "collection_cache \<Rightarrow> (string \<times> string) list \<Rightarrow> string list" where
  "removed_ids previous poll = filter (\<lambda>i. list_all (\<lambda>(keep_id, _). keep_id \<noteq> i) poll) (map fst previous)"

definition changed_ids :: "collection_cache \<Rightarrow> (string \<times> string) list \<Rightarrow> string list" where
  "changed_ids previous poll =
     filter_map (\<lambda>(i, last_updated_at).
       case map_of previous i of
         Some op \<Rightarrow> if last_updated_at = data_last_updated_at op then None else Some i
       | None \<Rightarrow> Some i) poll"

definition remove_ids :: "string list \<Rightarrow> collection_cache \<Rightarrow> collection_cache" where
  "remove_ids ids previous = filter (\<lambda>(i, _). i \<notin> set ids) previous"

definition insert_entries :: "CollectionEntry list \<Rightarrow> collection_cache \<Rightarrow> collection_cache" where
  "insert_entries entries previous =
     foldl (\<lambda>c operation. obj_insert (entry_id operation) (operation_data_from operation) c) previous entries"

definition handle_poll_result ::
    "(string list \<Rightarrow> (RequestError, CollectionEntry list) result) \<Rightarrow> collection_cache \<Rightarrow> (string \<times> string) list \<Rightarrow>
     collection_cache \<times> (CollectionError, OperationData list option) result" where
  "handle_poll_result request previous poll =
     (let removed = removed_ids previous poll;
          changed = changed_ids previous poll
      in if changed = [] \<and> removed = [] then (previous, Inr None)
         else let kept = remove_ids removed previous
         in if changed = [] then (kept, Inr (Some (map snd kept)))
            else (case request changed of
                    Inl e \<Rightarrow> (kept, Inl (collection_error_from e))
                  | Inr entries \<Rightarrow>
                      (let new = insert_entries entries kept in (new, Inr (Some (map snd new))))))"

text \<open>
  A round: what the polling query answers, how the query for entries answers, and whether the
  receiver of the events is still there.
\<close>

record 'a poll_round =
  rd_answer :: "(RequestError, 'a) result"
  rd_entries :: "string list \<Rightarrow> (RequestError, CollectionEntry list) result"
  rd_open :: bool

definition poll_operation_collection_id ::
    "(string \<times> string) list OperationCollectionResult poll_round \<Rightarrow> collection_cache \<Rightarrow>
     collection_cache \<times> (CollectionError, OperationData list option) result" where
  "poll_operation_collection_id r previous =
     (case rd_answer r of
        Inl e \<Rightarrow> (previous, Inl (collection_error_from e))
      | Inr (OperationCollection operations) \<Rightarrow> handle_poll_result (rd_entries r) previous operations
      | Inr (NotFoundError message) \<Rightarrow> (previous, Inl (CE_Response message))
      | Inr (PermissionError message) \<Rightarrow> (previous, Inl (CE_Response message))
      | Inr (ValidationError message) \<Rightarrow> (previous, Inl (CE_Response message)))"

definition poll_operation_collection_default ::
    "(string \<times> string) list GraphVariantResult option poll_round \<Rightarrow> collection_cache \<Rightarrow>
     collection_cache \<times> (CollectionError, OperationData list option) result" where
  "poll_operation_collection_default r previous =
     (case rd_answer r of
        Inl e \<Rightarrow> (previous, Inl (collection_error_from e))
      | Inr (Some (GraphVariant (DefaultCollection operations))) \<Rightarrow> handle_poll_result (rd_entries r) previous operations
      | Inr (Some (GraphVariant (DefaultPermissionError message))) \<Rightarrow> (previous, Inl (CE_Response message))
      | Inr (Some (InvalidRefFormat message)) \<Rightarrow> (previous, Inl (CE_Response message))
      | Inr None \<Rightarrow> (previous, Inl (CE_Response ''Default collection not found'')))"

section \<open>The task behind the stream\<close>

definition MAX_COLLECTION_SIZE_FOR_POLLING :: nat where "MAX_COLLECTION_SIZE_FOR_POLLING = 100"

text \<open>What was sent so far, and the cache while the task still polls.\<close>

type_synonym poller = "CollectionEvent list \<times> collection_cache option"

definition write_init_response :: "bool \<Rightarrow> OperationData list \<Rightarrow> collection_cache \<Rightarrow> poller" where
  "write_init_response receiver_open operations previous =
     (let cache = foldl (\<lambda>c d. obj_insert (data_id d) d c) previous operations
      in if \<not> receiver_open then ([], None)
         else ([UpdateOperationCollection operations],
               if MAX_COLLECTION_SIZE_FOR_POLLING < length operations then None else Some cache))"

definition poll_turn ::
    "('a poll_round \<Rightarrow> collection_cache \<Rightarrow> collection_cache \<times> (CollectionError, OperationData list option) result) \<Rightarrow>
     poller \<Rightarrow> 'a poll_round \<Rightarrow> poller" where
  "poll_turn poll p r =
     (case p of
        (sent, None) \<Rightarrow> (sent, None)
      | (sent, Some previous) \<Rightarrow>
          (case poll r previous of
             (cache, Inr (Some operations)) \<Rightarrow>
               if \<not> rd_open r then (sent, None)
               else (sent @ [UpdateOperationCollection operations],
                     if MAX_COLLECTION_SIZE_FOR_POLLING < length operations then None else Some cache)
           | (cache, Inr None) \<Rightarrow> (sent, Some cache)
           | (cache, Inl err) \<Rightarrow> (sent, Some cache)))"

text \<open>A permanent error is sent if the receiver is there, and the task ends.\<close>

definition permanent_error :: "bool \<Rightarrow> CollectionError \<Rightarrow> poller" where
  "permanent_error receiver_open err = (if receiver_open then [CollectionErrored err] else [], None)"

definition failed_request :: "bool \<Rightarrow> RequestError \<Rightarrow> poller" where
  "failed_request receiver_open err =
     (if is_transient err then ([], Some []) else permanent_error receiver_open (collection_error_from err))"

definition stream_collection_by_id ::
    "(RequestError, CollectionEntry list OperationCollectionResult) result \<Rightarrow> bool \<Rightarrow>
     (string \<times> string) list OperationCollectionResult poll_round list \<Rightarrow> poller" where
  "stream_collection_by_id answer receiver_open rounds =
     foldl (poll_turn poll_operation_collection_id)
       (case answer of
          Inr (OperationCollection operations) \<Rightarrow>
            write_init_response receiver_open (map operation_data_from operations) []
        | Inr (NotFoundError message) \<Rightarrow> permanent_error receiver_open (CE_Response message)
        | Inr (PermissionError message) \<Rightarrow> permanent_error receiver_open (CE_Response message)
        | Inr (ValidationError message) \<Rightarrow> permanent_error receiver_open (CE_Response message)
        | Inl err \<Rightarrow> failed_request receiver_open err)
       rounds"

definition stream_default_collection ::
    "string \<Rightarrow> (RequestError, CollectionEntry list GraphVariantResult option) result \<Rightarrow> bool \<Rightarrow>
     (string \<times> string) list GraphVariantResult option poll_round list \<Rightarrow> poller" where
  "stream_default_collection graph_ref answer receiver_open rounds =
     foldl (poll_turn poll_operation_collection_default)
       (case answer of
          Inr (Some (GraphVariant (DefaultCollection operations))) \<Rightarrow>
            write_init_response receiver_open (map operation_data_from operations) []
        | Inr (Some (GraphVariant (DefaultPermissionError message))) \<Rightarrow>
            permanent_error receiver_open (CE_Response message)
        | Inr (Some (InvalidRefFormat message)) \<Rightarrow> permanent_error receiver_open (CE_Response message)
        | Inr None \<Rightarrow> permanent_error receiver_open (CE_Response (graph_ref @ '' not found''))
        | Inl err \<Rightarrow> failed_request receiver_open err)
       rounds"

section \<open>What a round does to the cache\<close>

lemma in_set_map_of: "distinct (map fst kvs) \<Longrightarrow> (k, v) \<in> set kvs \<longleftrightarrow> map_of kvs k = Some v"
  by (simp add: map_of_eq_Some_iff)

lemma map_of_insert_entries:
  assumes "\<And>e. e \<in> set es \<Longrightarrow> entry_id e = i \<Longrightarrow> operation_data_from e = d"
  shows "map_of (insert_entries es c) i = (if i \<in> entry_id ` set es then Some d else map_of c i)"
  using assms
proof (induction es arbitrary: c)
  case Nil
  then show ?case by (simp add: insert_entries_def)
next
  case (Cons e es)
  have step: "insert_entries (e # es) c = insert_entries es (obj_insert (entry_id e) (operation_data_from e) c)"
    by (simp add: insert_entries_def)
  have "map_of (insert_entries es (obj_insert (entry_id e) (operation_data_from e) c)) i =
      (if i \<in> entry_id ` set es then Some d else map_of (obj_insert (entry_id e) (operation_data_from e) c) i)"
    by (rule Cons.IH) (simp add: Cons.prems)
  with step Cons.prems[of e] show ?case by auto
qed

lemma distinct_insert_entries [simp]: "distinct (map fst c) \<Longrightarrow> distinct (map fst (insert_entries es c))"
  unfolding insert_entries_def by (induction es arbitrary: c) simp_all

lemma distinct_remove_ids [simp]: "distinct (map fst c) \<Longrightarrow> distinct (map fst (remove_ids ids c))"
  unfolding remove_ids_def by (induction c) auto

lemma map_of_remove_ids: "map_of (remove_ids ids c) i = (if i \<in> set ids then None else map_of c i)"
  unfolding remove_ids_def by (induction c) auto

lemma in_removed_ids: "i \<in> set (removed_ids c poll) \<longleftrightarrow> i \<in> fst ` set c \<and> i \<notin> fst ` set poll"
  by (force simp: removed_ids_def list_all_iff)

lemma in_changed_ids:
  "i \<in> set (changed_ids c poll) \<longleftrightarrow>
     (\<exists>t. (i, t) \<in> set poll \<and> (case map_of c i of None \<Rightarrow> True | Some op \<Rightarrow> t \<noteq> data_last_updated_at op))"
proof (cases "map_of c i")
  case None
  then show ?thesis unfolding changed_ids_def set_filter_map
    by (auto split: option.splits if_splits intro!: bexI)
next
  case (Some op)
  then show ?thesis unfolding changed_ids_def set_filter_map
    by (auto split: option.splits if_splits intro!: bexI)
qed

text \<open>
  The contents of a collection at one time. Time stamps identify versions: \<open>version i t\<close> is operation
  \<open>i\<close> as last updated at \<open>t\<close>.
\<close>

definition listed :: "CollectionEntry list \<Rightarrow> (string \<times> string) list" where
  "listed snap = map (\<lambda>e. (entry_id e, entry_last_updated_at e)) snap"

definition collection_snapshot :: "(string \<Rightarrow> string \<Rightarrow> OperationData) \<Rightarrow> CollectionEntry list \<Rightarrow> bool" where
  "collection_snapshot version snap \<longleftrightarrow>
     distinct (map entry_id snap) \<and> length snap \<le> MAX_COLLECTION_SIZE_FOR_POLLING \<and>
     list_all (\<lambda>e. operation_data_from e = version (entry_id e) (entry_last_updated_at e)) snap"

definition cached_versions :: "(string \<Rightarrow> string \<Rightarrow> OperationData) \<Rightarrow> collection_cache \<Rightarrow> bool" where
  "cached_versions version cache \<longleftrightarrow>
     distinct (map fst cache) \<and> list_all (\<lambda>(i, d). d = version i (data_last_updated_at d)) cache"

definition contents :: "CollectionEntry list \<Rightarrow> collection_cache" where
  "contents snap = map (\<lambda>e. (entry_id e, operation_data_from e)) snap"

text \<open>The request for entries returns those asked for, of this snapshot.\<close>

definition entries_answer ::
    "(string list \<Rightarrow> (RequestError, CollectionEntry list) result) \<Rightarrow> CollectionEntry list \<Rightarrow> bool" where
  "entries_answer request snap \<longleftrightarrow>
     (\<forall>ids. set ids \<subseteq> entry_id ` set snap \<longrightarrow>
       (\<exists>es. request ids = Inr es \<and> set es = {e \<in> set snap. entry_id e \<in> set ids}))"

lemma distinct_contents: "distinct (map entry_id snap) \<Longrightarrow> distinct (map fst (contents snap))"
  by (simp add: contents_def comp_def)

lemma same_map_same_set:
  assumes "distinct (map fst a)" "distinct (map fst b)" "\<And>i. map_of a i = map_of b i"
  shows "set a = set b"
proof -
  have "(k, v) \<in> set a \<longleftrightarrow> (k, v) \<in> set b" for k v
    using in_set_map_of[OF assms(1)] in_set_map_of[OF assms(2)] assms(3) by simp
  then show ?thesis by auto
qed

lemma contents_of_id:
  assumes "distinct (map entry_id snap)" "e \<in> set snap"
  shows "map_of (contents snap) (entry_id e) = Some (operation_data_from e)"
  using assms by (simp add: contents_def comp_def map_of_eq_Some_iff)

lemma contents_None: "i \<notin> entry_id ` set snap \<Longrightarrow> map_of (contents snap) i = None"
  by (force simp: contents_def map_of_eq_None_iff)

lemma same_id_same_entry:
  "distinct (map entry_id snap) \<Longrightarrow> e \<in> set snap \<Longrightarrow> e' \<in> set snap \<Longrightarrow> entry_id e = entry_id e' \<Longrightarrow> e = e'"
  by (auto simp: distinct_map inj_on_def)

text \<open>After a round that is answered, the cache is the collection.\<close>

lemma kept_is_current:
  assumes snap: "collection_snapshot version snap" and cache: "cached_versions version cache"
    and e: "e \<in> set snap" and unchanged: "entry_id e \<notin> set (changed_ids cache (listed snap))"
  shows "map_of cache (entry_id e) = Some (operation_data_from e)"
proof -
  have "(entry_id e, entry_last_updated_at e) \<in> set (listed snap)" using e by (force simp: listed_def)
  with unchanged obtain op where op: "map_of cache (entry_id e) = Some op"
      "data_last_updated_at op = entry_last_updated_at e"
    unfolding in_changed_ids by (auto split: option.splits)
  from cache op(1) have "op = version (entry_id e) (data_last_updated_at op)"
    by (force simp: cached_versions_def list_all_iff dest: map_of_SomeD)
  with snap e op show ?thesis by (simp add: collection_snapshot_def list_all_iff)
qed

lemma removed_listed: "set (removed_ids cache (listed snap)) = fst ` set cache - entry_id ` set snap"
  by (force simp: in_removed_ids listed_def)

lemma changed_listed: "set (changed_ids cache (listed snap)) \<subseteq> entry_id ` set snap"
  by (force simp: in_changed_ids listed_def)

lemma round_contents:
  assumes snap: "collection_snapshot version snap" and cache: "cached_versions version cache"
    and es: "set es = {e \<in> set snap. entry_id e \<in> set (changed_ids cache (listed snap))}"
  shows "map_of (insert_entries es (remove_ids (removed_ids cache (listed snap)) cache)) i = map_of (contents snap) i"
proof (cases "i \<in> entry_id ` set snap")
  case True
  then obtain e where e: "e \<in> set snap" "i = entry_id e" by auto
  from snap have dist: "distinct (map entry_id snap)" by (simp add: collection_snapshot_def)
  have "map_of (insert_entries es (remove_ids (removed_ids cache (listed snap)) cache)) i =
      (if i \<in> entry_id ` set es then Some (operation_data_from e)
       else map_of (remove_ids (removed_ids cache (listed snap)) cache) i)"
    using es e same_id_same_entry[OF dist] by (intro map_of_insert_entries) auto
  moreover have "i \<notin> set (removed_ids cache (listed snap))" using True by (simp add: removed_listed)
  moreover have "map_of cache i = Some (operation_data_from e)" if "i \<notin> entry_id ` set es"
    using kept_is_current[OF snap cache e(1)] that es e by auto
  ultimately show ?thesis using contents_of_id[OF dist e(1)] e(2) by (simp add: map_of_remove_ids)
next
  case False
  then have "i \<notin> entry_id ` set es" using es by auto
  then have "map_of (insert_entries es (remove_ids (removed_ids cache (listed snap)) cache)) i =
      map_of (remove_ids (removed_ids cache (listed snap)) cache) i"
    using map_of_insert_entries[of es i undefined] by auto
  also have "\<dots> = None" using False by (auto simp: map_of_remove_ids removed_listed map_of_eq_None_iff)
  finally show ?thesis using contents_None[OF False] by simp
qed

lemma versions_of_contents:
  assumes "collection_snapshot version snap" "distinct (map fst cache)" "set cache = set (contents snap)"
  shows "cached_versions version cache"
proof -
  have "d = version i (data_last_updated_at d)" if cached: "(i, d) \<in> set cache" for i d
  proof -
    from cached assms(3) obtain e where e: "e \<in> set snap" "i = entry_id e" "d = operation_data_from e"
      by (auto simp: contents_def)
    with assms(1) have "operation_data_from e = version (entry_id e) (entry_last_updated_at e)"
      by (simp add: collection_snapshot_def list_all_iff)
    with e show ?thesis by (metis data_from_simps(2))
  qed
  with assms(2) show ?thesis by (auto simp: cached_versions_def list_all_iff)
qed

text \<open>
  The main step: after a round whose requests succeed the cache is the collection, and what is
  published, if anything, is the cache.
\<close>

lemma unchanged_is_current:
  assumes snap: "collection_snapshot version snap" and cache: "cached_versions version cache"
    and none: "changed_ids cache (listed snap) = []" "removed_ids cache (listed snap) = []"
  shows "set cache = set (contents snap)"
proof (rule same_map_same_set)
  show "distinct (map fst cache)" using cache by (simp add: cached_versions_def)
  show "distinct (map fst (contents snap))" using snap by (intro distinct_contents) (simp add: collection_snapshot_def)
  show "map_of cache i = map_of (contents snap) i" for i
    using round_contents[OF snap cache, of "[]"] none
    by (simp add: insert_entries_def remove_ids_def split_def)
qed

lemma round_is_current:
  assumes snap: "collection_snapshot version snap" and cache: "cached_versions version cache"
    and es: "set es = {e \<in> set snap. entry_id e \<in> set (changed_ids cache (listed snap))}"
  shows "set (insert_entries es (remove_ids (removed_ids cache (listed snap)) cache)) = set (contents snap)"
    and "distinct (map fst (insert_entries es (remove_ids (removed_ids cache (listed snap)) cache)))"
proof -
  have d: "distinct (map fst cache)" using cache by (simp add: cached_versions_def)
  then show "distinct (map fst (insert_entries es (remove_ids (removed_ids cache (listed snap)) cache)))" by simp
  with d show "set (insert_entries es (remove_ids (removed_ids cache (listed snap)) cache)) = set (contents snap)"
    using snap round_contents[OF snap cache es]
    by (intro same_map_same_set distinct_contents) (simp_all add: collection_snapshot_def)
qed

lemma handle_poll_current:
  assumes snap: "collection_snapshot version snap" and cache: "cached_versions version cache"
    and request: "entries_answer request snap"
    and handled: "handle_poll_result request cache (listed snap) = (cache', res)"
  shows "distinct (map fst cache') \<and> set cache' = set (contents snap) \<and>
         (res = Inr None \<and> cache' = cache \<or> res = Inr (Some (map snd cache')))"
proof -
  have d: "distinct (map fst cache)" using cache by (simp add: cached_versions_def)
  let ?changed = "changed_ids cache (listed snap)" and ?removed = "removed_ids cache (listed snap)"
  show ?thesis
  proof (cases "?changed = []")
    case True
    note now = round_is_current[OF snap cache, of "[]"]
    show ?thesis
    proof (cases "?removed = []")
      case removed: True
      then show ?thesis
        using unchanged_is_current[OF snap cache True] True d handled by (simp add: handle_poll_result_def)
    next
      case False
      then have "cache' = remove_ids ?removed cache" "res = Inr (Some (map snd cache'))"
        using True handled by (auto simp: handle_poll_result_def Let_def)
      with now True show ?thesis by (simp add: insert_entries_def)
    qed
  next
    case False
    obtain es where es: "request ?changed = Inr es" "set es = {e \<in> set snap. entry_id e \<in> set ?changed}"
      using request changed_listed unfolding entries_answer_def by blast
    then have "cache' = insert_entries es (remove_ids ?removed cache)" "res = Inr (Some (map snd cache'))"
      using False handled by (auto simp: handle_poll_result_def Let_def)
    with round_is_current[OF snap cache es(2)] show ?thesis by simp
  qed
qed

section \<open>The published collection\<close>

text \<open>
  A source of rounds is a polling query with the listing that its answer holds. The task and its
  guarantees are the same for both queries.
\<close>

locale collection_query =
  fixes poll :: "'a poll_round \<Rightarrow> collection_cache \<Rightarrow> collection_cache \<times> (CollectionError, OperationData list option) result"
    and listing :: "'a poll_round \<Rightarrow> (CollectionError, (string \<times> string) list) result"
  assumes poll_listing: "listing r = Inr l \<Longrightarrow> poll r previous = handle_poll_result (rd_entries r) previous l"
    and poll_failed: "listing r = Inl e \<Longrightarrow> poll r previous = (previous, Inl e)"

definition listing_by_id ::
    "(string \<times> string) list OperationCollectionResult poll_round \<Rightarrow> (CollectionError, (string \<times> string) list) result" where
  "listing_by_id r =
     (case rd_answer r of
        Inl e \<Rightarrow> Inl (collection_error_from e)
      | Inr (OperationCollection operations) \<Rightarrow> Inr operations
      | Inr (NotFoundError m) \<Rightarrow> Inl (CE_Response m)
      | Inr (PermissionError m) \<Rightarrow> Inl (CE_Response m)
      | Inr (ValidationError m) \<Rightarrow> Inl (CE_Response m))"

definition listing_default ::
    "(string \<times> string) list GraphVariantResult option poll_round \<Rightarrow> (CollectionError, (string \<times> string) list) result" where
  "listing_default r =
     (case rd_answer r of
        Inl e \<Rightarrow> Inl (collection_error_from e)
      | Inr None \<Rightarrow> Inl (CE_Response ''Default collection not found'')
      | Inr (Some (InvalidRefFormat m)) \<Rightarrow> Inl (CE_Response m)
      | Inr (Some (GraphVariant (DefaultPermissionError m))) \<Rightarrow> Inl (CE_Response m)
      | Inr (Some (GraphVariant (DefaultCollection operations))) \<Rightarrow> Inr operations)"

text \<open>A round either fails before the listing, or all its requests see one snapshot.\<close>

definition round_sees ::
    "('a poll_round \<Rightarrow> (CollectionError, (string \<times> string) list) result) \<Rightarrow> (string \<Rightarrow> string \<Rightarrow> OperationData) \<Rightarrow>
     CollectionEntry list option \<Rightarrow> 'a poll_round \<Rightarrow> bool" where
  "round_sees listing version seen r \<longleftrightarrow> rd_open r \<and>
     (case seen of
        None \<Rightarrow> (\<exists>e. listing r = Inl e)
      | Some snap \<Rightarrow> collection_snapshot version snap \<and> listing r = Inr (listed snap) \<and> entries_answer (rd_entries r) snap)"

fun last_seen :: "CollectionEntry list \<Rightarrow> CollectionEntry list option list \<Rightarrow> CollectionEntry list" where
  "last_seen snap [] = snap"
| "last_seen snap (None # seen) = last_seen snap seen"
| "last_seen snap (Some new # seen) = last_seen new seen"

definition publishes :: "(string \<Rightarrow> string \<Rightarrow> OperationData) \<Rightarrow> CollectionEntry list \<Rightarrow> poller \<Rightarrow> bool" where
  "publishes version snap p \<longleftrightarrow>
     (\<exists>sent ops cache. p = (sent @ [UpdateOperationCollection ops], Some cache) \<and>
        set ops = operation_data_from ` set snap \<and> distinct (map fst cache) \<and> set cache = set (contents snap) \<and>
        collection_snapshot version snap)"

lemma snd_contents: "snd ` set (contents snap) = operation_data_from ` set snap"
  by (force simp: contents_def)

lemma length_of_contents:
  assumes "distinct (map fst cache)" "set cache = set (contents snap)" "distinct (map entry_id snap)"
  shows "length cache = length snap"
proof -
  have "length cache = card (set cache)"
    using assms(1) by (metis distinct_card distinct_map)
  also have "\<dots> = length (contents snap)"
    using assms(2) distinct_contents[OF assms(3)] by (metis distinct_card distinct_map)
  finally show ?thesis by (simp add: contents_def)
qed

context collection_query
begin

lemma turn_keeps:
  assumes sees: "round_sees listing version seen r" and "publishes version snap p"
  shows "publishes version (last_seen snap [seen]) (poll_turn poll p r)"
proof -
  from assms(2) obtain sent ops cache where p: "p = (sent @ [UpdateOperationCollection ops], Some cache)"
      "set ops = operation_data_from ` set snap" "distinct (map fst cache)" "set cache = set (contents snap)"
      "collection_snapshot version snap"
    unfolding publishes_def by blast
  show ?thesis
  proof (cases seen)
    case None
    with sees obtain e where "listing r = Inl e" by (auto simp: round_sees_def)
    with p None show ?thesis by (auto simp: poll_turn_def poll_failed publishes_def)
  next
    case (Some new)
    with sees have new: "collection_snapshot version new" "listing r = Inr (listed new)"
        "entries_answer (rd_entries r) new" "rd_open r"
      by (auto simp: round_sees_def)
    obtain cache' res where handled: "handle_poll_result (rd_entries r) cache (listed new) = (cache', res)"
      by (cases "handle_poll_result (rd_entries r) cache (listed new)")
    note current = handle_poll_current[OF new(1) versions_of_contents[OF p(5,3,4)] new(3) handled]
    then have small: "length cache' \<le> MAX_COLLECTION_SIZE_FOR_POLLING"
      using length_of_contents[of cache' new] new(1) by (simp add: collection_snapshot_def)
    have polled: "poll r cache = (cache', res)" using handled by (simp add: poll_listing[OF new(2)])
    from current consider "res = Inr None" "cache' = cache" | "res = Inr (Some (map snd cache'))" by blast
    then show ?thesis
    proof cases
      case 1
      with current p(4) have "set (contents snap) = set (contents new)" by simp
      with snd_contents have "operation_data_from ` set snap = operation_data_from ` set new" by metis
      with 1 p polled current new Some show ?thesis by (auto simp: poll_turn_def publishes_def)
    next
      case 2
      moreover from current have "snd ` set cache' = operation_data_from ` set new" by (simp add: snd_contents)
      ultimately show ?thesis using p polled current new Some small
        by (auto simp: poll_turn_def publishes_def)
    qed
  qed
qed

lemma last_seen_Cons: "last_seen snap (s # seen) = last_seen (last_seen snap [s]) seen"
  by (cases s) simp_all

lemma rounds_keep:
  "list_all2 (round_sees listing version) seen rounds \<Longrightarrow> publishes version snap p \<Longrightarrow>
     publishes version (last_seen snap seen) (foldl (poll_turn poll) p rounds)"
proof (induction seen rounds arbitrary: snap p rule: list_all2_induct)
  case Nil
  then show ?case by simp
next
  case (Cons s seen r rounds)
  have "publishes version (last_seen (last_seen snap [s]) seen) (foldl (poll_turn poll) (poll_turn poll p r) rounds)"
    by (rule Cons.IH) (rule turn_keeps[OF Cons.hyps(1) Cons.prems])
  then show ?case by (simp only: last_seen_Cons[of snap s seen] foldl_Cons)
qed

end

interpretation by_id: collection_query poll_operation_collection_id listing_by_id
  by unfold_locales
     (auto simp: poll_operation_collection_id_def listing_by_id_def split: sum.splits OperationCollectionResult.splits)

interpretation by_graph: collection_query poll_operation_collection_default listing_default
  by unfold_locales
     (auto simp: poll_operation_collection_default_def listing_default_def
        split: sum.splits option.splits GraphVariantResult.splits DefaultCollectionResult.splits)

lemma write_init_publishes:
  assumes "collection_snapshot version snap"
  shows "publishes version snap (write_init_response True (map operation_data_from snap) [])"
proof -
  have fold: "foldl (\<lambda>c d. obj_insert (data_id d) d c) c (map operation_data_from es) = insert_entries es c" for c es
    by (induction es arbitrary: c) (simp_all add: insert_entries_def)
  from assms have dist: "distinct (map entry_id snap)" by (simp add: collection_snapshot_def)
  have "map_of (insert_entries snap []) i = map_of (contents snap) i" for i
  proof (cases "i \<in> entry_id ` set snap")
    case True
    then obtain e where e: "e \<in> set snap" "i = entry_id e" by auto
    have "operation_data_from e' = operation_data_from e" if "e' \<in> set snap" "entry_id e' = i" for e'
      using same_id_same_entry[OF dist that(1) e(1)] that(2) e(2) by simp
    then have "map_of (insert_entries snap []) i = Some (operation_data_from e)"
      using map_of_insert_entries[of snap i "operation_data_from e" "[]"] True by simp
    with contents_of_id[OF dist e(1)] e(2) show ?thesis by simp
  next
    case False
    then show ?thesis using map_of_insert_entries[of snap i undefined "[]"] contents_None[OF False] by auto
  qed
  then have "set (insert_entries snap []) = set (contents snap)"
    by (intro same_map_same_set distinct_contents[OF dist]) simp_all
  with assms show ?thesis
    by (simp add: publishes_def write_init_response_def fold collection_snapshot_def)
qed

lemma published_events:
  "publishes version snap p \<Longrightarrow>
     \<exists>sent ops cache. p = (sent @ [UpdateOperationCollection ops], Some cache) \<and> set ops = operation_data_from ` set snap"
  by (auto simp: publishes_def)

text \<open>
  C13: As long as every round either fails before it has a listing or has all its requests answered from
  one snapshot of the collection, the operations published last are those of the last snapshot seen,
  and the task goes on polling. This is for collections of at most 100 operations, time stamps that
  identify versions, and a receiver that stays.
\<close>

theorem collection_is_current:
  assumes "collection_snapshot version snap"
    and "list_all2 (round_sees listing_by_id version) seen rounds"
  shows "\<exists>sent ops cache.
    stream_collection_by_id (Inr (OperationCollection snap)) True rounds =
      (sent @ [UpdateOperationCollection ops], Some cache) \<and>
    set ops = operation_data_from ` set (last_seen snap seen)"
  unfolding stream_collection_by_id_def
  using published_events[OF by_id.rounds_keep[OF assms(2) write_init_publishes[OF assms(1)]]] by simp

text \<open>The same for the default collection of a graph.\<close>

lemma default_collection_is_current:
  assumes "collection_snapshot version snap"
    and "list_all2 (round_sees listing_default version) seen rounds"
  shows "\<exists>sent ops cache.
    stream_default_collection graph_ref (Inr (Some (GraphVariant (DefaultCollection snap)))) True rounds =
      (sent @ [UpdateOperationCollection ops], Some cache) \<and>
    set ops = operation_data_from ` set (last_seen snap seen)"
  unfolding stream_default_collection_def
  using published_events[OF by_graph.rounds_keep[OF assms(2) write_init_publishes[OF assms(1)]]] by simp

lemma entries_answer_filter: "entries_answer (\<lambda>ids. Inr (filter (\<lambda>e. entry_id e \<in> set ids) snap)) snap"
  by (auto simp: entries_answer_def)

definition example_entry :: "string \<Rightarrow> string \<Rightarrow> CollectionEntry" where
  "example_entry i t =
     \<lparr>entry_id = i, entry_last_updated_at = t, entry_body = i @ t, entry_headers = None, entry_variables = None\<rparr>"

definition example_round ::
    "CollectionEntry list \<Rightarrow> (string \<times> string) list OperationCollectionResult poll_round" where
  "example_round snap =
     \<lparr>rd_answer = Inr (OperationCollection (listed snap)),
      rd_entries = (\<lambda>ids. Inr (filter (\<lambda>e. entry_id e \<in> set ids) snap)), rd_open = True\<rparr>"

definition failing_round :: "(string \<times> string) list OperationCollectionResult poll_round" where
  "failing_round =
     \<lparr>rd_answer = Inr (ValidationError ''x''), rd_entries = (\<lambda>ids. Inr []), rd_open = True\<rparr>"

definition example_version :: "string \<Rightarrow> string \<Rightarrow> OperationData" where
  "example_version i t = operation_data_from (example_entry i t)"

lemma example_round_sees:
  "collection_snapshot example_version snap \<Longrightarrow> round_sees listing_by_id example_version (Some snap) (example_round snap)"
  by (simp add: round_sees_def example_round_def listing_by_id_def entries_answer_filter)

lemma failing_round_sees: "round_sees listing_by_id example_version None failing_round"
  by (simp add: round_sees_def failing_round_def listing_by_id_def)

theorem collection_is_current_witness:
  "\<exists>sent ops cache.
    stream_collection_by_id (Inr (OperationCollection [example_entry ''a'' ''1'', example_entry ''b'' ''1''])) True
      [failing_round, example_round [example_entry ''c'' ''2'', example_entry ''b'' ''3'']] =
      (sent @ [UpdateOperationCollection ops], Some cache) \<and>
    set ops = {example_version ''b'' ''3'', example_version ''c'' ''2''}"
proof -
  have first: "collection_snapshot example_version [example_entry ''a'' ''1'', example_entry ''b'' ''1'']"
    and second: "collection_snapshot example_version [example_entry ''c'' ''2'', example_entry ''b'' ''3'']"
    by (simp_all add: collection_snapshot_def example_version_def example_entry_def MAX_COLLECTION_SIZE_FOR_POLLING_def)
  have "list_all2 (round_sees listing_by_id example_version)
      [None, Some [example_entry ''c'' ''2'', example_entry ''b'' ''3'']]
      [failing_round, example_round [example_entry ''c'' ''2'', example_entry ''b'' ''3'']]"
    by (simp add: failing_round_sees example_round_sees[OF second])
  from collection_is_current[OF first this] show ?thesis
    by (simp add: example_version_def insert_commute)
qed

section \<open>Errors and limits\<close>

text \<open>What is sent at any time: an error is the only event, and all but the last collection are small.\<close>

definition sent_ok :: "poller \<Rightarrow> bool" where
  "sent_ok p \<longleftrightarrow>
     (case p of
        (sent, Some cache) \<Rightarrow>
          list_all (\<lambda>ev. case ev of UpdateOperationCollection ops \<Rightarrow> length ops \<le> MAX_COLLECTION_SIZE_FOR_POLLING
                                  | CollectionErrored _ \<Rightarrow> False) sent
      | (sent, None) \<Rightarrow>
          (\<exists>err. sent = [CollectionErrored err]) \<or>
          (list_all (\<lambda>ev. case ev of UpdateOperationCollection _ \<Rightarrow> True | CollectionErrored _ \<Rightarrow> False) sent \<and>
           list_all (\<lambda>ev. case ev of UpdateOperationCollection ops \<Rightarrow> length ops \<le> MAX_COLLECTION_SIZE_FOR_POLLING
                                   | CollectionErrored _ \<Rightarrow> False) (butlast sent)))"

lemma small_is_update:
  "list_all (\<lambda>ev. case ev of UpdateOperationCollection ops \<Rightarrow> length ops \<le> n | CollectionErrored _ \<Rightarrow> False) sent \<Longrightarrow>
     list_all (\<lambda>ev. case ev of UpdateOperationCollection _ \<Rightarrow> True | CollectionErrored _ \<Rightarrow> False) sent"
  by (auto simp: list_all_iff split: CollectionEvent.splits)

lemma list_all_butlast: "list_all P xs \<Longrightarrow> list_all P (butlast xs)"
  by (auto simp: list_all_iff dest: in_set_butlastD)

lemma turn_keeps_sent_ok: "sent_ok p \<Longrightarrow> sent_ok (poll_turn poll p r)"
proof (cases "snd p")
  case None
  then show "sent_ok p \<Longrightarrow> ?thesis" by (cases p) (simp add: poll_turn_def)
next
  case (Some previous)
  then obtain sent where p: "p = (sent, Some previous)" by (cases p) auto
  assume "sent_ok p"
  with p have small: "list_all (\<lambda>ev. case ev of UpdateOperationCollection ops \<Rightarrow>
      length ops \<le> MAX_COLLECTION_SIZE_FOR_POLLING | CollectionErrored _ \<Rightarrow> False) sent"
    by (simp add: sent_ok_def)
  obtain cache res where res: "poll r previous = (cache, res)" by (cases "poll r previous")
  consider (err) e where "res = Inl e" | (same) "res = Inr None"
    | (gone) ops where "res = Inr (Some ops)" "\<not> rd_open r"
    | (sent) ops where "res = Inr (Some ops)" "rd_open r"
    by (metis option.exhaust sum.exhaust)
  then show ?thesis
  proof cases
    case sent
    with p res small small_is_update[OF small] show ?thesis by (simp add: poll_turn_def sent_ok_def)
  qed (use p res small small_is_update[OF small] list_all_butlast[OF small] in
        \<open>simp_all add: poll_turn_def sent_ok_def\<close>)
qed

interpretation collection_task: invariant_machine "poll_turn poll" sent_ok for poll
  by unfold_locales (rule turn_keeps_sent_ok)

lemma first_events_ok:
  "sent_ok (write_init_response receiver_open operations previous)"
  "sent_ok (permanent_error receiver_open err)"
  "sent_ok (failed_request receiver_open e)"
  by (simp_all add: write_init_response_def permanent_error_def failed_request_def sent_ok_def Let_def)

lemma collection_events:
  "sent_ok (stream_collection_by_id answer receiver_open rounds)"
  "sent_ok (stream_default_collection graph_ref answer' receiver_open rounds')"
proof -
  have "sent_ok (case answer of
          Inr (OperationCollection operations) \<Rightarrow>
            write_init_response receiver_open (map operation_data_from operations) []
        | Inr (NotFoundError message) \<Rightarrow> permanent_error receiver_open (CE_Response message)
        | Inr (PermissionError message) \<Rightarrow> permanent_error receiver_open (CE_Response message)
        | Inr (ValidationError message) \<Rightarrow> permanent_error receiver_open (CE_Response message)
        | Inl err \<Rightarrow> failed_request receiver_open err)"
  proof (cases answer)
    case (Inr r)
    then show ?thesis by (cases r) (simp_all add: first_events_ok)
  qed (simp add: first_events_ok)
  then show "sent_ok (stream_collection_by_id answer receiver_open rounds)"
    unfolding stream_collection_by_id_def by (rule collection_task.run_keeps)
  have variant: "sent_ok (case v of
          GraphVariant (DefaultCollection operations) \<Rightarrow>
            write_init_response receiver_open (map operation_data_from operations) []
        | GraphVariant (DefaultPermissionError message) \<Rightarrow> permanent_error receiver_open (CE_Response message)
        | InvalidRefFormat message \<Rightarrow> permanent_error receiver_open (CE_Response message))" for v
    by (cases v) (simp_all add: first_events_ok split: DefaultCollectionResult.split)
  have "sent_ok (case answer' of
          Inr (Some (GraphVariant (DefaultCollection operations))) \<Rightarrow>
            write_init_response receiver_open (map operation_data_from operations) []
        | Inr (Some (GraphVariant (DefaultPermissionError message))) \<Rightarrow>
            permanent_error receiver_open (CE_Response message)
        | Inr (Some (InvalidRefFormat message)) \<Rightarrow> permanent_error receiver_open (CE_Response message)
        | Inr None \<Rightarrow> permanent_error receiver_open (CE_Response (graph_ref @ '' not found''))
        | Inl err \<Rightarrow> failed_request receiver_open err)"
  proof (cases answer')
    case (Inr r)
    then show ?thesis using variant by (cases r) (simp_all add: first_events_ok)
  qed (simp add: first_events_ok)
  then show "sent_ok (stream_default_collection graph_ref answer' receiver_open rounds')"
    unfolding stream_default_collection_def by (rule collection_task.run_keeps)
qed

text \<open>
  A removal is applied to the cache before the entries are requested. If that request fails and
  nothing is left to request in the next round, the removed operation stays published.
\<close>

definition lost_round :: "CollectionEntry list \<Rightarrow> (string \<times> string) list OperationCollectionResult poll_round" where
  "lost_round snap = (example_round snap)\<lparr>rd_entries := (\<lambda>_. Inl (RE_Response ''unavailable''))\<rparr>"

lemma removal_lost:
  "fst (stream_collection_by_id (Inr (OperationCollection [example_entry ''a'' ''1'', example_entry ''b'' ''1''])) True
     (lost_round [example_entry ''b'' ''1'', example_entry ''c'' ''1''] #
      replicate n (example_round [example_entry ''b'' ''1'']))) =
   [UpdateOperationCollection [example_version ''a'' ''1'', example_version ''b'' ''1'']]"
proof -
  let ?a = "(''a'', example_version ''a'' ''1'')" and ?b = "(''b'', example_version ''b'' ''1'')"
  have id: "data_last_updated_at (example_version i t) = t" "data_id (example_version i t) = i" for i t
    by (simp_all add: example_version_def example_entry_def)
  have entry: "entry_id (example_entry i t) = i" "entry_last_updated_at (example_entry i t) = t"
      "operation_data_from (example_entry i t) = example_version i t" for i t
    by (simp_all add: example_version_def example_entry_def)
  have "handle_poll_result request [?b] [(''b'', ''1'')] = ([?b], Inr None)" for request
    by (simp add: handle_poll_result_def changed_ids_def removed_ids_def id)
  then have step: "poll_turn poll_operation_collection_id (sent, Some [?b])
      (example_round [example_entry ''b'' ''1'']) = (sent, Some [?b])" for sent
    by (simp add: poll_turn_def poll_operation_collection_id_def example_round_def listed_def entry)
  have rest: "foldl (poll_turn poll_operation_collection_id) (sent, Some [?b])
      (replicate n (example_round [example_entry ''b'' ''1''])) = (sent, Some [?b])" for sent
    by (induction n) (simp_all add: step)
  have init: "write_init_response True [example_version ''a'' ''1'', example_version ''b'' ''1''] [] =
      ([UpdateOperationCollection [example_version ''a'' ''1'', example_version ''b'' ''1'']], Some [?a, ?b])"
    by (simp add: write_init_response_def MAX_COLLECTION_SIZE_FOR_POLLING_def id)
  have "handle_poll_result (\<lambda>_. Inl (RE_Response m)) [?a, ?b] [(''b'', ''1''), (''c'', ''1'')] =
      ([?b], Inl (CE_Response m))" for m
    by (simp add: handle_poll_result_def changed_ids_def removed_ids_def remove_ids_def id)
  then have "poll_turn poll_operation_collection_id (sent, Some [?a, ?b])
      (lost_round [example_entry ''b'' ''1'', example_entry ''c'' ''1'']) = (sent, Some [?b])" for sent
    by (simp add: poll_turn_def poll_operation_collection_id_def lost_round_def example_round_def listed_def entry)
  then show ?thesis by (simp add: stream_collection_by_id_def entry init rest)
qed

text \<open>
  An empty collection is published when the first request succeeds, but never after a first request
  that failed with a transient error.
\<close>

lemma empty_collection_unpublished:
  assumes "is_transient err"
  shows "stream_collection_by_id (Inl err) True (replicate n (example_round [])) = ([], Some [])"
    and "fst (stream_collection_by_id (Inr (OperationCollection [])) True []) = [UpdateOperationCollection []]"
proof -
  have "poll_turn poll_operation_collection_id ([], Some []) (example_round []) = ([], Some [])"
    by (simp add: poll_turn_def poll_operation_collection_id_def example_round_def listed_def handle_poll_result_def
        changed_ids_def removed_ids_def)
  then have "foldl (poll_turn poll_operation_collection_id) ([], Some []) (replicate n (example_round [])) = ([], Some [])"
    by (induction n) simp_all
  with assms show "stream_collection_by_id (Inl err) True (replicate n (example_round [])) = ([], Some [])"
    by (simp add: stream_collection_by_id_def failed_request_def)
  show "fst (stream_collection_by_id (Inr (OperationCollection [])) True []) = [UpdateOperationCollection []]"
    by (simp add: stream_collection_by_id_def write_init_response_def)
qed

end
