(* ===== verification/Uplink.thy ===== *)
theory Uplink
  imports Collection_Poller "HOL-Library.AList"
begin

text \<open>
  Apollo Uplink (\<open>uplink.rs\<close> and \<open>uplink/persisted_queries/*.rs\<close> of the crate \<open>apollo-mcp-registry\<close>):
  the endpoints and the fail over between them, the polling loop with its last id and delay, the
  persisted query manifests built from chunks, and the events that come out. One request to one
  endpoint is a parameter (\<open>http\<close>: the data of the response, already converted); so are the reading of
  files and the JSON decoder of a chunk.
\<close>

section \<open>Errors, responses, endpoints\<close>

datatype UplinkPollError =
    HttpFailure reqwest_error
  | FetchFailedSingle
  | FetchFailedMultiple nat
  | UplinkError string string
  | UplinkErrorNoRetry string string

fun uplink_is_transient :: "UplinkPollError \<Rightarrow> bool" where
  "uplink_is_transient (HttpFailure _) = True"
| "uplink_is_transient FetchFailedSingle = True"
| "uplink_is_transient (FetchFailedMultiple _) = True"
| "uplink_is_transient (UplinkError _ _) = True"
| "uplink_is_transient (UplinkErrorNoRetry _ _) = False"

record UplinkRequest =
  ur_api_key :: string
  ur_graph_ref :: string
  ur_id :: "string option"

text \<open>A new response with its id and delay, no change, or an error: may it be retried, code, message.\<close>

datatype 'r UplinkResponse =
    NewResponse 'r string nat
  | UnchangedResponse "string option" "nat option"
  | ErrorResponse bool string string

datatype Endpoints = Fallback "string list" | RoundRobin "string list" nat

definition default_endpoints :: Endpoints where
  "default_endpoints = Fallback [''https://uplink.api.apollographql.com'', ''https://aws.uplink.api.apollographql.com'']"

text \<open>
  The URLs of one poll, in order; None is the panic of the remainder by an empty list. The counter
  of a round robin advances by every URL that is taken.
\<close>

fun endpoints_iter :: "Endpoints \<Rightarrow> string list option" where
  "endpoints_iter (Fallback urls) = Some urls"
| "endpoints_iter (RoundRobin urls current) =
     (if urls = [] then None else Some (rotate (current mod length urls) urls))"

fun endpoints_taken :: "nat \<Rightarrow> Endpoints \<Rightarrow> Endpoints" where
  "endpoints_taken k (Fallback urls) = Fallback urls"
| "endpoints_taken k (RoundRobin urls current) = RoundRobin urls (current mod length urls + k)"

fun url_count :: "Endpoints \<Rightarrow> nat" where
  "url_count (Fallback urls) = length urls"
| "url_count (RoundRobin urls current) = length urls"

record UplinkConfig =
  uc_apollo_key :: string
  uc_apollo_graph_ref :: string
  uc_endpoints :: "Endpoints option"
  uc_poll_interval :: nat
  uc_timeout :: nat

section \<open>One poll\<close>

text \<open>The loop over the URLs: the response, if any, and the number of URLs tried.\<close>

fun fetch_from ::
    "(string \<Rightarrow> (reqwest_error, 'r UplinkResponse option) result) \<Rightarrow> ('r \<Rightarrow> (string, 't) result) \<Rightarrow> string list \<Rightarrow>
     't UplinkResponse option \<times> nat" where
  "fetch_from http transform [] = (None, 0)"
| "fetch_from http transform (url # urls) =
     (let next = (case fetch_from http transform urls of (found, tried) \<Rightarrow> (found, Suc tried))
      in case http url of
           Inl err \<Rightarrow> next
         | Inr None \<Rightarrow> next
         | Inr (Some (NewResponse response i delay)) \<Rightarrow>
             (case transform response of
                Inl err \<Rightarrow> next
              | Inr res \<Rightarrow> (Some (NewResponse res i delay), 1))
         | Inr (Some (UnchangedResponse i delay)) \<Rightarrow> (Some (UnchangedResponse i delay), 1)
         | Inr (Some (ErrorResponse retry_later code message)) \<Rightarrow> (Some (ErrorResponse retry_later code message), 1))"

definition fetch ::
    "(string \<Rightarrow> (reqwest_error, 'r UplinkResponse option) result) \<Rightarrow> ('r \<Rightarrow> (string, 't) result) \<Rightarrow> Endpoints \<Rightarrow>
     ((UplinkPollError, 't UplinkResponse) result \<times> Endpoints) option" where
  "fetch http transform endpoints =
     (case endpoints_iter endpoints of
        None \<Rightarrow> None
      | Some urls \<Rightarrow>
          (case fetch_from http transform urls of
             (Some response, tried) \<Rightarrow> Some (Inr response, endpoints_taken tried endpoints)
           | (None, tried) \<Rightarrow>
               Some (Inl (if url_count endpoints = 1 then FetchFailedSingle
                          else FetchFailedMultiple (url_count endpoints)), endpoints_taken tried endpoints)))"

section \<open>The polling loop\<close>

text \<open>\<open>up_running\<close> is False once the task has ended.\<close>

record 't uplink_poller =
  up_last_id :: "string option"
  up_interval :: nat
  up_endpoints :: Endpoints
  up_sent :: "(UplinkPollError, 't) result list"
  up_running :: bool

record 'r uplink_round =
  ud_http :: "UplinkRequest \<Rightarrow> string \<Rightarrow> (reqwest_error, 'r UplinkResponse option) result"
  ud_open :: bool

definition uplink_send :: "bool \<Rightarrow> (UplinkPollError, 't) result \<Rightarrow> 't uplink_poller \<Rightarrow> 't uplink_poller" where
  "uplink_send receiver_open item p =
     (if receiver_open then p\<lparr>up_sent := up_sent p @ [item]\<rparr> else p\<lparr>up_running := False\<rparr>)"

definition uplink_turn ::
    "UplinkConfig \<Rightarrow> ('r \<Rightarrow> (string, 't) result) \<Rightarrow> 't uplink_poller \<Rightarrow> 'r uplink_round \<Rightarrow> 't uplink_poller" where
  "uplink_turn config transform p r =
     (if \<not> up_running p then p
      else (case fetch (ud_http r \<lparr>ur_api_key = uc_apollo_key config, ur_graph_ref = uc_apollo_graph_ref config,
                                  ur_id = up_last_id p\<rparr>) transform (up_endpoints p) of
              None \<Rightarrow> p\<lparr>up_running := False\<rparr>
            | Some (res, endpoints) \<Rightarrow>
                (let p = p\<lparr>up_endpoints := endpoints\<rparr>
                 in case res of
                      Inr (NewResponse response i delay) \<Rightarrow>
                        uplink_send (ud_open r) (Inr response) (p\<lparr>up_last_id := Some i, up_interval := delay\<rparr>)
                    | Inr (UnchangedResponse i delay) \<Rightarrow>
                        p\<lparr>up_last_id := (case i of None \<Rightarrow> up_last_id p | Some i \<Rightarrow> Some i),
                          up_interval := (case delay of None \<Rightarrow> up_interval p | Some d \<Rightarrow> d)\<rparr>
                    | Inr (ErrorResponse True code message) \<Rightarrow>
                        uplink_send (ud_open r) (Inl (UplinkError code message)) p
                    | Inr (ErrorResponse False code message) \<Rightarrow>
                        (uplink_send (ud_open r) (Inl (UplinkErrorNoRetry code message)) p)\<lparr>up_running := False\<rparr>
                    | Inl err \<Rightarrow> uplink_send (ud_open r) (Inl err) p)))"

definition uplink_start :: "UplinkConfig \<Rightarrow> 't uplink_poller" where
  "uplink_start config =
     \<lparr>up_last_id = None, up_interval = uc_poll_interval config,
      up_endpoints = (case uc_endpoints config of None \<Rightarrow> default_endpoints | Some e \<Rightarrow> e),
      up_sent = [], up_running = True\<rparr>"

text \<open>What the stream has delivered after the given rounds.\<close>

definition stream_from_uplink_transforming_new_response ::
    "UplinkConfig \<Rightarrow> ('r \<Rightarrow> (string, 't) result) \<Rightarrow> 'r uplink_round list \<Rightarrow> (UplinkPollError, 't) result list" where
  "stream_from_uplink_transforming_new_response config transform rounds =
     up_sent (foldl (uplink_turn config transform) (uplink_start config) rounds)"

definition stream_from_uplink ::
    "UplinkConfig \<Rightarrow> 'r uplink_round list \<Rightarrow> (UplinkPollError, 'r) result list" where
  "stream_from_uplink config rounds = stream_from_uplink_transforming_new_response config Inr rounds"

section \<open>Responses of the queries\<close>

datatype FetchErrorCode =
    AUTHENTICATION_FAILED | ACCESS_DENIED | UNKNOWN_REF | RETRY_LATER | NOT_IMPLEMENTED_ON_THIS_INSTANCE
  | OtherCode string

fun fetch_error_code :: "FetchErrorCode \<Rightarrow> string" where
  "fetch_error_code AUTHENTICATION_FAILED = ''AUTHENTICATION_FAILED''"
| "fetch_error_code ACCESS_DENIED = ''ACCESS_DENIED''"
| "fetch_error_code UNKNOWN_REF = ''UNKNOWN_REF''"
| "fetch_error_code RETRY_LATER = ''RETRY_LATER''"
| "fetch_error_code NOT_IMPLEMENTED_ON_THIS_INSTANCE = ''NOT_IMPLEMENTED_ON_THIS_INSTANCE''"
| "fetch_error_code (OtherCode other) = other"

text \<open>
  The data of a query: a result with its id and minimal delay, no change, or an error. The delay is
  the number of seconds after the conversion from a float to an unsigned integer.
\<close>

datatype 'a uplink_data =
    UplinkResult 'a string nat
  | UplinkUnchanged string nat
  | UplinkFetchError FetchErrorCode string

record SchemaState =
  sdl :: string
  launch_id :: "string option"

fun manifest_response ::
    "'c list option uplink_data \<Rightarrow> 'c list option UplinkResponse" where
  "manifest_response (UplinkResult (Some chunks) i delay) = NewResponse (Some chunks) i delay"
| "manifest_response (UplinkResult None i delay) = NewResponse None i delay"
| "manifest_response (UplinkUnchanged i delay) = UnchangedResponse (Some i) (Some delay)"
| "manifest_response (UplinkFetchError code message) =
     ErrorResponse (code = RETRY_LATER) (fetch_error_code code) message"

fun schema_response :: "string uplink_data \<Rightarrow> SchemaState UplinkResponse" where
  "schema_response (UplinkResult supergraph_sdl i delay) =
     NewResponse \<lparr>sdl = supergraph_sdl, launch_id = Some i\<rparr> i delay"
| "schema_response (UplinkUnchanged i delay) = UnchangedResponse (Some i) (Some delay)"
| "schema_response (UplinkFetchError code message) =
     ErrorResponse (code = RETRY_LATER) (fetch_error_code code) message"

section \<open>Persisted query manifests\<close>

type_synonym FullPersistedQueryOperationId = "string \<times> string option"

record ManifestOperation =
  mo_id :: string
  mo_body :: string
  mo_client_name :: "string option"

record SignedUrlChunk =
  ch_format :: string
  ch_version :: nat
  ch_operations :: "ManifestOperation list"

definition validate_chunk :: "SignedUrlChunk \<Rightarrow> (string, SignedUrlChunk) result" where
  "validate_chunk chunk =
     (if ch_format chunk \<noteq> ''apollo-persisted-query-manifest''
      then Inl (''chunk format is not '' @ [CHR 0x27] @ ''apollo-persisted-query-manifest'' @ [CHR 0x27])
      else if ch_version chunk \<noteq> 1 then Inl ''persisted query manifest chunk version is not 1''
      else Inr chunk)"

definition parse_and_validate ::
    "(string \<Rightarrow> (string, SignedUrlChunk) result) \<Rightarrow> string \<Rightarrow> (string, SignedUrlChunk) result" where
  "parse_and_validate parse raw_chunk =
     try_result (map_error (\<lambda>e. ''Could not parse persisted query manifest chunk: '' @ e) (parse raw_chunk)) validate_chunk"

type_synonym manifest = "(FullPersistedQueryOperationId \<times> string) list"

definition add_chunk :: "manifest \<Rightarrow> SignedUrlChunk \<Rightarrow> manifest" where
  "add_chunk manifest chunk =
     foldl (\<lambda>m operation. AList.update (mo_id operation, mo_client_name operation) (mo_body operation) m)
       manifest (ch_operations chunk)"

text \<open>\<open>get\<close> is the request for one URL, with its checks of status and body.\<close>

definition fetch_chunk ::
    "(string \<Rightarrow> (string, SignedUrlChunk) result) \<Rightarrow> string \<Rightarrow> (string, SignedUrlChunk) result" where
  "fetch_chunk get chunk_url = try_result (get chunk_url) validate_chunk"

record PersistedQueriesManifestChunk =
  pc_id :: string
  pc_urls :: "string list"

fun fetch_chunk_urls ::
    "(string \<Rightarrow> (string, SignedUrlChunk) result) \<Rightarrow> string list \<Rightarrow> (string, SignedUrlChunk) result" where
  "fetch_chunk_urls get [] =
     Inl ''persisted query chunk did not include any URLs to fetch operations from''"
| "fetch_chunk_urls get (url # urls) =
     (case fetch_chunk get url of
        Inr chunk \<Rightarrow> Inr chunk
      | Inl e \<Rightarrow> if urls \<noteq> [] then fetch_chunk_urls get urls else Inl e)"

definition fetch_chunk_into_manifest ::
    "(string \<Rightarrow> (string, SignedUrlChunk) result) \<Rightarrow> manifest \<Rightarrow> PersistedQueriesManifestChunk \<Rightarrow> (string, manifest) result" where
  "fetch_chunk_into_manifest get manifest chunk =
     try_result (fetch_chunk_urls get (pc_urls chunk)) (\<lambda>c. Inr (add_chunk manifest c))"

fun fetch_chunks_into ::
    "(string \<Rightarrow> (string, SignedUrlChunk) result) \<Rightarrow> manifest \<Rightarrow> PersistedQueriesManifestChunk list \<Rightarrow>
     (string, manifest) result" where
  "fetch_chunks_into get manifest [] = Inr manifest"
| "fetch_chunks_into get manifest (chunk # chunks) =
     try_result (fetch_chunk_into_manifest get manifest chunk) (\<lambda>m. fetch_chunks_into get m chunks)"

definition manifest_from_uplink_chunks ::
    "(string \<Rightarrow> (string, SignedUrlChunk) result) \<Rightarrow> PersistedQueriesManifestChunk list \<Rightarrow> (string, manifest) result" where
  "manifest_from_uplink_chunks get new_chunks = fetch_chunks_into get [] new_chunks"

fun load_into ::
    "(string \<Rightarrow> (string, string) result) \<Rightarrow> (string \<Rightarrow> (string, SignedUrlChunk) result) \<Rightarrow> manifest \<Rightarrow> string list \<Rightarrow>
     (string, manifest) result" where
  "load_into read_file parse manifest [] = Inr manifest"
| "load_into read_file parse manifest (path # paths) =
     try_result (map_error (\<lambda>e. ''Failed to read persisted query list file at path: '' @ path @ '', '' @ e) (read_file path))
       (\<lambda>raw_file_contents. try_result (parse_and_validate parse raw_file_contents)
         (\<lambda>chunk. load_into read_file parse (add_chunk manifest chunk) paths))"

definition load_local_manifests ::
    "(string \<Rightarrow> (string, string) result) \<Rightarrow> (string \<Rightarrow> (string, SignedUrlChunk) result) \<Rightarrow> string list \<Rightarrow>
     (string, manifest) result" where
  "load_local_manifests read_file parse paths = load_into read_file parse [] paths"

text \<open>A reload of one watched file, in the state of all loaded chunks by path.\<close>

definition hot_reload ::
    "(string \<Rightarrow> (string, SignedUrlChunk) result) \<Rightarrow> (string \<times> SignedUrlChunk) list \<Rightarrow>
     string \<times> (string, string) result \<Rightarrow> (string \<times> SignedUrlChunk) list \<times> (string, manifest) result" where
  "hot_reload parse chunks event =
     (case try_result (snd event) (parse_and_validate parse) of
        Inl e \<Rightarrow> (chunks, Inl e)
      | Inr chunk \<Rightarrow>
          (let chunks = AList.update (fst event) chunk chunks
           in (chunks, Inr (foldl add_chunk [] (map snd chunks)))))"

fun create_hot_reload_stream ::
    "(string \<Rightarrow> (string, SignedUrlChunk) result) \<Rightarrow> (string \<times> SignedUrlChunk) list \<Rightarrow>
     (string \<times> (string, string) result) list \<Rightarrow> (string, manifest) result list" where
  "create_hot_reload_stream parse chunks [] = []"
| "create_hot_reload_stream parse chunks (event # events) =
     (case hot_reload parse chunks event of
        (chunks, item) \<Rightarrow> item # create_hot_reload_stream parse chunks events)"

section \<open>The events of a manifest source\<close>

text \<open>The text of an error is a parameter (\<open>to_text\<close>).\<close>

definition classify_uplink_manifest_result ::
    "(UplinkPollError \<Rightarrow> string) \<Rightarrow> (UplinkPollError, manifest option) result \<Rightarrow> (string, manifest) result option" where
  "classify_uplink_manifest_result to_text result =
     (case result of
        Inr (Some manifest) \<Rightarrow> Some (Inr manifest)
      | Inr None \<Rightarrow> Some (Inr [])
      | Inl e \<Rightarrow> if uplink_is_transient e then None else Some (Inl (to_text e)))"

definition transform_manifest ::
    "(string \<Rightarrow> (string, SignedUrlChunk) result) \<Rightarrow> PersistedQueriesManifestChunk list option \<Rightarrow>
     (string, manifest option) result" where
  "transform_manifest get response =
     (case response of
        Some chunks \<Rightarrow> try_result (manifest_from_uplink_chunks get chunks) (\<lambda>m. Inr (Some m))
      | None \<Rightarrow> Inr None)"

definition create_uplink_stream ::
    "(UplinkPollError \<Rightarrow> string) \<Rightarrow> UplinkConfig \<Rightarrow> (string \<Rightarrow> (string, SignedUrlChunk) result) \<Rightarrow>
     PersistedQueriesManifestChunk list option uplink_round list \<Rightarrow> (string, manifest) result list" where
  "create_uplink_stream to_text config get rounds =
     filter_map (classify_uplink_manifest_result to_text)
       (stream_from_uplink_transforming_new_response config (transform_manifest get) rounds)"

datatype ManifestEvent =
    UpdateManifest "(string \<times> string) list"
  | ManifestErrored string

datatype ManifestSource =
    LocalStatic "string list"
  | LocalHotReload "string list"
  | UplinkManifest UplinkConfig

text \<open>What the outside world delivers to a source.\<close>

record manifest_env =
  me_read :: "string \<Rightarrow> (string, string) result"
  me_parse :: "string \<Rightarrow> (string, SignedUrlChunk) result"
  me_get :: "string \<Rightarrow> (string, SignedUrlChunk) result"
  me_changes :: "(string \<times> (string, string) result) list"
  me_rounds :: "PersistedQueriesManifestChunk list option uplink_round list"
  me_show :: "UplinkPollError \<Rightarrow> string"

fun create_manifest_stream :: "manifest_env \<Rightarrow> ManifestSource \<Rightarrow> (string, manifest) result list" where
  "create_manifest_stream N (LocalStatic paths) = [load_local_manifests (me_read N) (me_parse N) paths]"
| "create_manifest_stream N (LocalHotReload paths) =
     create_hot_reload_stream (me_parse N) [] (filter (\<lambda>(path, _). path \<in> set paths) (me_changes N))"
| "create_manifest_stream N (UplinkManifest config) = create_uplink_stream (me_show N) config (me_get N) (me_rounds N)"

definition manifest_event :: "(string, manifest) result \<Rightarrow> ManifestEvent" where
  "manifest_event result =
     (case result of
        Inr manifest \<Rightarrow> UpdateManifest (map (\<lambda>((operation_id, _), body). (operation_id, body)) manifest)
      | Inl e \<Rightarrow> ManifestErrored e)"

definition manifest_events :: "manifest_env \<Rightarrow> ManifestSource \<Rightarrow> ManifestEvent list" where
  "manifest_events N source = map manifest_event (create_manifest_stream N source)"

section \<open>Fail over\<close>

text \<open>An endpoint answers when it returns data and, if the response is new, it can be transformed.\<close>

definition endpoint_answer ::
    "(string \<Rightarrow> (reqwest_error, 'r UplinkResponse option) result) \<Rightarrow> ('r \<Rightarrow> (string, 't) result) \<Rightarrow> string \<Rightarrow>
     't UplinkResponse option" where
  "endpoint_answer http transform url =
     (case http url of
        Inr (Some (NewResponse response i delay)) \<Rightarrow>
          (case transform response of Inr res \<Rightarrow> Some (NewResponse res i delay) | Inl _ \<Rightarrow> None)
      | Inr (Some (UnchangedResponse i delay)) \<Rightarrow> Some (UnchangedResponse i delay)
      | Inr (Some (ErrorResponse retry_later code message)) \<Rightarrow> Some (ErrorResponse retry_later code message)
      | _ \<Rightarrow> None)"

lemma fetch_from_Cons:
  "fetch_from http transform (url # urls) =
     (case endpoint_answer http transform url of
        Some response \<Rightarrow> (Some response, 1)
      | None \<Rightarrow> (case fetch_from http transform urls of (found, tried) \<Rightarrow> (found, Suc tried)))"
  by (simp add: endpoint_answer_def split: sum.splits option.splits UplinkResponse.splits)

declare fetch_from.simps(2) [simp del]

lemma fetch_from_none:
  "\<forall>url \<in> set urls. endpoint_answer http transform url = None \<Longrightarrow> fetch_from http transform urls = (None, length urls)"
  by (induction urls) (simp_all add: fetch_from_Cons)

lemma fetch_from_first:
  "\<forall>url \<in> set failed. endpoint_answer http transform url = None \<Longrightarrow> endpoint_answer http transform url = Some response \<Longrightarrow>
     fetch_from http transform (failed @ url # rest) = (Some response, Suc (length failed))"
  by (induction failed) (simp_all add: fetch_from_Cons)

lemma fetch_returns:
  assumes "endpoints_iter endpoints = Some urls"
  shows "fst (the (fetch http transform endpoints)) =
     (case filter_map (endpoint_answer http transform) urls of
        [] \<Rightarrow> Inl (if url_count endpoints = 1 then FetchFailedSingle else FetchFailedMultiple (url_count endpoints))
      | response # _ \<Rightarrow> Inr response)"
proof -
  have "fst (fetch_from http transform us) =
      (case filter_map (endpoint_answer http transform) us of [] \<Rightarrow> None | response # _ \<Rightarrow> Some response)" for us
    by (induction us) (auto simp: fetch_from_Cons split: option.splits prod.splits list.splits)
  from this[of urls] assms show ?thesis
    by (auto simp: fetch_def split: option.splits prod.splits list.splits)
qed

text \<open>With at least one URL the round robin never panics, and its counter stays within bounds.\<close>

fun endpoints_ok :: "Endpoints \<Rightarrow> bool" where
  "endpoints_ok (Fallback urls) = True"
| "endpoints_ok (RoundRobin urls current) = (urls \<noteq> [] \<and> current < 2 * length urls)"

lemma fetch_from_tried: "snd (fetch_from http transform urls) \<le> length urls"
  by (induction urls) (auto simp: fetch_from_Cons split: option.splits prod.splits)

lemma fetch_keeps_endpoints:
  assumes "endpoints_ok endpoints"
  shows "\<exists>res e. fetch http transform endpoints = Some (res, e) \<and> endpoints_ok e"
proof (cases endpoints)
  case (Fallback urls)
  then show ?thesis by (cases "fetch_from http transform urls") (auto simp: fetch_def split: option.splits)
next
  case (RoundRobin urls current)
  with assms have n: "urls \<noteq> []" by simp
  obtain found tried where f: "fetch_from http transform (rotate (current mod length urls) urls) = (found, tried)"
    by (cases "fetch_from http transform (rotate (current mod length urls) urls)")
  have "tried \<le> length urls" using fetch_from_tried[of http transform "rotate (current mod length urls) urls"] f by simp
  moreover have "current mod length urls < length urls" using n by simp
  ultimately have "current mod length urls + tried < 2 * length urls" by linarith
  with n f RoundRobin show ?thesis by (cases found) (simp_all add: fetch_def)
qed

text \<open>
  A round robin of urls goes on behind the endpoint that answered last.
\<close>

lemma round_robin_goes_on:
  assumes "rotate (current mod length urls) urls = failed @ url # rest"
    and "\<forall>u \<in> set failed. endpoint_answer http transform u = None"
    and "endpoint_answer http transform url = Some response"
  shows "\<exists>e. fetch http transform (RoundRobin urls current) = Some (Inr response, e) \<and>
             endpoints_iter e = Some (rest @ failed @ [url])"
proof -
  have n: "urls \<noteq> []" using assms(1) by auto
  have f: "fetch_from http transform (rotate (current mod length urls) urls) = (Some response, Suc (length failed))"
    unfolding assms(1) by (rule fetch_from_first[OF assms(2,3)])
  have len: "length urls = length failed + Suc (length rest)"
    using arg_cong[OF assms(1), of length] by simp
  have "rotate ((current mod length urls + Suc (length failed)) mod length urls) urls =
      rotate (Suc (length failed) + current mod length urls) urls"
    by (simp only: rotate_conv_mod[symmetric] add.commute[of "Suc (length failed)"])
  also have "\<dots> = rotate (Suc (length failed)) (rotate (current mod length urls) urls)"
    by (simp only: rotate_rotate)
  also have "\<dots> = rest @ failed @ [url]"
    unfolding assms(1) using rotate_append[of "failed @ [url]" rest] by simp
  finally show ?thesis using n f by (simp add: fetch_def)
qed

section \<open>What the streams deliver\<close>

text \<open>Errors that forbid a retry are the last item.\<close>

fun retried :: "(UplinkPollError, 't) result \<Rightarrow> bool" where
  "retried (Inl e) = uplink_is_transient e"
| "retried (Inr _) = True"

definition uplink_ok :: "'t uplink_poller \<Rightarrow> bool" where
  "uplink_ok p \<longleftrightarrow>
     list_all retried (butlast (up_sent p)) \<and> (up_running p \<longrightarrow> list_all retried (up_sent p)) \<and>
     (up_running p \<longrightarrow> endpoints_ok (up_endpoints p))"

lemma list_all_butlastI: "list_all P xs \<Longrightarrow> list_all P (butlast xs)"
  by (auto simp: list_all_iff dest: in_set_butlastD)

lemma uplink_turn_ok:
  assumes "uplink_ok p"
  shows "uplink_ok (uplink_turn config transform p r)"
proof (cases "up_running p")
  case False
  with assms show ?thesis by (simp add: uplink_turn_def)
next
  case True
  with assms have before: "list_all retried (up_sent p)"
      "endpoints_ok (up_endpoints p)"
    by (simp_all add: uplink_ok_def)
  define http where "http = ud_http r \<lparr>ur_api_key = uc_apollo_key config, ur_graph_ref = uc_apollo_graph_ref config,
      ur_id = up_last_id p\<rparr>"
  obtain res e where fetched: "fetch http transform (up_endpoints p) = Some (res, e)" "endpoints_ok e"
    using fetch_keeps_endpoints[OF before(2)] by blast
  have transient: "uplink_is_transient err" if "res = Inl err" for err
  proof -
    from fetched that obtain us where us: "endpoints_iter (up_endpoints p) = Some us"
      by (auto simp: fetch_def split: option.splits)
    from fetch_returns[OF us, of http transform] fetched that show ?thesis
      by (auto split: list.splits if_splits)
  qed
  show ?thesis
  proof (cases res)
    case (Inl err)
    with True fetched before transient show ?thesis
      by (simp add: uplink_turn_def http_def[symmetric] Let_def uplink_send_def uplink_ok_def list_all_butlastI)
  next
    case (Inr response)
    show ?thesis
    proof (cases response)
      case (NewResponse x i d)
      with Inr True fetched before show ?thesis
        by (simp add: uplink_turn_def http_def[symmetric] Let_def uplink_send_def uplink_ok_def list_all_butlastI)
    next
      case (UnchangedResponse i d)
      with Inr True fetched before show ?thesis
        by (simp add: uplink_turn_def http_def[symmetric] Let_def uplink_ok_def list_all_butlastI)
    next
      case (ErrorResponse retry code message)
      with Inr True fetched before show ?thesis
        by (cases retry) (simp_all add: uplink_turn_def http_def[symmetric] Let_def uplink_send_def uplink_ok_def list_all_butlastI)
    qed
  qed
qed

interpretation uplink_task: invariant_machine "uplink_turn config transform" uplink_ok for config transform
  by unfold_locales (rule uplink_turn_ok)

lemma uplink_start_ok:
  "(case uc_endpoints config of None \<Rightarrow> True | Some e \<Rightarrow> endpoints_ok e) \<Longrightarrow> uplink_ok (uplink_start config)"
  by (auto simp: uplink_start_def uplink_ok_def default_endpoints_def split: option.splits)

lemma uplink_stream_retried:
  assumes "case uc_endpoints config of None \<Rightarrow> True | Some e \<Rightarrow> endpoints_ok e"
  shows "list_all retried (butlast (stream_from_uplink_transforming_new_response config transform rounds))"
  using uplink_task.run_keeps[OF uplink_start_ok[OF assms], of config transform rounds]
  by (simp add: stream_from_uplink_transforming_new_response_def uplink_ok_def)

text \<open>The classification drops all that may be retried: an error is an error without retry, and the last event.\<close>

lemma classify_retried:
  "retried item \<Longrightarrow> classify_uplink_manifest_result to_text item = Some x \<Longrightarrow> \<exists>m. x = Inr m"
  by (cases item) (auto simp: classify_uplink_manifest_result_def split: option.splits)

lemma classify_error:
  "classify_uplink_manifest_result to_text item = Some (Inl s) \<Longrightarrow> \<exists>code message. s = to_text (UplinkErrorNoRetry code message)"
proof (cases item)
  case (Inl e)
  then show "classify_uplink_manifest_result to_text item = Some (Inl s) \<Longrightarrow> ?thesis"
    by (cases e) (auto simp: classify_uplink_manifest_result_def)
qed (simp add: classify_uplink_manifest_result_def split: option.splits)

definition is_update :: "ManifestEvent \<Rightarrow> bool" where
  "is_update ev = (case ev of UpdateManifest _ \<Rightarrow> True | ManifestErrored _ \<Rightarrow> False)"

lemma retried_events:
  "list_all retried items \<Longrightarrow> list_all is_update (map manifest_event (filter_map (classify_uplink_manifest_result to_text) items))"
proof -
  assume "list_all retried items"
  then have "is_update (manifest_event x)" if "item \<in> set items" "classify_uplink_manifest_result to_text item = Some x" for item x
    using classify_retried[of item to_text x] that by (auto simp: list_all_iff manifest_event_def is_update_def)
  then show ?thesis by (auto simp: list_all_iff set_filter_map)
qed

lemma uplink_manifest_events:
  assumes "case uc_endpoints config of None \<Rightarrow> True | Some e \<Rightarrow> endpoints_ok e"
  shows "list_all is_update (butlast (manifest_events N (UplinkManifest config)))"
    and "ManifestErrored s \<in> set (manifest_events N (UplinkManifest config)) \<Longrightarrow>
           \<exists>code message. s = me_show N (UplinkErrorNoRetry code message)"
proof -
  define items where "items = stream_from_uplink_transforming_new_response config (transform_manifest (me_get N)) (me_rounds N)"
  have events: "manifest_events N (UplinkManifest config) =
      map manifest_event (filter_map (classify_uplink_manifest_result (me_show N)) items)"
    by (simp add: manifest_events_def create_uplink_stream_def items_def)
  have all: "list_all retried (butlast items)" unfolding items_def by (rule uplink_stream_retried[OF assms])
  show "list_all is_update (butlast (manifest_events N (UplinkManifest config)))"
  proof (cases "items = []")
    case True
    then show ?thesis by (simp add: events)
  next
    case False
    then obtain front item where items: "items = front @ [item]" using rev_exhaust by blast
    with all have "list_all retried front" by simp
    then have "list_all is_update (map manifest_event (filter_map (classify_uplink_manifest_result (me_show N)) front))"
      by (rule retried_events)
    then show ?thesis
      by (auto simp: events items map_butlast[symmetric] list_all_iff split: option.splits dest: in_set_butlastD)
  qed
  assume "ManifestErrored s \<in> set (manifest_events N (UplinkManifest config))"
  then obtain item where "classify_uplink_manifest_result (me_show N) item = Some (Inl s)"
    by (auto simp: events set_filter_map manifest_event_def split: sum.splits)
  then show "\<exists>code message. s = me_show N (UplinkErrorNoRetry code message)" by (rule classify_error)
qed

section \<open>What a manifest holds\<close>

text \<open>The body of an operation is the last one given under its id and client name.\<close>

definition chunk_key :: "ManifestOperation \<Rightarrow> FullPersistedQueryOperationId" where
  "chunk_key operation = (mo_id operation, mo_client_name operation)"

definition last_body :: "ManifestOperation list \<Rightarrow> FullPersistedQueryOperationId \<Rightarrow> string option" where
  "last_body operations key = map_of (rev (map (\<lambda>operation. (chunk_key operation, mo_body operation)) operations)) key"

lemma add_chunk_map_of: "map_of (add_chunk m chunk) = map_of m ++ last_body (ch_operations chunk)"
proof -
  have "map_of (foldl (\<lambda>m operation. AList.update (mo_id operation, mo_client_name operation) (mo_body operation) m) m ops) =
      map_of m ++ last_body ops" for ops
  proof (induction ops arbitrary: m)
    case Nil
    show ?case by (simp add: last_body_def fun_eq_iff map_add_def)
  next
    case (Cons operation ops)
    then show ?case
      by (auto simp: fun_eq_iff update_conv' last_body_def map_add_def chunk_key_def split: option.splits)
  qed
  then show ?thesis by (simp add: add_chunk_def)
qed

lemma distinct_add_chunk: "distinct (map fst m) \<Longrightarrow> distinct (map fst (add_chunk m chunk))"
proof -
  have "distinct (map fst m) \<Longrightarrow> distinct (map fst (foldl (\<lambda>m operation.
      AList.update (mo_id operation, mo_client_name operation) (mo_body operation) m) m ops))" for ops
    by (induction ops arbitrary: m) (simp_all add: distinct_update)
  then show "distinct (map fst m) \<Longrightarrow> distinct (map fst (add_chunk m chunk))" by (simp add: add_chunk_def)
qed

lemma last_body_append: "last_body (a @ b) = last_body a ++ last_body b"
  by (rule ext) (auto simp: last_body_def map_add_def split: option.splits)

lemma add_chunks_map_of:
  "map_of (foldl add_chunk m chunks) = map_of m ++ last_body (concat (map ch_operations chunks))"
proof (induction chunks arbitrary: m)
  case Nil
  show ?case by (simp add: last_body_def fun_eq_iff map_add_def)
next
  case (Cons chunk chunks)
  then show ?case by (simp add: add_chunk_map_of last_body_append map_add_assoc)
qed

lemma distinct_add_chunks: "distinct (map fst m) \<Longrightarrow> distinct (map fst (foldl add_chunk m chunks))"
  by (induction chunks arbitrary: m) (simp_all add: distinct_add_chunk)

lemma load_into_chunks:
  "load_into read_file parse m paths = Inr m' \<Longrightarrow>
     \<exists>chunks. list_all2 (\<lambda>path chunk. \<exists>raw. read_file path = Inr raw \<and> parse_and_validate parse raw = Inr chunk) paths chunks \<and>
       m' = foldl add_chunk m chunks"
proof (induction paths arbitrary: m)
  case Nil
  then show ?case by simp
next
  case (Cons path paths)
  then obtain raw chunk where step: "read_file path = Inr raw" "parse_and_validate parse raw = Inr chunk"
      "load_into read_file parse (add_chunk m chunk) paths = Inr m'"
    by (auto simp: try_result_Inr_iff map_error_def split: sum.splits)
  from Cons.IH[OF step(3)] obtain chunks where "list_all2 (\<lambda>path chunk. \<exists>raw. read_file path = Inr raw \<and>
      parse_and_validate parse raw = Inr chunk) paths chunks" "m' = foldl add_chunk (add_chunk m chunk) chunks" by blast
  with step show ?case by (intro exI[of _ "chunk # chunks"]) auto
qed

lemma fetch_chunks_into_chunks:
  "fetch_chunks_into get m pcs = Inr m' \<Longrightarrow>
     \<exists>chunks. list_all2 (\<lambda>pc chunk. \<exists>url \<in> set (pc_urls pc). fetch_chunk get url = Inr chunk) pcs chunks \<and>
       m' = foldl add_chunk m chunks"
proof (induction pcs arbitrary: m)
  case Nil
  then show ?case by simp
next
  case (Cons pc pcs)
  then obtain chunk where step: "fetch_chunk_urls get (pc_urls pc) = Inr chunk"
      "fetch_chunks_into get (add_chunk m chunk) pcs = Inr m'"
    by (auto simp: try_result_Inr_iff fetch_chunk_into_manifest_def)
  have "\<exists>url \<in> set us. fetch_chunk get url = Inr chunk" if "fetch_chunk_urls get us = Inr chunk" for us
    using that by (induction us) (auto split: sum.splits if_splits)
  with step(1) have found: "\<exists>url \<in> set (pc_urls pc). fetch_chunk get url = Inr chunk" by blast
  from Cons.IH[OF step(2)] obtain chunks where "list_all2 (\<lambda>pc chunk. \<exists>url \<in> set (pc_urls pc).
      fetch_chunk get url = Inr chunk) pcs chunks" "m' = foldl add_chunk (add_chunk m chunk) chunks" by blast
  with found show ?case by (intro exI[of _ "chunk # chunks"]) auto
qed

lemma parsed_chunk_valid:
  "parse_and_validate parse raw = Inr chunk \<Longrightarrow> parse raw = Inr chunk \<and>
     ch_format chunk = ''apollo-persisted-query-manifest'' \<and> ch_version chunk = 1"
  by (auto simp: parse_and_validate_def try_result_Inr_iff validate_chunk_def map_error_def split: sum.splits if_splits)

lemma fetched_chunk_valid:
  "fetch_chunk get url = Inr chunk \<Longrightarrow> get url = Inr chunk \<and>
     ch_format chunk = ''apollo-persisted-query-manifest'' \<and> ch_version chunk = 1"
  by (auto simp: fetch_chunk_def try_result_Inr_iff validate_chunk_def split: if_splits)

lemma merged_chunks:
  "map_of (foldl add_chunk [] chunks) = last_body (concat (map ch_operations chunks))"
  "distinct (map fst (foldl add_chunk [] chunks))"
  by (simp_all add: add_chunks_map_of distinct_add_chunks)

definition chunk_valid :: "SignedUrlChunk \<Rightarrow> bool" where
  "chunk_valid chunk \<longleftrightarrow> ch_format chunk = ''apollo-persisted-query-manifest'' \<and> ch_version chunk = 1"

lemma list_all2_valid:
  assumes "list_all2 P xs chunks" "\<And>x c. x \<in> set xs \<Longrightarrow> P x c \<Longrightarrow> Q x c \<and> chunk_valid c"
  shows "list_all2 Q xs chunks \<and> list_all chunk_valid chunks"
  using assms by (induction xs chunks rule: list_all2_induct) auto

text \<open>Loading from files: every file gives a chunk.\<close>

lemma manifest_from_files:
  assumes "load_local_manifests read_file parse paths = Inr m"
  shows "\<exists>chunks. list_all2 (\<lambda>path chunk. \<exists>raw. read_file path = Inr raw \<and> parse raw = Inr chunk) paths chunks \<and>
       list_all chunk_valid chunks \<and>
       map_of m = last_body (concat (map ch_operations chunks)) \<and> distinct (map fst m)"
proof -
  from assms obtain chunks where c: "list_all2 (\<lambda>path chunk. \<exists>raw. read_file path = Inr raw \<and>
      parse_and_validate parse raw = Inr chunk) paths chunks" "m = foldl add_chunk [] chunks"
    unfolding load_local_manifests_def by (blast dest: load_into_chunks)
  have "list_all2 (\<lambda>path chunk. \<exists>raw. read_file path = Inr raw \<and> parse raw = Inr chunk) paths chunks \<and>
      list_all chunk_valid chunks"
    by (rule list_all2_valid[OF c(1)]) (auto simp: chunk_valid_def dest: parsed_chunk_valid)
  with c(2) show ?thesis by (auto simp: merged_chunks)
qed

text \<open>
  C37: A manifest that is built from the chunks that Uplink announces holds under every operation id and
  client name the last body that the chunks give, and nothing else. Every announced chunk comes
  from one of its URLs and has the expected format and version.
\<close>

theorem manifest_from_chunks:
  assumes "manifest_from_uplink_chunks get announced = Inr m"
  shows "\<exists>chunks. list_all2 (\<lambda>pc chunk. \<exists>url \<in> set (pc_urls pc). get url = Inr chunk) announced chunks \<and>
       list_all chunk_valid chunks \<and>
       map_of m = last_body (concat (map ch_operations chunks)) \<and> distinct (map fst m)"
proof -
  from assms obtain chunks where c: "list_all2 (\<lambda>pc chunk. \<exists>url \<in> set (pc_urls pc). fetch_chunk get url = Inr chunk)
      announced chunks" "m = foldl add_chunk [] chunks"
    unfolding manifest_from_uplink_chunks_def by (blast dest: fetch_chunks_into_chunks)
  have "list_all2 (\<lambda>pc chunk. \<exists>url \<in> set (pc_urls pc). get url = Inr chunk) announced chunks \<and> list_all chunk_valid chunks"
    by (rule list_all2_valid[OF c(1)]) (auto simp: chunk_valid_def dest: fetched_chunk_valid)
  with c(2) show ?thesis by (auto simp: merged_chunks)
qed

definition example_chunk :: "string \<Rightarrow> string \<Rightarrow> SignedUrlChunk" where
  "example_chunk i body =
     \<lparr>ch_format = ''apollo-persisted-query-manifest'', ch_version = 1,
      ch_operations = [\<lparr>mo_id = i, mo_body = body, mo_client_name = None\<rparr>]\<rparr>"

definition example_get :: "string \<Rightarrow> (string, SignedUrlChunk) result" where
  "example_get url =
     (if url = ''a'' then Inr (example_chunk ''x'' ''1'') else if url = ''b'' then Inr (example_chunk ''x'' ''2'')
      else Inl ''down'')"

definition example_announced :: "PersistedQueriesManifestChunk list" where
  "example_announced = [\<lparr>pc_id = ''0'', pc_urls = [''c'', ''a'']\<rparr>, \<lparr>pc_id = ''1'', pc_urls = [''b'']\<rparr>]"

lemma example_manifest: "manifest_from_uplink_chunks example_get example_announced = Inr [((''x'', None), ''2'')]"
  by (simp add: manifest_from_uplink_chunks_def example_announced_def fetch_chunk_into_manifest_def fetch_chunk_def
      example_get_def example_chunk_def validate_chunk_def add_chunk_def)

theorem manifest_from_chunks_witness:
  "\<exists>chunks. list_all2 (\<lambda>pc chunk. \<exists>url \<in> set (pc_urls pc). example_get url = Inr chunk) example_announced chunks \<and>
     list_all chunk_valid chunks \<and>
     map_of [((''x'', None), ''2'')] = last_body (concat (map ch_operations chunks)) \<and>
     distinct (map fst [((''x'', None :: string option), ''2'')])"
  by (rule manifest_from_chunks[OF example_manifest])

text \<open>A watched file replaces what it gave before: with one file, the manifest is always the file's.\<close>

lemma hot_reload_one_file:
  assumes "map fst chunks = [] \<or> map fst chunks = [path]"
    and "hot_reload parse chunks (path, Inr raw) = (chunks', Inr m)"
  shows "map fst chunks' = [path] \<and> (\<exists>chunk. parse raw = Inr chunk \<and> map_of m = last_body (ch_operations chunk))"
proof -
  from assms(2) obtain chunk where c: "parse_and_validate parse raw = Inr chunk"
      "chunks' = AList.update path chunk chunks" "m = foldl add_chunk [] (map snd chunks')"
    by (auto simp: hot_reload_def Let_def split: sum.splits)
  from assms(1) have "chunks' = [(path, chunk)]" by (auto simp: c(2) map_eq_Cons_conv)
  with c(1,3) show ?thesis
    by (auto simp: add_chunk_map_of dest: parsed_chunk_valid)
qed

section \<open>Errors of a manifest source\<close>

text \<open>
  The polling task after some rounds: whether it goes on, and what it asks for. The answer of a round
  is the one of the first endpoint, in the order of this poll, that answers at all.
\<close>

definition poller_after ::
    "manifest_env \<Rightarrow> UplinkConfig \<Rightarrow> PersistedQueriesManifestChunk list option uplink_round list \<Rightarrow>
     manifest option uplink_poller" where
  "poller_after N config rounds = foldl (uplink_turn config (transform_manifest (me_get N))) (uplink_start config) rounds"

definition polling ::
    "manifest_env \<Rightarrow> UplinkConfig \<Rightarrow> PersistedQueriesManifestChunk list option uplink_round list \<Rightarrow> bool" where
  "polling N config rounds = up_running (poller_after N config rounds)"

definition round_answer ::
    "manifest_env \<Rightarrow> UplinkConfig \<Rightarrow> PersistedQueriesManifestChunk list option uplink_round list \<Rightarrow>
     PersistedQueriesManifestChunk list option uplink_round \<Rightarrow> manifest option UplinkResponse option" where
  "round_answer N config before r =
     (let p = poller_after N config before;
          request = \<lparr>ur_api_key = uc_apollo_key config, ur_graph_ref = uc_apollo_graph_ref config, ur_id = up_last_id p\<rparr>
      in case endpoints_iter (up_endpoints p) of
           None \<Rightarrow> None
         | Some urls \<Rightarrow>
             (case filter_map (endpoint_answer (ud_http r request) (transform_manifest (me_get N))) urls of
                [] \<Rightarrow> None | answer # _ \<Rightarrow> Some answer))"

text \<open>What a round reports, and whether the polling goes on after it.\<close>

fun round_events :: "manifest_env \<Rightarrow> manifest option UplinkResponse option \<Rightarrow> ManifestEvent list" where
  "round_events N (Some (NewResponse None i delay)) = [UpdateManifest []]"
| "round_events N (Some (NewResponse (Some m) i delay)) = [UpdateManifest (map (\<lambda>((i, _), body). (i, body)) m)]"
| "round_events N (Some (ErrorResponse False code message)) = [ManifestErrored (me_show N (UplinkErrorNoRetry code message))]"
| "round_events N _ = []"

fun polls_on :: "'t UplinkResponse option \<Rightarrow> bool \<Rightarrow> bool" where
  "polls_on (Some (ErrorResponse False _ _)) receiver_open = False"
| "polls_on (Some (UnchangedResponse _ _)) receiver_open = True"
| "polls_on _ receiver_open = receiver_open"

fun known_id :: "string option \<Rightarrow> 't UplinkResponse option \<Rightarrow> string option" where
  "known_id previous (Some (NewResponse _ i _)) = Some i"
| "known_id previous (Some (UnchangedResponse (Some i) _)) = Some i"
| "known_id previous _ = previous"

lemma events_of_poller:
  "manifest_events (N\<lparr>me_rounds := rounds\<rparr>) (UplinkManifest config) =
     map manifest_event (filter_map (classify_uplink_manifest_result (me_show N)) (up_sent (poller_after N config rounds)))"
  by (simp add: manifest_events_def create_uplink_stream_def stream_from_uplink_transforming_new_response_def poller_after_def)

lemma classified_events:
  "map manifest_event (filter_map (classify_uplink_manifest_result to_text) (xs @ ys)) =
   map manifest_event (filter_map (classify_uplink_manifest_result to_text) xs) @
   map manifest_event (filter_map (classify_uplink_manifest_result to_text) ys)"
  by (induction xs) (auto split: option.splits)

lemma turn_effect:
  assumes p: "up_running p" "endpoints_iter (up_endpoints p) = Some urls"
    and answer: "answer = (case filter_map (endpoint_answer (ud_http r \<lparr>ur_api_key = uc_apollo_key config,
        ur_graph_ref = uc_apollo_graph_ref config, ur_id = up_last_id p\<rparr>) (transform_manifest (me_get N))) urls of
      [] \<Rightarrow> None | a # _ \<Rightarrow> Some a)"
  defines "p' \<equiv> uplink_turn config (transform_manifest (me_get N)) p r"
  shows "map manifest_event (filter_map (classify_uplink_manifest_result (me_show N)) (up_sent p')) =
       map manifest_event (filter_map (classify_uplink_manifest_result (me_show N)) (up_sent p)) @
       (if ud_open r then round_events N answer else [])"
    and "up_running p' = polls_on answer (ud_open r)" and "up_last_id p' = known_id (up_last_id p) answer"
proof -
  define http where "http = ud_http r \<lparr>ur_api_key = uc_apollo_key config, ur_graph_ref = uc_apollo_graph_ref config,
      ur_id = up_last_id p\<rparr>"
  obtain res e where f: "fetch http (transform_manifest (me_get N)) (up_endpoints p) = Some (res, e)"
  proof (cases "fetch_from http (transform_manifest (me_get N)) urls")
    case (Pair found tried)
    then show ?thesis using p(2) that by (cases found) (simp_all add: fetch_def)
  qed
  have res: "res = (case answer of
      None \<Rightarrow> Inl (if url_count (up_endpoints p) = 1 then FetchFailedSingle else FetchFailedMultiple (url_count (up_endpoints p)))
    | Some a \<Rightarrow> Inr a)"
    using fetch_returns[OF p(2), of http "transform_manifest (me_get N)"] f answer
    by (simp add: http_def split: list.splits)
  have turn: "p' = (let p = p\<lparr>up_endpoints := e\<rparr> in
      case res of
        Inr (NewResponse response i delay) \<Rightarrow> uplink_send (ud_open r) (Inr response) (p\<lparr>up_last_id := Some i, up_interval := delay\<rparr>)
      | Inr (UnchangedResponse i delay) \<Rightarrow>
          p\<lparr>up_last_id := (case i of None \<Rightarrow> up_last_id p | Some i \<Rightarrow> Some i),
            up_interval := (case delay of None \<Rightarrow> up_interval p | Some d \<Rightarrow> d)\<rparr>
      | Inr (ErrorResponse True code message) \<Rightarrow> uplink_send (ud_open r) (Inl (UplinkError code message)) p
      | Inr (ErrorResponse False code message) \<Rightarrow>
          (uplink_send (ud_open r) (Inl (UplinkErrorNoRetry code message)) p)\<lparr>up_running := False\<rparr>
      | Inl err \<Rightarrow> uplink_send (ud_open r) (Inl err) p)"
    using p(1) f by (simp add: p'_def uplink_turn_def http_def)
  note effects = turn Let_def uplink_send_def classified_events classify_uplink_manifest_result_def manifest_event_def
  show "map manifest_event (filter_map (classify_uplink_manifest_result (me_show N)) (up_sent p')) =
       map manifest_event (filter_map (classify_uplink_manifest_result (me_show N)) (up_sent p)) @
       (if ud_open r then round_events N answer else [])"
    using res by (cases "(N, answer)" rule: round_events.cases) (simp_all add: effects)
  show "up_running p' = polls_on answer (ud_open r)"
    using res p(1) by (cases "(answer, ud_open r)" rule: polls_on.cases) (simp_all add: effects)
  show "up_last_id p' = known_id (up_last_id p) answer"
    using res by (cases "(up_last_id p, answer)" rule: known_id.cases) (simp_all add: effects split: bool.split)
qed

text \<open>
  C38: A manifest source on Uplink, round by round. As long as the polling goes on, a round reports to an
  open receiver the manifest of a new response, or an error response that forbids a retry; it reports
  nothing when no endpoint answers, when nothing changed, or when the error may be retried. The
  polling ends with an error that forbids a retry, or when a round finds the receiver closed on
  sending, and not otherwise; after its end nothing is reported. The next poll names the id of the
  last response that gave one. So an error is the last event of a source, and an error that may be
  retried is never one.
\<close>

theorem manifest_error_is_last:
  assumes "case uc_endpoints config of None \<Rightarrow> True | Some e \<Rightarrow> endpoints_ok e"
  shows "list_all is_update (butlast (manifest_events N (UplinkManifest config))) \<and>
    manifest_events (N\<lparr>me_rounds := before @ [r]\<rparr>) (UplinkManifest config) =
      manifest_events (N\<lparr>me_rounds := before\<rparr>) (UplinkManifest config) @
      (if polling N config before \<and> ud_open r then round_events N (round_answer N config before r) else []) \<and>
    polling N config [] \<and>
    (polling N config (before @ [r]) \<longleftrightarrow>
       polling N config before \<and> polls_on (round_answer N config before r) (ud_open r)) \<and>
    (polling N config before \<longrightarrow>
       up_last_id (poller_after N config (before @ [r])) =
         known_id (up_last_id (poller_after N config before)) (round_answer N config before r))"
proof -
  let ?p = "poller_after N config before"
  have step: "poller_after N config (before @ [r]) = uplink_turn config (transform_manifest (me_get N)) ?p r"
    by (simp add: poller_after_def)
  have started: "polling N config []" by (simp add: polling_def poller_after_def uplink_start_def)
  show ?thesis
  proof (cases "up_running ?p")
    case False
    then have "poller_after N config (before @ [r]) = ?p" by (simp add: step uplink_turn_def)
    with False started show ?thesis
      using uplink_manifest_events(1)[OF assms] by (simp add: events_of_poller polling_def)
  next
    case True
    moreover have "uplink_ok ?p"
      using uplink_task.run_keeps[OF uplink_start_ok[OF assms]] by (simp add: poller_after_def)
    ultimately have "endpoints_ok (up_endpoints ?p)" by (simp add: uplink_ok_def)
    then obtain urls where urls: "endpoints_iter (up_endpoints ?p) = Some urls"
      by (cases "up_endpoints ?p") auto
    have answer: "round_answer N config before r = (case filter_map (endpoint_answer (ud_http r \<lparr>ur_api_key = uc_apollo_key config,
        ur_graph_ref = uc_apollo_graph_ref config, ur_id = up_last_id ?p\<rparr>) (transform_manifest (me_get N))) urls of
      [] \<Rightarrow> None | a # _ \<Rightarrow> Some a)"
      by (simp add: round_answer_def urls)
    from turn_effect[OF True urls answer] True started show ?thesis
      using uplink_manifest_events(1)[OF assms] by (simp add: events_of_poller polling_def step)
  qed
qed

definition example_uplink :: UplinkConfig where
  "example_uplink =
     \<lparr>uc_apollo_key = ''k'', uc_apollo_graph_ref = ''g'', uc_endpoints = Some (RoundRobin [''u'', ''v''] 0),
      uc_poll_interval = 10, uc_timeout = 30\<rparr>"

text \<open>The first poll fails, the second returns a list, the third may not be retried.\<close>

definition example_rounds :: "PersistedQueriesManifestChunk list option uplink_round list" where
  "example_rounds =
     [\<lparr>ud_http = (\<lambda>_ _. Inr None), ud_open = True\<rparr>,
      \<lparr>ud_http = (\<lambda>_ _. Inr (Some (manifest_response (UplinkResult (Some example_announced) ''1'' 5)))), ud_open = True\<rparr>,
      \<lparr>ud_http = (\<lambda>_ _. Inr (Some (manifest_response (UplinkFetchError UNKNOWN_REF ''no'')))), ud_open = True\<rparr>]"

definition example_env :: manifest_env where
  "example_env =
     \<lparr>me_read = (\<lambda>_. Inl ''''), me_parse = (\<lambda>_. Inl ''''), me_get = example_get, me_changes = [],
      me_rounds = example_rounds, me_show = (\<lambda>e. case e of UplinkErrorNoRetry code message \<Rightarrow> code | _ \<Rightarrow> '''')\<rparr>"

lemma example_events:
  "manifest_events example_env (UplinkManifest example_uplink) =
     [UpdateManifest [(''x'', ''2'')], ManifestErrored ''UNKNOWN_REF'']"
  by (simp add: manifest_events_def create_uplink_stream_def example_env_def example_rounds_def example_uplink_def
      stream_from_uplink_transforming_new_response_def uplink_start_def uplink_turn_def fetch_def fetch_from_Cons
      endpoint_answer_def uplink_send_def Let_def transform_manifest_def example_manifest
      classify_uplink_manifest_result_def manifest_event_def)

lemma example_polls:
  "polling example_env example_uplink (take 2 example_rounds)"
  "round_answer example_env example_uplink (take 2 example_rounds) (example_rounds ! 2) =
     Some (ErrorResponse False ''UNKNOWN_REF'' ''no'')"
  by (simp_all add: polling_def round_answer_def poller_after_def example_env_def example_rounds_def example_uplink_def
      uplink_start_def uplink_turn_def fetch_def fetch_from_Cons endpoint_answer_def uplink_send_def Let_def
      transform_manifest_def example_manifest numeral_2_eq_2)

theorem manifest_error_is_last_witness:
  "manifest_events example_env (UplinkManifest example_uplink) =
     manifest_events (example_env\<lparr>me_rounds := take 2 example_rounds\<rparr>) (UplinkManifest example_uplink) @
     [ManifestErrored ''UNKNOWN_REF''] \<and>
   \<not> polling example_env example_uplink (me_rounds example_env) \<and>
   list_all is_update (butlast (manifest_events example_env (UplinkManifest example_uplink)))"
proof -
  have ok: "case uc_endpoints example_uplink of None \<Rightarrow> True | Some e \<Rightarrow> endpoints_ok e"
    by (simp add: example_uplink_def)
  have rounds: "me_rounds example_env = take 2 example_rounds @ [example_rounds ! 2]"
    by (simp add: example_env_def example_rounds_def numeral_2_eq_2)
  have same: "example_env = example_env\<lparr>me_rounds := take 2 example_rounds @ [example_rounds ! 2]\<rparr>"
    by (simp add: rounds[symmetric])
  have shown: "ud_open (example_rounds ! 2)" "me_show example_env (UplinkErrorNoRetry code message) = code" for code message
    by (simp_all add: example_rounds_def example_env_def)
  note facts = manifest_error_is_last[OF ok, of example_env "take 2 example_rounds" "example_rounds ! 2",
      unfolded example_polls(2) same[symmetric]]
  have "\<not> polling example_env example_uplink (me_rounds example_env)"
    using facts by (simp add: rounds)
  moreover have "manifest_events example_env (UplinkManifest example_uplink) =
     manifest_events (example_env\<lparr>me_rounds := take 2 example_rounds\<rparr>) (UplinkManifest example_uplink) @
     [ManifestErrored ''UNKNOWN_REF'']"
    using facts[THEN conjunct2, THEN conjunct1] by (simp add: example_polls(1) shown)
  ultimately show ?thesis using facts[THEN conjunct1] by blast
qed

end
