(* ===== verification/Schema_Sources.thy ===== *)
theory Schema_Sources
  imports Uplink Server_States
begin

text \<open>
  Where the schema comes from (\<open>uplink/schema.rs\<close>, \<open>platform_api/schema.rs\<close>, \<open>files.rs\<close> of the crate
  \<open>apollo-mcp-registry\<close>): the watcher of a path, the polling of a published schema by its hash, and the
  stream of schema events of each kind of source. Reading files, requests and file system
  notifications are inputs.
\<close>

section \<open>Watching files\<close>

datatype event_kind =
    ModifyWriteTime | ModifyData | ModifyOther | CreateKind | RemoveKind | OtherKind

record notify_event =
  ne_kind :: event_kind
  ne_paths :: "string list"

text \<open>\<open>Path::starts_with\<close> compares whole components.\<close>

definition path_starts_with :: "string \<Rightarrow> string \<Rightarrow> bool" where
  "path_starts_with p base \<longleftrightarrow>
     take (length (split_on CHR ''/'' base)) (split_on CHR ''/'' p) = split_on CHR ''/'' base"

definition watch_relevant :: "bool \<Rightarrow> string \<Rightarrow> notify_event \<Rightarrow> bool" where
  "watch_relevant is_directory watched_path event \<longleftrightarrow>
     ne_kind event \<in> {ModifyWriteTime, ModifyData, CreateKind, RemoveKind} \<and>
     (watched_path \<in> set (ne_paths event) \<or>
      is_directory \<and> list_ex (\<lambda>p. path_starts_with p watched_path) (ne_paths event))"

text \<open>One event at the start, then one for every relevant notification.\<close>

definition watch_events :: "bool \<Rightarrow> string \<Rightarrow> notify_event list \<Rightarrow> notify_event option list" where
  "watch_events is_directory watched_path events =
     None # map Some (filter (watch_relevant is_directory watched_path) events)"

section \<open>Polling a published schema\<close>

record PublishedSchema =
  ps_hash :: string
  ps_document :: string

datatype 'p PublishedVariant = PublicationOf "'p option" | InvalidGraphRef string

definition fetch_published ::
    "string \<Rightarrow> (RequestError, 'p PublishedVariant option) result \<Rightarrow> (RequestError, 'p) result" where
  "fetch_published graph_ref answer =
     try_result answer (\<lambda>variant. case variant of
         Some (PublicationOf (Some publication)) \<Rightarrow> Inr publication
       | Some (PublicationOf None) \<Rightarrow> Inl (RE_Response (''no schema published for '' @ graph_ref))
       | Some (InvalidGraphRef message) \<Rightarrow> Inl (RE_Response message)
       | None \<Rightarrow> Inl (RE_Response (graph_ref @ '' not found'')))"

definition fetch_published_schema ::
    "string \<Rightarrow> (RequestError, PublishedSchema PublishedVariant option) result \<Rightarrow> (RequestError, PublishedSchema) result" where
  "fetch_published_schema graph_ref answer = fetch_published graph_ref answer"

definition fetch_published_schema_hash ::
    "string \<Rightarrow> (RequestError, string PublishedVariant option) result \<Rightarrow> (RequestError, string) result" where
  "fetch_published_schema_hash graph_ref answer = fetch_published graph_ref answer"

text \<open>The task: before the first schema, polling with the hash of the schema it sent last, or ended.\<close>

datatype schema_phase = FetchingSchema | PollingSchema string | SchemaEnded

record schema_round =
  sr_schema :: "(RequestError, PublishedSchema PublishedVariant option) result"
  sr_hash :: "(RequestError, string PublishedVariant option) result"
  sr_open :: bool

type_synonym schema_poller = "string list \<times> schema_phase"

definition send_update :: "bool \<Rightarrow> PublishedSchema \<Rightarrow> string list \<Rightarrow> schema_poller" where
  "send_update receiver_open published sent =
     (if receiver_open then (sent @ [ps_document published], PollingSchema (ps_hash published))
      else (sent, SchemaEnded))"

fun schema_turn :: "string \<Rightarrow> schema_poller \<Rightarrow> schema_round \<Rightarrow> schema_poller" where
  "schema_turn graph_ref (sent, FetchingSchema) r =
     (case fetch_published_schema graph_ref (sr_schema r) of
        Inr published \<Rightarrow> send_update (sr_open r) published sent
      | Inl err \<Rightarrow> if is_transient err then (sent, FetchingSchema) else (sent, SchemaEnded))"
| "schema_turn graph_ref (sent, PollingSchema current_hash) r =
     (case fetch_published_schema_hash graph_ref (sr_hash r) of
        Inr hash \<Rightarrow>
          if hash = current_hash then (sent, PollingSchema current_hash)
          else (case fetch_published_schema graph_ref (sr_schema r) of
                  Inr published \<Rightarrow> send_update (sr_open r) published sent
                | Inl err \<Rightarrow> (sent, PollingSchema current_hash))
      | Inl err \<Rightarrow> (sent, PollingSchema current_hash))"
| "schema_turn graph_ref (sent, SchemaEnded) r = (sent, SchemaEnded)"

definition stream_published_schema :: "string \<Rightarrow> schema_round list \<Rightarrow> schema_poller" where
  "stream_published_schema graph_ref rounds = foldl (schema_turn graph_ref) ([], FetchingSchema) rounds"

section \<open>The sources\<close>

datatype SchemaSource =
    StaticSchema string
  | StreamSchema
  | SchemaFile string bool
  | Registry UplinkConfig
  | PlatformApiSchema string PlatformApiConfig
  | SchemaUrls "string list"

text \<open>
  The outside of a source: the given stream and whether it ended, the file system at the start and at
  each change of the file, the rounds of polling, and the answer of a URL.
\<close>

record schema_env =
  se_stream :: "string list \<times> bool"
  se_exists :: "string \<Rightarrow> bool"
  se_read :: "string \<Rightarrow> (string, string) result"
  se_reads :: "(string, string) result list"
  se_uplink :: "SchemaState uplink_round list"
  se_rounds :: "schema_round list"
  se_get :: "string \<Rightarrow> (string, nat \<times> (string, string) result) result"

definition ok_updates :: "('e, string) result list \<Rightarrow> SchemaEvent list" where
  "ok_updates items = filter_map (\<lambda>item. case item of Inr s \<Rightarrow> Some (UpdateSchema s) | Inl _ \<Rightarrow> None) items"

fun fetch_supergraph_from_first_viable_url ::
    "(string \<Rightarrow> (string, nat \<times> (string, string) result) result) \<Rightarrow> string list \<Rightarrow> SchemaState option" where
  "fetch_supergraph_from_first_viable_url get [] = None"
| "fetch_supergraph_from_first_viable_url get (url # urls) =
     (case get url of
        Inr (status, body) \<Rightarrow>
          if 200 \<le> status \<and> status < 300
          then (case body of
                  Inr schema \<Rightarrow> Some \<lparr>sdl = schema, launch_id = None\<rparr>
                | Inl err \<Rightarrow> fetch_supergraph_from_first_viable_url get urls)
          else fetch_supergraph_from_first_viable_url get urls
      | Inl err \<Rightarrow> fetch_supergraph_from_first_viable_url get urls)"

text \<open>The events so far, and whether the source has ended.\<close>

fun source_events :: "schema_env \<Rightarrow> SchemaSource \<Rightarrow> SchemaEvent list \<times> bool" where
  "source_events N (StaticSchema schema) = ([UpdateSchema schema], True)"
| "source_events N StreamSchema = (map UpdateSchema (fst (se_stream N)), snd (se_stream N))"
| "source_events N (SchemaFile path watch) =
     (if \<not> se_exists N path then ([], True)
      else (case se_read N path of
              Inl err \<Rightarrow> ([], True)
            | Inr schema \<Rightarrow> if watch then (ok_updates (se_reads N), False) else ([UpdateSchema schema], True)))"
| "source_events N (Registry config) =
     (let p = foldl (uplink_turn config Inr) (uplink_start config) (se_uplink N)
      in (ok_updates (map (\<lambda>item. case item of Inl e \<Rightarrow> Inl e | Inr s \<Rightarrow> Inr (sdl s)) (up_sent p)), \<not> up_running p))"
| "source_events N (PlatformApiSchema graph_ref config) =
     (case stream_published_schema graph_ref (se_rounds N) of
        (sent, phase) \<Rightarrow> (map UpdateSchema sent, phase = SchemaEnded))"
| "source_events N (SchemaUrls urls) =
     ((case fetch_supergraph_from_first_viable_url (se_get N) urls of
         Some s \<Rightarrow> [UpdateSchema (sdl s)]
       | None \<Rightarrow> []), True)"

definition schema_events :: "schema_env \<Rightarrow> SchemaSource \<Rightarrow> SchemaEvent list" where
  "schema_events N source =
     (case source_events N source of (events, ended) \<Rightarrow> events @ (if ended then [NoMoreSchema] else []))"

section \<open>The schema that was sent is the published one\<close>

text \<open>
  In a round the request for the hash sees one publication and the request for the schema sees one,
  which may be newer; or a request fails. Hashes identify documents.
\<close>

definition round_publications ::
    "string \<Rightarrow> (PublishedSchema \<times> PublishedSchema) option \<Rightarrow> schema_round \<Rightarrow> bool" where
  "round_publications graph_ref seen r \<longleftrightarrow> sr_open r \<and>
     (case seen of
        None \<Rightarrow>
          (\<exists>e. fetch_published_schema_hash graph_ref (sr_hash r) = Inl e) \<and>
          (\<exists>e. fetch_published_schema graph_ref (sr_schema r) = Inl e \<and> is_transient e)
      | Some (a, b) \<Rightarrow>
          fetch_published_schema_hash graph_ref (sr_hash r) = Inr (ps_hash a) \<and>
          fetch_published_schema graph_ref (sr_schema r) = Inr b)"

text \<open>The publications of the last round that saw some.\<close>

definition last_publications ::
    "(PublishedSchema \<times> PublishedSchema) option list \<Rightarrow> PublishedSchema set" where
  "last_publications seen =
     (case filter_map id (rev seen) of [] \<Rightarrow> {} | (a, b) # _ \<Rightarrow> {a, b})"

definition sent_published :: "PublishedSchema set \<Rightarrow> schema_poller \<Rightarrow> bool" where
  "sent_published pubs p \<longleftrightarrow>
     (if pubs = {} then p = ([], FetchingSchema)
      else \<exists>sent. \<exists>pub \<in> pubs. p = (sent @ [ps_document pub], PollingSchema (ps_hash pub)))"

definition hashes_identify :: "PublishedSchema set \<Rightarrow> bool" where
  "hashes_identify pubs \<longleftrightarrow> (\<forall>a \<in> pubs. \<forall>b \<in> pubs. ps_hash a = ps_hash b \<longrightarrow> a = b)"

lemma schema_turn_published:
  assumes p: "sent_published pubs p" and sees: "round_publications graph_ref seen r"
    and hashes: "hashes_identify (pubs \<union> (case seen of None \<Rightarrow> {} | Some (a, b) \<Rightarrow> {a, b}))"
  shows "sent_published (case seen of None \<Rightarrow> pubs | Some (a, b) \<Rightarrow> {a, b}) (schema_turn graph_ref p r)"
proof (cases seen)
  case None
  with sees obtain e e' where e: "fetch_published_schema_hash graph_ref (sr_hash r) = Inl e"
      "fetch_published_schema graph_ref (sr_schema r) = Inl e'" "is_transient e'"
    by (auto simp: round_publications_def)
  show ?thesis
  proof (cases "pubs = {}")
    case True
    with p e None show ?thesis by (simp add: sent_published_def)
  next
    case False
    with p obtain sent pub where "pub \<in> pubs" "p = (sent @ [ps_document pub], PollingSchema (ps_hash pub))"
      by (auto simp: sent_published_def)
    with e None False show ?thesis by (auto simp: sent_published_def)
  qed
next
  case (Some ab)
  then obtain a b where seen: "seen = Some (a, b)" by (cases ab) auto
  with sees have r: "fetch_published_schema_hash graph_ref (sr_hash r) = Inr (ps_hash a)"
      "fetch_published_schema graph_ref (sr_schema r) = Inr b" "sr_open r"
    by (auto simp: round_publications_def)
  show ?thesis
  proof (cases "pubs = {}")
    case True
    with p r seen show ?thesis by (auto simp: sent_published_def send_update_def)
  next
    case False
    with p obtain sent pub where pub: "pub \<in> pubs" "p = (sent @ [ps_document pub], PollingSchema (ps_hash pub))"
      by (auto simp: sent_published_def)
    show ?thesis
    proof (cases "ps_hash a = ps_hash pub")
      case True
      with hashes seen pub(1) have "a = pub" by (auto simp: hashes_identify_def)
      with True pub(2) r seen show ?thesis by (auto simp: sent_published_def)
    next
      case False
      with pub(2) r seen show ?thesis by (auto simp: sent_published_def send_update_def)
    qed
  qed
qed

lemma last_publications_snoc [simp]:
  "last_publications (seen @ [s]) = (case s of None \<Rightarrow> last_publications seen | Some (a, b) \<Rightarrow> {a, b})"
  by (cases s) (auto simp: last_publications_def)

definition all_publications ::
    "(PublishedSchema \<times> PublishedSchema) option list \<Rightarrow> PublishedSchema set" where
  "all_publications seen = (\<Union>s \<in> set seen. case s of None \<Rightarrow> {} | Some (a, b) \<Rightarrow> {a, b})"

lemma last_publications_all: "last_publications seen \<subseteq> all_publications seen"
proof (induction seen rule: rev_induct)
  case Nil
  show ?case by (simp add: last_publications_def)
next
  case (snoc s seen)
  then show ?case by (cases s) (auto simp: all_publications_def)
qed

lemma published_rounds:
  assumes "list_all2 (round_publications graph_ref) seen rounds" "hashes_identify (all_publications seen)"
  shows "sent_published (last_publications seen) (foldl (schema_turn graph_ref) ([], FetchingSchema) rounds)"
  using assms
proof (induction seen arbitrary: rounds rule: rev_induct)
  case Nil
  then show ?case by (simp add: last_publications_def sent_published_def)
next
  case (snoc s seen)
  from snoc.prems(1) obtain rs r where rounds: "rounds = rs @ [r]" "list_all2 (round_publications graph_ref) seen rs"
      "round_publications graph_ref s r"
    by (auto simp: list_all2_append1 list_all2_Cons1)
  have all: "all_publications (seen @ [s]) = all_publications seen \<union> (case s of None \<Rightarrow> {} | Some (a, b) \<Rightarrow> {a, b})"
    by (auto simp: all_publications_def)
  with snoc.prems(2) have hashes: "hashes_identify (all_publications seen)"
      "hashes_identify (last_publications seen \<union> (case s of None \<Rightarrow> {} | Some (a, b) \<Rightarrow> {a, b}))"
    using last_publications_all[of seen] unfolding hashes_identify_def all by blast+
  show ?case
    using schema_turn_published[OF snoc.IH[OF rounds(2) hashes(1)] rounds(3) hashes(2)] by (simp add: rounds(1))
qed

text \<open>
  C39: Polling a published schema keeps up: after rounds that each fail in all their requests, the first
  one transiently, or see publications, the document sent last is the one that the last successful round saw, by
  its hash or in full, the stored hash is its hash, and the polling goes on.
\<close>

theorem published_schema_is_current:
  assumes "list_all2 (round_publications graph_ref) seen rounds" "hashes_identify (all_publications seen)"
    and "last_publications seen \<noteq> {}"
  shows "\<exists>sent. \<exists>pub \<in> last_publications seen.
    stream_published_schema graph_ref rounds = (sent @ [ps_document pub], PollingSchema (ps_hash pub))"
  using published_rounds[OF assms(1,2)] assms(3) by (simp add: stream_published_schema_def sent_published_def)

definition example_publication :: "string \<Rightarrow> PublishedSchema" where
  "example_publication h = \<lparr>ps_hash = h, ps_document = ''schema '' @ h\<rparr>"

definition example_schema_round :: "string \<Rightarrow> string \<Rightarrow> schema_round" where
  "example_schema_round h d =
     \<lparr>sr_schema = Inr (Some (PublicationOf (Some (example_publication d)))),
      sr_hash = Inr (Some (PublicationOf (Some h))), sr_open = True\<rparr>"

definition unavailable_round :: schema_round where
  "unavailable_round =
     (let e = RE_Request \<lparr>is_connect = True, is_timeout = False, is_request = False, err_status = None\<rparr>
      in \<lparr>sr_schema = Inl e, sr_hash = Inl e, sr_open = True\<rparr>)"

theorem published_schema_is_current_witness:
  "\<exists>sent. \<exists>pub \<in> {example_publication ''2'', example_publication ''3''}.
    stream_published_schema ''g'' [unavailable_round, example_schema_round ''1'' ''1'', example_schema_round ''2'' ''3'', unavailable_round] =
      (sent @ [ps_document pub], PollingSchema (ps_hash pub))"
proof -
  let ?seen = "[None, Some (example_publication ''1'', example_publication ''1''),
    Some (example_publication ''2'', example_publication ''3''), None]"
  have seen: "list_all2 (round_publications ''g'') ?seen
      [unavailable_round, example_schema_round ''1'' ''1'', example_schema_round ''2'' ''3'', unavailable_round]"
    by (simp add: round_publications_def unavailable_round_def Let_def example_schema_round_def fetch_published_schema_hash_def
        fetch_published_schema_def fetch_published_def example_publication_def)
  have hashes: "hashes_identify (all_publications ?seen)"
    by (simp add: hashes_identify_def all_publications_def example_publication_def)
  have "last_publications ?seen = {example_publication ''2'', example_publication ''3''}"
    by (simp add: last_publications_def)
  with published_schema_is_current[OF seen hashes] show ?thesis by simp
qed

text \<open>A file that is not there, or no URL that answers, ends the source without a schema.\<close>

lemma missing_schema:
  "\<not> se_exists N path \<Longrightarrow> schema_events N (SchemaFile path watch) = [NoMoreSchema]"
  "(\<forall>url \<in> set urls. \<exists>e. se_get N url = Inl e) \<Longrightarrow> schema_events N (SchemaUrls urls) = [NoMoreSchema]"
proof -
  show "\<not> se_exists N path \<Longrightarrow> schema_events N (SchemaFile path watch) = [NoMoreSchema]"
    by (simp add: schema_events_def)
  have "(\<forall>url \<in> set urls. \<exists>e. se_get N url = Inl e) \<Longrightarrow> fetch_supergraph_from_first_viable_url (se_get N) urls = None"
    by (induction urls) auto
  then show "(\<forall>url \<in> set urls. \<exists>e. se_get N url = Inl e) \<Longrightarrow> schema_events N (SchemaUrls urls) = [NoMoreSchema]"
    by (simp add: schema_events_def)
qed

end
