(* ===== verification/Operation_Sources.thy ===== *)
theory Operation_Sources
  imports Schema_Sources
begin

text \<open>
  Where the operations come from (\<open>operations/operation_source.rs\<close>, \<open>operations/raw_operation.rs\<close>): from
  an entry of a collection or a manifest to a raw operation, the loading of files and directories
  with a single event once every path is loaded, and the stream of server events of each source. The
  file system, the header parsers and the JSON parser are parameters. Paths are strings in normal form.
\<close>

section \<open>Operations of a collection and of a manifest\<close>

text \<open>\<open>HeaderName::from_str\<close>, \<open>HeaderValue::from_str\<close>, and \<open>serde_json\<close> reading an object.\<close>

record raw_parsers =
  rp_header_name :: "string \<Rightarrow> (string, string) result"
  rp_header_value :: "string \<Rightarrow> (string, string) result"
  rp_object :: "string \<Rightarrow> (string \<times> json) list option"

definition raw_variables_of :: "raw_parsers \<Rightarrow> string option \<Rightarrow> (CollectionError, (string \<times> json) list option) result" where
  "raw_variables_of R variables =
     (case variables of
        None \<Rightarrow> Inr None
      | Some s \<Rightarrow>
          if str_trim s = [] then Inr (Some [])
          else (case rp_object R s of None \<Rightarrow> Inl (CE_InvalidVariables s) | Some vs \<Rightarrow> Inr (Some vs)))"

fun insert_headers ::
    "raw_parsers \<Rightarrow> (string \<times> string) list \<Rightarrow> (string \<times> string) list \<Rightarrow> (CollectionError, (string \<times> string) list) result" where
  "insert_headers R header_map [] = Inr header_map"
| "insert_headers R header_map ((name, v) # rest) =
     try_result (map_error CE_HeaderName (rp_header_name R name)) (\<lambda>n.
     try_result (map_error CE_HeaderValue (rp_header_value R v)) (\<lambda>h.
       insert_headers R (obj_insert n h header_map) rest))"

definition raw_headers_of :: "raw_parsers \<Rightarrow> (string \<times> string) list option \<Rightarrow> (CollectionError, (string \<times> string) list option) result" where
  "raw_headers_of R hs =
     (case hs of
        None \<Rightarrow> Inr None
      | Some hs \<Rightarrow> try_result (insert_headers R [] hs) (\<lambda>m. Inr (Some m)))"

definition raw_operation_try_from :: "raw_parsers \<Rightarrow> OperationData \<Rightarrow> (CollectionError, RawOperation) result" where
  "raw_operation_try_from R operation_data =
     try_result (raw_variables_of R (data_variables operation_data)) (\<lambda>variables.
     try_result (raw_headers_of R (data_headers operation_data)) (\<lambda>headers.
       Inr \<lparr>source_text = data_source_text operation_data, raw_headers = headers, raw_variables = variables,
            source_path = None\<rparr>))"

definition raw_operation_from :: "string \<Rightarrow> string option \<Rightarrow> RawOperation" where
  "raw_operation_from txt path =
     \<lparr>source_text = txt, raw_headers = None, raw_variables = None, source_path = path\<rparr>"

definition raw_operations_from_manifest :: "(string \<times> string) list \<Rightarrow> RawOperation list" where
  "raw_operations_from_manifest operations = map (\<lambda>(_, body). raw_operation_from body None) operations"

section \<open>Operation files\<close>

record file_system =
  fs_is_dir :: "string \<Rightarrow> bool"
  fs_entries :: "string \<Rightarrow> string list option"
  fs_read :: "string \<Rightarrow> (string, string) result"
  fs_canonicalize :: "string \<Rightarrow> string option"

text \<open>
  \<open>Path::extension\<close>: what follows the last dot of the file name, unless that dot begins it.
\<close>

definition path_extension :: "string \<Rightarrow> string option" where
  "path_extension p =
     (let file_name = List.last (split_on CHR ''/'' p) in
      if file_name = ''..'' then None
      else case split_first CHR ''.'' (rev file_name) of
             (ext, Some (c # before)) \<Rightarrow> Some (rev ext)
           | _ \<Rightarrow> None)"

definition OPERATION_DOCUMENT_EXTENSION :: string where "OPERATION_DOCUMENT_EXTENSION = ''graphql''"

fun scan_directory :: "file_system \<Rightarrow> string list \<Rightarrow> (string, RawOperation list) result" where
  "scan_directory F [] = Inr []"
| "scan_directory F (entry_path # entries) =
     (if path_extension entry_path \<noteq> Some OPERATION_DOCUMENT_EXTENSION then scan_directory F entries
      else try_result (fs_read F entry_path) (\<lambda>content.
        try_result (scan_directory F entries) (\<lambda>ops.
          Inr (if str_trim content \<noteq> [] then raw_operation_from content (Some entry_path) # ops else ops))))"

text \<open>The operations of one path: a directory that cannot be listed has none.\<close>

definition scan_path :: "file_system \<Rightarrow> string \<Rightarrow> (string, RawOperation list) result" where
  "scan_path F path =
     (if fs_is_dir F path
      then (case fs_entries F path of None \<Rightarrow> Inr [] | Some entries \<Rightarrow> scan_directory F entries)
      else try_result (fs_read F path) (\<lambda>content.
        Inr (if str_trim content \<noteq> [] then [raw_operation_from content (Some path)] else [])))"

definition canonical_path :: "file_system \<Rightarrow> string \<Rightarrow> string" where
  "canonical_path F p = (case fs_canonicalize F p of None \<Rightarrow> p | Some c \<Rightarrow> c)"

text \<open>Operations whose file was seen before are filtered out.\<close>

fun deduplicate :: "file_system \<Rightarrow> string list \<Rightarrow> RawOperation list \<Rightarrow> RawOperation list" where
  "deduplicate F seen_paths [] = []"
| "deduplicate F seen_paths (op # ops) =
     (case source_path op of
        None \<Rightarrow> op # deduplicate F seen_paths ops
      | Some p \<Rightarrow>
          if canonical_path F p \<in> set seen_paths then deduplicate F seen_paths ops
          else op # deduplicate F (canonical_path F p # seen_paths) ops)"

type_synonym loaded_files = "(string \<times> RawOperation list) list"

text \<open>
  One event of the watcher of a path, with the file system as it is then. The event that goes on, if any:
  an error, or all operations once every path has been loaded.
\<close>

definition file_change ::
    "nat \<Rightarrow> loaded_files \<Rightarrow> string \<times> file_system \<Rightarrow> loaded_files \<times> ServerEvent option" where
  "file_change path_count state change =
     (case change of (path, F) \<Rightarrow>
       (case scan_path F path of
          Inl e \<Rightarrow> (state, Some (OperationErrorEvent e))
        | Inr operations \<Rightarrow>
            (let state = obj_insert path operations state
             in (state, if length state = path_count
                        then Some (OperationsUpdated (deduplicate F [] (concat (map snd state)))) else None))))"

fun file_changes :: "nat \<Rightarrow> loaded_files \<Rightarrow> (string \<times> file_system) list \<Rightarrow> ServerEvent list" where
  "file_changes path_count state [] = []"
| "file_changes path_count state (change # changes) =
     (case file_change path_count state change of
        (state, ev) \<Rightarrow> (case ev of None \<Rightarrow> [] | Some e \<Rightarrow> [e]) @ file_changes path_count state changes)"

definition stream_file_changes :: "string list \<Rightarrow> (string \<times> file_system) list \<Rightarrow> ServerEvent list" where
  "stream_file_changes paths changes =
     file_changes (length paths) [] (filter (\<lambda>(path, _). path \<in> set paths) changes)"

section \<open>The events of a source\<close>

datatype CollectionSource =
    CollectionById string PlatformApiConfig
  | CollectionDefault string PlatformApiConfig

datatype OperationSource =
    Files "string list"
  | Manifest ManifestSource
  | CollectionFrom CollectionSource
  | NoSource

text \<open>What a run of the streams is given from outside; the text of an error is a parameter.\<close>

record source_env =
  so_changes :: "(string \<times> file_system) list"
  so_manifest :: manifest_env
  so_by_id :: "(RequestError, CollectionEntry list OperationCollectionResult) result"
  so_id_rounds :: "(string \<times> string) list OperationCollectionResult poll_round list"
  so_default :: "(RequestError, CollectionEntry list GraphVariantResult option) result"
  so_default_rounds :: "(string \<times> string) list GraphVariantResult option poll_round list"
  so_open :: bool
  so_parsers :: raw_parsers
  so_show :: "CollectionError \<Rightarrow> string"

fun collection_stream :: "source_env \<Rightarrow> CollectionSource \<Rightarrow> CollectionEvent list" where
  "collection_stream N (CollectionById i config) = fst (stream_collection_by_id (so_by_id N) (so_open N) (so_id_rounds N))"
| "collection_stream N (CollectionDefault graph_ref config) =
     fst (stream_default_collection graph_ref (so_default N) (so_open N) (so_default_rounds N))"

fun from_collection_event :: "raw_parsers \<Rightarrow> (CollectionError \<Rightarrow> string) \<Rightarrow> CollectionEvent \<Rightarrow> ServerEvent" where
  "from_collection_event R to_text (UpdateOperationCollection operations) =
     OperationsUpdated (filter_map (\<lambda>d. case raw_operation_try_from R d of Inl _ \<Rightarrow> None | Inr op \<Rightarrow> Some op) operations)"
| "from_collection_event R to_text (CollectionErrored e) = CollectionErrorEvent (to_text e)"

fun from_manifest_event :: "ManifestEvent \<Rightarrow> ServerEvent" where
  "from_manifest_event (UpdateManifest operations) = OperationsUpdated (raw_operations_from_manifest operations)"
| "from_manifest_event (ManifestErrored e) = ManifestErrorEvent e"

fun operation_events :: "source_env \<Rightarrow> OperationSource \<Rightarrow> ServerEvent list" where
  "operation_events N (Files paths) = stream_file_changes paths (so_changes N)"
| "operation_events N (Manifest source) = map from_manifest_event (manifest_events (so_manifest N) source)"
| "operation_events N (CollectionFrom source) =
     map (from_collection_event (so_parsers N) (so_show N)) (collection_stream N source)"
| "operation_events N NoSource = [OperationsUpdated []]"

section \<open>Files: what is published\<close>

text \<open>The operations last read from a path, if it was ever read.\<close>

definition scanned :: "(string \<times> file_system) list \<Rightarrow> loaded_files" where
  "scanned changes =
     filter_map (\<lambda>(path, F). case scan_path F path of Inl _ \<Rightarrow> None | Inr ops \<Rightarrow> Some (path, ops)) changes"

definition loaded :: "(string \<times> file_system) list \<Rightarrow> string \<Rightarrow> RawOperation list option" where
  "loaded changes path = map_of (rev (scanned changes)) path"

definition file_state :: "(string \<times> file_system) list \<Rightarrow> loaded_files" where
  "file_state changes = foldl (\<lambda>s (path, ops). obj_insert path ops s) [] (scanned changes)"

lemma file_change_state:
  "fst (file_change n s (path, F)) = (case scan_path F path of Inl _ \<Rightarrow> s | Inr ops \<Rightarrow> obj_insert path ops s)"
  by (auto simp: file_change_def Let_def split: sum.splits)

lemma file_changes_append:
  "file_changes n s (cs @ ds) = file_changes n s cs @ file_changes n (foldl (\<lambda>s c. fst (file_change n s c)) s cs) ds"
  by (induction cs arbitrary: s) (auto split: prod.splits)

lemma file_changes_state:
  "foldl (\<lambda>s c. fst (file_change n s c)) [] cs = file_state cs"
  by (induction cs rule: rev_induct)
     (auto simp: file_state_def scanned_def file_change_state split: sum.splits)

lemma map_of_file_state: "map_of (file_state cs) q = loaded cs q"
proof -
  have "map_of (foldl (\<lambda>s (path, ops). obj_insert path ops s) [] sc) q = map_of (rev sc) q" for sc :: loaded_files
    by (induction sc rule: rev_induct) auto
  then show ?thesis by (simp add: loaded_def file_state_def)
qed

lemma distinct_file_state: "distinct (map fst (file_state cs))"
proof -
  have "distinct (map fst (foldl (\<lambda>s (path, ops). obj_insert path ops s) [] sc))" for sc :: loaded_files
    by (induction sc rule: rev_induct) auto
  then show ?thesis by (simp add: file_state_def)
qed

lemma file_state_paths: "fst ` set (file_state cs) \<subseteq> fst ` set cs"
proof
  fix q assume "q \<in> fst ` set (file_state cs)"
  then have "map_of (file_state cs) q \<noteq> None" by (simp add: map_of_eq_None_iff)
  then have "map_of (rev (scanned cs)) q \<noteq> None" by (simp add: map_of_file_state loaded_def)
  then have "q \<in> fst ` set (scanned cs)" by (auto simp: map_of_eq_None_iff)
  then show "q \<in> fst ` set cs" by (force simp: scanned_def set_filter_map split: sum.splits)
qed

lemma length_keys: "distinct (map fst s) \<Longrightarrow> length s = card (fst ` set s)"
  by (metis distinct_card length_map list.set_map)

text \<open>The file of an operation, as the operating system resolves it.\<close>

definition op_file :: "file_system \<Rightarrow> RawOperation \<Rightarrow> string option" where
  "op_file F op = map_option (canonical_path F) (source_path op)"

lemma deduplicate_subset: "set (deduplicate F seen_paths ops) \<subseteq> set ops"
  by (induction F seen_paths ops rule: deduplicate.induct) (auto split: option.splits if_splits)

lemma deduplicate_fresh:
  "op \<in> set (deduplicate F seen_paths ops) \<Longrightarrow> op_file F op \<notin> Some ` set seen_paths"
  by (induction F seen_paths ops rule: deduplicate.induct) (auto simp: op_file_def split: option.splits if_splits)

lemma deduplicate_distinct:
  "\<forall>op \<in> set ops. source_path op \<noteq> None \<Longrightarrow> distinct (map (op_file F) (deduplicate F seen_paths ops))"
proof (induction F seen_paths ops rule: deduplicate.induct)
  case (2 F seen_paths op ops)
  then obtain p where p: "source_path op = Some p" by auto
  have fresh: "op_file F op \<notin> op_file F ` set (deduplicate F (canonical_path F p # seen_paths) ops)"
  proof
    assume "op_file F op \<in> op_file F ` set (deduplicate F (canonical_path F p # seen_paths) ops)"
    then obtain other where "other \<in> set (deduplicate F (canonical_path F p # seen_paths) ops)"
        "op_file F other = op_file F op" by auto
    with deduplicate_fresh[OF this(1)] p show False by (auto simp: op_file_def)
  qed
  show ?case
  proof (cases "canonical_path F p \<in> set seen_paths")
    case True
    with "2.IH"(2)[OF p True] "2.prems" p show ?thesis by simp
  next
    case False
    with "2.IH"(3)[OF p False] "2.prems" p fresh show ?thesis by simp
  qed
qed simp

lemma deduplicate_covers:
  "op \<in> set ops \<Longrightarrow> op_file F op \<in> Some ` set seen_paths \<or> op_file F op \<in> op_file F ` set (deduplicate F seen_paths ops)"
proof (induction F seen_paths ops rule: deduplicate.induct)
  case (2 F seen_paths op' ops)
  show ?case
  proof (cases "source_path op'")
    case None
    with 2 show ?thesis by auto
  next
    case (Some p)
    show ?thesis
    proof (cases "canonical_path F p \<in> set seen_paths")
      case True
      with 2 Some show ?thesis by (auto simp: op_file_def)
    next
      case False
      with "2.IH"(3)[OF Some False] "2.prems" Some show ?thesis by (auto simp: op_file_def)
    qed
  qed
qed simp

lemma scan_directory_paths: "scan_directory F es = Inr ops \<Longrightarrow> op \<in> set ops \<Longrightarrow> source_path op \<noteq> None"
  by (induction es arbitrary: ops) (auto simp: try_result_Inr_iff raw_operation_from_def split: if_splits)

lemma scan_path_paths: "scan_path F path = Inr ops \<Longrightarrow> op \<in> set ops \<Longrightarrow> source_path op \<noteq> None"
  by (auto simp: scan_path_def try_result_Inr_iff raw_operation_from_def split: if_splits option.splits
      dest: scan_directory_paths)

lemma file_state_source_paths:
  assumes "(q, ops) \<in> set (file_state cs)" "op \<in> set ops"
  shows "source_path op \<noteq> None"
proof -
  from assms(1) have "map_of (rev (scanned cs)) q = Some ops"
    using map_of_file_state[of cs q] distinct_file_state[of cs] by (simp add: loaded_def map_of_eq_Some_iff)
  then have "(q, ops) \<in> set (scanned cs)" by (auto dest: map_of_SomeD)
  with assms(2) show ?thesis by (auto simp: scanned_def set_filter_map split: sum.splits dest: scan_path_paths)
qed

lemma change_publishes:
  assumes "scan_path F p = Inr ops"
  shows "file_changes n (file_state cs) [(p, F)] =
    (if card (fst ` set (file_state (cs @ [(p, F)]))) = n
     then [OperationsUpdated (deduplicate F [] (concat (map snd (file_state (cs @ [(p, F)])))))] else [])"
proof -
  have "file_state (cs @ [(p, F)]) = obj_insert p ops (file_state cs)"
    using assms by (simp add: file_state_def scanned_def)
  moreover from this have "length (obj_insert p ops (file_state cs)) = card (fst ` set (file_state (cs @ [(p, F)])))"
    using length_keys[OF distinct_file_state[of "cs @ [(p, F)]"]] by simp
  ultimately show ?thesis using assms by (simp add: file_change_def Let_def)
qed

lemma keep_own_paths:
  "fst ` set changes \<subseteq> set paths \<Longrightarrow> filter (\<lambda>(path, _). path \<in> set paths) changes = changes"
  by (rule filter_True) auto

text \<open>
  C14: When every configured path has been read, a change of one of them publishes the operations last
  read from all of them: each published operation was read from some path, every operation that was
  read has its file published, and no file is published twice, also when paths overlap. The paths
  of the configuration are taken to be distinct.
\<close>

theorem files_published:
  assumes "distinct paths" "fst ` set (changes @ [(p, F)]) \<subseteq> set paths"
    and "scan_path F p = Inr ops" "\<forall>q \<in> set paths. loaded (changes @ [(p, F)]) q \<noteq> None"
  shows "\<exists>earlier published. stream_file_changes paths (changes @ [(p, F)]) = earlier @ [OperationsUpdated published] \<and>
    (\<forall>op \<in> set published. \<exists>q \<in> set paths. op \<in> set (the (loaded (changes @ [(p, F)]) q))) \<and>
    (\<forall>q \<in> set paths. \<forall>op \<in> set (the (loaded (changes @ [(p, F)]) q)). op_file F op \<in> op_file F ` set published) \<and>
    distinct (map (op_file F) published)"
proof -
  let ?cs = "changes @ [(p, F)]" and ?state = "file_state (changes @ [(p, F)])"
  have in_state: "(q, os) \<in> set ?state \<longleftrightarrow> loaded ?cs q = Some os" for q os
    by (rule in_set_map_of[OF distinct_file_state, unfolded map_of_file_state])
  have "fst ` set ?state = set paths"
  proof
    show "fst ` set ?state \<subseteq> set paths" using file_state_paths[of ?cs] assms(2) by blast
    show "set paths \<subseteq> fst ` set ?state"
    proof
      fix q assume "q \<in> set paths"
      with assms(4) obtain os where "loaded ?cs q = Some os" by blast
      then have "(q, os) \<in> set ?state" using in_state by simp
      then show "q \<in> fst ` set ?state" by (rule image_eqI[rotated]) simp
    qed
  qed
  with assms(1) have "card (fst ` set ?state) = length paths" by (simp add: distinct_card)
  with change_publishes[OF assms(3), of "length paths" changes]
  have "stream_file_changes paths ?cs =
      file_changes (length paths) [] changes @ [OperationsUpdated (deduplicate F [] (concat (map snd ?state)))]"
    using keep_own_paths[OF assms(2)] file_changes_append[of "length paths" "[]" changes "[(p, F)]"]
      file_changes_state[of "length paths" changes]
    by (simp add: stream_file_changes_def)
  moreover have "\<exists>q \<in> set paths. op \<in> set (the (loaded ?cs q))"
    if published: "op \<in> set (deduplicate F [] (concat (map snd ?state)))" for op
  proof -
    from published obtain q os where "(q, os) \<in> set ?state" "op \<in> set os"
      using deduplicate_subset[of F "[]" "concat (map snd ?state)"] by auto
    moreover from this(1) have "q \<in> fst ` set ?state" by (rule image_eqI[rotated]) simp
    ultimately show ?thesis using in_state \<open>fst ` set ?state = set paths\<close> by (intro bexI[of _ q]) auto
  qed
  moreover have "op_file F op \<in> op_file F ` set (deduplicate F [] (concat (map snd ?state)))"
    if "q \<in> set paths" "op \<in> set (the (loaded ?cs q))" for q op
  proof -
    from that assms(4) obtain os where os: "loaded ?cs q = Some os" "op \<in> set os" by auto
    then have "(q, os) \<in> set ?state" using in_state by simp
    then have "os \<in> set (map snd ?state)" by (force intro: image_eqI[rotated])
    with os(2) have "op \<in> set (concat (map snd ?state))" by auto
    with deduplicate_covers[of op "concat (map snd ?state)" F "[]"] show ?thesis by simp
  qed
  moreover have "distinct (map (op_file F) (deduplicate F [] (concat (map snd ?state))))"
    by (rule deduplicate_distinct) (auto dest: file_state_source_paths)
  ultimately show ?thesis by blast
qed

definition example_files :: file_system where
  "example_files =
     \<lparr>fs_is_dir = (\<lambda>p. p = ''d''), fs_entries = (\<lambda>p. Some [''d/a.graphql'', ''d/b.txt'']),
      fs_read = (\<lambda>p. Inr ''query Q''), fs_canonicalize = (\<lambda>p. None)\<rparr>"

lemma example_extensions:
  "path_extension ''d/a.graphql'' = Some ''graphql''" "path_extension ''d/b.txt'' = Some ''txt''"
  by (simp_all add: path_extension_def split_on_def)

lemma example_text: "str_trim ''query Q'' = ''query Q''"
  by (simp add: str_trim_def is_white_def)

lemma example_scans:
  "scan_path example_files ''d'' = Inr [raw_operation_from ''query Q'' (Some ''d/a.graphql'')]"
  "scan_path example_files ''d/a.graphql'' = Inr [raw_operation_from ''query Q'' (Some ''d/a.graphql'')]"
  by (simp_all add: scan_path_def example_files_def example_extensions OPERATION_DOCUMENT_EXTENSION_def example_text)

lemma example_loaded:
  "loaded [(''d'', example_files), (''d/a.graphql'', example_files)] q =
     (if q = ''d/a.graphql'' \<or> q = ''d'' then Some [raw_operation_from ''query Q'' (Some ''d/a.graphql'')] else None)"
  by (simp add: loaded_def scanned_def example_scans)

theorem files_published_witness:
  "\<exists>earlier published. stream_file_changes [''d'', ''d/a.graphql''] [(''d'', example_files), (''d/a.graphql'', example_files)] =
      earlier @ [OperationsUpdated published] \<and>
    (\<forall>op \<in> set published. op = raw_operation_from ''query Q'' (Some ''d/a.graphql'')) \<and>
    published \<noteq> [] \<and> distinct (map (op_file example_files) published)"
proof -
  have "\<exists>earlier published. stream_file_changes [''d'', ''d/a.graphql''] ([(''d'', example_files)] @ [(''d/a.graphql'', example_files)]) =
      earlier @ [OperationsUpdated published] \<and>
    (\<forall>op \<in> set published. \<exists>q \<in> set [''d'', ''d/a.graphql''].
       op \<in> set (the (loaded ([(''d'', example_files)] @ [(''d/a.graphql'', example_files)]) q))) \<and>
    (\<forall>q \<in> set [''d'', ''d/a.graphql'']. \<forall>op \<in> set (the (loaded ([(''d'', example_files)] @ [(''d/a.graphql'', example_files)]) q)).
       op_file example_files op \<in> op_file example_files ` set published) \<and>
    distinct (map (op_file example_files) published)"
    by (rule files_published[OF _ _ example_scans(2)]) (simp_all add: example_loaded)
  then show ?thesis by (force simp: example_loaded)
qed

text \<open>
  When a path occurs twice in the configuration, no operations are ever published: the number of paths is
  compared with the number of different paths that were loaded.
\<close>

lemma duplicate_paths_never_load:
  assumes "\<not> distinct paths"
  shows "OperationsUpdated ops \<notin> set (stream_file_changes paths changes)"
proof -
  have "OperationsUpdated ops \<notin> set (file_changes (length paths) [] cs)" if "fst ` set cs \<subseteq> set paths" for cs
    using that
  proof (induction cs rule: rev_induct)
    case Nil
    then show ?case by simp
  next
    case (snoc c cs)
    obtain p F where c: "c = (p, F)" by (cases c)
    have "card (fst ` set (file_state (cs @ [c]))) \<le> card (set paths)"
      by (rule card_mono[OF finite_set subset_trans[OF file_state_paths snoc.prems]])
    also have "\<dots> < length paths" using assms card_length[of paths] card_distinct[of paths] by linarith
    finally have few: "card (fst ` set (file_state (cs @ [c]))) \<noteq> length paths" by simp
    have "OperationsUpdated ops \<notin> set (file_changes (length paths) (file_state cs) [c])"
    proof (cases "scan_path F p")
      case (Inl e)
      then show ?thesis by (simp add: c file_change_def)
    next
      case (Inr os)
      from change_publishes[OF Inr, of "length paths" cs] few show ?thesis by (simp add: c)
    qed
    with snoc show ?case by (simp add: file_changes_append file_changes_state)
  qed
  moreover have "fst ` set (filter (\<lambda>(path, _). path \<in> set paths) changes) \<subseteq> set paths" by auto
  ultimately show ?thesis by (simp add: stream_file_changes_def)
qed

section \<open>Errors of a collection\<close>

lemma from_collection_error:
  "CollectionErrorEvent e = from_collection_event R to_text ev \<Longrightarrow> \<exists>err. ev = CollectionErrored err \<and> e = to_text err"
  by (cases ev) auto

text \<open>A collection error is the only event of its source, so it never stops a running server.\<close>

lemma collection_error_only_event:
  assumes "CollectionErrorEvent e \<in> set (operation_events N (CollectionFrom source))"
  shows "operation_events N (CollectionFrom source) = [CollectionErrorEvent e]"
proof -
  have "\<exists>p. sent_ok p \<and> collection_stream N source = fst p"
  proof (cases source)
    case (CollectionById i config)
    then show ?thesis
      by (intro exI[of _ "stream_collection_by_id (so_by_id N) (so_open N) (so_id_rounds N)"]) (simp add: collection_events)
  next
    case (CollectionDefault graph_ref config)
    then show ?thesis
      by (intro exI[of _ "stream_default_collection graph_ref (so_default N) (so_open N) (so_default_rounds N)"])
         (simp add: collection_events)
  qed
  then obtain p where p: "sent_ok p" "collection_stream N source = fst p" by blast
  from assms p(2) obtain err where err: "CollectionErrored err \<in> set (fst p)" "e = so_show N err"
    by (auto dest!: from_collection_error)
  obtain sent cache where ps: "p = (sent, cache)" by (cases p)
  have "\<not> list_all (\<lambda>ev. case ev of UpdateOperationCollection _ \<Rightarrow> True | CollectionErrored _ \<Rightarrow> False) sent"
    using err(1) ps by (auto simp: list_all_iff intro!: bexI[of _ "CollectionErrored err"])
  with p(1) ps have "\<exists>err. sent = [CollectionErrored err]"
    by (auto simp: sent_ok_def dest: small_is_update split: option.splits)
  with err ps p(2) show ?thesis by auto
qed

end
