(* ===== verification/Runtime_Config.thy ===== *)
theory Runtime_Config
  imports Operation_Sources
begin

text \<open>
  From a configuration to a server (\<open>env_expansion.rs\<close>, \<open>custom_scalar_map.rs\<close>, \<open>server_info.rs\<close>,
  \<open>runtime/*.rs\<close>, \<open>main.rs\<close>): the expansion of environment variables in the parsed YAML, the map of custom
  scalars, the credentials and endpoints of GraphOS, the choice of the sources of schema and operations, the
  server information, the filter of exported span attributes, and the restart loop. Parsers (YAML,
  JSON, URLs), the substitution in one string and the environment are parameters.
\<close>

section \<open>Environment expansion\<close>

datatype EnvExpansionError =
    UndefinedVariable string
  | NonUnicodeValue string
  | YamlParse string
  | YamlSerialize string

text \<open>YAML values; a number is its text, a tagged value is opaque.\<close>

datatype yaml =
    YNull
  | YBool bool
  | YNumber string
  | YString string
  | YSequence "yaml list"
  | YMapping "(yaml \<times> yaml) list"
  | YTagged string yaml

fun contains :: "string \<Rightarrow> string \<Rightarrow> bool" where
  "contains p [] = (p = [])"
| "contains p (c # cs) = (starts_with p (c # cs) \<or> contains p cs)"

datatype env_value = NotPresent | NotUnicode | Present string

definition context_fn :: "(string \<Rightarrow> env_value) \<Rightarrow> string \<Rightarrow> (EnvExpansionError, string option) result" where
  "context_fn env key =
     (if \<not> starts_with ''env.'' key then Inr None
      else let var_name = drop 4 key in
        case env var_name of
          Present value \<Rightarrow> if value \<noteq> [] then Inr (Some value) else Inl (UndefinedVariable var_name)
        | NotPresent \<Rightarrow> Inl (UndefinedVariable var_name)
        | NotUnicode \<Rightarrow> Inl (NonUnicodeValue var_name))"

text \<open>
  \<open>ep_substitute\<close> is \<open>shellexpand::env_with_context\<close>, \<open>ep_parse\<close> and \<open>ep_serialize\<close> are \<open>serde_yaml\<close>.
\<close>

record expansion =
  ep_env :: "string \<Rightarrow> env_value"
  ep_substitute :: "(string \<Rightarrow> (EnvExpansionError, string option) result) \<Rightarrow> string \<Rightarrow> (EnvExpansionError, string) result"
  ep_parse :: "string \<Rightarrow> (string, yaml) result"
  ep_serialize :: "yaml \<Rightarrow> (string, string) result"

definition expand_env_vars :: "expansion \<Rightarrow> string \<Rightarrow> (EnvExpansionError, string) result" where
  "expand_env_vars X content = ep_substitute X (context_fn (ep_env X)) content"

definition coerce :: "expansion \<Rightarrow> string \<Rightarrow> yaml" where
  "coerce X s =
     (case ep_parse X s of
        Inr (YBool b) \<Rightarrow> YBool b
      | Inr (YNumber n) \<Rightarrow> YNumber n
      | Inr YNull \<Rightarrow> YNull
      | _ \<Rightarrow> YString s)"

definition has_placeholder :: "string \<Rightarrow> bool" where
  "has_placeholder s \<longleftrightarrow> contains ''${'' s \<or> contains ''$$'' s"

fun expand_value :: "expansion \<Rightarrow> yaml \<Rightarrow> (EnvExpansionError, yaml) result"
  and expand_sequence :: "expansion \<Rightarrow> yaml list \<Rightarrow> (EnvExpansionError, yaml list) result"
  and expand_mapping :: "expansion \<Rightarrow> (yaml \<times> yaml) list \<Rightarrow> (EnvExpansionError, (yaml \<times> yaml) list) result"
where
  "expand_value X (YString s) =
     (if has_placeholder s then try_result (expand_env_vars X s) (\<lambda>expanded. Inr (coerce X expanded)) else Inr (YString s))"
| "expand_value X (YSequence items) = try_result (expand_sequence X items) (\<lambda>vs. Inr (YSequence vs))"
| "expand_value X (YMapping m) = try_result (expand_mapping X m) (\<lambda>kvs. Inr (YMapping kvs))"
| "expand_value X v = Inr v"
| "expand_sequence X [] = Inr []"
| "expand_sequence X (v # vs) =
     try_result (expand_value X v) (\<lambda>w. try_result (expand_sequence X vs) (\<lambda>ws. Inr (w # ws)))"
| "expand_mapping X [] = Inr []"
| "expand_mapping X ((k, v) # kvs) =
     try_result (expand_value X v) (\<lambda>w. try_result (expand_mapping X kvs) (\<lambda>rest. Inr ((k, w) # rest)))"

definition expand_yaml :: "expansion \<Rightarrow> string \<Rightarrow> (EnvExpansionError, string) result" where
  "expand_yaml X yaml_content =
     try_result (map_error YamlParse (ep_parse X yaml_content)) (\<lambda>v.
     try_result (expand_value X v) (\<lambda>w. map_error YamlSerialize (ep_serialize X w)))"

text \<open>
  What expansion leaves alone: the same sequences and mappings with the same keys; only a string that
  has a placeholder may change, and only into another scalar.
\<close>

fun yaml_scalar :: "yaml \<Rightarrow> bool" where
  "yaml_scalar (YSequence _) = False"
| "yaml_scalar (YMapping _) = False"
| "yaml_scalar (YTagged _ _) = False"
| "yaml_scalar _ = True"

inductive expands_to :: "yaml \<Rightarrow> yaml \<Rightarrow> bool" where
  unchanged: "expands_to v v"
| expanded: "has_placeholder s \<Longrightarrow> yaml_scalar w \<Longrightarrow> expands_to (YString s) w"
| sequence: "list_all2 expands_to vs ws \<Longrightarrow> expands_to (YSequence vs) (YSequence ws)"
| mapping: "list_all2 (\<lambda>kv kw. fst kv = fst kw \<and> expands_to (snd kv) (snd kw)) kvs kws \<Longrightarrow>
            expands_to (YMapping kvs) (YMapping kws)"
monos list_all2_mono

lemma coerce_scalar: "yaml_scalar (coerce X s)"
  by (simp add: coerce_def split: sum.splits yaml.splits)

lemma expand_keeps:
  "expand_value X v = Inr w \<Longrightarrow> expands_to v w"
  "expand_sequence X vs = Inr ws \<Longrightarrow> list_all2 expands_to vs ws"
  "expand_mapping X kvs = Inr kws \<Longrightarrow> list_all2 (\<lambda>kv kw. fst kv = fst kw \<and> expands_to (snd kv) (snd kw)) kvs kws"
proof (induction X v and X vs and X kvs arbitrary: w and ws and kws rule: expand_value_expand_sequence_expand_mapping.induct)
  case (1 X s)
  then show ?case
    by (auto simp: try_result_Inr_iff coerce_scalar split: if_splits intro: expands_to.intros)
qed (auto simp: try_result_Inr_iff intro: expands_to.intros)

text \<open>
  C15: Expanding environment variables never changes the structure of the configuration: sequences keep their
  length, mappings their keys, and a string becomes another scalar, only if it has a placeholder. No value
  of a variable can add a setting or turn into a nested one.
\<close>

theorem expansion_keeps_structure:
  assumes "expand_yaml X yaml_content = Inr expanded_content"
  shows "\<exists>v w. ep_parse X yaml_content = Inr v \<and> expands_to v w \<and> ep_serialize X w = Inr expanded_content"
proof -
  from assms obtain v w where "ep_parse X yaml_content = Inr v" "expand_value X v = Inr w"
      "ep_serialize X w = Inr expanded_content"
    by (auto simp: expand_yaml_def try_result_Inr_iff map_error_Inr_iff)
  with expand_keeps(1)[of X v w] show ?thesis by blast
qed

definition example_expansion :: expansion where
  "example_expansion =
     \<lparr>ep_env = (\<lambda>n. if n = ''E'' then Present ''a: b'' else NotPresent),
      ep_substitute = (\<lambda>f s. if s = ''${env.E}'' then
          try_result (f ''env.E'') (\<lambda>v. Inr (case v of None \<Rightarrow> s | Some t \<Rightarrow> t)) else Inr s),
      ep_parse = (\<lambda>s. if s = ''endpoint: ${env.E}'' then Inr (YMapping [(YString ''endpoint'', YString ''${env.E}'')])
          else if s = ''a: b'' then Inr (YMapping [(YString ''a'', YString ''b'')]) else Inr (YString s)),
      ep_serialize = (\<lambda>v. if v = YMapping [(YString ''endpoint'', YString ''a: b'')] then Inr ''ok'' else Inl '''')\<rparr>"

lemma example_expands: "expand_yaml example_expansion ''endpoint: ${env.E}'' = Inr ''ok''"
  by (simp add: expand_yaml_def example_expansion_def map_error_def has_placeholder_def starts_with_def expand_env_vars_def
      context_fn_def Let_def coerce_def)

theorem expansion_keeps_structure_witness:
  "\<exists>v w. ep_parse example_expansion ''endpoint: ${env.E}'' = Inr v \<and> expands_to v w \<and> ep_serialize example_expansion w = Inr ''ok''"
  by (rule expansion_keeps_structure[OF example_expands])

text \<open>A text without placeholders is left as it is.\<close>

fun no_placeholder :: "yaml \<Rightarrow> bool"
  and no_placeholders :: "yaml list \<Rightarrow> bool"
  and no_placeholder_values :: "(yaml \<times> yaml) list \<Rightarrow> bool"
where
  "no_placeholder (YString s) = (\<not> has_placeholder s)"
| "no_placeholder (YSequence vs) = no_placeholders vs"
| "no_placeholder (YMapping kvs) = no_placeholder_values kvs"
| "no_placeholder v = True"
| "no_placeholders [] = True"
| "no_placeholders (v # vs) = (no_placeholder v \<and> no_placeholders vs)"
| "no_placeholder_values [] = True"
| "no_placeholder_values ((k, v) # kvs) = (no_placeholder v \<and> no_placeholder_values kvs)"

lemma nothing_to_expand:
  "no_placeholder v \<Longrightarrow> expand_value X v = Inr v"
  "no_placeholders vs \<Longrightarrow> expand_sequence X vs = Inr vs"
  "no_placeholder_values kvs \<Longrightarrow> expand_mapping X kvs = Inr kvs"
  by (induction v and vs and kvs rule: no_placeholder_no_placeholders_no_placeholder_values.induct) auto

section \<open>Custom scalars\<close>

text \<open>The JSON parser, the meta schema check and the conversion to a schema.\<close>

record scalar_parsers =
  sp_parse :: "string \<Rightarrow> (string, (string \<times> json) list) result"
  sp_validate :: "json \<Rightarrow> (string, unit) result"
  sp_schema :: "json \<Rightarrow> (string, json) result"
  sp_read :: "string \<Rightarrow> (string, string) result"

definition custom_scalar_map_from_str :: "scalar_parsers \<Rightarrow> string \<Rightarrow> (ServerError, (string \<times> json) list) result" where
  "custom_scalar_map_from_str P txt =
     try_result (map_error CustomScalarConfigError (sp_parse P txt)) (\<lambda>parsed.
       collect_results (\<lambda>(key, v).
         try_result (map_error CustomScalarJsonSchemaError (sp_validate P v)) (\<lambda>_.
           map_error CustomScalarJsonSchemaError (try_result (sp_schema P v) (\<lambda>schema. Inr (key, schema))))) parsed)"

definition custom_scalar_map_from_file :: "scalar_parsers \<Rightarrow> string \<Rightarrow> (ServerError, (string \<times> json) list) result" where
  "custom_scalar_map_from_file P path =
     try_result (map_error ReadFileError (sp_read P path)) (custom_scalar_map_from_str P)"

definition custom_scalar_get :: "(string \<times> json) list \<Rightarrow> string \<Rightarrow> json option" where
  "custom_scalar_get m key = map_of m key"

text \<open>Every scalar of the file is in the map, with the schema of its value.\<close>

lemma custom_scalars_loaded:
  assumes "custom_scalar_map_from_str P txt = Inr m"
  shows "\<exists>parsed. sp_parse P txt = Inr parsed \<and>
    (\<forall>key. custom_scalar_get m key =
       (case map_of parsed key of None \<Rightarrow> None | Some v \<Rightarrow> Some (projr (sp_schema P v)))) \<and>
    (\<forall>(key, v) \<in> set parsed. sp_validate P v = Inr ())"
proof -
  from assms obtain parsed where parsed: "sp_parse P txt = Inr parsed"
    "collect_results (\<lambda>(key, v). try_result (map_error CustomScalarJsonSchemaError (sp_validate P v)) (\<lambda>_.
       map_error CustomScalarJsonSchemaError (try_result (sp_schema P v) (\<lambda>schema. Inr (key, schema))))) parsed = Inr m"
    by (auto simp: custom_scalar_map_from_str_def try_result_Inr_iff map_error_def split: sum.splits)
  from parsed(2) have "list_all2 (\<lambda>kv km. fst km = fst kv \<and> sp_validate P (snd kv) = Inr () \<and> sp_schema P (snd kv) = Inr (snd km)) parsed m"
    unfolding collect_results_Inr
    by (rule list_all2_mono) (auto simp: try_result_Inr_iff map_error_Inr_iff split: prod.splits)
  then have "(\<forall>key. map_of m key = (case map_of parsed key of None \<Rightarrow> None | Some v \<Rightarrow> Some (projr (sp_schema P v)))) \<and>
      (\<forall>kv \<in> set parsed. sp_validate P (snd kv) = Inr ())"
    by (induction parsed m rule: list_all2_induct) auto
  with parsed(1) show ?thesis by (auto simp: custom_scalar_get_def)
qed

section \<open>GraphOS credentials\<close>

record GraphOSConfig =
  gc_apollo_key :: "string option"
  gc_apollo_graph_ref :: "string option"
  gc_apollo_registry_url :: "string option"
  gc_apollo_uplink_endpoints :: "string list"

definition APOLLO_GRAPH_REF_ENV :: string where "APOLLO_GRAPH_REF_ENV = ''APOLLO_GRAPH_REF''"

definition APOLLO_KEY_ENV :: string where "APOLLO_KEY_ENV = ''APOLLO_KEY''"

text \<open>A list of URLs, or one string that is split at commas.\<close>

datatype url_list_or_string = UrlList "string list" | UrlString string

definition apollo_uplink_endpoints ::
    "(string \<Rightarrow> (string, string) result) \<Rightarrow> url_list_or_string \<Rightarrow> (string, string list) result" where
  "apollo_uplink_endpoints parse_url v =
     (case v of
        UrlList urls \<Rightarrow> Inr urls
      | UrlString s \<Rightarrow>
          collect_results (\<lambda>u. map_error (\<lambda>e. ''Could not parse uplink endpoint URL: '' @ e) (parse_url (str_trim u)))
            (split_on CHR '','' s))"

definition graph_ref :: "GraphOSConfig \<Rightarrow> (ServerError, string) result" where
  "graph_ref g = (case gc_apollo_graph_ref g of Some r \<Rightarrow> Inr r | None \<Rightarrow> Inl (EnvironmentVariableError APOLLO_GRAPH_REF_ENV))"

definition graphos_key :: "GraphOSConfig \<Rightarrow> (ServerError, string) result" where
  "graphos_key g = (case gc_apollo_key g of Some k \<Rightarrow> Inr k | None \<Rightarrow> Inl (EnvironmentVariableError APOLLO_KEY_ENV))"

definition uplink_config :: "GraphOSConfig \<Rightarrow> (ServerError, UplinkConfig) result" where
  "uplink_config g =
     try_result (graphos_key g) (\<lambda>k. try_result (graph_ref g) (\<lambda>r. Inr
       \<lparr>uc_apollo_key = k, uc_apollo_graph_ref = r,
        uc_endpoints = (if gc_apollo_uplink_endpoints g = [] then None else Some (Fallback (gc_apollo_uplink_endpoints g))),
        uc_poll_interval = 10, uc_timeout = 30\<rparr>))"

definition platform_api_config :: "GraphOSConfig \<Rightarrow> (ServerError, PlatformApiConfig) result" where
  "platform_api_config g =
     try_result (graphos_key g) (\<lambda>k. Inr (new_platform_api_config k 30 30 (gc_apollo_registry_url g)))"

section \<open>The configuration and the server it gives\<close>

datatype IdOrDefault = DefaultId | CollectionId string

definition id_or_default :: "string \<Rightarrow> IdOrDefault" where
  "id_or_default v = (if ascii_lower v = ''default'' then DefaultId else CollectionId v)"

datatype OperationSourceConfig =
    CollectionSourceConfig IdOrDefault
  | Infer
  | Introspect
  | LocalOperations "string list"
  | ManifestFile string
  | UplinkOperations

datatype SchemaSourceConfig = LocalSchema string | UplinkSchema | GraphosSchema

record IntrospectionConfig =
  ic_execute :: bool
  ic_introspect :: bool
  ic_search :: bool
  ic_validate :: bool

definition any_enabled :: "IntrospectionConfig \<Rightarrow> bool" where
  "any_enabled c \<longleftrightarrow> ic_execute c \<or> ic_introspect c \<or> ic_search c \<or> ic_validate c"

text \<open>A transport: for HTTP, the setting of the token passthrough if authorization is configured.\<close>

datatype TransportConfig = Stdio | StreamableHttp "bool option"

record RuntimeConfig =
  rc_custom_scalars :: "string option"
  rc_graphos :: GraphOSConfig
  rc_headers :: header_map
  rc_introspection :: IntrospectionConfig
  rc_operations :: OperationSourceConfig
  rc_enable_explorer :: bool
  rc_schema :: SchemaSourceConfig
  rc_transport :: TransportConfig

definition schema_source_of :: "RuntimeConfig \<Rightarrow> (ServerError, SchemaSource) result" where
  "schema_source_of config =
     (case rc_schema config of
        LocalSchema path \<Rightarrow> Inr (SchemaFile path True)
      | UplinkSchema \<Rightarrow> try_result (uplink_config (rc_graphos config)) (\<lambda>u. Inr (Registry u))
      | GraphosSchema \<Rightarrow>
          try_result (graph_ref (rc_graphos config)) (\<lambda>r.
          try_result (platform_api_config (rc_graphos config)) (\<lambda>p. Inr (PlatformApiSchema r p))))"

definition inferred_source :: "RuntimeConfig \<Rightarrow> (ServerError, OperationSource) result" where
  "inferred_source config =
     (case graph_ref (rc_graphos config) of
        Inr r \<Rightarrow> try_result (platform_api_config (rc_graphos config)) (\<lambda>p. Inr (CollectionFrom (CollectionDefault r p)))
      | Inl _ \<Rightarrow> Inr NoSource)"

definition operation_source_of :: "RuntimeConfig \<Rightarrow> (ServerError, OperationSource) result" where
  "operation_source_of config =
     (case rc_operations config of
        CollectionSourceConfig DefaultId \<Rightarrow>
          try_result (graph_ref (rc_graphos config)) (\<lambda>r.
          try_result (platform_api_config (rc_graphos config)) (\<lambda>p. Inr (CollectionFrom (CollectionDefault r p))))
      | CollectionSourceConfig (CollectionId i) \<Rightarrow>
          try_result (platform_api_config (rc_graphos config)) (\<lambda>p. Inr (CollectionFrom (CollectionById i p)))
      | Introspect \<Rightarrow> Inr NoSource
      | ManifestFile path \<Rightarrow> Inr (Manifest (LocalHotReload [path]))
      | UplinkOperations \<Rightarrow> try_result (uplink_config (rc_graphos config)) (\<lambda>u. Inr (Manifest (UplinkManifest u)))
      | LocalOperations paths \<Rightarrow> if paths \<noteq> [] then Inr (Files paths) else inferred_source config
      | Infer \<Rightarrow> inferred_source config)"

record ServerSetup =
  sv_schema_source :: SchemaSource
  sv_operation_source :: OperationSource
  sv_explorer_graph_ref :: "string option"
  sv_disable_auth_token_passthrough :: bool
  sv_custom_scalars :: "(string \<times> json) list option"
  sv_headers :: header_map

text \<open>The headers of every upstream request, as the builder of the server completes them.\<close>

definition server_headers :: "header_map \<Rightarrow> header_map" where
  "server_headers headers = hm_insert ''content-type'' ''application/json'' headers"

definition build_server :: "scalar_parsers \<Rightarrow> RuntimeConfig \<Rightarrow> (ServerError, ServerSetup) result" where
  "build_server P config =
     try_result (schema_source_of config) (\<lambda>schema_source.
     try_result (operation_source_of config) (\<lambda>operation_source.
       if operation_source = NoSource \<and> \<not> any_enabled (rc_introspection config) then Inl NoOperationsError
       else try_result (if rc_enable_explorer config then try_result (graph_ref (rc_graphos config)) (\<lambda>r. Inr (Some r)) else Inr None)
         (\<lambda>explorer_graph_ref.
       try_result (case rc_custom_scalars config of
             None \<Rightarrow> Inr None
           | Some path \<Rightarrow> try_result (custom_scalar_map_from_file P path) (\<lambda>m. Inr (Some m)))
         (\<lambda>custom_scalars. Inr
           \<lparr>sv_schema_source = schema_source, sv_operation_source = operation_source,
            sv_explorer_graph_ref = explorer_graph_ref,
            sv_disable_auth_token_passthrough = (rc_transport config = StreamableHttp (Some True)),
            sv_custom_scalars = custom_scalars,
            sv_headers = server_headers (rc_headers config)\<rparr>))))"

text \<open>
  The loop of the program: the configuration is read again for every start; each round is what the
  configuration gives and how the server that it gives ended. None: the program still runs.
\<close>

fun main_loop ::
    "((ServerError, ServerSetup) result \<times> (ServerError, ShutdownReason) result) list \<Rightarrow> (ServerError, unit) result option" where
  "main_loop [] = None"
| "main_loop ((server, ended) # rounds) =
     (case server of
        Inl e \<Rightarrow> Some (Inl e)
      | Inr _ \<Rightarrow>
          (case ended of
             Inr ShutdownNormally \<Rightarrow> Some (Inr ())
           | Inr Restart \<Rightarrow> main_loop rounds
           | Inl e \<Rightarrow> Some (Inl e)))"

text \<open>Uplink is only ever asked with fall back endpoints, never in a round robin.\<close>

lemma uplink_config_fallback:
  "uplink_config g = Inr u \<Longrightarrow> case uc_endpoints u of None \<Rightarrow> True | Some e \<Rightarrow> (\<exists>urls. e = Fallback urls)"
  by (auto simp: uplink_config_def try_result_Inr_iff)

lemma uplink_config_ok:
  "uplink_config g = Inr u \<Longrightarrow> case uc_endpoints u of None \<Rightarrow> True | Some e \<Rightarrow> endpoints_ok e"
  by (auto simp: uplink_config_def try_result_Inr_iff)

lemma operation_source_uplink:
  "operation_source_of config = Inr (Manifest (UplinkManifest u)) \<Longrightarrow> uplink_config (rc_graphos config) = Inr u"
  by (auto simp: operation_source_of_def inferred_source_def try_result_Inr_iff
      split: OperationSourceConfig.splits IdOrDefault.splits if_splits sum.splits)

lemma schema_source_registry:
  "schema_source_of config = Inr (Registry u) \<Longrightarrow> uplink_config (rc_graphos config) = Inr u"
  by (auto simp: schema_source_of_def try_result_Inr_iff split: SchemaSourceConfig.splits)

text \<open>
  C40: A server that is built has a source of operations or an introspection tool, sends its upstream requests as
  JSON, has a graph for the explorer when that is enabled, and polls Uplink, for operations or the
  schema, only with endpoints that cannot make the round robin panic.
\<close>

theorem built_server_ok:
  assumes "build_server P config = Inr s"
  shows "(sv_operation_source s = NoSource \<longrightarrow> any_enabled (rc_introspection config)) \<and>
    hm_get (sv_headers s) ''content-type'' = Some ''application/json'' \<and>
    (rc_enable_explorer config \<longrightarrow> sv_explorer_graph_ref s = gc_apollo_graph_ref (rc_graphos config) \<and> sv_explorer_graph_ref s \<noteq> None) \<and>
    (\<forall>u. sv_operation_source s = Manifest (UplinkManifest u) \<or> sv_schema_source s = Registry u \<longrightarrow>
       (case uc_endpoints u of None \<Rightarrow> True | Some e \<Rightarrow> endpoints_ok e))"
proof -
  from assms obtain explorer_graph_ref where built: "schema_source_of config = Inr (sv_schema_source s)"
      "operation_source_of config = Inr (sv_operation_source s)"
      "\<not> (sv_operation_source s = NoSource \<and> \<not> any_enabled (rc_introspection config))"
      "(if rc_enable_explorer config then try_result (graph_ref (rc_graphos config)) (\<lambda>r. Inr (Some r)) else Inr None) =
         (Inr explorer_graph_ref :: (ServerError, string option) result)"
      "sv_explorer_graph_ref s = explorer_graph_ref"
      "sv_headers s = hm_insert ''content-type'' ''application/json'' (rc_headers config)"
    unfolding build_server_def server_headers_def try_result_Inr_iff by (auto split: if_splits simp: try_result_Inr_iff)
  have "rc_enable_explorer config \<longrightarrow>
      sv_explorer_graph_ref s = gc_apollo_graph_ref (rc_graphos config) \<and> sv_explorer_graph_ref s \<noteq> None"
    using built(4,5) by (auto simp: try_result_Inr_iff graph_ref_def split: option.splits dest: sym)
  moreover have "case uc_endpoints u of None \<Rightarrow> True | Some e \<Rightarrow> endpoints_ok e"
    if "sv_operation_source s = Manifest (UplinkManifest u) \<or> sv_schema_source s = Registry u" for u
  proof -
    have "uplink_config (rc_graphos config) = Inr u"
      using that built(1,2) operation_source_uplink[of config u] schema_source_registry[of config u] by metis
    then show ?thesis by (rule uplink_config_ok)
  qed
  moreover have "sv_operation_source s = NoSource \<longrightarrow> any_enabled (rc_introspection config)" using built(3) by blast
  moreover have "hm_get (sv_headers s) ''content-type'' = Some ''application/json''" using built(6) by simp
  ultimately show ?thesis by blast
qed

definition example_runtime :: RuntimeConfig where
  "example_runtime =
     \<lparr>rc_custom_scalars = None,
      rc_graphos = \<lparr>gc_apollo_key = Some ''k'', gc_apollo_graph_ref = Some ''g'', gc_apollo_registry_url = None,
        gc_apollo_uplink_endpoints = [''u'']\<rparr>,
      rc_headers = hm_empty,
      rc_introspection = \<lparr>ic_execute = True, ic_introspect = True, ic_search = False, ic_validate = False\<rparr>,
      rc_operations = UplinkOperations, rc_enable_explorer = True, rc_schema = UplinkSchema, rc_transport = Stdio\<rparr>"

definition example_setup :: ServerSetup where
  "example_setup =
     (let u = \<lparr>uc_apollo_key = ''k'', uc_apollo_graph_ref = ''g'', uc_endpoints = Some (Fallback [''u'']),
               uc_poll_interval = 10, uc_timeout = 30\<rparr>
      in \<lparr>sv_schema_source = Registry u, sv_operation_source = Manifest (UplinkManifest u),
          sv_explorer_graph_ref = Some ''g'', sv_disable_auth_token_passthrough = False, sv_custom_scalars = None,
          sv_headers = hm_insert ''content-type'' ''application/json'' hm_empty\<rparr>)"

lemma example_built: "build_server P example_runtime = Inr example_setup"
  by (simp add: build_server_def server_headers_def example_runtime_def example_setup_def Let_def schema_source_of_def operation_source_of_def
      uplink_config_def graphos_key_def graph_ref_def)

theorem built_server_ok_witness:
  "hm_get (sv_headers example_setup) ''content-type'' = Some ''application/json'' \<and>
   sv_explorer_graph_ref example_setup = Some ''g'' \<and>
   (\<exists>u. sv_operation_source example_setup = Manifest (UplinkManifest u) \<and>
      (case uc_endpoints u of None \<Rightarrow> True | Some e \<Rightarrow> endpoints_ok e))"
proof -
  have "\<exists>u. sv_operation_source example_setup = Manifest (UplinkManifest u)"
    by (simp add: example_setup_def Let_def)
  with built_server_ok[OF example_built] show ?thesis by (auto simp: example_runtime_def)
qed

text \<open>
  The inferred source does not look at introspection: with a graph the default collection is taken, and
  without a key the server is not built, although introspection is enabled.
\<close>

lemma infer_ignores_introspection:
  assumes "rc_operations config = Infer" "gc_apollo_graph_ref (rc_graphos config) = Some r" "any_enabled (rc_introspection config)"
  shows "gc_apollo_key (rc_graphos config) = Some k \<Longrightarrow>
      \<exists>p. operation_source_of config = Inr (CollectionFrom (CollectionDefault r p))"
    and "gc_apollo_key (rc_graphos config) = None \<Longrightarrow>
      operation_source_of config = Inl (EnvironmentVariableError APOLLO_KEY_ENV)"
  using assms by (auto simp: operation_source_of_def inferred_source_def graph_ref_def platform_api_config_def graphos_key_def)

section \<open>Errors of the configuration\<close>

text \<open>An error names its kind, its key path and the source it is attributed to.\<close>

record config_error =
  fe_kind :: string
  fe_path :: "string list"
  fe_source :: "string option"

definition fails_without_the_environment :: "(config_error, RuntimeConfig) result \<Rightarrow> config_error \<Rightarrow> bool" where
  "fails_without_the_environment file_only error =
     (case file_only of
        Inr _ \<Rightarrow> False
      | Inl without_env \<Rightarrow> fe_kind without_env = fe_kind error \<and> fe_path without_env = fe_path error)"

definition attribute_to_source :: "(config_error, RuntimeConfig) result \<Rightarrow> string \<Rightarrow> config_error \<Rightarrow> config_error" where
  "attribute_to_source file_only path error =
     (if fails_without_the_environment file_only error
      then error\<lparr>fe_source := Some (''config file '' @ [CHR 0x27] @ path @ [CHR 0x27])\<rparr> else error)"

text \<open>
  \<open>extract\<close> merges a file with the environment, \<open>extract_file\<close> reads the file alone; \<open>plain\<close> is an error of
  a given text.
\<close>

definition read_config ::
    "expansion \<Rightarrow> (string \<Rightarrow> (string, string) result) \<Rightarrow> (EnvExpansionError \<Rightarrow> string) \<Rightarrow> (string \<Rightarrow> config_error) \<Rightarrow>
     (string \<Rightarrow> (config_error, RuntimeConfig) result) \<Rightarrow> (string \<Rightarrow> (config_error, RuntimeConfig) result) \<Rightarrow> string \<Rightarrow>
     (config_error, RuntimeConfig) result" where
  "read_config X read_file to_text plain extract extract_file yaml_path =
     try_result (map_error (\<lambda>e. plain (''failed to read config file '' @ [CHR 0x27] @ yaml_path @ [CHR 0x27] @ '': '' @ e)) (read_file yaml_path))
       (\<lambda>content.
     try_result (map_error (\<lambda>e. plain (to_text e)) (expand_yaml X content)) (\<lambda>expanded_content.
       map_error (attribute_to_source (extract_file expanded_content) yaml_path) (extract expanded_content)))"

section \<open>Server information and exported attributes\<close>

record ServerInfoConfig =
  si_name :: "string option"
  si_version :: "string option"
  si_title :: "string option"
  si_website_url :: "string option"
  si_description :: "string option"
  si_icons :: "string list"

definition default_to :: "'a option \<Rightarrow> 'a \<Rightarrow> 'a" where
  "default_to x d = (case x of None \<Rightarrow> d | Some a \<Rightarrow> a)"

definition server_name :: "ServerInfoConfig \<Rightarrow> string" where
  "server_name c = default_to (si_name c) ''Apollo MCP Server''"

definition server_version :: "string \<Rightarrow> ServerInfoConfig \<Rightarrow> string" where
  "server_version package_version c = default_to (si_version c) package_version"

definition server_title :: "ServerInfoConfig \<Rightarrow> string option" where
  "server_title c = (case si_title c of None \<Rightarrow> Some ''Apollo MCP Server'' | Some t \<Rightarrow> Some t)"

definition server_website_url :: "ServerInfoConfig \<Rightarrow> string option" where
  "server_website_url c =
     (case si_website_url c of None \<Rightarrow> Some ''https://www.apollographql.com/docs/apollo-mcp-server'' | Some u \<Rightarrow> Some u)"

definition server_description :: "ServerInfoConfig \<Rightarrow> string option" where
  "server_description c =
     (case si_description c of
        None \<Rightarrow> Some ''A Model Context Protocol (MCP) server for exposing GraphQL APIs as tools.''
      | Some d \<Rightarrow> Some d)"

definition server_icons :: "ServerInfoConfig \<Rightarrow> string list option" where
  "server_icons c = (if si_icons c = [] then None else Some (si_icons c))"

text \<open>The attributes of the spans of a batch, by key.\<close>

definition export_spans :: "string set \<Rightarrow> (string \<times> 'v) list list \<Rightarrow> (string \<times> 'v) list list" where
  "export_spans omitted batch =
     map (filter (\<lambda>kv. \<not> (starts_with ''apollo.'' (fst kv) \<and> fst kv \<in> omitted))) batch"

lemma omitted_not_exported:
  "span \<in> set (export_spans omitted batch) \<Longrightarrow> (k, v) \<in> set span \<Longrightarrow> k \<in> omitted \<Longrightarrow> \<not> starts_with ''apollo.'' k"
  by (auto simp: export_spans_def)

end
