(* ===== verification/Spec2Isabelle.thy ===== *)
theory Spec2Isabelle
  imports Auth_Middleware Request_Headers Health Minify Tree_Shake_Stack Tool_Texts Tool_Results Tool_List_Changes Introspection_Tools App_Manifests Runtime_Config
begin

text \<open>
  A verification library of the Apollo MCP server (\<open>src/crates\<close>): a server of the Model Context
  Protocol whose tools are GraphQL operations. Operation files, a GraphQL schema and a
  configuration go in; the server compiles every operation into a tool with a description, an
  input schema and, on demand, an output schema, answers the listing and calling of tools over
  HTTP behind OAuth, sends the operation to a GraphQL endpoint and filters what the model may see.
  All paths below are under \<open>src/crates/apollo-mcp-server/src\<close> unless they name another crate.

  The parts and their theories:

  \<^item> \<open>Mcp_Prelude\<close>, \<open>Web_Types\<close>, \<open>Graphql_Types\<close>: results as sums, iterator adapters, JSON values of
    \<open>serde_json\<close>, header maps, and the types of \<open>apollo_compiler\<close> that the program reads.
  \<^item> \<open>Scope_Requirements\<close> (\<open>scope_requirements.rs\<close>), \<open>Jwks_Resolver\<close>
    (\<open>auth/networked_key_resolver.rs\<close>), \<open>Token_Validator\<close> (\<open>auth/valid_token.rs\<close>) and
    \<open>Auth_Middleware\<close> (\<open>auth.rs\<close>, \<open>auth/www_authenticate.rs\<close>, \<open>auth/protected_resource.rs\<close>): who may
    call what. The resolver's cache is a state with a step per lock acquisition, so that callers
    interleave; the validator uses it through an interface; the middleware is one function per
    handler, the early returns included. Proved: the fetch rate, what the cache may hold, that every
    key answered is one that the discovered server published under its id and with its own
    algorithm, that an accepted token decodes under such a key of a configured server, and exactly
    when a request passes with and without a token.
  \<^item> \<open>Request_Headers\<close> (\<open>headers.rs\<close>, \<open>host_validation.rs\<close>, \<open>cors.rs\<close>) and \<open>Health\<close> (\<open>health.rs\<close>): the
    headers of an upstream request, host and origin policies, and the readiness ticker as a
    machine over requests, ticks and drops, with \<open>AtomicUsize\<close> counters as 64-bit words.
  \<^item> \<open>Tree_Shake\<close>, \<open>Tree_Shake_Calls\<close>, \<open>Tree_Shake_Correct\<close>, \<open>Tree_Shake_Stack\<close>
    (\<open>schema_tree_shake.rs\<close>): the marking of types, fields and directives that an operation needs.
    Proved: what is retained is what is reachable within the depth limit, every selected field
    survives, and how much stack is enough.
  \<^item> \<open>Minify\<close> (\<open>introspection/minify.rs\<close>): the compact rendering, with a round trip.
  \<^item> \<open>Operations\<close> (\<open>operations/operation.rs\<close> and its companions \<open>raw_operation.rs\<close>,
    \<open>mutation_mode.rs\<close>, \<open>annotation_overrides.rs\<close>, \<open>executable_descriptions.rs\<close>), \<open>Private_Fields\<close>
    (\<open>operations/private_fields.rs\<close>) and \<open>Execution\<close> (\<open>graphql.rs\<close>, \<open>operations/execution.rs\<close>,
    \<open>introspection/tools/execute.rs\<close>): choosing the operation of a document, mutation gate, fixed
    variables, the request and the split of the response. The gate and the fixed variables are
    stated of the request that is sent, and the filter of private fields place by place: what is
    hidden is gone and the rest is unchanged. The execution relies on its executables
    through the locale \<open>executable\<close>, interpreted for predefined operations and the ad hoc tool.
  \<^item> \<open>Json_Schema\<close>, \<open>Schema_Walker\<close>, \<open>Input_Values\<close>, \<open>Tool_Texts\<close> (\<open>operations/schema_walker.rs\<close>,
    \<open>schema_walker/type.rs\<close>, \<open>schema_walker/name.rs\<close>, \<open>operations/operation.rs\<close>): a validator of JSON
    schemas states what the generated ones mean; the input schema of a tool accepts exactly the
    values of its variables, and an emitted default is valid under the schema it annotates.
  \<^item> \<open>Output_Schema\<close>, \<open>Output_Values\<close>, \<open>Output_Sound\<close>, \<open>Output_Tool\<close>, \<open>Tool_Results\<close>
    (\<open>schema_walker/output.rs\<close>): the generator of output schemas, the responses of an operation
    defined without it, the contract of the generator as the locale \<open>output_builder\<close> (each depth
    of the recursion is a builder for the next), and the theorem that composes compilation,
    execution and private fields: a tool's structured content is valid under its declared schema.
  \<^item> \<open>Schema_Paths\<close>, \<open>Schema_Index\<close>, \<open>Schema_Search\<close> (crate \<open>apollo-schema-index\<close>): paths through a
    schema, the documents of the index with the references between types, and the search loop. The
    references are acyclic, their strings read back, and every search returns paths from a root to
    a match within the limits; the loop is a \<open>partial_function\<close> into options, and that it returns
    is part of the theorem. The text analyzer, the ranking engine, \<open>heck\<close> and \<open>f32\<close> arithmetic are parameters.
  \<^item> \<open>Introspection_Tools\<close> (\<open>introspection/tools.rs\<close>, \<open>introspection/tools/introspect.rs\<close>,
    \<open>search.rs\<close>, \<open>validate.rs\<close>, \<open>description.rs\<close>, and their part of \<open>server/states/starting.rs\<close>): the
    three built-in tools over the index and the tree shaker, and what each of them shows.
  \<^item> \<open>Apps\<close>, \<open>App_Manifests\<close> (\<open>apps/app.rs\<close>, \<open>apps/tool.rs\<close>, \<open>apps/resource.rs\<close>, \<open>apps/manifest.rs\<close>),
    \<open>Prompts\<close> (\<open>prompts/prompt_file.rs\<close>): loading apps with their extra inputs, app targets, prefetched
    operations, prompt files and substitution. The merged input schema of an app tool is exact.
  \<^item> \<open>Collection_Poller\<close>, \<open>Uplink\<close>, \<open>Schema_Sources\<close> (crate \<open>apollo-mcp-registry\<close>) and
    \<open>Operation_Sources\<close> (\<open>operations/operation_source.rs\<close>, \<open>operations/raw_operation.rs\<close>): where schema and
    operations come from. A polling task is a fold of a turn over rounds, and a round is what the
    requests of that turn are answered; its stream is the list of what was sent. The two queries for
    collections share the locale \<open>collection_query\<close>. Proved: what was published last is the
    collection, the schema or the files as last seen, and which errors end a stream.
  \<^item> \<open>Runtime_Config\<close> (\<open>env_expansion.rs\<close>, \<open>custom_scalar_map.rs\<close>, \<open>server_info.rs\<close>, \<open>runtime.rs\<close>,
    \<open>runtime/graphos.rs\<close>, \<open>runtime/operation_source.rs\<close>, \<open>main.rs\<close>): from the text of a configuration
    to a server with its sources, and the restart loop.
  \<^item> \<open>Server_States\<close> (\<open>server/states.rs\<close>, \<open>server/states/*.rs\<close>) and \<open>Tool_Dispatch\<close>
    (\<open>server/states/running.rs\<close>, \<open>caching.rs\<close>): the server as a state machine over its events, whose
    invariant keeps the catalog consistent with schema and options, and the requests a running
    server answers: which calls get an answer, the headers of every request that a call sends, and
    that nothing shown depends on what the filter of private fields hides.

  \<^item> \<open>Tool_List_Changes\<close> (\<open>server/states/tool_list_changes.rs\<close>, \<open>listen\<close> of \<open>running.rs\<close>): the signal of a
    changed catalog and the tasks that deliver it, which refine a model with one pending flag; a
    published change is announced if the client keeps reading.

  How the state and the data correspond to the code. A struct is a record with the same fields, an
  enum a datatype with the same constructors; \<open>Result\<close> is a sum with the error on the left, panics
  are the value \<open>None\<close> of an outer option. JSON numbers are integers (\<open>JNumber\<close>) or the text of
  another number (\<open>JFloat\<close>); maps that keep their order are association lists, others partial
  functions; strings are lists of the characters U+0000 to U+00FF, so byte offsets and character
  positions agree. Shared mutable state (\<open>RwLock\<close>, \<open>Mutex\<close>, atomics) is a record changed by the steps
  that hold the lock.

  Bounds and fuel. \<open>collect_private_fields\<close> is given the number of definitions of the document,
  which is enough, because a fragment is entered once. The walk over input
  types is given the number of types of the schema, which is enough, because a type in progress is
  in the cache (\<open>walk_returns\<close>). The tree shaker and the generator of output schemas recurse as
  deep as the document and the schema make them: their fuel is the stack, \<open>None\<close> is its overflow,
  and theorems of \<open>Tree_Shake_Stack\<close> bound what is needed and show a document that no stack is
  enough for.

  Parameters. Code outside the repository is an argument: the parser, serialiser and schema
  conversion of \<open>apollo_compiler\<close>, \<open>jsonwebtoken\<close>, \<open>reqwest\<close>, URL and regular expression parsing,
  serde's YAML and its derived decoders, \<open>shellexpand\<close>, file system and environment, the clock, and the
  Rhai scripts.

  Not modelled. The crate \<open>apollo-mcp-rhai\<close> registers functions and types with an embedded script
  engine and calls into it: what a script does is not in the repository, so a hook is a parameter where
  a request passes it. Logging, metrics and tracing (\<open>runtime/telemetry.rs\<close>, \<open>runtime/logging.rs\<close>,
  \<open>meter.rs\<close>, \<open>server/states/telemetry.rs\<close>, \<open>telemetry_attributes.rs\<close>) only observe; of them the filter of
  exported attributes is modelled. The configuration structs whose decoders serde derives
  (\<open>runtime/config.rs\<close>, \<open>runtime/overrides.rs\<close>, \<open>runtime/endpoint.rs\<close>) have no code of their own, and merging
  the sources of a configuration is figment's. The session glue of \<open>rmcp\<close>, the start of
  the transports with TLS and sockets, and the watchers that end a stdio process are input and output.
\<close>

end
